(* ===== verification/Prelude.thy ===== *)
theory Prelude
  imports Complex_Main "HOL-Library.Word"
begin

text \<open>
  Shared vocabulary of the development: the C types the sources use, the named collections the
  component proofs draw on, and the generic list and map facts more than one component needs.

  Conventions. A C \<open>int\<close> whose range cannot be left is an \<open>int\<close> (the components prove
  the bounds that matter); an unsigned quantity whose wrap-around matters is a \<open>w word\<close>. Status
  codes keep their C values: 0 for success, a negative number for failure. A result of type
  \<open>'a option\<close> at the outermost level is \<open>None\<close> exactly where the C code has undefined
  behaviour (a read outside a buffer, a dereference of NULL).
\<close>

type_synonym byte = "8 word"
type_synonym u16 = "16 word"
type_synonym u32 = "32 word"
type_synonym addr = nat

named_theorems op_defs "definitions of the operations of a component"
named_theorems keeps "preservation of a component's invariant by its operations"
named_theorems frames "fields an operation does not write"

subsection \<open>Lists\<close>

lemma foldl_invariant:
  assumes "P s" and "\<And>s x. x \<in> set xs \<Longrightarrow> P s \<Longrightarrow> P (f s x)"
  shows "P (foldl f s xs)"
  using assms by (induction xs arbitrary: s) auto

lemma take_append_exact [simp]: "length xs = n \<Longrightarrow> take n (xs @ ys) = xs"
  by simp

lemma drop_append_exact [simp]: "length xs = n \<Longrightarrow> drop n (xs @ ys) = ys"
  by simp

lemma sum_list_le_bound:
  assumes "\<And>x. x \<in> set xs \<Longrightarrow> f x \<le> (b::int)"
  shows "sum_list (map f xs) \<le> b * int (length xs)"
  using assms
proof (induction xs)
  case Nil
  then show ?case by simp
next
  case (Cons x xs)
  then have "f x \<le> b" and "sum_list (map f xs) \<le> b * int (length xs)" by auto
  then show ?case by (simp add: algebra_simps)
qed

text \<open>Reading the first \<open>n\<close> bytes of a block that is at least \<open>n\<close> bytes long.\<close>

definition read_mem :: "'a list \<Rightarrow> nat \<Rightarrow> 'a list option" where
  "read_mem buf n = (if n \<le> length buf then Some (take n buf) else None)"

lemma read_mem_exact [simp]: "read_mem xs (length xs) = Some xs"
  by (simp add: read_mem_def)

lemma read_mem_Some: "read_mem buf n = Some ys \<Longrightarrow> length ys = n \<and> ys = take n buf"
  by (auto simp: read_mem_def split: if_splits)

end
