(* ===== verification/Checksum.thy ===== *)
theory Checksum
  imports Prelude
begin

unbundle bit_operations_syntax

text \<open>
  The two integrity checks of the framework: the table-driven CRC-16 of \<open>util/crc16.c\<close>, which
  guards every file written by \<open>util/storage.c\<close> and the critical-data block of
  \<open>board/crit-data.c\<close>, and the XOR checksum \<open>tools_checksum_xor\<close> of \<open>util/tools.c\<close>,
  which guards every packet that travels through a pipe. The table lookup is proved equal to the
  bitwise CRC with polynomial \<open>0x1021\<close>, and both checks are proved to detect the corruptions
  they are there for.
\<close>

subsection \<open>CRC-16\<close>

definition crc16tab :: "u16 list" where
  "crc16tab = [
   0x0000, 0x1021, 0x2042, 0x3063, 0x4084, 0x50a5, 0x60c6, 0x70e7,
   0x8108, 0x9129, 0xa14a, 0xb16b, 0xc18c, 0xd1ad, 0xe1ce, 0xf1ef,
   0x1231, 0x0210, 0x3273, 0x2252, 0x52b5, 0x4294, 0x72f7, 0x62d6,
   0x9339, 0x8318, 0xb37b, 0xa35a, 0xd3bd, 0xc39c, 0xf3ff, 0xe3de,
   0x2462, 0x3443, 0x0420, 0x1401, 0x64e6, 0x74c7, 0x44a4, 0x5485,
   0xa56a, 0xb54b, 0x8528, 0x9509, 0xe5ee, 0xf5cf, 0xc5ac, 0xd58d,
   0x3653, 0x2672, 0x1611, 0x0630, 0x76d7, 0x66f6, 0x5695, 0x46b4,
   0xb75b, 0xa77a, 0x9719, 0x8738, 0xf7df, 0xe7fe, 0xd79d, 0xc7bc,
   0x48c4, 0x58e5, 0x6886, 0x78a7, 0x0840, 0x1861, 0x2802, 0x3823,
   0xc9cc, 0xd9ed, 0xe98e, 0xf9af, 0x8948, 0x9969, 0xa90a, 0xb92b,
   0x5af5, 0x4ad4, 0x7ab7, 0x6a96, 0x1a71, 0x0a50, 0x3a33, 0x2a12,
   0xdbfd, 0xcbdc, 0xfbbf, 0xeb9e, 0x9b79, 0x8b58, 0xbb3b, 0xab1a,
   0x6ca6, 0x7c87, 0x4ce4, 0x5cc5, 0x2c22, 0x3c03, 0x0c60, 0x1c41,
   0xedae, 0xfd8f, 0xcdec, 0xddcd, 0xad2a, 0xbd0b, 0x8d68, 0x9d49,
   0x7e97, 0x6eb6, 0x5ed5, 0x4ef4, 0x3e13, 0x2e32, 0x1e51, 0x0e70,
   0xff9f, 0xefbe, 0xdfdd, 0xcffc, 0xbf1b, 0xaf3a, 0x9f59, 0x8f78,
   0x9188, 0x81a9, 0xb1ca, 0xa1eb, 0xd10c, 0xc12d, 0xf14e, 0xe16f,
   0x1080, 0x00a1, 0x30c2, 0x20e3, 0x5004, 0x4025, 0x7046, 0x6067,
   0x83b9, 0x9398, 0xa3fb, 0xb3da, 0xc33d, 0xd31c, 0xe37f, 0xf35e,
   0x02b1, 0x1290, 0x22f3, 0x32d2, 0x4235, 0x5214, 0x6277, 0x7256,
   0xb5ea, 0xa5cb, 0x95a8, 0x8589, 0xf56e, 0xe54f, 0xd52c, 0xc50d,
   0x34e2, 0x24c3, 0x14a0, 0x0481, 0x7466, 0x6447, 0x5424, 0x4405,
   0xa7db, 0xb7fa, 0x8799, 0x97b8, 0xe75f, 0xf77e, 0xc71d, 0xd73c,
   0x26d3, 0x36f2, 0x0691, 0x16b0, 0x6657, 0x7676, 0x4615, 0x5634,
   0xd94c, 0xc96d, 0xf90e, 0xe92f, 0x99c8, 0x89e9, 0xb98a, 0xa9ab,
   0x5844, 0x4865, 0x7806, 0x6827, 0x18c0, 0x08e1, 0x3882, 0x28a3,
   0xcb7d, 0xdb5c, 0xeb3f, 0xfb1e, 0x8bf9, 0x9bd8, 0xabbb, 0xbb9a,
   0x4a75, 0x5a54, 0x6a37, 0x7a16, 0x0af1, 0x1ad0, 0x2ab3, 0x3a92,
   0xfd2e, 0xed0f, 0xdd6c, 0xcd4d, 0xbdaa, 0xad8b, 0x9de8, 0x8dc9,
   0x7c26, 0x6c07, 0x5c64, 0x4c45, 0x3ca2, 0x2c83, 0x1ce0, 0x0cc1,
   0xef1f, 0xff3e, 0xcf5d, 0xdf7c, 0xaf9b, 0xbfba, 0x8fd9, 0x9ff8,
   0x6e17, 0x7e36, 0x4e55, 0x5e74, 0x2e93, 0x3eb2, 0x0ed1, 0x1ef0]"

definition crc16_step :: "u16 \<Rightarrow> byte \<Rightarrow> u16" where
  "crc16_step crc b =
     push_bit 8 crc XOR crc16tab ! unat ((drop_bit 8 crc XOR ucast b) AND 0x00FF)"

definition crc16_get :: "byte list \<Rightarrow> nat \<Rightarrow> u16 option" where
  "crc16_get buf len = map_option (foldl crc16_step 0) (read_mem buf len)"

abbreviation crc16 :: "byte list \<Rightarrow> u16" where
  "crc16 bs \<equiv> foldl crc16_step 0 bs"

lemma crc16_get_exact [simp]: "crc16_get bs (length bs) = Some (crc16 bs)"
  by (simp add: crc16_get_def)

text \<open>The reference: one shift register step per bit, polynomial \<open>x^16 + x^12 + x^5 + 1\<close>.\<close>

definition crc_bit :: "u16 \<Rightarrow> u16" where
  "crc_bit c = push_bit 1 c XOR (if bit c 15 then 0x1021 else 0)"

definition crc_byte :: "u16 \<Rightarrow> byte \<Rightarrow> u16" where
  "crc_byte c b = (crc_bit ^^ 8) (c XOR push_bit 8 (ucast b))"

lemma crc_bit_xor: "crc_bit (a XOR b) = crc_bit a XOR crc_bit b"
  by (cases "bit a 15"; cases "bit b 15")
    (simp_all add: crc_bit_def bit_xor_iff xor.assoc xor.left_commute xor.commute)

lemma crc_bits_xor: "(crc_bit ^^ n) (a XOR b) = (crc_bit ^^ n) a XOR (crc_bit ^^ n) b"
  by (induction n) (simp_all add: crc_bit_xor)

lemma crc_bits_0 [simp]: "(crc_bit ^^ n) 0 = 0"
  by (induction n) (simp_all add: crc_bit_def)

lemma crc16tab_length [simp]: "length crc16tab = 256"
  by (simp add: crc16tab_def)


lemma crc16tab_double:
  "concat (map (\<lambda>t. [crc_bit t, crc_bit t XOR 0x1021]) (take 128 crc16tab)) = crc16tab"
  by code_simp

lemma crc_bit_shift: "\<not> bit c 15 \<Longrightarrow> crc_bit c = push_bit 1 c"
  unfolding crc_bit_def by (simp only: if_False xor.right_neutral)

lemma mask8_16: "(0xFF :: u16) = mask 8"
  by (simp add: mask_eq_exp_minus_1)

lemma crc_bit_low:
  assumes "n \<le> 8"
  shows "(crc_bit ^^ n) (c AND mask 8) = push_bit n (c AND mask 8)"
  using assms
proof (induction n)
  case 0
  then show ?case by (simp only: funpow_0 push_bit_0_id id_apply)
next
  case (Suc n)
  then have *: "(crc_bit ^^ n) (c AND mask 8) = push_bit n (c AND mask 8)" by linarith
  have "\<not> bit (mask 8 :: u16) (15 - n)"
    using Suc.prems by (simp only: bit_mask_iff) linarith
  then have "\<not> bit (push_bit n (c AND mask 8)) 15"
    by (simp only: bit_push_bit_iff bit_and_iff de_Morgan_conj simp_thms)
  from crc_bit_shift [OF this] * show ?case
    by (simp only: funpow.simps o_apply push_bit_push_bit plus_1_eq_Suc)
qed

lemma crc16tab_halves:
  assumes "j < 128"
  shows "crc16tab ! (2 * j) = crc_bit (crc16tab ! j)"
    and "crc16tab ! (2 * j + 1) = crc_bit (crc16tab ! j) XOR 0x1021"
proof -
  have len: "length (take 128 crc16tab) = 128" by simp
  have nth: "concat (map (\<lambda>t. [f t, g t]) xs) ! (2 * i) = f (xs ! i) \<and>
      concat (map (\<lambda>t. [f t, g t]) xs) ! (2 * i + 1) = g (xs ! i)"
    if "i < length xs" for f g :: "u16 \<Rightarrow> u16" and xs i
    using that
  proof (induction xs arbitrary: i)
    case (Cons x xs)
    then show ?case by (cases i) auto
  qed simp
  show "crc16tab ! (2 * j) = crc_bit (crc16tab ! j)"
    and "crc16tab ! (2 * j + 1) = crc_bit (crc16tab ! j) XOR 0x1021"
    using nth [of j "take 128 crc16tab" crc_bit "\<lambda>t. crc_bit t XOR 0x1021"] assms
    by (simp_all only: len crc16tab_double nth_take simp_thms)
qed

lemma word_of_nat_Suc_double: "(word_of_nat (2 * j + 1) :: u16) = word_of_nat (2 * j) XOR 1"
proof -
  have "2 * j + 1 = (2 * j) XOR 1" by (subst xor_one_eq) simp
  then show ?thesis by (simp only: of_nat_xor_eq of_nat_1)
qed

lemma crc16tab_nth:
  "i < 256 \<Longrightarrow> crc16tab ! i = (crc_bit ^^ 8) (push_bit 8 (word_of_nat i))"
proof (induction i rule: less_induct)
  case (less i)
  define j where "j = i div 2"
  have j: "j < 128" using less.prems by (simp add: j_def)
  let ?w = "push_bit 8 (word_of_nat j) :: u16"
  have "\<not> bit j 7" using j by (simp add: bit_iff_odd)
  then have top: "\<not> bit ?w 15" by (simp add: bit_push_bit_iff bit_of_nat_iff)
  have IH: "crc16tab ! j = (crc_bit ^^ 8) ?w"
  proof (cases "i = 0")
    case True
    then show ?thesis by (simp add: j_def crc16tab_def crc_bit_def)
  next
    case False
    then show ?thesis using less.IH [of j] j by (simp add: j_def)
  qed
  have "push_bit 8 (word_of_nat (2 * j)) = push_bit 1 ?w"
    by (simp add: push_bit_eq_mult)
  then have "push_bit 8 (word_of_nat (2 * j)) = crc_bit ?w"
    by (simp only: crc_bit_shift [OF top])
  then have dbl: "(crc_bit ^^ 8) (push_bit 8 (word_of_nat (2 * j))) = crc_bit (crc16tab ! j)"
    by (simp only: IH funpow_swap1)
  have one: "(crc_bit ^^ 8) (push_bit 8 1) = 0x1021" by code_simp
  show ?case
  proof (cases "even i")
    case True
    then have i: "i = 2 * j" by (simp add: j_def)
    show ?thesis unfolding i by (simp only: crc16tab_halves(1) [OF j] dbl)
  next
    case False
    then have i: "i = 2 * j + 1" by (simp add: j_def)
    show ?thesis unfolding i
      by (simp only: crc16tab_halves(2) [OF j] word_of_nat_Suc_double push_bit_xor crc_bits_xor dbl one)
  qed
qed

text \<open>The table-driven step is the bitwise step, so the whole checksum is the bitwise CRC.\<close>

lemma crc16_step_bitwise: "crc16_step c b = crc_byte c b"
proof -
  let ?h = "(drop_bit 8 c XOR ucast b) AND mask 8 :: u16"
  have lt: "unat ?h < 256"
    using and_mask_less' [of 8 "drop_bit 8 c XOR ucast b"] by (simp add: word_less_nat_alt)
  have wh: "word_of_nat (unat ?h) = ?h" by simp
  have low: "push_bit 8 c = push_bit 8 (c AND mask 8)"
    by (rule bit_word_eqI) (auto simp: bit_simps)
  have split: "c XOR push_bit 8 (ucast b) = (c AND mask 8) XOR push_bit 8 ?h"
    by (rule bit_word_eqI) (auto simp: bit_simps)
  show ?thesis
    unfolding crc16_step_def crc_byte_def mask8_16 split crc_bits_xor crc16tab_nth [OF lt] wh
    by (subst crc_bit_low) (simp_all only: low le_refl)
qed

lemma crc16_step_eq: "crc16_step = crc_byte"
  by (intro ext) (rule crc16_step_bitwise)

lemma crc16_bitwise: "crc16 bs = foldl crc_byte 0 bs"
  by (simp only: crc16_step_eq)

subsection \<open>What the CRC detects\<close>

lemma word_xor_eq_0: "(a XOR b = 0) = (a = (b :: 'a::len word))"
proof
  assume z: "a XOR b = 0"
  have "a = (a XOR b) XOR b" by (simp only: xor.assoc xor_self_eq xor.right_neutral)
  with z show "a = b" by simp
qed simp

lemma crc_bit_eq_0: "crc_bit c = 0 \<Longrightarrow> c = 0"
proof -
  assume z: "crc_bit c = 0"
  have "bit (crc_bit c) 0 = bit c 15"
    by (simp only: crc_bit_def bit_xor_iff bit_push_bit_iff) simp
  with z have top: "\<not> bit c 15" by simp
  with z have "push_bit 1 c = 0" by (simp add: crc_bit_shift)
  then have *: "\<not> bit (push_bit 1 c) n" for n by simp
  have "n < 15 \<Longrightarrow> \<not> bit c n" for n
    using * [of "Suc n"] unfolding bit_push_bit_iff by simp
  with top show "c = 0"
    by (intro bit_word_eqI) (use \<open>\<And>n. n < 15 \<Longrightarrow> \<not> bit c n\<close> in \<open>auto simp: less_Suc_eq numeral_eq_Suc\<close>)
qed

lemma crc_bits_eq_0: "(crc_bit ^^ n) c = 0 \<Longrightarrow> c = 0"
  by (induction n) (auto dest: crc_bit_eq_0)

lemma crc_byte_xor: "crc_byte (a XOR b) (x XOR y) = crc_byte a x XOR crc_byte b y"
  unfolding crc_byte_def
  by (simp only: crc_bits_xor [symmetric] unsigned_xor_eq push_bit_xor)
    (simp only: ac_simps)

lemma crc_byte_inj: "crc_byte c b = crc_byte c' b \<Longrightarrow> c = c'"
proof -
  assume "crc_byte c b = crc_byte c' b"
  then have "crc_byte (c XOR c') (b XOR b) = 0"
    by (simp only: crc_byte_xor xor_self_eq [of "crc_byte c' b"])
  then have "c XOR c' = 0"
    by (auto simp: crc_byte_def dest: crc_bits_eq_0)
  then show "c = c'" by (simp add: word_xor_eq_0)
qed

lemma crc_bytes_inj: "foldl crc_byte c bs = foldl crc_byte c' bs \<Longrightarrow> c = c'"
  by (induction bs arbitrary: c c') (auto dest: crc_byte_inj)

lemma ucast_low: "(crc_bit ^^ 8) (ucast (y::byte)) = push_bit 8 (ucast y :: u16)"
proof -
  have "(ucast y :: u16) = ucast y AND mask 8"
    by (rule bit_word_eqI) (auto simp: bit_simps dest: bit_imp_le_length)
  then show ?thesis using crc_bit_low [of 8 "ucast y"] by simp
qed

lemma crc_two_bytes:
  "crc_byte (crc_byte 0 x) y = (crc_bit ^^ 16) (push_bit 8 (ucast x) XOR ucast y)"
proof -
  have "(crc_bit ^^ 16) w = (crc_bit ^^ 8) ((crc_bit ^^ 8) w)" for w
    by (simp only: funpow_add [of 8 8, simplified] o_apply)
  then show ?thesis
    by (simp only: crc_byte_def xor.left_neutral crc_bits_xor ucast_low)
qed

lemma burst_pattern_0:
  assumes "push_bit 8 (ucast (x::byte)) XOR ucast (y::byte) = (0::u16)"
  shows "x = 0" and "y = 0"
proof -
  have *: "bit (push_bit 8 (ucast x) XOR ucast y :: u16) n = False" for n
    by (simp only: assms bit_0_eq bot_apply bot_bool_def)
  show "y = 0"
  proof (rule bit_word_eqI)
    fix n assume "n < LENGTH(8)"
    then show "bit y n = bit 0 n" using * [of n] by (auto simp: bit_simps)
  qed
  show "x = 0"
  proof (rule bit_word_eqI)
    fix n assume n: "n < LENGTH(8)"
    then have "\<not> bit y (n + 8)" by (auto dest: bit_imp_le_length)
    with n show "bit x n = bit 0 n" using * [of "n + 8"] by (auto simp: bit_simps)
  qed
qed

lemma crc16_burst:
  assumes "(x, y) \<noteq> (x', y')"
  shows "crc16 (pre @ [x, y] @ post) \<noteq> crc16 (pre @ [x', y'] @ post)"
proof
  let ?c = "foldl crc_byte 0 pre"
  assume "crc16 (pre @ [x, y] @ post) = crc16 (pre @ [x', y'] @ post)"
  then have "crc_byte (crc_byte ?c x) y = crc_byte (crc_byte ?c x') y'"
    by (auto simp: crc16_step_eq dest: crc_bytes_inj)
  then have "crc_byte (crc_byte (?c XOR ?c) (x XOR x')) (y XOR y') = 0"
    unfolding crc_byte_xor by simp
  then have "(crc_bit ^^ 16) (push_bit 8 (ucast (x XOR x')) XOR ucast (y XOR y')) = 0"
    by (simp only: xor_self_eq crc_two_bytes)
  from burst_pattern_0 [OF crc_bits_eq_0 [OF this]]
  have "x XOR x' = 0" and "y XOR y' = 0" .
  with assms show False by (simp add: word_xor_eq_0)
qed

lemma crc16_byte_error:
  assumes "x \<noteq> x'"
  shows "crc16 (pre @ x # post) \<noteq> crc16 (pre @ x' # post)"
proof (cases post)
  case (Cons y ys)
  with assms show ?thesis using crc16_burst [of x y x' y pre ys] by simp
next
  case Nil
  show ?thesis
  proof (cases pre rule: rev_cases)
    case (snoc zs z)
    with assms Nil show ?thesis using crc16_burst [of z x z x' zs "[]"] by simp
  next
    case Nil2: Nil
    have "crc_byte 0 x \<noteq> crc_byte 0 x'"
    proof
      assume "crc_byte 0 x = crc_byte 0 x'"
      then have "crc16 ([] @ [0, x] @ []) = crc16 ([] @ [0, x'] @ [])"
        by (simp add: crc16_step_eq crc_byte_def)
      with crc16_burst [of 0 x 0 x' "[]" "[]"] assms show False by simp
    qed
    with Nil Nil2 show ?thesis by (simp add: crc16_step_eq)
  qed
qed

subsection \<open>The XOR checksum\<close>

definition tools_checksum_xor :: "byte list \<Rightarrow> nat \<Rightarrow> byte option" where
  "tools_checksum_xor buff data_len =
     (case buff of
        [] \<Rightarrow> None
      | b # bs \<Rightarrow> map_option (foldl (XOR) b) (read_mem bs (data_len - 1)))"

lemma checksum_xor_defined:
  "bs \<noteq> [] \<Longrightarrow> tools_checksum_xor bs (length bs) = Some (foldl (XOR) 0 bs)"
  by (cases bs) (simp_all add: tools_checksum_xor_def)

lemma checksum_xor_total:
  assumes "block \<noteq> []" and "n \<le> length block"
  shows "\<exists>c. tools_checksum_xor block n = Some c"
proof (cases block)
  case (Cons b bs)
  with assms(2) have "n - 1 \<le> length bs" by simp
  then show ?thesis using Cons by (simp add: tools_checksum_xor_def read_mem_def)
qed (use assms(1) in simp)

lemma foldl_xor: "foldl (XOR) (c :: byte) bs = c XOR foldl (XOR) 0 bs"
proof (induction bs arbitrary: c)
  case (Cons b bs)
  from Cons [of "c XOR b"] Cons [of "b"] show ?case by (simp add: xor.assoc)
qed simp

lemma checksum_xor_byte_error:
  assumes "x \<noteq> x'"
  shows "foldl (XOR) 0 (pre @ (x::byte) # post) \<noteq> foldl (XOR) 0 (pre @ x' # post)"
proof
  let ?c = "foldl (XOR) 0 pre" and ?d = "foldl (XOR) 0 post"
  assume "foldl (XOR) 0 (pre @ x # post) = foldl (XOR) 0 (pre @ x' # post)"
  then have "(?c XOR x) XOR ?d = (?c XOR x') XOR ?d"
    using foldl_xor [of "?c XOR x" post] foldl_xor [of "?c XOR x'" post] by simp
  then have "((?c XOR x) XOR ?d) XOR ((?c XOR x') XOR ?d) = 0" by (simp only: xor_self_eq)
  then have "x XOR x' = 0" by (simp add: ac_simps xor.left_commute)
  with assms show False by (simp add: word_xor_eq_0)
qed

subsection \<open>Properties\<close>

text \<open>
  C30: the table-driven checksum is the bitwise CRC with polynomial \<open>0x1021\<close> and initial value 0,
  for every buffer and length (both are undefined beyond the end of the buffer).
\<close>

theorem crc16_get_is_bitwise_crc:
  "crc16_get buf len = map_option (foldl crc_byte 0) (read_mem buf len)"
  by (simp only: crc16_get_def crc16_step_eq)

end
