(* ===== verification/Posix.thy ===== *)
theory Posix
  imports Checksum
begin

text \<open>
  The part of the operating system the sources rely on for files: a file system that maps paths to
  contents, and a script of outcomes. Every system call that can fail consumes one outcome of the
  script; when the script is empty every call succeeds. A theorem over an arbitrary state therefore
  covers every pattern of failing, interrupted and short calls; a theorem over a state whose script
  is empty describes the fault-free device.

  \<open>Partial n\<close> is a read or write that transfers at most \<open>n + 1\<close> bytes (a regular file
  never returns 0 for a non-empty transfer). \<open>Interrupted\<close> is the error EINTR.
\<close>

datatype outcome = Done | Fails | Interrupted | Partial nat

record os =
  files :: "string \<Rightarrow> byte list option"
  script :: "outcome list"

definition healthy :: "os \<Rightarrow> bool" where
  "healthy s \<longleftrightarrow> script s = []"

definition syscall :: "os \<Rightarrow> outcome \<times> os" where
  "syscall s = (case script s of [] \<Rightarrow> (Done, s) | x # xs \<Rightarrow> (x, s\<lparr>script := xs\<rparr>))"

lemma syscall_healthy [simp]: "healthy s \<Longrightarrow> syscall s = (Done, s)"
  by (simp add: healthy_def syscall_def)

lemma syscall_files: "syscall s = (r, s') \<Longrightarrow> files s' = files s"
  by (auto simp: syscall_def split: list.splits)

lemma syscall_script: "syscall s = (r, s') \<Longrightarrow> length (script s') \<le> length (script s)"
  by (auto simp: syscall_def split: list.splits)

lemma syscall_script_less:
  "syscall s = (r, s') \<Longrightarrow> r \<noteq> Done \<Longrightarrow> length (script s') < length (script s)"
  by (auto simp: syscall_def split: list.splits)

lemma healthy_files_update [simp]: "healthy (s\<lparr>files := f\<rparr>) = healthy s"
  by (simp add: healthy_def)

text \<open>\<open>access(path, F_OK) == 0\<close>, \<open>open\<close> for reading and for writing with truncation.\<close>

definition os_access :: "string \<Rightarrow> os \<Rightarrow> bool \<times> os" where
  "os_access path s = (let (r, s1) = syscall s in (files s path \<noteq> None \<and> r = Done, s1))"

definition os_open_rd :: "string \<Rightarrow> os \<Rightarrow> byte list option \<times> os" where
  "os_open_rd path s = (let (r, s1) = syscall s in ((if r = Done then files s path else None), s1))"

definition os_open_wr :: "string \<Rightarrow> bool \<Rightarrow> os \<Rightarrow> bool \<times> os" where
  "os_open_wr path trunc s =
     (let (r, s1) = syscall s
      in if r \<noteq> Done then (False, s1)
         else (True, s1\<lparr>files := (files s1)(path \<mapsto>
                (case files s1 path of None \<Rightarrow> [] | Some c \<Rightarrow> if trunc then [] else c))\<rparr>))"

text \<open>What a \<open>read\<close> of at most \<open>n\<close> bytes delivers when \<open>rest\<close> is left in the file.\<close>

definition os_read :: "byte list \<Rightarrow> nat \<Rightarrow> os \<Rightarrow> byte list option \<times> os" where
  "os_read rest n s =
     (let (r, s1) = syscall s
      in case r of
           Done \<Rightarrow> (Some (take n rest), s1)
         | Partial k \<Rightarrow> (Some (take (min n (Suc k)) rest), s1)
         | _ \<Rightarrow> (None, s1))"

definition overlay :: "nat \<Rightarrow> byte list \<Rightarrow> byte list \<Rightarrow> byte list" where
  "overlay off bs c = take off c @ bs @ drop (off + length bs) c"

text \<open>\<open>write\<close> of a block at an offset: the bytes that were not transferred, or the error.\<close>

datatype wresult = Written nat | WIntr | WError

definition os_write :: "string \<Rightarrow> nat \<Rightarrow> byte list \<Rightarrow> os \<Rightarrow> wresult \<times> os" where
  "os_write path off bs s =
     (let (r, s1) = syscall s;
          put = (\<lambda>n. s1\<lparr>files := (files s1)(path \<mapsto>
                   overlay off (take n bs) (case files s1 path of None \<Rightarrow> [] | Some c \<Rightarrow> c))\<rparr>)
      in case r of
           Done \<Rightarrow> (Written (length bs), put (length bs))
         | Partial k \<Rightarrow> (Written (min (length bs) (Suc k)), put (Suc k))
         | Interrupted \<Rightarrow> (WIntr, s1)
         | Fails \<Rightarrow> (WError, s1))"

lemma overlay_end [simp]: "off = length c \<Longrightarrow> overlay off bs c = c @ bs"
  by (simp add: overlay_def)

lemma overlay_0_nil [simp]: "overlay 0 bs [] = bs"
  by (simp add: overlay_def)

lemma os_access_healthy [simp]: "healthy s \<Longrightarrow> os_access p s = (files s p \<noteq> None, s)"
  by (simp add: os_access_def)

lemma os_open_rd_healthy [simp]: "healthy s \<Longrightarrow> os_open_rd p s = (files s p, s)"
  by (simp add: os_open_rd_def)

lemma os_open_wr_trunc [simp]:
  "healthy s \<Longrightarrow> os_open_wr p True s = (True, s\<lparr>files := (files s)(p \<mapsto> [])\<rparr>)"
  by (auto simp: os_open_wr_def split: option.splits)

lemma os_read_healthy [simp]: "healthy s \<Longrightarrow> os_read rest n s = (Some (take n rest), s)"
  by (simp add: os_read_def)

lemma os_write_healthy [simp]:
  "healthy s \<Longrightarrow> os_write p off bs s =
     (Written (length bs), s\<lparr>files := (files s)(p \<mapsto>
        overlay off bs (case files s p of None \<Rightarrow> [] | Some c \<Rightarrow> c))\<rparr>)"
  by (simp add: os_write_def Let_def)

lemma os_write_script:
  "os_write p off bs s = (r, s') \<Longrightarrow> length (script s') \<le> length (script s)"
  by (auto simp: os_write_def Let_def split: prod.splits outcome.splits dest: syscall_script)

lemma os_write_script_less:
  assumes "os_write p off bs s = (r, s')" and "r \<noteq> Written (length bs)"
  shows "length (script s') < length (script s)"
  using assms
  by (auto simp: os_write_def Let_def split: prod.splits outcome.splits dest: syscall_script_less)

lemma os_write_Written: "os_write p off bs s = (Written n, s') \<Longrightarrow> n \<le> length bs"
  by (auto simp: os_write_def Let_def split: prod.splits outcome.splits)

lemma os_read_script: "os_read rest n s = (r, s') \<Longrightarrow> length (script s') \<le> length (script s)"
  by (auto simp: os_read_def split: prod.splits outcome.splits dest: syscall_script)


subsection \<open>Text\<close>

text \<open>The bytes of a string literal, and the \<open>%d\<close> conversion.\<close>

definition str :: "string \<Rightarrow> byte list" where
  "str cs = map of_char cs"

fun dec_nat :: "nat \<Rightarrow> byte list" where
  "dec_nat n = (if n < 10 then [of_nat (n + 48)] else dec_nat (n div 10) @ [of_nat (n mod 10 + 48)])"

declare dec_nat.simps [simp del]

definition dec :: "int \<Rightarrow> byte list" where
  "dec i = (if i < 0 then str ''-'' @ dec_nat (nat (- i)) else dec_nat (nat i))"

text \<open>\<open>snprintf (buf, n, ...)\<close> keeps at most \<open>n - 1\<close> characters.\<close>

definition snprintf :: "nat \<Rightarrow> byte list \<Rightarrow> byte list" where
  "snprintf n t = take (n - 1) t"

definition pad0 :: "nat \<Rightarrow> byte list \<Rightarrow> byte list" where
  "pad0 n t = take n t @ replicate (n - length t) 0"

lemma length_pad0 [simp]: "length (pad0 n t) = n"
  by (simp add: pad0_def)

end
