(* ===== verification/Storage.thy ===== *)
theory Storage
  imports Posix
begin

text \<open>
  \<open>util/storage.c\<close>: a file of \<open>length\<close> bytes is stored with its CRC-16 in the two bytes
  after it (host byte order, little-endian on the targets), the previous version is kept in
  \<open>file.bak\<close>, and a load falls back to that copy when the file is missing or its CRC does not
  match. \<open>tools_cp\<close> of \<open>util/tools.c\<close> does the copying.

  The path buffers of 128 bytes are not modelled: the paths the firmware uses are constants far
  shorter than that.
\<close>

subsection \<open>Copying a file\<close>

text \<open>The inner loop: write a block, resuming after short writes and EINTR.\<close>

function write_all :: "string \<Rightarrow> nat \<Rightarrow> byte list \<Rightarrow> os \<Rightarrow> bool \<times> nat \<times> os" where
  "write_all path off bs s =
     (case os_write path off bs s of
        (Written n, s1) \<Rightarrow>
          if n < length bs then write_all path (off + n) (drop n bs) s1 else (True, off + n, s1)
      | (WIntr, s1) \<Rightarrow> write_all path off bs s1
      | (WError, s1) \<Rightarrow> (False, off, s1))"
  by pat_completeness auto
termination
  by (relation "measure (\<lambda>(path, off, bs, s). length (script s))")
    (auto dest!: os_write_script_less [OF sym])

declare write_all.simps [simp del]

lemma write_all_script:
  "write_all path off bs s = (r, off', s') \<Longrightarrow> length (script s') \<le> length (script s)"
proof (induction path off bs s arbitrary: r off' s' rule: write_all.induct)
  case (1 path off bs s)
  then show ?case
    by (subst (asm) (3) write_all.simps)
      (fastforce split: prod.splits wresult.splits if_splits dest: os_write_script)
qed

text \<open>The outer loop over blocks of 4096 bytes.\<close>

lemma take_Cons_nonempty: "x # xs = take n ys \<Longrightarrow> 0 < length ys"
  by (cases ys) auto

definition cp_block :: nat where "cp_block = 4096"

function cp_loop :: "byte list \<Rightarrow> string \<Rightarrow> nat \<Rightarrow> os \<Rightarrow> bool \<times> os" where
  "cp_loop rest to off s =
     (case os_read rest cp_block s of
        (None, s1) \<Rightarrow> (False, s1)
      | (Some [], s1) \<Rightarrow> (True, s1)
      | (Some (b # bs), s1) \<Rightarrow>
          (case write_all to off (b # bs) s1 of
             (True, off', s2) \<Rightarrow> cp_loop (drop (Suc (length bs)) rest) to off' s2
           | (False, off', s2) \<Rightarrow> (False, s2)))"
  by pat_completeness auto
termination
  by (relation "measure (\<lambda>(rest, to, off, s). length rest)")
    (auto simp: os_read_def split: prod.splits outcome.splits dest: take_Cons_nonempty)

declare cp_loop.simps [simp del]

definition tools_cp :: "string \<Rightarrow> string \<Rightarrow> bool \<Rightarrow> os \<Rightarrow> int \<times> os" where
  "tools_cp from to overwrite s =
     (case os_open_rd from s of
        (None, s1) \<Rightarrow> (-1, s1)
      | (Some content, s1) \<Rightarrow>
          (case os_open_wr to overwrite s1 of
             (False, s2) \<Rightarrow> (-1, s2)
           | (True, s2) \<Rightarrow>
               (case cp_loop content to 0 s2 of
                  (False, s3) \<Rightarrow> (-1, s3)
                | (True, s3) \<Rightarrow>
                    (let (r, s4) = syscall s3
                     in if r = Done then (0, s4) else (-1, s4)))))"

subsection \<open>Existence, backup and recovery\<close>

definition ERR_FILE_NOT_EXIST :: int where "ERR_FILE_NOT_EXIST = 1"
definition ERR_FILE_OPEN :: int where "ERR_FILE_OPEN = 2"
definition ERR_MEM_ALLOC :: int where "ERR_MEM_ALLOC = 3"
definition ERR_FILE_READ :: int where "ERR_FILE_READ = 4"
definition ERR_DATA_CRC :: int where "ERR_DATA_CRC = 5"

lemmas storage_errors = ERR_FILE_NOT_EXIST_def ERR_FILE_OPEN_def ERR_MEM_ALLOC_def
  ERR_FILE_READ_def ERR_DATA_CRC_def

fun isExistFile :: "string \<Rightarrow> nat \<Rightarrow> os \<Rightarrow> int \<times> os" where
  "isExistFile file 0 s = (-1, s)"
| "isExistFile file (Suc timeout) s =
     (let (found, s1) = os_access file s
      in if found then (0, s1) else isExistFile file timeout s1)"

definition bak :: "string \<Rightarrow> string" where
  "bak file = file @ ''.bak''"

definition file_recovery :: "string \<Rightarrow> os \<Rightarrow> int \<times> os" where
  "file_recovery file s =
     (let (r, s1) = tools_cp (bak file) file True s in if r < 0 then (- ERR_FILE_NOT_EXIST, s1) else (0, s1))"

definition file_backup :: "string \<Rightarrow> os \<Rightarrow> os" where
  "file_backup file s =
     (let (r, s1) = isExistFile file 1 s
      in if 0 \<le> r then snd (tools_cp file (bak file) True s1) else s1)"

subsection \<open>Loading\<close>

text \<open>The 16-bit checksum as it lies in memory.\<close>

definition le16 :: "u16 \<Rightarrow> byte list" where
  "le16 w = [ucast w, ucast (drop_bit 8 w)]"

definition of_le16 :: "byte list \<Rightarrow> u16" where
  "of_le16 bs = ucast (bs ! 0) OR push_bit 8 (ucast (bs ! 1))"

lemma of_le16 [simp]: "of_le16 (le16 w) = w"
  unfolding of_le16_def le16_def
  by (rule bit_word_eqI) (auto simp: bit_simps nth_Cons')

lemma le16_length [simp]: "length (le16 w) = 2"
  by (simp add: le16_def)

text \<open>
  The retry loop \<open>while (retry++ < 3)\<close>: it yields the value of \<open>retry\<close> after the loop (the
  number of attempts on success, 4 when all three fail), the last error and the buffer.
\<close>

function load_loop :: "string \<Rightarrow> nat \<Rightarrow> nat \<Rightarrow> int \<Rightarrow> byte list \<Rightarrow> os \<Rightarrow> nat \<times> int \<times> byte list \<times> os"
  where
  "load_loop file len retry err pbuf s =
     (if retry < 3 then
        (case os_open_rd file s of
           (None, s1) \<Rightarrow> load_loop file len (Suc retry) (- ERR_FILE_OPEN) pbuf s1
         | (Some content, s1) \<Rightarrow>
             (case os_read content (len + 2) s1 of
                (None, s2) \<Rightarrow> load_loop file len (Suc retry) (- ERR_FILE_READ) pbuf s2
              | (Some got, s2) \<Rightarrow>
                  if length got = len + 2 then (Suc retry, err, got, s2)
                  else load_loop file len (Suc retry) (- ERR_FILE_READ) got s2))
      else (Suc retry, err, pbuf, s))"
  by pat_completeness auto
termination
  by (relation "measure (\<lambda>(file, len, retry, err, pbuf, s). 3 - retry)") auto

declare load_loop.simps [simp del]

definition load_file :: "string \<Rightarrow> nat \<Rightarrow> os \<Rightarrow> int \<times> byte list \<times> os" where
  "load_file file len s =
     (let (m, s1) = syscall s; zeros = replicate len 0
      in if m \<noteq> Done then (- ERR_MEM_ALLOC, zeros, s1)
         else
           (case load_loop file len 0 0 [] s1 of
              (retry, err, pbuf, s2) \<Rightarrow>
                if 3 \<le> retry then (err, zeros, s2)
                else if crc16_get pbuf len \<noteq> Some (of_le16 (drop len pbuf))
                then (- ERR_DATA_CRC, zeros, s2)
                else (0, take len pbuf, s2)))"

definition storage_load_file :: "string \<Rightarrow> byte list \<Rightarrow> os \<Rightarrow> int \<times> byte list \<times> os" where
  "storage_load_file file pdata s =
     (let len = length pdata; (e, s1) = isExistFile file 3 s;
          (rec, s2) = (if e < 0 then file_recovery file s1 else (0, s1))
      in if rec \<noteq> 0 then (- ERR_FILE_NOT_EXIST, pdata, s2)
         else
           (case load_file file len s2 of
              (r, d, s3) \<Rightarrow>
                if r = - ERR_DATA_CRC then
                  (let (r2, s4) = file_recovery file s3
                   in if r2 = 0 then load_file file len s4 else (r, d, s4))
                else (r, d, s3)))"

subsection \<open>Saving\<close>

text \<open>One unchecked \<open>write\<close>: whatever it transfers, the code goes on.\<close>

definition write_once :: "string \<Rightarrow> nat \<Rightarrow> byte list \<Rightarrow> os \<Rightarrow> nat \<times> os" where
  "write_once path off bs s =
     (case os_write path off bs s of (Written n, s1) \<Rightarrow> (off + n, s1) | (_, s1) \<Rightarrow> (off, s1))"

definition storage_save_file :: "string \<Rightarrow> byte list \<Rightarrow> os \<Rightarrow> int \<times> os" where
  "storage_save_file file pdata s =
     (let s1 = file_backup file s
      in case os_open_wr file True s1 of
           (False, s2) \<Rightarrow> (- ERR_FILE_OPEN, s2)
         | (True, s2) \<Rightarrow>
             (let (off, s3) = write_once file 0 pdata s2;
                  (off', s4) = write_once file off (le16 (crc16 pdata)) s3
              in (0, s4)))"


subsection \<open>The fault-free device\<close>

lemma write_all_healthy:
  assumes "healthy s"
  shows "write_all p off bs s =
     (True, off + length bs, s\<lparr>files := (files s)(p \<mapsto>
        overlay off bs (case files s p of None \<Rightarrow> [] | Some c \<Rightarrow> c))\<rparr>)"
  using assms by (subst write_all.simps) simp

lemma cp_loop_nil_healthy: "healthy s \<Longrightarrow> cp_loop [] to off s = (True, s)"
  by (subst cp_loop.simps) simp

lemma cp_loop_step_healthy:
  assumes "healthy s" and "rest \<noteq> []" and "files s to = Some c" and "off = length c"
  shows "cp_loop rest to off s =
    cp_loop (drop cp_block rest) to (off + length (take cp_block rest))
      (s\<lparr>files := (files s)(to \<mapsto> c @ take cp_block rest)\<rparr>)"
proof -
  obtain b bs where tk: "take cp_block rest = b # bs"
    using assms(2) by (cases rest) (simp_all add: cp_block_def)
  then have "drop (Suc (length bs)) rest = drop cp_block rest"
    by (metis append_take_drop_id length_Cons append_eq_conv_conj)
  with tk assms show ?thesis
    by (subst cp_loop.simps) (simp add: write_all_healthy)
qed

lemma cp_loop_healthy:
  "healthy s \<Longrightarrow> files s to = Some c \<Longrightarrow> off = length c \<Longrightarrow>
     cp_loop rest to off s = (True, s\<lparr>files := (files s)(to \<mapsto> c @ rest)\<rparr>)"
proof (induction "length rest" arbitrary: rest off c s rule: less_induct)
  case less
  show ?case
  proof (cases "rest = []")
    case True
    with less.prems have "s\<lparr>files := (files s)(to \<mapsto> c @ rest)\<rparr> = s"
      by (simp add: fun_upd_idem)
    with True less.prems show ?thesis by (simp add: cp_loop_nil_healthy)
  next
    case False
    then have short: "length (drop cp_block rest) < length rest" by (simp add: cp_block_def)
    let ?c = "c @ take cp_block rest" and ?n = "off + length (take cp_block rest)"
    let ?s = "s\<lparr>files := (files s)(to \<mapsto> ?c)\<rparr>"
    have "cp_loop (drop cp_block rest) to ?n ?s =
        (True, ?s\<lparr>files := (files ?s)(to \<mapsto> ?c @ drop cp_block rest)\<rparr>)"
      by (rule less.hyps [OF short]) (use less.prems in simp_all)
    then show ?thesis
      unfolding cp_loop_step_healthy [OF less.prems(1) False less.prems(2,3)] by simp
  qed
qed

lemma tools_cp_healthy:
  assumes "healthy s" and "files s from = Some c"
  shows "tools_cp from to True s = (0, s\<lparr>files := (files s)(to \<mapsto> c)\<rparr>)"
  using assms by (simp add: tools_cp_def cp_loop_healthy [where c = "[]"])

lemma tools_cp_missing:
  assumes "healthy s" and "files s from = None"
  shows "tools_cp from to ov s = (-1, s)"
  using assms by (simp add: tools_cp_def)

lemma isExistFile_healthy [simp]:
  "healthy s \<Longrightarrow> isExistFile f n s = ((if files s f \<noteq> None \<and> 0 < n then 0 else -1), s)"
  by (induction n) auto

text \<open>
  A stored image: the data followed by its checksum. Extra bytes after the checksum do not matter
  to a load.
\<close>

definition image :: "byte list \<Rightarrow> byte list" where
  "image d = d @ le16 (crc16 d)"

definition valid_image :: "nat \<Rightarrow> byte list \<Rightarrow> bool" where
  "valid_image n c \<longleftrightarrow> n + 2 \<le> length c \<and> crc16 (take n c) = of_le16 (take 2 (drop n c))"

lemma image_length [simp]: "length (image d) = length d + 2"
  by (simp add: image_def)

lemma valid_image [simp]: "valid_image (length d) (image d)"
  by (simp add: valid_image_def image_def)

lemma load_loop_healthy:
  assumes "healthy s" and "files s f = Some c" and "len + 2 \<le> length c" and "retry < 3"
  shows "load_loop f len retry err pbuf s = (Suc retry, err, take (len + 2) c, s)"
  using assms by (subst load_loop.simps) simp

lemma load_file_healthy:
  assumes "healthy s" and "files s f = Some c" and "len + 2 \<le> length c"
  shows "load_file f len s =
    (if valid_image len c then (0, take len c, s) else (- ERR_DATA_CRC, replicate len 0, s))"
proof -
  have "drop len (take (len + 2) c) = take 2 (drop len c)"
    by (simp add: drop_take)
  moreover have "min len (len + 2) = len" by simp
  ultimately show ?thesis
    using assms
    by (simp add: load_file_def load_loop_healthy crc16_get_def read_mem_def valid_image_def
        min.absorb1)
qed

lemma file_recovery_healthy:
  assumes "healthy s"
  shows "file_recovery f s =
    (case files s (bak f) of
       None \<Rightarrow> (- ERR_FILE_NOT_EXIST, s) | Some c \<Rightarrow> (0, s\<lparr>files := (files s)(f \<mapsto> c)\<rparr>))"
  using assms
  by (auto simp: file_recovery_def tools_cp_healthy tools_cp_missing split: option.splits)

lemma file_backup_healthy:
  assumes "healthy s"
  shows "file_backup f s =
    (case files s f of None \<Rightarrow> s | Some c \<Rightarrow> s\<lparr>files := (files s)(bak f \<mapsto> c)\<rparr>)"
  using assms by (auto simp: file_backup_def tools_cp_healthy split: option.splits)

lemma bak_neq [simp]: "bak f \<noteq> f" "f \<noteq> bak f"
  by (simp_all add: bak_def)

text \<open>
  Saving on a fault-free device: the new image is in the file, the old content in the backup, and
  nothing else changes.
\<close>

lemma storage_save_healthy:
  assumes "healthy s"
  shows "storage_save_file f d s =
    (0, s\<lparr>files := (case files s f of None \<Rightarrow> files s | Some c \<Rightarrow> (files s)(bak f \<mapsto> c))
            (f \<mapsto> image d)\<rparr>)"
  using assms
  by (auto simp: storage_save_file_def file_backup_healthy write_once_def image_def
      split: option.splits)

lemma storage_load_healthy:
  assumes "healthy s" and "files s f = Some c" and "length p + 2 \<le> length c"
    and "valid_image (length p) c"
  shows "storage_load_file f p s = (0, take (length p) c, s)"
  using assms by (simp add: storage_load_file_def load_file_healthy storage_errors)


lemma load_file_short:
  assumes "healthy s" and "files s f = Some c" and "length c < len + 2"
  shows "load_file f len s = (- ERR_FILE_READ, replicate len 0, s)"
proof -
  have loop: "\<exists>n b. load_loop f len retry err pbuf s = (n, e, b, s) \<and> 3 \<le> n"
    if "retry \<le> 3" "e = (if retry < 3 then - ERR_FILE_READ else err)" for retry err pbuf e
    using that
  proof (induction "3 - retry" arbitrary: retry err pbuf e)
    case 0
    then show ?case by (subst load_loop.simps) simp
  next
    case (Suc n)
    then have "n = 3 - Suc retry" and "retry < 3" by simp_all
    with Suc.hyps(1) [of "Suc retry" "- ERR_FILE_READ" "- ERR_FILE_READ" "take (len + 2) c"]
      Suc.prems assms show ?case
      by (subst load_loop.simps) (auto split: if_splits)
  qed
  from loop [of 0 "- ERR_FILE_READ" 0 "[]"] obtain n b
    where "load_loop f len 0 0 [] s = (n, - ERR_FILE_READ, b, s)" and "3 \<le> n" by auto
  with assms show ?thesis by (simp add: load_file_def)
qed

text \<open>
  A damaged or missing file is restored from its backup by the load itself.
\<close>

lemma storage_load_recovers:
  assumes "healthy s" and "files s (bak f) = Some b" and "valid_image (length p) b"
    and "\<And>c. files s f = Some c \<Longrightarrow> length p + 2 \<le> length c \<and> \<not> valid_image (length p) c"
  shows "storage_load_file f p s =
    (0, take (length p) b, s\<lparr>files := (files s)(f \<mapsto> b)\<rparr>)"
proof -
  have len: "length p + 2 \<le> length b" using assms(3) by (simp add: valid_image_def)
  show ?thesis
  proof (cases "files s f")
    case None
    with assms len show ?thesis
      by (simp add: storage_load_file_def file_recovery_healthy load_file_healthy storage_errors)
  next
    case (Some c)
    with assms(4) have "length p + 2 \<le> length c" and "\<not> valid_image (length p) c" by auto
    with Some assms(1-3) len show ?thesis
      by (simp add: storage_load_file_def file_recovery_healthy load_file_healthy storage_errors)
  qed
qed

lemma storage_load_absent:
  assumes "healthy s" and "files s f = None" and "files s (bak f) = None"
  shows "storage_load_file f p s = (- ERR_FILE_NOT_EXIST, p, s)"
  using assms by (simp add: storage_load_file_def file_recovery_healthy storage_errors)

subsection \<open>The interface to the components that keep state in files\<close>

text \<open>
  What a client may rely on when no system call fails: a save is remembered until the next save of
  the same file, and it does not disturb the other files. \<open>unrelated f g\<close> says that saving
  \<open>f\<close> does not write \<open>g\<close> (\<open>g\<close> is neither \<open>f\<close> nor its backup).
\<close>

locale persistent_store =
  fixes save :: "'k \<Rightarrow> 'd list \<Rightarrow> 's \<Rightarrow> int \<times> 's"
    and load :: "'k \<Rightarrow> 'd list \<Rightarrow> 's \<Rightarrow> int \<times> 'd list \<times> 's"
    and ok :: "'s \<Rightarrow> bool"
    and stored :: "'k \<Rightarrow> 'd list \<Rightarrow> 's \<Rightarrow> bool"
    and unrelated :: "'k \<Rightarrow> 'k \<Rightarrow> bool"
  assumes save_law: "ok s \<Longrightarrow> save f d s = (r, s') \<Longrightarrow> r = 0 \<and> ok s' \<and> stored f d s'"
    and load_law: "ok s \<Longrightarrow> stored f d s \<Longrightarrow> length p = length d \<Longrightarrow> load f p s = (0, d, s)"
    and frame_law: "ok s \<Longrightarrow> save f d s = (r, s') \<Longrightarrow> unrelated f g \<Longrightarrow> stored g e s \<Longrightarrow> stored g e s'"
begin

lemma save_load:
  assumes "ok s" and "length p = length d"
  shows "load f p (snd (save f d s)) = (0, d, snd (save f d s))"
  using save_law [OF assms(1), of f d] load_law [OF _ _ assms(2), of _ f]
  by (cases "save f d s") auto

lemma saves_keep:
  assumes "ok s" and "stored g e s" and "\<And>f d. (f, d) \<in> set ops \<Longrightarrow> unrelated f g"
  shows "ok (foldl (\<lambda>s (f, d). snd (save f d s)) s ops) \<and>
         stored g e (foldl (\<lambda>s (f, d). snd (save f d s)) s ops)"
proof (rule foldl_invariant)
  fix s x assume x: "x \<in> set ops" and inv: "ok s \<and> stored g e s"
  obtain f d where fd: "x = (f, d)" by (cases x)
  with assms(3) x have un: "unrelated f g" by simp
  obtain r s' where sv: "save f d s = (r, s')" by (cases "save f d s")
  with save_law [OF _ sv] frame_law [OF _ sv un] inv fd
  show "ok (case x of (f, d) \<Rightarrow> snd (save f d s)) \<and>
      stored g e (case x of (f, d) \<Rightarrow> snd (save f d s))" by simp
qed (use assms in simp)

text \<open>
  The last save of a file wins, whatever is saved to unrelated files afterwards.
\<close>

lemma last_save_loads:
  assumes "ok s" and "length p = length d" and "\<And>f' d'. (f', d') \<in> set ops \<Longrightarrow> unrelated f' f"
  shows "fst (snd (load f p (foldl (\<lambda>s (f, d). snd (save f d s)) (snd (save f d s)) ops))) = d"
    and "fst (load f p (foldl (\<lambda>s (f, d). snd (save f d s)) (snd (save f d s)) ops)) = 0"
proof -
  obtain r s' where sv: "save f d s = (r, s')" by (cases "save f d s")
  define t where "t = foldl (\<lambda>s (f, d). snd (save f d s)) s' ops"
  from save_law [OF assms(1) sv] have "ok s'" and "stored f d s'" by auto
  then have "ok t \<and> stored f d t"
    unfolding t_def by (rule saves_keep) (rule assms(3))
  then have "load f p t = (0, d, t)"
    using load_law [OF _ _ assms(2)] by blast
  then show "fst (snd (load f p (foldl (\<lambda>s (f, d). snd (save f d s)) (snd (save f d s)) ops))) = d"
    and "fst (load f p (foldl (\<lambda>s (f, d). snd (save f d s)) (snd (save f d s)) ops)) = 0"
    by (simp_all add: sv t_def)
qed

end

definition stored :: "string \<Rightarrow> byte list \<Rightarrow> os \<Rightarrow> bool" where
  "stored f d s \<longleftrightarrow> files s f = Some (image d)"

definition unrelated :: "string \<Rightarrow> string \<Rightarrow> bool" where
  "unrelated f g \<longleftrightarrow> g \<noteq> f \<and> g \<noteq> bak f"

interpretation store: persistent_store storage_save_file storage_load_file healthy stored unrelated
proof unfold_locales
  fix s f d r s'
  assume ok: "healthy s" and sv: "storage_save_file f d s = (r, s')"
  then show "r = 0 \<and> healthy s' \<and> stored f d s'"
    by (auto simp: storage_save_healthy stored_def)
  show "stored g e s'" if "unrelated f g" "stored g e s" for g e
    using that ok sv
    by (auto simp: storage_save_healthy stored_def unrelated_def split: option.splits)
next
  fix s f d and p :: "byte list"
  assume "healthy s" and "stored f d s" and "length p = length d"
  then show "storage_load_file f p s = (0, d, s)"
    using storage_load_healthy [of s f "image d" p]
    by (simp add: stored_def image_def valid_image_def)
qed


subsection \<open>Copying under failures\<close>

lemma write_all_copies:
  "write_all p off bs s = (True, off', s') \<Longrightarrow> files s p = Some c \<Longrightarrow> off = length c \<Longrightarrow>
     off' = off + length bs \<and> files s' = (files s)(p \<mapsto> c @ bs)"
proof (induction p off bs s arbitrary: c rule: write_all.induct)
  case (1 p off bs s)
  obtain r s1 where w: "os_write p off bs s = (r, s1)" by (cases "os_write p off bs s")
  show ?case
  proof (cases r)
    case (Written n)
    have tk: "take (min (length bs) k) bs = take k bs" for k by (simp add: min_def)
    from Written w "1.prems"(2,3)
    have f1: "files s1 = (files s)(p \<mapsto> c @ take n bs)" and n: "n \<le> length bs"
      by (auto simp: os_write_def Let_def tk split: prod.splits outcome.splits
          dest: syscall_files)
    show ?thesis
    proof (cases "n < length bs")
      case True
      with "1.prems"(1) w Written have "write_all p (off + n) (drop n bs) s1 = (True, off', s')"
        by (subst (asm) write_all.simps) simp
      with "1.IH"(1) [OF w [symmetric] Written True, of "c @ take n bs"] f1 n "1.prems"(3)
      show ?thesis by (auto simp: fun_eq_iff)
    next
      case False
      with "1.prems"(1) w Written n have "off' = off + length bs" "s' = s1"
        by (subst (asm) write_all.simps, simp)+
      with f1 n False show ?thesis by simp
    qed
  next
    case WIntr
    with w have f1: "files s1 = files s"
      by (auto simp: os_write_def Let_def split: prod.splits outcome.splits dest: syscall_files)
    from "1.prems"(1) w WIntr have "write_all p off bs s1 = (True, off', s')"
      by (subst (asm) write_all.simps) simp
    with "1.IH"(2) [OF w [symmetric] WIntr, of c] f1 "1.prems" show ?thesis by simp
  next
    case WError
    with "1.prems"(1) w show ?thesis by (subst (asm) write_all.simps) simp
  qed
qed

lemma os_read_prefix: "os_read rest n s = (Some got, s1) \<Longrightarrow> rest = got @ drop (length got) rest"
  by (auto simp: os_read_def min_def split: prod.splits outcome.splits)

lemma os_read_files: "os_read rest n s = (r, s1) \<Longrightarrow> files s1 = files s"
  by (auto simp: os_read_def split: prod.splits outcome.splits dest: syscall_files)

lemma os_read_nil: "os_read rest n s = (Some [], s1) \<Longrightarrow> 0 < n \<Longrightarrow> rest = []"
  by (auto simp: os_read_def split: prod.splits outcome.splits)

lemma cp_loop_copies:
  "cp_loop rest to off s = (True, s') \<Longrightarrow> files s to = Some c \<Longrightarrow> off = length c \<Longrightarrow>
     files s' = (files s)(to \<mapsto> c @ rest)"
proof (induction rest to off s arbitrary: c rule: cp_loop.induct)
  case (1 rest to off s)
  obtain r s1 where rd: "os_read rest cp_block s = (r, s1)" by (cases "os_read rest cp_block s")
  then have f1: "files s1 = files s" by (rule os_read_files)
  show ?case
  proof (cases r)
    case None
    with "1.prems"(1) rd show ?thesis by (subst (asm) cp_loop.simps) simp
  next
    case (Some got)
    show ?thesis
    proof (cases got)
      case Nil
      with rd Some have "rest = []" by (auto simp: cp_block_def dest: os_read_nil)
      moreover from "1.prems"(1) rd Some Nil have "s' = s1" by (subst (asm) cp_loop.simps) simp
      ultimately show ?thesis using f1 "1.prems"(2) by (auto simp: fun_upd_idem)
    next
      case (Cons b bs)
      obtain ok off' s2 where wr: "write_all to off (b # bs) s1 = (ok, off', s2)"
        by (cases "write_all to off (b # bs) s1")
      with "1.prems"(1) rd Some Cons have ok: "ok"
        and nxt: "cp_loop (drop (Suc (length bs)) rest) to off' s2 = (True, s')"
        by (subst (asm) cp_loop.simps, simp split: bool.splits)+
      from write_all_copies [OF wr [unfolded eqTrueI [OF ok]]] f1 "1.prems"(2,3)
      have f2: "off' = off + Suc (length bs)" "files s2 = (files s)(to \<mapsto> c @ b # bs)" by auto
      have "rest = (b # bs) @ drop (Suc (length bs)) rest"
        using os_read_prefix [of rest cp_block s got s1] rd Some Cons by simp
      moreover have "files s' = (files s2)(to \<mapsto> (c @ b # bs) @ drop (Suc (length bs)) rest)"
        by (rule "1.IH" [OF rd [symmetric]])
          (use Some Cons wr [symmetric] ok nxt f2 "1.prems"(3) in simp_all)
      ultimately show ?thesis using f2(2) by simp
    qed
  qed
qed


lemma os_open_wr_files:
  "os_open_wr p True s = (True, s1) \<Longrightarrow> files s1 = (files s)(p \<mapsto> [])"
  by (auto simp: os_open_wr_def split: prod.splits option.splits if_splits dest: syscall_files)

subsection \<open>Properties\<close>

text \<open>
  Whatever system calls fail, are interrupted or transfer only a part of a block, a copy that
  reports success has made the target equal to the source and changed no other file.
\<close>

theorem tools_cp_success_copies:
  assumes "tools_cp from to True s = (0, s')"
  shows "\<exists>c. files s from = Some c \<and> files s' = (files s)(to \<mapsto> c)"
proof -
  obtain r s1 where rd: "os_open_rd from s = (r, s1)" by (cases "os_open_rd from s")
  with assms obtain c where r: "r = Some c" by (cases r) (auto simp: tools_cp_def)
  with rd have src: "files s from = Some c" "files s1 = files s"
    by (auto simp: os_open_rd_def split: prod.splits if_splits dest: syscall_files)
  obtain w s2 where wr: "os_open_wr to True s1 = (w, s2)" by (cases "os_open_wr to True s1")
  obtain b s3 where cp: "cp_loop c to 0 s2 = (b, s3)" by (cases "cp_loop c to 0 s2")
  obtain e s4 where sy: "syscall s3 = (e, s4)" by (cases "syscall s3")
  from assms rd r wr cp sy have ok: w b "s4 = s'"
    by (auto simp: tools_cp_def split: bool.splits if_splits)
  have f2: "files s2 = (files s)(to \<mapsto> [])"
    using os_open_wr_files [of to s1 s2] wr ok src by simp
  from cp_loop_copies [of c to 0 s2 s3 "[]"] cp ok f2
  have "files s3 = (files s)(to \<mapsto> c)" by (simp add: fun_eq_iff)
  with syscall_files [OF sy] ok src show ?thesis by simp
qed

theorem tools_cp_success_copies_witness:
  "let s = \<lparr>files = [''a'' \<mapsto> [1, 2, 3, 4]],
            script = [Done, Done, Partial 2, Partial 0, Interrupted, Done, Done, Partial 0]\<rparr>
   in fst (tools_cp ''a'' ''b'' True s) = 0 \<and>
      (\<exists>c. files s ''a'' = Some c \<and>
           files (snd (tools_cp ''a'' ''b'' True s)) = (files s)(''b'' \<mapsto> c))"
proof -
  define s where "s = \<lparr>files = [''a'' \<mapsto> [1, 2, 3, 4]],
     script = [Done, Done, Partial 2, Partial 0, Interrupted, Done, Done, Partial 0]\<rparr>"
  have "fst (tools_cp ''a'' ''b'' True s) = 0"
    unfolding s_def by code_simp
  then have "tools_cp ''a'' ''b'' True s = (0, snd (tools_cp ''a'' ''b'' True s))"
    by (metis prod.collapse)
  from tools_cp_success_copies [OF this] \<open>fst _ = 0\<close> show ?thesis
    unfolding s_def Let_def by simp
qed

text \<open>
  On a device without faults a saved block is read back unchanged, whatever other files are
  saved in between.
\<close>

theorem storage_roundtrip:
  assumes "healthy s" and "length p = length d" and "list_all (\<lambda>(g, e). unrelated g f) ops"
  shows "let s' = foldl (\<lambda>s (g, e). snd (storage_save_file g e s))
                    (snd (storage_save_file f d s)) ops
         in fst (storage_load_file f p s') = 0 \<and> fst (snd (storage_load_file f p s')) = d"
  using store.last_save_loads [OF assms(1,2), of ops f] assms(3)
  by (auto simp: list_all_iff Let_def)

theorem storage_roundtrip_witness:
  "let s' = foldl (\<lambda>s (g, e). snd (storage_save_file g e s))
       (snd (storage_save_file ''geo'' [1, 2, 3] \<lparr>files = Map.empty, script = []\<rparr>))
       [(''mil'', [9]), (''mil'', [])]
   in fst (storage_load_file ''geo'' [0, 0, 0] s') = 0 \<and>
      fst (snd (storage_load_file ''geo'' [0, 0, 0] s')) = [1, 2, 3]"
  by (rule storage_roundtrip) (simp_all add: healthy_def unrelated_def bak_def)

lemma image_burst_invalid:
  assumes "(x, y) \<noteq> (x', y')" and "d = pre @ [x, y] @ post"
  shows "\<not> valid_image (length d) (pre @ [x', y'] @ post @ le16 (crc16 d))"
  using crc16_burst [OF assms(1), of pre post] assms(2) by (simp add: valid_image_def)

text \<open>
  C23: after two saves of the same file, a corruption confined to two neighbouring data bytes of the
  file is noticed by the load, which puts the backup in place and delivers the data of the save
  before.
\<close>

theorem storage_corruption_recovered:
  assumes "healthy s" and "length old = length d" and "length p = length d"
    and "d = pre @ [x, y] @ post" and "(x, y) \<noteq> (x', y')"
  shows "let s1 = snd (storage_save_file f d (snd (storage_save_file f old s)));
             s2 = s1\<lparr>files := (files s1)(f \<mapsto> pre @ [x', y'] @ post @ le16 (crc16 d))\<rparr>;
             (r, out, s3) = storage_load_file f p s2
         in r = 0 \<and> out = old \<and> files s3 f = Some (image old)"
proof -
  define s1 where "s1 = snd (storage_save_file f d (snd (storage_save_file f old s)))"
  define s2 where "s2 = s1\<lparr>files := (files s1)(f \<mapsto> pre @ [x', y'] @ post @ le16 (crc16 d))\<rparr>"
  have h: "healthy s2" and b: "files s2 (bak f) = Some (image old)"
    using assms(1) by (simp_all add: s2_def s1_def storage_save_healthy)
  have c: "files s2 f = Some (pre @ [x', y'] @ post @ le16 (crc16 d))"
    by (simp add: s2_def)
  have "storage_load_file f p s2 = (0, take (length p) (image old),
      s2\<lparr>files := (files s2)(f \<mapsto> image old)\<rparr>)"
  proof (rule storage_load_recovers [OF h b])
    show "valid_image (length p) (image old)"
      using assms(2,3) valid_image [of old] by simp
    show "length p + 2 \<le> length c' \<and> \<not> valid_image (length p) c'" if "files s2 f = Some c'" for c'
      using that c image_burst_invalid [OF assms(5,4)] assms(3,4) by auto
  qed
  then show ?thesis
    unfolding Let_def s1_def [symmetric] s2_def [symmetric]
    using assms(2,3) by (simp add: image_def)
qed

theorem storage_corruption_recovered_witness:
  "let s1 = snd (storage_save_file ''geo'' [1, 2, 3] (snd (storage_save_file ''geo'' [7, 8, 9]
              \<lparr>files = Map.empty, script = []\<rparr>)));
       s2 = s1\<lparr>files := (files s1)(''geo'' \<mapsto> [1] @ [5, 6] @ [] @ le16 (crc16 [1, 2, 3]))\<rparr>;
       (r, out, s3) = storage_load_file ''geo'' [0, 0, 0] s2
   in r = 0 \<and> out = [7, 8, 9] \<and> files s3 ''geo'' = Some (image [7, 8, 9])"
  by (rule storage_corruption_recovered [where x = 2 and y = 3]) (simp_all add: healthy_def)

text \<open>
  The third of the three read attempts never counts. When the first two attempts to open a
  perfectly good file fail and the third reads all of it, the load still reports the error of the
  second attempt and delivers zeros.
\<close>

theorem storage_third_attempt_discarded:
  assumes "files s f = Some c" and "valid_image (length p) c" and "script s = []"
  shows "storage_load_file f p (s\<lparr>script := [Done, Done, Fails, Fails]\<rparr>) =
    (- ERR_FILE_OPEN, replicate (length p) 0, s)"
proof -
  have len: "length p + 2 \<le> length c" using assms(2) by (simp add: valid_image_def)
  have s: "s\<lparr>script := []\<rparr> = s" using assms(3) by simp
  have three: "load_loop f (length p) 0 0 [] (s\<lparr>script := [Fails, Fails]\<rparr>) =
      load_loop f (length p) 2 (- ERR_FILE_OPEN) [] s"
    by (subst load_loop.simps, simp add: os_open_rd_def syscall_def,
        subst load_loop.simps, simp add: os_open_rd_def syscall_def s eval_nat_numeral)
  have "load_loop f (length p) 2 (- ERR_FILE_OPEN) [] s =
      (3, - ERR_FILE_OPEN, take (length p + 2) c, s)"
    using assms len by (simp add: load_loop_healthy healthy_def)
  with three have ld: "load_file f (length p) (s\<lparr>script := [Done, Fails, Fails]\<rparr>) =
      (- ERR_FILE_OPEN, replicate (length p) 0, s)"
    by (simp add: load_file_def syscall_def)
  have "isExistFile f 3 (s\<lparr>script := [Done, Done, Fails, Fails]\<rparr>) =
      (0, s\<lparr>script := [Done, Fails, Fails]\<rparr>)"
    using assms(1) by (simp add: numeral_3_eq_3 os_access_def syscall_def)
  with ld show ?thesis by (simp add: storage_load_file_def storage_errors)
qed

theorem storage_third_attempt_discarded_witness:
  "storage_load_file ''geo'' [0, 0] (\<lparr>files = [''geo'' \<mapsto> image [4, 2]], script = []\<rparr>
      \<lparr>script := [Done, Done, Fails, Fails]\<rparr>) =
    (- ERR_FILE_OPEN, replicate (length [0::byte, 0]) 0,
     \<lparr>files = [''geo'' \<mapsto> image [4, 2]], script = []\<rparr>)"
  by (rule storage_third_attempt_discarded [where c = "image [4, 2]"])
    (use valid_image [of "[4, 2]"] in simp_all)

text \<open>
  A save does not look at the results of its writes. When both writes fail, the save of a new
  file reports success, leaves an empty file behind, and the next load fails.
\<close>

theorem storage_save_ignores_writes:
  assumes "files s f = None" and "script s = []"
  shows "let (r, s') = storage_save_file f d (s\<lparr>script := [Done, Done, Fails, Fails]\<rparr>)
         in r = 0 \<and> files s' f = Some [] \<and>
            fst (storage_load_file f d s') = - ERR_FILE_READ"
proof -
  have s: "s\<lparr>script := []\<rparr> = s" using assms(2) by simp
  have "storage_save_file f d (s\<lparr>script := [Done, Done, Fails, Fails]\<rparr>) =
      (0, s\<lparr>files := (files s)(f \<mapsto> [])\<rparr>)"
    using assms(1,2)
    by (simp add: storage_save_file_def file_backup_def os_access_def syscall_def os_open_wr_def
        write_once_def os_write_def s)
  then show ?thesis
    using load_file_short [of "s\<lparr>files := (files s)(f \<mapsto> [])\<rparr>" f "[]" "length d"] assms(2)
    by (simp add: storage_load_file_def healthy_def storage_errors)
qed

theorem storage_save_ignores_writes_witness:
  "let (r, s') = storage_save_file ''geo'' [1, 2]
       (\<lparr>files = Map.empty, script = []\<rparr>\<lparr>script := [Done, Done, Fails, Fails]\<rparr>)
   in r = 0 \<and> files s' ''geo'' = Some [] \<and> fst (storage_load_file ''geo'' [1, 2] s') = - ERR_FILE_READ"
  by (rule storage_save_ignores_writes) simp_all

end
