(* ===== verification/Fifo.thy ===== *)
theory Fifo
  imports Prelude
begin

text \<open>
  The contract of a first-in first-out queue, stated once for the packet pipe of \<open>util/pipe.c\<close> and for
  the byte ring of the driver assistance units, and its consequence for whole
  sequences of operations: nothing is lost, duplicated or reordered.
\<close>

datatype 'a qop = Put 'a | Get

fun qrun :: "('a \<Rightarrow> 's \<Rightarrow> 's option) \<Rightarrow> ('s \<Rightarrow> ('b \<times> 's) option) \<Rightarrow> ('a \<Rightarrow> 'b) \<Rightarrow>
    'a qop list \<Rightarrow> 's \<Rightarrow> 'b list \<times> 'b list \<times> 's" where
  "qrun put get val [] s = ([], [], s)"
| "qrun put get val (Put x # ops) s =
     (case put x s of
        None \<Rightarrow> qrun put get val ops s
      | Some s' \<Rightarrow> (let (ins, outs, t) = qrun put get val ops s' in (val x # ins, outs, t)))"
| "qrun put get val (Get # ops) s =
     (case get s of
        None \<Rightarrow> qrun put get val ops s
      | Some (y, s') \<Rightarrow> (let (ins, outs, t) = qrun put get val ops s' in (ins, y # outs, t)))"

locale fifo =
  fixes inv :: "'s \<Rightarrow> bool"
    and contents :: "'s \<Rightarrow> 'b list"
    and put :: "'a \<Rightarrow> 's \<Rightarrow> 's option"
    and get :: "'s \<Rightarrow> ('b \<times> 's) option"
    and val :: "'a \<Rightarrow> 'b"
  assumes put_law: "inv s \<Longrightarrow> put x s = Some s' \<Longrightarrow> inv s' \<and> contents s' = contents s @ [val x]"
    and get_law: "inv s \<Longrightarrow> get s = Some (y, s') \<Longrightarrow> inv s' \<and> contents s = y # contents s'"
    and get_none: "inv s \<Longrightarrow> get s = None \<Longrightarrow> contents s = []"
begin

lemma fifo_order:
  "inv s \<Longrightarrow> qrun put get val ops s = (ins, outs, t) \<Longrightarrow>
     inv t \<and> contents s @ ins = outs @ contents t"
proof (induction ops arbitrary: s ins outs)
  case Nil
  then show ?case by simp
next
  case (Cons op ops)
  show ?case
  proof (cases op)
    case (Put x)
    show ?thesis
    proof (cases "put x s")
      case None
      with Put Cons show ?thesis by simp
    next
      case (Some s')
      from put_law [OF Cons.prems(1) Some] Cons.IH [of s'] Cons.prems(2) Put Some
      show ?thesis by (auto split: prod.splits)
    qed
  next
    case Get
    show ?thesis
    proof (cases "get s")
      case None
      with Get Cons show ?thesis by simp
    next
      case (Some r)
      obtain y s' where r: "r = (y, s')" by (cases r)
      from get_law [OF Cons.prems(1) Some [unfolded r]] Cons.IH [of s'] Cons.prems(2) Get Some r
      show ?thesis by (auto split: prod.splits)
    qed
  qed
qed

text \<open>Draining an unchanged queue delivers what was in it, in order.\<close>

lemma drained:
  "inv s \<Longrightarrow> contents s = [] \<Longrightarrow> qrun put get val ops s = (ins, outs, t) \<Longrightarrow> contents t = [] \<Longrightarrow>
     outs = ins"
  using fifo_order by fastforce

end

end
