(* ===== verification/UtilList.thy ===== *)
theory UtilList
  imports Prelude
begin

text \<open>
  \<open>util/list.c\<close>: the singly linked list with head and tail pointers. The heap of list nodes is a
  map from addresses to cells, \<open>malloc\<close> is the address it returned (\<open>None\<close> when it failed),
  and dereferencing a pointer that is NULL or not allocated is undefined (\<open>None\<close>). The mutex
  makes every operation atomic; it is not modelled further.
\<close>

record dataList =
  node_data :: addr
  node_next :: "addr option"

record listInstance =
  head_list :: "addr option"
  tail_list :: "addr option"
  list_num :: int

record list_heap =
  cells :: "addr \<Rightarrow> dataList option"
  freed :: "addr list"

subsection \<open>Operations\<close>

definition list_free :: "addr \<Rightarrow> list_heap \<Rightarrow> list_heap" where
  "list_free a h = h\<lparr>cells := (cells h)(a := None)\<rparr>"

definition list_add :: "addr option \<Rightarrow> listInstance option \<Rightarrow> addr \<Rightarrow> list_heap \<Rightarrow>
    (int \<times> listInstance option \<times> list_heap) option" where
  "list_add malloc inst data h =
     (case inst of
        None \<Rightarrow> Some (-1, inst, h)
      | Some l \<Rightarrow>
          (case malloc of
             None \<Rightarrow> Some (-1, inst, h)
           | Some n \<Rightarrow>
               (let h1 = h\<lparr>cells := (cells h)(n \<mapsto> \<lparr>node_data = data, node_next = None\<rparr>)\<rparr>
                in case head_list l of
                     None \<Rightarrow>
                       Some (0, Some (l\<lparr>head_list := Some n, tail_list := Some n,
                                        list_num := list_num l + 1\<rparr>), h1)
                   | Some _ \<Rightarrow>
                       (case tail_list l of
                          None \<Rightarrow> None
                        | Some t \<Rightarrow>
                            (case cells h1 t of
                               None \<Rightarrow> None
                             | Some c \<Rightarrow>
                                 Some (0, Some (l\<lparr>tail_list := Some n,
                                                  list_num := list_num l + 1\<rparr>),
                                   h1\<lparr>cells := (cells h1)(t \<mapsto> c\<lparr>node_next := Some n\<rparr>)\<rparr>))))))"

text \<open>The popped data is the third component; \<open>None\<close> there means \<open>*data\<close> is not written.\<close>

definition list_pop :: "listInstance option \<Rightarrow> bool \<Rightarrow> list_heap \<Rightarrow>
    (int \<times> listInstance option \<times> addr option \<times> list_heap) option" where
  "list_pop inst data_null h =
     (case inst of
        None \<Rightarrow> Some (-1, inst, None, h)
      | Some l \<Rightarrow>
          if data_null then Some (-1, inst, None, h)
          else
            (case head_list l of
               None \<Rightarrow> Some (-1, inst, None, h)
             | Some a \<Rightarrow>
                 (case cells h a of
                    None \<Rightarrow> None
                  | Some c \<Rightarrow>
                      Some (0, Some (l\<lparr>head_list := node_next c,
                                       tail_list := (if node_next c = None then None
                                                     else tail_list l),
                                       list_num := list_num l - 1\<rparr>),
                            Some (node_data c), list_free a h))))"

partial_function (option) del_loop ::
    "addr option \<Rightarrow> list_heap \<Rightarrow> list_heap option" where
  "del_loop p h =
     (case p of
        None \<Rightarrow> Some h
      | Some a \<Rightarrow>
          (case cells h a of
             None \<Rightarrow> None
           | Some c \<Rightarrow> del_loop (node_next c) (list_free a (h\<lparr>freed := freed h @ [node_data c]\<rparr>))))"

definition list_del_all :: "listInstance option \<Rightarrow> list_heap \<Rightarrow>
    (int \<times> listInstance option \<times> list_heap) option" where
  "list_del_all inst h =
     (case inst of
        None \<Rightarrow> Some (-1, inst, h)
      | Some l \<Rightarrow>
          (case del_loop (head_list l) h of
             None \<Rightarrow> None
           | Some h1 \<Rightarrow>
               Some (0, Some (l\<lparr>head_list := None, tail_list := None, list_num := 0\<rparr>), h1)))"

definition list_get_num :: "listInstance option \<Rightarrow> int" where
  "list_get_num inst = (case inst of None \<Rightarrow> -1 | Some l \<Rightarrow> list_num l)"

subsection \<open>The list a heap represents\<close>

fun chain :: "(addr \<Rightarrow> dataList option) \<Rightarrow> addr option \<Rightarrow> addr list \<Rightarrow> addr list \<Rightarrow> bool" where
  "chain m p [] xs \<longleftrightarrow> p = None \<and> xs = []"
| "chain m p (a # as) xs \<longleftrightarrow>
     p = Some a \<and> (case xs of [] \<Rightarrow> False | x # ys \<Rightarrow>
       (case m a of None \<Rightarrow> False | Some c \<Rightarrow> node_data c = x \<and> chain m (node_next c) as ys))"

text \<open>
  \<open>repr l h as xs\<close>: the instance stores the values \<open>xs\<close> in the nodes \<open>as\<close>, owns exactly
  these nodes, and its tail pointer and counter agree with them.
\<close>

definition repr :: "listInstance \<Rightarrow> list_heap \<Rightarrow> addr list \<Rightarrow> addr list \<Rightarrow> bool" where
  "repr l h as xs \<longleftrightarrow>
     chain (cells h) (head_list l) as xs \<and> distinct as \<and> dom (cells h) = set as \<and>
     tail_list l = (if as = [] then None else Some (last as)) \<and> list_num l = int (length xs)"

lemma chain_length: "chain m p as xs \<Longrightarrow> length as = length xs"
  by (induction m p as xs rule: chain.induct) (auto split: list.splits option.splits)

lemma chain_upd: "a \<notin> set as \<Longrightarrow> chain (m(a := c)) p as xs = chain m p as xs"
proof (induction as arbitrary: p xs)
  case (Cons b bs)
  then show ?case by (auto split: list.split option.split)
qed simp

lemma chain_snoc:
  assumes "chain m p as xs" "as \<noteq> []" "distinct as" "n \<notin> set as" "m (last as) = Some c"
  shows "chain (m(n \<mapsto> \<lparr>node_data = d, node_next = None\<rparr>,
                  last as \<mapsto> c\<lparr>node_next := Some n\<rparr>)) p (as @ [n]) (xs @ [d])"
  using assms
proof (induction as arbitrary: p xs)
  case (Cons a as)
  then obtain x ys c' where xs: "xs = x # ys" "m a = Some c'" "node_data c' = x"
    "chain m (node_next c') as ys" "p = Some a"
    by (auto split: list.splits option.splits)
  show ?case
  proof (cases "as = []")
    case True
    with Cons.prems xs show ?thesis by auto
  next
    case False
    with Cons.prems have ne: "last as \<noteq> a" "n \<noteq> a" by auto
    with Cons.IH [of "node_next c'" ys] Cons.prems xs False show ?thesis by simp
  qed
qed simp

lemma chain_last: "chain m p as xs \<Longrightarrow> as \<noteq> [] \<Longrightarrow> \<exists>c. m (last as) = Some c"
  by (induction m p as xs rule: chain.induct) (auto split: list.splits option.splits if_splits)

lemma list_add_repr:
  assumes "repr l h as xs" and "n \<notin> dom (cells h)"
  shows "\<exists>l' h'. list_add (Some n) (Some l) d h = Some (0, Some l', h') \<and>
           repr l' h' (as @ [n]) (xs @ [d]) \<and> freed h' = freed h"
proof (cases "as = []")
  case True
  with assms show ?thesis by (auto simp: repr_def list_add_def Let_def)
next
  case False
  with assms obtain a where hd: "head_list l = Some a"
    by (cases as) (auto simp: repr_def)
  from False assms obtain c where c: "cells h (last as) = Some c"
    using chain_last by (fastforce simp: repr_def)
  from assms have n: "n \<notin> set as" by (simp add: repr_def)
  with False have neq: "last as \<noteq> n" by auto
  have "chain ((cells h)(n \<mapsto> \<lparr>node_data = d, node_next = None\<rparr>,
      last as \<mapsto> c\<lparr>node_next := Some n\<rparr>)) (head_list l) (as @ [n]) (xs @ [d])"
    using assms by (intro chain_snoc False n c) (simp_all add: repr_def)
  moreover have "insert (last as) (insert n (set as)) = insert n (set as)"
    using False by auto
  ultimately show ?thesis
    using assms False hd c n neq by (simp add: repr_def list_add_def Let_def)
qed

lemma list_pop_repr:
  assumes "repr l h (a # as) (x # xs)"
  shows "\<exists>l' h'. list_pop (Some l) False h = Some (0, Some l', Some x, h') \<and>
           repr l' h' as xs \<and> freed h' = freed h"
proof -
  from assms obtain c where c: "cells h a = Some c" "node_data c = x"
    "chain (cells h) (node_next c) as xs" "head_list l = Some a"
    by (auto simp: repr_def split: option.splits)
  have "node_next c = None \<longleftrightarrow> as = []" using c(3) by (cases as) auto
  with assms c show ?thesis
    by (auto simp: repr_def list_pop_def list_free_def chain_upd)
qed

lemma list_pop_empty: "repr l h [] [] \<Longrightarrow> list_pop (Some l) b h = Some (-1, Some l, None, h)"
  by (simp add: repr_def list_pop_def)

lemma del_loop_repr:
  "chain (cells h) p as xs \<Longrightarrow> distinct as \<Longrightarrow>
     \<exists>h'. del_loop p h = Some h' \<and> dom (cells h') = dom (cells h) - set as \<and>
          freed h' = freed h @ xs"
proof (induction as arbitrary: p xs h)
  case Nil
  then show ?case by (subst del_loop.simps) auto
next
  case (Cons a as)
  then obtain x ys c where xs: "xs = x # ys" "cells h a = Some c" "node_data c = x"
    "chain (cells h) (node_next c) as ys" "p = Some a"
    by (auto split: list.splits option.splits)
  let ?h = "list_free a (h\<lparr>freed := freed h @ [x]\<rparr>)"
  have "chain (cells ?h) (node_next c) as ys"
    using xs(4) Cons.prems(2) by (simp add: list_free_def chain_upd)
  from Cons.IH [OF this] Cons.prems(2) obtain h' where
    "del_loop (node_next c) ?h = Some h'" "dom (cells h') = dom (cells ?h) - set as"
    "freed h' = freed ?h @ ys" by auto
  with xs show ?case
    by (subst del_loop.simps) (auto simp: list_free_def)
qed

subsection \<open>The list is a queue\<close>

type_synonym list_state = "listInstance \<times> list_heap"

text \<open>The values on the list, read by following the pointers at most \<open>num\<close> steps.\<close>

fun walk :: "nat \<Rightarrow> (addr \<Rightarrow> dataList option) \<Rightarrow> addr option \<Rightarrow> addr list" where
  "walk 0 m p = []"
| "walk (Suc n) m p =
     (case p of None \<Rightarrow> [] | Some a \<Rightarrow>
       (case m a of None \<Rightarrow> [] | Some c \<Rightarrow> node_data c # walk n m (node_next c)))"

definition list_contents :: "list_state \<Rightarrow> addr list" where
  "list_contents s = walk (nat (list_num (fst s))) (cells (snd s)) (head_list (fst s))"

lemma walk_chain: "chain m p as xs \<Longrightarrow> walk (length xs) m p = xs"
  by (induction m p as xs rule: chain.induct) (auto split: list.splits option.splits)

lemma contents_repr: "repr l h as xs \<Longrightarrow> list_contents (l, h) = xs"
  by (auto simp: repr_def list_contents_def dest: walk_chain)

text \<open>
  What a client does, and what each call returns: the code and, for \<open>list_pop\<close>, the value it wrote.
  In \<open>Add ok d\<close> the flag says whether \<open>malloc\<close> succeeds; \<open>alloc m\<close> is the node it delivers then, when
  the nodes of \<open>m\<close> are in use. \<open>None\<close> is undefined behaviour.
\<close>

datatype list_op = Add bool addr | Pop | Del_all

fun list_step :: "((addr \<Rightarrow> dataList option) \<Rightarrow> addr) \<Rightarrow> list_op \<Rightarrow> list_state \<Rightarrow>
    ((int \<times> addr option) \<times> list_state) option" where
  "list_step alloc (Add ok d) (l, h) =
     (case list_add (if ok then Some (alloc (cells h)) else None) (Some l) d h of
        Some (r, Some l1, h1) \<Rightarrow> Some ((r, None), l1, h1) | _ \<Rightarrow> None)"
| "list_step alloc Pop (l, h) =
     (case list_pop (Some l) False h of Some (r, Some l1, v, h1) \<Rightarrow> Some ((r, v), l1, h1) | _ \<Rightarrow> None)"
| "list_step alloc Del_all (l, h) =
     (case list_del_all (Some l) h of Some (r, Some l1, h1) \<Rightarrow> Some ((r, None), l1, h1) | _ \<Rightarrow> None)"

fun list_run :: "((addr \<Rightarrow> dataList option) \<Rightarrow> addr) \<Rightarrow> list_op list \<Rightarrow> list_state \<Rightarrow>
    ((int \<times> addr option) list \<times> list_state) option" where
  "list_run alloc [] s = Some ([], s)"
| "list_run alloc (x # ops) s =
     (case list_step alloc x s of
        None \<Rightarrow> None
      | Some (r, s1) \<Rightarrow> map_option (\<lambda>(rs, s2). (r # rs, s2)) (list_run alloc ops s1))"

text \<open>The same on a list of values: the results, the values left and the values whose blocks are freed.\<close>

fun queue_run :: "list_op list \<Rightarrow> addr list \<Rightarrow> (int \<times> addr option) list \<times> addr list \<times> addr list" where
  "queue_run [] q = ([], q, [])"
| "queue_run (Add ok d # ops) q =
     (let (rs, q', fr) = queue_run ops (if ok then q @ [d] else q)
      in ((if ok then 0 else -1, None) # rs, q', fr))"
| "queue_run (Pop # ops) q =
     (let (rs, q', fr) = queue_run ops (tl q)
      in ((if q = [] then (-1, None) else (0, Some (hd q))) # rs, q', fr))"
| "queue_run (Del_all # ops) q = (let (rs, q', fr) = queue_run ops [] in ((0, None) # rs, q', q @ fr))"

lemma list_del_all_repr:
  assumes "repr l h as xs"
  shows "\<exists>l' h'. list_del_all (Some l) h = Some (0, Some l', h') \<and>
           repr l' h' [] [] \<and> freed h' = freed h @ xs"
  using assms del_loop_repr [of h "head_list l" as xs]
  by (auto simp: repr_def list_del_all_def)

lemma list_run_repr:
  assumes "\<forall>m. finite (dom m) \<longrightarrow> m (alloc m) = None"
  shows "repr l h as q \<Longrightarrow> queue_run ops q = (rs, q', fr) \<Longrightarrow>
    \<exists>l' h' as'. list_run alloc ops (l, h) = Some (rs, l', h') \<and> repr l' h' as' q' \<and> freed h' = freed h @ fr"
proof (induction ops arbitrary: l h as q rs fr)
  case Nil
  then show ?case by auto
next
  case (Cons x ops)
  have "\<exists>r l1 h1 as1 q1 fr1. list_step alloc x (l, h) = Some (r, l1, h1) \<and> repr l1 h1 as1 q1 \<and>
      freed h1 = freed h @ fr1 \<and>
      queue_run (x # ops) q = (let (rs, q', fr) = queue_run ops q1 in (r # rs, q', fr1 @ fr))"
  proof (cases x)
    case (Add ok d)
    have "finite (dom (cells h))" using Cons.prems(1) by (simp add: repr_def)
    with assms have n: "alloc (cells h) \<notin> dom (cells h)" by auto
    show ?thesis
      using list_add_repr [OF Cons.prems(1) n, of d] Cons.prems(1)
      by (cases ok) (fastforce simp: Add, force simp: Add list_add_def)
  next
    case Pop
    show ?thesis
    proof (cases q)
      case Nil
      with Cons.prems(1) have "as = []" by (auto simp: repr_def dest: chain_length)
      with Nil Cons.prems(1) list_pop_empty show ?thesis by (fastforce simp: Pop)
    next
      case (Cons y ys)
      with \<open>repr l h as q\<close> obtain a bs where "as = a # bs" by (cases as) (auto simp: repr_def)
      with Cons \<open>repr l h as q\<close> list_pop_repr [of l h a bs y ys] show ?thesis by (fastforce simp: Pop)
    qed
  next
    case Del_all
    then show ?thesis using list_del_all_repr [OF Cons.prems(1)] by fastforce
  qed
  then obtain r l1 h1 as1 q1 fr1 where step: "list_step alloc x (l, h) = Some (r, l1, h1)" "repr l1 h1 as1 q1"
    "freed h1 = freed h @ fr1"
    "queue_run (x # ops) q = (let (rs, q', fr) = queue_run ops q1 in (r # rs, q', fr1 @ fr))" by blast
  obtain rs1 fr2 where "queue_run ops q1 = (rs1, q', fr2)" "rs = r # rs1" "fr = fr1 @ fr2"
    using step(4) Cons.prems(2) by (auto simp: Let_def split: prod.splits)
  with Cons.IH [OF step(2)] step(1,3) show ?case by fastforce
qed

subsection \<open>Properties\<close>

definition list_init :: list_state where
  "list_init = (\<lparr>head_list = None, tail_list = None, list_num = 0\<rparr>,
                \<lparr>cells = Map.empty, freed = []\<rparr>)"

text \<open>
  C38: the linked list is a first-in first-out queue. Whatever sequence of additions, with and without
  memory, removals and clearings is made on an empty list, no call dereferences a bad pointer, and all
  results are those of a list of values: each addition with memory succeeds, a removal delivers the oldest
  value and fails only when there is none. The list then holds the values that are left, counts
  them, has as many nodes in memory, and clearing has freed each value it removed once, in order.
\<close>

theorem list_is_fifo:
  assumes "\<forall>m. finite (dom m) \<longrightarrow> m (alloc m) = None"
  shows "\<exists>t. list_run alloc ops list_init = Some (fst (queue_run ops []), t) \<and>
    list_contents t = fst (snd (queue_run ops [])) \<and> freed (snd t) = snd (snd (queue_run ops [])) \<and>
    list_num (fst t) = int (length (list_contents t)) \<and>
    card (dom (cells (snd t))) = length (list_contents t)"
proof -
  have "repr (fst list_init) (snd list_init) [] []" by (simp add: repr_def list_init_def)
  from list_run_repr [OF assms this] obtain l h as where
    run: "list_run alloc ops list_init = Some (fst (queue_run ops []), l, h)"
    and r: "repr l h as (fst (snd (queue_run ops [])))" "freed h = snd (snd (queue_run ops []))"
    by (metis append_Nil list_heap.select_convs(2) list_init_def prod.collapse snd_conv)
  have "card (dom (cells h)) = length as" using r(1) by (simp add: repr_def distinct_card)
  moreover have "length as = length (fst (snd (queue_run ops [])))" using r(1) by (auto simp: repr_def dest: chain_length)
  ultimately show ?thesis using run r contents_repr [OF r(1)] by (auto simp: repr_def)
qed

theorem list_is_fifo_witness:
  "let alloc = (\<lambda>m. Suc (Max (insert 0 (dom m))))
   in \<exists>t. list_run alloc [Add True 70, Add True 80, Pop, Add False 90, Pop, Pop, Add True 60, Del_all, Add True 50]
        list_init =
        Some ([(0, None), (0, None), (0, Some 70), (-1, None), (0, Some 80), (-1, None), (0, None), (0, None), (0, None)], t) \<and>
      list_contents t = [50] \<and> freed (snd t) = [60]"
proof -
  let ?alloc = "\<lambda>m :: addr \<Rightarrow> dataList option. Suc (Max (insert 0 (dom m)))"
  have "\<forall>m. finite (dom m) \<longrightarrow> m (?alloc m) = None"
  proof (intro allI impI, rule ccontr)
    fix m :: "addr \<Rightarrow> dataList option"
    assume f: "finite (dom m)" and "m (?alloc m) \<noteq> None"
    then have "?alloc m \<in> insert 0 (dom m)" by auto
    with f have "?alloc m \<le> Max (insert 0 (dom m))" by (intro Max_ge) auto
    then show False by simp
  qed
  from list_is_fifo [OF this, of "[Add True 70, Add True 80, Pop, Add False 90, Pop, Pop, Add True 60, Del_all, Add True 50]"]
  show ?thesis by (auto simp: Let_def)
qed

text \<open>
  Clearing a list that stores \<open>xs\<close> terminates, frees every data block on it exactly once
  and in order, releases every node, and leaves an empty list behind.
\<close>

theorem list_del_all_frees:
  assumes "repr l h as xs"
  shows "\<exists>l' h'. list_del_all (Some l) h = Some (0, Some l', h') \<and>
           repr l' h' [] [] \<and> freed h' = freed h @ xs"
  using assms by (rule list_del_all_repr)

theorem list_del_all_frees_witness:
  "let h = \<lparr>cells = [1 \<mapsto> \<lparr>node_data = 70, node_next = Some 2\<rparr>,
                     2 \<mapsto> \<lparr>node_data = 80, node_next = None\<rparr>], freed = []\<rparr>;
       l = \<lparr>head_list = Some 1, tail_list = Some 2, list_num = 2\<rparr>
   in \<exists>l' h'. list_del_all (Some l) h = Some (0, Some l', h') \<and>
        repr l' h' [] [] \<and> freed h' = freed h @ [70, 80]"
  unfolding Let_def
  by (rule list_del_all_frees [of _ _ "[1, 2]"]) (auto simp: repr_def)

end
