(* ===== verification/Pipe.thy ===== *)
theory Pipe
  imports Fifo Checksum
begin

text \<open>
  \<open>util/pipe.c\<close>: the bounded queue of packets between the event handlers and the network
  threads. A packet lives in a block of memory; the pipe carries 8-byte records with the address of
  the block, its length and its XOR checksum. The kernel pipe is the list of records in it: records
  are written and read whole (8 rec_bytes are far below PIPE_BUF), a read of an empty pipe fails, and a
  write fails when the 64 KiB of the kernel buffer are used up.

  \<open>None\<close> at the outermost level is undefined behaviour: dereferencing NULL, reading outside a
  block, or freeing a block twice.
\<close>

type_synonym mem = "addr \<Rightarrow> byte list option"

record pipeData =
  pop :: byte
  pdat :: "addr option"
  psize :: u16
  pcsum :: byte

record pipeDevice =
  fd_read :: int
  fd_write :: int
  pipe_num :: int
  pipe_size :: int
  pipe_queue :: "pipeData list"

definition PIPE_MAX_NUM :: int where "PIPE_MAX_NUM = 5000"
definition PIPE_MAX_SIZE :: int where "PIPE_MAX_SIZE = 2 * 1024 * 1024"

definition pipe_capacity :: nat where "pipe_capacity = 8192"

definition rec_bytes :: "pipeData \<Rightarrow> int" where
  "rec_bytes r = int (unat (psize r))"

subsection \<open>Operations\<close>

text \<open>
  The kernel's answers: the descriptors of the new pipe (\<open>None\<close> when it refuses), and whether
  each of the four \<open>fcntl\<close> calls succeeds.
\<close>

definition pipe_init_fd :: "(int \<times> int) option \<Rightarrow> (nat \<Rightarrow> bool) \<Rightarrow> int \<times> int \<Rightarrow> int \<times> int \<times> int" where
  "pipe_init_fd pipefds fcntl_ok fd =
     (case pipefds of
        None \<Rightarrow> (-1, fd)
      | Some (r, w) \<Rightarrow>
          if \<not> fcntl_ok 0 then (-1, r, w)
          else if \<not> fcntl_ok 1 then (-1, r, w)
          else if \<not> fcntl_ok 2 then (-1, r, w)
          else if \<not> fcntl_ok 3 then (-1, r, w)
          else (0, r, w))"

definition pipe_init :: "(int \<times> int) option \<Rightarrow> (nat \<Rightarrow> bool) \<Rightarrow> int \<times> pipeDevice" where
  "pipe_init pipefds fcntl_ok =
     (let (res, r, w) = pipe_init_fd pipefds fcntl_ok (-1, -1)
      in (res, \<lparr>fd_read = r, fd_write = w, pipe_num = 0, pipe_size = 0, pipe_queue = []\<rparr>))"

text \<open>\<open>free\<close>: nothing for NULL, undefined for a block that is not allocated.\<close>

definition free_block :: "addr option \<Rightarrow> mem \<Rightarrow> mem option" where
  "free_block p m =
     (case p of None \<Rightarrow> Some m | Some a \<Rightarrow> if m a = None then None else Some (m(a := None)))"

text \<open>The block both \<open>pipe_add_data\<close> and \<open>pipe_re_add_data\<close> open with.\<close>

definition pipe_evict :: "pipeDevice \<Rightarrow> mem \<Rightarrow> (pipeDevice \<times> mem) option" where
  "pipe_evict d m =
     (if pipe_num d > PIPE_MAX_NUM \<or> pipe_size d > PIPE_MAX_SIZE then
        (case pipe_queue d of
           [] \<Rightarrow> Some (d, m)
         | r # rs \<Rightarrow>
             map_option (\<lambda>m'. (d\<lparr>pipe_num := pipe_num d - 1, pipe_size := pipe_size d - rec_bytes r, pipe_queue := rs\<rparr>, m'))
               (free_block (pdat r) m))
      else Some (d, m))"

text \<open>The non-blocking \<open>write\<close> of one record and the bookkeeping after it.\<close>

definition pipe_write :: "pipeData \<Rightarrow> pipeDevice \<Rightarrow> int \<times> pipeDevice" where
  "pipe_write r d =
     (if length (pipe_queue d) < pipe_capacity
      then (0, d\<lparr>pipe_num := pipe_num d + 1, pipe_size := pipe_size d + rec_bytes r, pipe_queue := pipe_queue d @ [r]\<rparr>)
      else (-1, d))"

definition pipe_add_data :: "byte \<Rightarrow> addr option \<Rightarrow> u16 \<Rightarrow> pipeDevice \<Rightarrow> mem \<Rightarrow>
    (int \<times> pipeDevice \<times> mem) option" where
  "pipe_add_data op pdata sz d m =
     (case pdata of
        None \<Rightarrow> None
      | Some a \<Rightarrow>
          (case m a of
             None \<Rightarrow> None
           | Some block \<Rightarrow>
               (case tools_checksum_xor block (unat sz) of
                  None \<Rightarrow> None
                | Some cs \<Rightarrow>
                    (case pipe_evict d m of
                       None \<Rightarrow> None
                     | Some (d1, m1) \<Rightarrow>
                         (let (res, d2) = pipe_write
                            \<lparr>pop = op, pdat = pdata, psize = sz, pcsum = cs\<rparr> d1
                          in Some (res, d2, m1))))))"

definition pipe_re_add_data :: "pipeData \<Rightarrow> pipeDevice \<Rightarrow> mem \<Rightarrow>
    (int \<times> pipeDevice \<times> mem) option" where
  "pipe_re_add_data r d m =
     (case pipe_evict d m of
        None \<Rightarrow> None
      | Some (d1, m1) \<Rightarrow> (let (res, d2) = pipe_write r d1 in Some (res, d2, m1)))"

definition pipe_check_csum_data :: "addr option \<Rightarrow> u16 \<Rightarrow> byte \<Rightarrow> mem \<Rightarrow> int option" where
  "pipe_check_csum_data buff len cs m =
     (case buff of
        None \<Rightarrow> Some (-1)
      | Some a \<Rightarrow>
          (case m a of
             None \<Rightarrow> None
           | Some block \<Rightarrow>
               map_option (\<lambda>c. if cs \<noteq> c then -1 else 0) (tools_checksum_xor block (unat len))))"

definition pipe_read :: "pipeDevice \<Rightarrow> (pipeData \<times> pipeDevice) option" where
  "pipe_read d =
     (case pipe_queue d of
        [] \<Rightarrow> None
      | r # rs \<Rightarrow> Some (r, d\<lparr>pipe_size := pipe_size d - rec_bytes r, pipe_num := pipe_num d - 1, pipe_queue := rs\<rparr>))"

subsection \<open>The counters describe the queue\<close>

definition pipe_inv :: "pipeDevice \<Rightarrow> bool" where
  "pipe_inv d \<longleftrightarrow>
     pipe_num d = int (length (pipe_queue d)) \<and> pipe_size d = sum_list (map rec_bytes (pipe_queue d)) \<and>
     pipe_num d \<le> PIPE_MAX_NUM + 1"

lemma rec_bytes_bounds: "0 \<le> rec_bytes r" "rec_bytes r \<le> 65535"
proof -
  have "unat (psize r) < 2 ^ LENGTH(16)" by (rule unsigned_less)
  then have "unat (psize r) < 65536" by simp
  then show "0 \<le> rec_bytes r" "rec_bytes r \<le> 65535" unfolding rec_bytes_def by linarith+
qed

lemma pipe_init_inv [keeps]: "pipe_inv (snd (pipe_init k f))"
  by (simp add: pipe_inv_def pipe_init_def PIPE_MAX_NUM_def split: prod.split)

lemma pipe_init_queue [simp]: "pipe_queue (snd (pipe_init k f)) = []"
  by (simp add: pipe_init_def split: prod.split)

lemma pipe_read_inv [keeps]: "pipe_inv d \<Longrightarrow> pipe_read d = Some (r, d') \<Longrightarrow> pipe_inv d'"
  by (auto simp: pipe_inv_def pipe_read_def split: list.splits)

lemma pipe_size_bound: "pipe_inv d \<Longrightarrow> 0 \<le> pipe_size d \<and> pipe_size d \<le> 65535 * pipe_num d"
  using sum_list_le_bound [of "pipe_queue d" rec_bytes 65535] rec_bytes_bounds
    sum_list_nonneg [of "map rec_bytes (pipe_queue d)"]
  by (auto simp: pipe_inv_def)

lemma pipe_read_queue:
  "pipe_read d = Some (r, d') \<Longrightarrow> pipe_queue d = r # pipe_queue d'"
  by (auto simp: pipe_read_def split: list.splits)

text \<open>Eviction makes room: it removes at most the oldest record, and its block.\<close>

lemma pipe_evict_inv:
  assumes "pipe_inv d" and "pipe_evict d m = Some (d', m')"
  shows "pipe_inv d' \<and> pipe_num d' \<le> PIPE_MAX_NUM \<and>
    (pipe_queue d' = pipe_queue d \<and> m' = m \<or>
     (\<exists>r. pipe_queue d = r # pipe_queue d' \<and> free_block (pdat r) m = Some m'))"
  using assms by (auto simp: pipe_evict_def pipe_inv_def PIPE_MAX_NUM_def split: if_splits list.splits)

lemma pipe_write_ok:
  assumes "pipe_inv d" and "pipe_num d \<le> PIPE_MAX_NUM"
  shows "\<exists>d'. pipe_write r d = (0, d') \<and> pipe_inv d' \<and> pipe_queue d' = pipe_queue d @ [r]"
  using assms by (auto simp: pipe_write_def pipe_inv_def PIPE_MAX_NUM_def pipe_capacity_def)

subsection \<open>The pipe is a queue below its limits\<close>

definition pipe_put :: "pipeData \<Rightarrow> pipeDevice \<Rightarrow> pipeDevice option" where
  "pipe_put r d =
     (case pipe_re_add_data r d Map.empty of
        Some (res, d', m) \<Rightarrow>
          if res = 0 \<and> pipe_num d \<le> PIPE_MAX_NUM \<and> pipe_size d \<le> PIPE_MAX_SIZE then Some d' else None
      | None \<Rightarrow> None)"

interpretation pq: fifo pipe_inv pipe_queue pipe_put pipe_read "\<lambda>r. r"
proof unfold_locales
  fix s x s' assume inv: "pipe_inv s" and put: "pipe_put x s = Some s'"
  from put have below: "pipe_num s \<le> PIPE_MAX_NUM" "pipe_size s \<le> PIPE_MAX_SIZE"
    by (auto simp: pipe_put_def split: option.splits if_splits)
  then have "pipe_evict s Map.empty = Some (s, Map.empty)" by (simp add: pipe_evict_def)
  with put pipe_write_ok [OF inv below(1), of x]
  show "pipe_inv s' \<and> pipe_queue s' = pipe_queue s @ [x]"
    by (auto simp: pipe_put_def pipe_re_add_data_def split: if_splits)
next
  fix s y s' assume "pipe_inv s" and "pipe_read s = Some (y, s')"
  then show "pipe_inv s' \<and> pipe_queue s = y # pipe_queue s'"
    using pipe_read_inv pipe_read_queue by blast
next
  fix s assume "pipe_read s = None"
  then show "pipe_queue s = []" by (simp add: pipe_read_def split: list.splits)
qed

subsection \<open>Properties\<close>

text \<open>
  C7: the counters never drift. Whatever a caller adds to a consistent pipe whose blocks are
  allocated, the addition succeeds, the counters again equal the number of records and the sum of
  their sizes, at most \<open>PIPE_MAX_NUM + 1\<close> records are queued, and neither counter leaves the
  range of a 32-bit \<open>int\<close>; at most the oldest record is given up, and its block is freed.
\<close>

theorem pipe_add_data_bounded:
  assumes "pipe_inv d" and "m a = Some block" and "block \<noteq> []" and "unat sz \<le> length block"
    and "\<forall>r \<in> set (pipe_queue d). \<exists>b. pdat r = Some b \<and> m b \<noteq> None"
  shows "\<exists>d' m' r. pipe_add_data op (Some a) sz d m = Some (0, d', m') \<and> pipe_inv d' \<and>
    pipe_num d' \<le> PIPE_MAX_NUM + 1 \<and> 0 \<le> pipe_size d' \<and> pipe_size d' < 2 ^ 31 \<and>
    (pipe_queue d' = pipe_queue d @ [r] \<and> m' = m \<or>
     (\<exists>old. old # pipe_queue d' = pipe_queue d @ [r] \<and> free_block (pdat old) m = Some m')) \<and>
    pop r = op \<and> pdat r = Some a \<and> psize r = sz"
proof -
  obtain cs where cs: "tools_checksum_xor block (unat sz) = Some cs"
    using checksum_xor_total [OF assms(3,4)] by auto
  have "pipe_evict d m \<noteq> None"
    using assms(5) by (auto simp: pipe_evict_def free_block_def split: list.splits)
  then obtain d1 m1 where ev: "pipe_evict d m = Some (d1, m1)" by auto
  let ?r = "\<lparr>pop = op, pdat = Some a, psize = sz, pcsum = cs\<rparr>"
  from pipe_evict_inv [OF assms(1) ev]
  have e: "pipe_inv d1" "pipe_num d1 \<le> PIPE_MAX_NUM" "pipe_queue d1 = pipe_queue d \<and> m1 = m \<or>
     (\<exists>r. pipe_queue d = r # pipe_queue d1 \<and> free_block (pdat r) m = Some m1)" by auto
  from pipe_write_ok [OF e(1,2), of ?r] obtain d2 where
    w: "pipe_write ?r d1 = (0, d2)" "pipe_inv d2" "pipe_queue d2 = pipe_queue d1 @ [?r]" by auto
  have "pipe_num d2 \<le> PIPE_MAX_NUM + 1" using w(2) by (simp add: pipe_inv_def)
  with pipe_size_bound [OF w(2)] have "pipe_size d2 < 2 ^ 31" "0 \<le> pipe_size d2"
    by (auto simp: PIPE_MAX_NUM_def)
  with assms(2) cs ev w e(3) show ?thesis
    by (intro exI [of _ d2] exI [of _ m1] exI [of _ ?r])
      (auto simp: pipe_add_data_def pipe_inv_def)
qed

theorem pipe_add_data_bounded_witness:
  "let d = snd (pipe_init (Some (3, 4)) (\<lambda>_. True)); m = [1 \<mapsto> [5, 6, 9]]
   in \<exists>d' m' r. pipe_add_data 7 (Some 1) 2 d m = Some (0, d', m') \<and>
    pipe_inv d' \<and> pipe_num d' \<le> PIPE_MAX_NUM + 1 \<and> 0 \<le> pipe_size d' \<and> pipe_size d' < 2 ^ 31 \<and>
    (pipe_queue d' = pipe_queue d @ [r] \<and> m' = m \<or>
     (\<exists>old. old # pipe_queue d' = pipe_queue d @ [r] \<and> free_block (pdat old) m = Some m')) \<and>
    pop r = 7 \<and> pdat r = Some 1 \<and> psize r = 2"
  unfolding Let_def
  by (rule pipe_add_data_bounded [where block = "[5, 6, 9]", OF pipe_init_inv]) simp_all

text \<open>
  C0: the limit on the number of queued rec_bytes is not enforced. A pipe above \<open>PIPE_MAX_SIZE\<close>
  accepts a packet that is larger than its oldest one and is then even further above the limit.
\<close>

theorem pipe_size_limit_not_enforced:
  assumes "pipe_inv d" and "pipe_size d > PIPE_MAX_SIZE" and "pipe_queue d = r # rs" and "pdat r = Some b"
    and "m b \<noteq> None" and "m a = Some block" and "block \<noteq> []" and "unat sz \<le> length block"
    and "rec_bytes r < int (unat sz)"
  shows "\<exists>d' m'. pipe_add_data op (Some a) sz d m = Some (0, d', m') \<and> pipe_size d' > pipe_size d"
proof -
  obtain cs where cs: "tools_checksum_xor block (unat sz) = Some cs"
    using checksum_xor_total [OF assms(7,8)] by auto
  have len: "length rs < pipe_capacity"
    using assms(1,3) by (simp add: pipe_inv_def PIPE_MAX_NUM_def pipe_capacity_def)
  then show ?thesis
    using assms cs
    by (auto simp: pipe_add_data_def pipe_evict_def free_block_def pipe_write_def rec_bytes_def)
qed

lemma replicate_sum: "sum_list (replicate n x) = int n * x"
  by (induction n) (simp_all add: algebra_simps)

theorem pipe_size_limit_not_enforced_witness:
  "let r = \<lparr>pop = 1, pdat = Some 1, psize = 9, pcsum = 0\<rparr>;
       big = \<lparr>pop = 1, pdat = Some 2, psize = 60000, pcsum = 0\<rparr>;
       d = \<lparr>fd_read = 3, fd_write = 4, pipe_num = 41, pipe_size = 2400009, pipe_queue = r # replicate 40 big\<rparr>
   in \<exists>d' m'. pipe_add_data 1 (Some 3) 10 d [1 \<mapsto> replicate 9 0, 3 \<mapsto> replicate 10 0] =
        Some (0, d', m') \<and> pipe_size d' > pipe_size d"
  unfolding Let_def
  by (rule pipe_size_limit_not_enforced [where block = "replicate 10 0" and b = 1 and
        r = "\<lparr>pop = 1, pdat = Some 1, psize = 9, pcsum = 0\<rparr>"])
    (simp_all add: pipe_inv_def PIPE_MAX_NUM_def PIPE_MAX_SIZE_def replicate_sum rec_bytes_def)

end
