(* ===== verification/Sender.thy ===== *)
theory Sender
  imports Pipe "HOL-Library.Multiset"
begin

text \<open>
  \<open>base/sender.c\<close>: the two packet queues (the build defines \<open>USE_NET_THREAD2\<close>) and the memory
  their packets live in. \<open>make_packet\<close> and \<open>send_packet\<close> are callbacks every customer model
  implements in its own way; here their results are arguments: the block \<open>make_packet\<close> allocated
  and its return code, the return code of \<open>send_packet\<close>. \<open>free_packet\<close> frees the block. The
  calls into the debug channel (\<open>devel_*\<close>, \<open>error_critical (eERROR_LOG, ...)\<close>) change nothing
  of this state. \<open>sent\<close> records the packets \<open>send_packet\<close> took.
\<close>

datatype pipeSelection = ePIPE_1 | ePIPE_2

record sender =
  pipe_1 :: pipeDevice
  pipe_2 :: pipeDevice
  smem :: mem
  sent :: "(byte \<times> byte list) list"
  closed :: "int list"

record packet =
  mk_ret :: int
  mk_block :: "(addr \<times> byte list) option"
  mk_size :: u16

definition pipe_of :: "pipeSelection \<Rightarrow> sender \<Rightarrow> pipeDevice" where
  "pipe_of type s = (case type of ePIPE_1 \<Rightarrow> pipe_1 s | ePIPE_2 \<Rightarrow> pipe_2 s)"

definition set_pipe :: "pipeSelection \<Rightarrow> pipeDevice \<Rightarrow> mem \<Rightarrow> sender \<Rightarrow> sender" where
  "set_pipe type d m s =
     (case type of
        ePIPE_1 \<Rightarrow> s\<lparr>pipe_1 := d, smem := m\<rparr>
      | ePIPE_2 \<Rightarrow> s\<lparr>pipe_2 := d, smem := m\<rparr>)"

subsection \<open>Operations\<close>

definition sender_deinit :: "sender \<Rightarrow> sender" where
  "sender_deinit s =
     s\<lparr>closed := closed s @
        filter (\<lambda>fd. 0 \<le> fd) [fd_read (pipe_1 s), fd_write (pipe_1 s),
                              fd_read (pipe_2 s), fd_write (pipe_2 s)]\<rparr>"

definition sender_init :: "(int \<times> int) option \<Rightarrow> (nat \<Rightarrow> bool) \<Rightarrow> (int \<times> int) option \<Rightarrow> (nat \<Rightarrow> bool) \<Rightarrow>
    sender \<Rightarrow> int \<times> sender" where
  "sender_init k1 f1 k2 f2 s =
     (case pipe_init k1 f1 of
        (r1, d1) \<Rightarrow>
          (let s1 = s\<lparr>pipe_1 := d1\<rparr>
           in if r1 < 0 then (-1, s1)
              else
                (case pipe_init k2 f2 of
                   (r2, d2) \<Rightarrow>
                     (let s2 = s1\<lparr>pipe_2 := d2\<rparr>
                      in if r2 < 0 then (-1, sender_deinit s2) else (0, s2)))))"

definition free_packet :: "addr option \<Rightarrow> sender \<Rightarrow> sender option" where
  "free_packet p s = map_option (\<lambda>m. s\<lparr>smem := m\<rparr>) (free_block p (smem s))"

definition sender_add_data_to_buffer :: "byte \<Rightarrow> packet \<Rightarrow> pipeSelection \<Rightarrow> sender \<Rightarrow>
    (int \<times> sender) option" where
  "sender_add_data_to_buffer no_event p type s =
     (case mk_block p of
        None \<Rightarrow> Some (-1, s)
      | Some (a, content) \<Rightarrow>
          (let m = (smem s)(a \<mapsto> content); s1 = s\<lparr>smem := m\<rparr>
           in if mk_ret p < 0 then Some (-1, s1)
              else
                (case pipe_add_data no_event (Some a) (mk_size p) (pipe_of type s1) m of
                   None \<Rightarrow> None
                 | Some (res, d, m') \<Rightarrow>
                     (let s2 = set_pipe type d m' s1
                      in if res < 0 then map_option (\<lambda>s3. (-1, s3)) (free_packet (Some a) s2)
                         else Some (0, s2)))))"

definition sender_tx_data :: "int \<Rightarrow> pipeData \<Rightarrow> pipeSelection \<Rightarrow> sender \<Rightarrow> (int \<times> sender) option"
  where
  "sender_tx_data send_ret r type s =
     (if send_ret < 0 then
        map_option (\<lambda>(res, d, m). (send_ret, set_pipe type d m s))
          (pipe_re_add_data r (pipe_of type s) (smem s))
      else
        (let content = (case pdat r of None \<Rightarrow> [] | Some a \<Rightarrow> the (smem s a))
         in map_option (\<lambda>s1. (send_ret, s1))
              (free_packet (pdat r)
                (s\<lparr>sent := sent s @ [(pop r, take (unat (psize r)) content)]\<rparr>))))"

definition sender_get_num_remaindata :: "pipeSelection \<Rightarrow> sender \<Rightarrow> int" where
  "sender_get_num_remaindata type s =
     (if type = ePIPE_1 then pipe_num (pipe_1 s) else pipe_num (pipe_2 s))"

definition sender_get_size_remaindata :: "pipeSelection \<Rightarrow> sender \<Rightarrow> int" where
  "sender_get_size_remaindata type s =
     (if type = ePIPE_1 then pipe_size (pipe_1 s) else pipe_size (pipe_2 s))"

text \<open>
  \<open>flags i\<close> are the two trigger flags as the network threads have left them after \<open>i\<close> seconds.
\<close>

fun wait_empty :: "(nat \<Rightarrow> bool \<times> bool) \<Rightarrow> nat \<Rightarrow> nat \<Rightarrow> int" where
  "wait_empty flags i 0 = -1"
| "wait_empty flags i (Suc timeout) =
     (if fst (flags i) \<and> snd (flags i) then 0 else wait_empty flags (Suc i) timeout)"

definition sender_wait_empty_network :: "int \<Rightarrow> (nat \<Rightarrow> bool \<times> bool) \<Rightarrow> int" where
  "sender_wait_empty_network timeout_sec flags =
     wait_empty (\<lambda>i. if i = 0 then (False, False) else flags i) 0 (nat timeout_sec)"

definition sender_set_network_fds :: "pipeSelection \<Rightarrow> sender \<Rightarrow> int \<times> int set" where
  "sender_set_network_fds type s =
     (let fd = fd_read (if type = ePIPE_1 then pipe_1 s else pipe_2 s) in (fd + 1, {fd}))"

definition sender_network_process :: "pipeSelection \<Rightarrow> bool \<Rightarrow> int \<Rightarrow> sender \<Rightarrow>
    (int \<times> sender) option" where
  "sender_network_process type isset send_ret s =
     (if \<not> isset then Some (-1, s)
      else
        (case pipe_read (pipe_of type s) of
           None \<Rightarrow> Some (-1, s)
         | Some (r, d) \<Rightarrow>
             (let s1 = set_pipe type d (smem s) s
              in case pipe_check_csum_data (pdat r) (psize r) (pcsum r) (smem s1) of
                   None \<Rightarrow> None
                 | Some c \<Rightarrow>
                     if c < 0 then map_option (\<lambda>s2. (-1, s2)) (free_packet (pdat r) s1)
                     else map_option (\<lambda>(res, s2). (0, s2)) (sender_tx_data send_ret r type s1))))"

subsection \<open>Ownership of the packets\<close>

text \<open>
  Every queued record owns its block, every block is owned by one record, and the block is long
  enough for the record.
\<close>

definition all_records :: "sender \<Rightarrow> pipeData list" where
  "all_records s = pipe_queue (pipe_1 s) @ pipe_queue (pipe_2 s)"

definition good_record :: "mem \<Rightarrow> pipeData \<Rightarrow> bool" where
  "good_record m r \<longleftrightarrow>
     (case pdat r of None \<Rightarrow> False | Some a \<Rightarrow>
       (case m a of None \<Rightarrow> False | Some b \<Rightarrow> b \<noteq> [] \<and> unat (psize r) \<le> length b))"

lemma good_record_iff:
  "good_record m r \<longleftrightarrow>
     (\<exists>a b. pdat r = Some a \<and> m a = Some b \<and> b \<noteq> [] \<and> unat (psize r) \<le> length b)"
  by (auto simp: good_record_def split: option.split)

lemma good_record_upd: "pdat r \<noteq> Some a \<Longrightarrow> good_record (m(a := x)) r = good_record m r"
  by (auto simp: good_record_iff)

definition owns :: "pipeData list \<Rightarrow> mem \<Rightarrow> bool" where
  "owns rs m \<longleftrightarrow> distinct (map pdat rs) \<and> (\<forall>r \<in> set rs. good_record m r) \<and>
     Some ` dom m = set (map pdat rs)"

definition sender_inv :: "sender \<Rightarrow> bool" where
  "sender_inv s \<longleftrightarrow> pipe_inv (pipe_1 s) \<and> pipe_inv (pipe_2 s) \<and> owns (all_records s) (smem s)"

lemma owns_perm: "mset rs = mset rs' \<Longrightarrow> owns rs m = owns rs' m"
proof -
  assume ms: "mset rs = mset rs'"
  then have "set rs = set rs'" by (rule mset_eq_setD)
  moreover from ms have "mset (map pdat rs) = mset (map pdat rs')" by simp
  then have "distinct (map pdat rs) = distinct (map pdat rs')"
    by (rule mset_eq_imp_distinct_iff)
  ultimately show ?thesis by (simp add: owns_def)
qed

lemma owns_add:
  assumes "owns rs m" and "m a = None" and "pdat r = Some a" and "b \<noteq> []"
    and "unat (psize r) \<le> length b"
  shows "owns (r # rs) (m(a \<mapsto> b))"
proof -
  from assms(1,2) have new: "Some a \<notin> set (map pdat rs)"
    unfolding owns_def by (metis domIff image_iff option.inject)
  moreover have "good_record (m(a \<mapsto> b)) q" if "q \<in> set rs" for q
  proof -
    from that new have "pdat q \<noteq> Some a" by force
    with that assms(1) show ?thesis by (simp add: good_record_upd owns_def)
  qed
  moreover have "good_record (m(a \<mapsto> b)) r" using assms by (simp add: good_record_iff)
  ultimately show ?thesis
    using assms by (auto simp: owns_def)
qed

lemma owns_free:
  assumes "owns (r # rs) m"
  shows "\<exists>m'. free_block (pdat r) m = Some m' \<and> owns rs m'"
proof -
  from assms obtain a b where a: "pdat r = Some a" "m a = Some b"
    by (auto simp: owns_def good_record_iff)
  moreover have "good_record (m(a := None)) q" if "q \<in> set rs" for q
  proof -
    from that assms a have "pdat q \<noteq> Some a" by (force simp: owns_def)
    with that assms show ?thesis by (simp add: good_record_upd owns_def)
  qed
  moreover have "Some ` dom (m(a := None)) = set (map pdat rs)"
  proof -
    from assms a have "Some ` dom m = insert (Some a) (pdat ` set rs)" "Some a \<notin> pdat ` set rs"
      by (auto simp: owns_def)
    moreover have "Some ` dom (m(a := None)) = Some ` dom m - {Some a}" by auto
    ultimately show ?thesis by simp
  qed
  ultimately show ?thesis using assms by (auto simp: free_block_def owns_def)
qed

lemma pipe_evict_owns:
  assumes "pipe_inv d" and "owns (pipe_queue d @ rs) m"
  shows "\<exists>d' m'. pipe_evict d m = Some (d', m') \<and> pipe_inv d' \<and> pipe_num d' \<le> PIPE_MAX_NUM \<and>
    owns (pipe_queue d' @ rs) m'"
proof -
  have "pipe_evict d m \<noteq> None"
    using owns_free assms(2) by (fastforce simp: pipe_evict_def split: list.splits)
  then obtain d' m' where ev: "pipe_evict d m = Some (d', m')" by auto
  from pipe_evict_inv [OF assms(1) ev] assms(2) owns_free ev show ?thesis by fastforce
qed


lemma re_add_owns:
  assumes "pipe_inv d" and "owns (r # pipe_queue d @ rs) m"
  shows "\<exists>d' m'. pipe_re_add_data r d m = Some (0, d', m') \<and> pipe_inv d' \<and>
    owns (pipe_queue d' @ rs) m'"
proof -
  have "owns (pipe_queue d @ (r # rs)) m"
    using assms(2) owns_perm [of "r # pipe_queue d @ rs" "pipe_queue d @ (r # rs)" m] by simp
  from pipe_evict_owns [OF assms(1) this] obtain d1 m1 where
    ev: "pipe_evict d m = Some (d1, m1)" "pipe_inv d1" "pipe_num d1 \<le> PIPE_MAX_NUM"
    "owns (pipe_queue d1 @ (r # rs)) m1" by auto
  from pipe_write_ok [OF ev(2,3), of r] obtain d2 where
    w: "pipe_write r d1 = (0, d2)" "pipe_inv d2" "pipe_queue d2 = pipe_queue d1 @ [r]" by auto
  have "owns (pipe_queue d2 @ rs) m1"
    using ev(4) w(3) by simp
  with ev(1) w show ?thesis by (simp add: pipe_re_add_data_def)
qed

lemma add_data_owns:
  assumes "pipe_inv d" and "owns (pipe_queue d @ rs) m" and "m a = None" and "b \<noteq> []"
    and "unat sz \<le> length b"
  shows "\<exists>d' m'. pipe_add_data op (Some a) sz d (m(a \<mapsto> b)) = Some (0, d', m') \<and> pipe_inv d' \<and>
    owns (pipe_queue d' @ rs) m'"
proof -
  from checksum_xor_total [OF assms(4,5)] obtain cs
    where cs: "tools_checksum_xor b (unat sz) = Some cs" by auto
  let ?r = "\<lparr>pop = op, pdat = Some a, psize = sz, pcsum = cs\<rparr>"
  have "owns (?r # pipe_queue d @ rs) (m(a \<mapsto> b))"
    by (rule owns_add) (use assms in simp_all)
  from re_add_owns [OF assms(1) this] cs show ?thesis
    by (auto simp: pipe_add_data_def pipe_re_add_data_def split: option.splits)
qed

text \<open>The two pipes seen from one of them.\<close>

definition other_records :: "pipeSelection \<Rightarrow> sender \<Rightarrow> pipeData list" where
  "other_records type s = pipe_queue (case type of ePIPE_1 \<Rightarrow> pipe_2 s | ePIPE_2 \<Rightarrow> pipe_1 s)"

definition other_pipe_ok :: "pipeSelection \<Rightarrow> sender \<Rightarrow> bool" where
  "other_pipe_ok type s = pipe_inv (case type of ePIPE_1 \<Rightarrow> pipe_2 s | ePIPE_2 \<Rightarrow> pipe_1 s)"

lemma sender_inv_view:
  "sender_inv s \<longleftrightarrow> pipe_inv (pipe_of type s) \<and> other_pipe_ok type s \<and>
     owns (pipe_queue (pipe_of type s) @ other_records type s) (smem s)"
  by (cases type)
    (auto simp: sender_inv_def pipe_of_def other_records_def other_pipe_ok_def all_records_def
      intro: owns_perm [THEN iffD1, rotated])

lemma set_pipe_view [simp]:
  "pipe_of type (set_pipe type d m s) = d" "smem (set_pipe type d m s) = m"
  "other_records type (set_pipe type d m s) = other_records type s"
  "other_pipe_ok type (set_pipe type d m s) = other_pipe_ok type s"
  by (cases type; simp add: pipe_of_def set_pipe_def other_records_def other_pipe_ok_def)+

lemma frame_view [simp]:
  "pipe_of type (s\<lparr>smem := m\<rparr>) = pipe_of type s" "pipe_of type (s\<lparr>sent := x\<rparr>) = pipe_of type s"
  "other_records type (s\<lparr>smem := m\<rparr>) = other_records type s"
  "other_records type (s\<lparr>sent := x\<rparr>) = other_records type s"
  "other_pipe_ok type (s\<lparr>smem := m\<rparr>) = other_pipe_ok type s"
  "other_pipe_ok type (s\<lparr>sent := x\<rparr>) = other_pipe_ok type s"
  by (cases type; simp add: pipe_of_def other_records_def other_pipe_ok_def)+

lemma tx_inv:
  assumes "pipe_inv (pipe_of type s)" and "other_pipe_ok type s"
    and "owns (r # pipe_queue (pipe_of type s) @ other_records type s) (smem s)"
  shows "\<exists>s'. sender_tx_data ret r type s = Some (ret, s') \<and> sender_inv s'"
proof (cases "ret < 0")
  case True
  from re_add_owns [OF assms(1,3)] True assms(2) show ?thesis
    by (auto simp: sender_tx_data_def sender_inv_view [of _ type])
next
  case False
  from owns_free [OF assms(3)] False assms(1,2) show ?thesis
    by (auto simp: sender_tx_data_def sender_inv_view [of _ type] free_packet_def Let_def)
qed

lemma process_inv:
  assumes "sender_inv s"
  shows "\<exists>r s'. sender_network_process type isset ret s = Some (r, s') \<and> sender_inv s'"
proof (cases "isset \<and> pipe_queue (pipe_of type s) \<noteq> []")
  case False
  with assms show ?thesis
    by (auto simp: sender_network_process_def pipe_read_def)
next
  case True
  then obtain r rs where q: "pipe_queue (pipe_of type s) = r # rs"
    by (cases "pipe_queue (pipe_of type s)") auto
  then obtain d where rd: "pipe_read (pipe_of type s) = Some (r, d)" "pipe_queue d = rs"
    by (simp add: pipe_read_def)
  let ?s = "set_pipe type d (smem s) s"
  from assms have v: "pipe_inv (pipe_of type s)" "other_pipe_ok type s"
    "owns (pipe_queue (pipe_of type s) @ other_records type s) (smem s)"
    by (simp_all add: sender_inv_view [of s type])
  have d: "pipe_inv d" by (rule pipe_read_inv [OF v(1) rd(1)])
  from v(3) q rd(2) have o: "owns (r # pipe_queue d @ other_records type s) (smem s)" by simp
  then have "good_record (smem s) r" by (simp add: owns_def)
  then obtain c where c: "pipe_check_csum_data (pdat r) (psize r) (pcsum r) (smem s) = Some c"
    using checksum_xor_total
    by (fastforce simp: good_record_def pipe_check_csum_data_def split: option.splits)
  show ?thesis
  proof (cases "c < 0")
    case True2: True
    from owns_free [OF o] True rd(1) c True2 d v(2) show ?thesis
      by (auto simp: sender_network_process_def Let_def free_packet_def sender_inv_view [of _ type])
  next
    case False
    from tx_inv [of type ?s r ret] d v(2) o obtain s' where
      "sender_tx_data ret r type ?s = Some (ret, s')" "sender_inv s'" by auto
    with True rd(1) c False show ?thesis
      by (simp add: sender_network_process_def Let_def)
  qed
qed

definition packet_ok :: "packet \<Rightarrow> sender \<Rightarrow> bool" where
  "packet_ok p s \<longleftrightarrow>
     (case mk_block p of
        None \<Rightarrow> True
      | Some (a, b) \<Rightarrow> 0 \<le> mk_ret p \<and> smem s a = None \<and> b \<noteq> [] \<and> unat (mk_size p) \<le> length b)"

lemma add_inv:
  assumes "sender_inv s" and "packet_ok p s"
  shows "\<exists>r s'. sender_add_data_to_buffer op p type s = Some (r, s') \<and> sender_inv s' \<and>
    (r = 0 \<longleftrightarrow> mk_block p \<noteq> None)"
proof (cases "mk_block p")
  case None
  with assms(1) show ?thesis by (simp add: sender_add_data_to_buffer_def)
next
  case (Some ab)
  obtain a b where ab: "ab = (a, b)" by (cases ab)
  with Some assms have p: "0 \<le> mk_ret p" "smem s a = None" "b \<noteq> []"
    "unat (mk_size p) \<le> length b" by (auto simp: packet_ok_def)
  from assms have v: "pipe_inv (pipe_of type s)" "other_pipe_ok type s"
    "owns (pipe_queue (pipe_of type s) @ other_records type s) (smem s)"
    by (simp_all add: sender_inv_view [of s type])
  from add_data_owns [OF v(1,3) p(2,3,4), of op] Some ab p v(2) show ?thesis
    by (auto simp: sender_add_data_to_buffer_def Let_def sender_inv_view [of _ type])
qed

subsection \<open>Runs\<close>

text \<open>
  An event handler adds a packet (\<open>None\<close>: \<open>make_packet\<close> gave none), or a network thread
  processes one of the pipes. \<open>alloc m\<close> is the block \<open>malloc\<close> delivers when the blocks of
  \<open>m\<close> are in use.
\<close>

datatype sevent =
    AddPacket byte "byte list option" u16 pipeSelection
  | Process pipeSelection bool int

fun sevent_ok :: "sevent \<Rightarrow> bool" where
  "sevent_ok (AddPacket op (Some b) sz t) \<longleftrightarrow> b \<noteq> [] \<and> unat sz \<le> length b"
| "sevent_ok _ \<longleftrightarrow> True"

fun sender_event :: "(mem \<Rightarrow> addr) \<Rightarrow> sevent \<Rightarrow> sender \<Rightarrow> (int \<times> sender) option" where
  "sender_event alloc (AddPacket op b sz t) s =
     sender_add_data_to_buffer op
       \<lparr>mk_ret = (if b = None then -1 else 0),
        mk_block = map_option (\<lambda>c. (alloc (smem s), c)) b, mk_size = sz\<rparr> t s"
| "sender_event alloc (Process t isset ret) s = sender_network_process t isset ret s"

fun sender_run :: "(mem \<Rightarrow> addr) \<Rightarrow> sevent list \<Rightarrow> sender \<Rightarrow> sender option" where
  "sender_run alloc [] s = Some s"
| "sender_run alloc (e # es) s =
     (case sender_event alloc e s of None \<Rightarrow> None | Some (r, s') \<Rightarrow> sender_run alloc es s')"

lemma sender_inv_finite: "sender_inv s \<Longrightarrow> finite (dom (smem s))"
proof -
  assume "sender_inv s"
  then have "Some ` dom (smem s) = set (map pdat (all_records s))"
    by (simp add: sender_inv_def owns_def)
  then have "finite (Some ` dom (smem s))" by simp
  then show "finite (dom (smem s))" by (rule finite_imageD) simp
qed

lemma sender_run_inv:
  assumes "\<And>m. finite (dom m) \<Longrightarrow> m (alloc m) = None"
  shows "sender_inv s \<Longrightarrow> list_all sevent_ok es \<Longrightarrow>
    \<exists>s'. sender_run alloc es s = Some s' \<and> sender_inv s'"
proof (induction es arbitrary: s)
  case (Cons e es)
  have "\<exists>r s'. sender_event alloc e s = Some (r, s') \<and> sender_inv s'"
  proof (cases e)
    case (Process t isset ret)
    with process_inv [OF Cons.prems(1)] show ?thesis by simp
  next
    case (AddPacket op b sz t)
    let ?p = "\<lparr>mk_ret = (if b = None then -1 else 0),
      mk_block = map_option (\<lambda>c. (alloc (smem s), c)) b, mk_size = sz\<rparr>"
    have "packet_ok ?p s"
      using Cons.prems AddPacket assms [OF sender_inv_finite [OF Cons.prems(1)]]
      by (cases b) (auto simp: packet_ok_def)
    from add_inv [OF Cons.prems(1) this, of op t] AddPacket show ?thesis by auto
  qed
  with Cons show ?case by fastforce
qed simp

definition sender_start :: sender where
  "sender_start =
     (let d = \<lparr>fd_read = -1, fd_write = -1, pipe_num = 0, pipe_size = 0, pipe_queue = []\<rparr>
      in \<lparr>pipe_1 = d, pipe_2 = d, smem = Map.empty, sent = [], closed = []\<rparr>)"

lemma sender_init_inv: "sender_inv (snd (sender_init k1 f1 k2 f2 sender_start))"
proof -
  have *: "owns [] Map.empty" by (simp add: owns_def)
  have **: "pipe_inv \<lparr>fd_read = -1, fd_write = -1, pipe_num = 0, pipe_size = 0, pipe_queue = []\<rparr>"
    by (simp add: pipe_inv_def PIPE_MAX_NUM_def)
  obtain r1 d1 r2 d2 where i: "pipe_init k1 f1 = (r1, d1)" "pipe_init k2 f2 = (r2, d2)"
    by (metis surj_pair)
  then have "pipe_inv d1" "pipe_inv d2" "pipe_queue d1 = []" "pipe_queue d2 = []"
    using pipe_init_inv pipe_init_queue by (metis snd_conv)+
  then show ?thesis
    using i * **
    by (auto simp: sender_init_def sender_inv_def all_records_def sender_start_def Let_def
        sender_deinit_def split: prod.splits)
qed

subsection \<open>Properties\<close>

text \<open>
  C6: memory safety of the sender. From the initial state, whatever packets are added to the two
  pipes and however often sending fails, no operation dereferences a bad pointer or frees a block
  twice; and at every moment the allocated blocks are exactly those owned by the queued records, one
  each, so no packet is leaked.
\<close>

theorem sender_memory_safe:
  assumes "\<forall>m. finite (dom m) \<longrightarrow> m (alloc m) = None" and "list_all sevent_ok es"
  shows "\<exists>s'. sender_run alloc es (snd (sender_init k1 f1 k2 f2 sender_start)) = Some s' \<and>
    Some ` dom (smem s') = set (map pdat (all_records s')) \<and> distinct (map pdat (all_records s'))"
  using sender_run_inv [OF _ sender_init_inv assms(2), of alloc k1 f1 k2 f2] assms(1)
  by (auto simp: sender_inv_def owns_def)

lemma fresh_above:
  assumes "finite (dom m)"
  shows "m (Suc (Max (insert 0 (dom m)))) = None"
proof (rule ccontr)
  assume "m (Suc (Max (insert 0 (dom m)))) \<noteq> None"
  then have "Suc (Max (insert 0 (dom m))) \<in> insert 0 (dom m)" by auto
  with assms have "Suc (Max (insert 0 (dom m))) \<le> Max (insert 0 (dom m))"
    by (intro Max_ge) auto
  then show False by simp
qed

theorem sender_memory_safe_witness:
  "let alloc = (\<lambda>m. Suc (Max (insert 0 (dom m))))
   in \<exists>s'. sender_run alloc
        [AddPacket 1 (Some [1, 2, 3]) 3 ePIPE_1, AddPacket 2 (Some [9]) 1 ePIPE_1,
         AddPacket 2 None 1 ePIPE_2, Process ePIPE_1 True (-1), Process ePIPE_1 True 0]
        (snd (sender_init (Some (3, 4)) (\<lambda>_. True) (Some (5, 6)) (\<lambda>_. True) sender_start)) = Some s' \<and>
      Some ` dom (smem s') = set (map pdat (all_records s')) \<and>
      distinct (map pdat (all_records s'))"
  unfolding Let_def
  by (rule sender_memory_safe) (simp_all add: fresh_above)

text \<open>What a pipe keeps of its records \<open>rs\<close> when a record comes back to it.\<close>

definition over_limits :: "pipeData list \<Rightarrow> bool" where
  "over_limits rs \<longleftrightarrow> length rs > 5000 \<or> sum_list (map (\<lambda>r. unat (psize r)) rs) > 2 * 1024 * 1024"

lemma over_limits_counters:
  "pipe_inv d \<Longrightarrow> pipe_num d > PIPE_MAX_NUM \<or> pipe_size d > PIPE_MAX_SIZE \<longleftrightarrow> over_limits (pipe_queue d)"
proof -
  have "sum_list (map rec_bytes rs) = int (sum_list (map (\<lambda>r. unat (psize r)) rs))" for rs
    by (induction rs) (simp_all add: rec_bytes_def)
  then show "pipe_inv d \<Longrightarrow> ?thesis"
    by (auto simp: pipe_inv_def over_limits_def PIPE_MAX_NUM_def PIPE_MAX_SIZE_def)
qed

lemma re_add_over_limits:
  assumes "pipe_inv d" and "owns (r # pipe_queue d @ rs) m" and "free_block (pdat q) m = Some m1 \<or> \<not> over_limits (pipe_queue d)"
    and "over_limits (pipe_queue d) \<longrightarrow> (\<exists>qs. pipe_queue d = q # qs)"
  shows "\<exists>d'. pipe_re_add_data r d m = Some (0, d', if over_limits (pipe_queue d) then m1 else m) \<and>
    pipe_queue d' = (if over_limits (pipe_queue d) then tl (pipe_queue d) else pipe_queue d) @ [r]"
proof -
  from re_add_owns [OF assms(1,2)] obtain d1 m2 where ok: "pipe_re_add_data r d m = Some (0, d1, m2)" by blast
  from ok assms(3,4) show ?thesis
    by (auto simp: pipe_re_add_data_def pipe_evict_def over_limits_counters [OF assms(1)] pipe_write_def
        split: option.splits if_splits list.splits)
qed

text \<open>
  C8: one processing step of either pipe takes its oldest record. A record whose checksum is wrong is
  dropped and its block freed; a record that was sent is handed over with the content of its block,
  which is freed; a record that could not be sent returns unchanged to the end of its own queue and keeps
  its block, and only when the other records of the pipe are above its limits (5000 records, 2 MiB) the
  oldest of them is given up for it, with its block. The other pipe and all other blocks stay as they are.
\<close>

theorem sender_process_oldest:
  assumes "sender_inv s" and "pipe_queue (pipe_of type s) = r # rs" and "pdat r = Some a"
    and "smem s a = Some b"
  shows "\<exists>s'. sender_network_process type True ret s =
        Some (if tools_checksum_xor b (unat (psize r)) = Some (pcsum r) then 0 else -1, s') \<and>
      (case type of ePIPE_1 \<Rightarrow> pipe_2 s' = pipe_2 s | ePIPE_2 \<Rightarrow> pipe_1 s' = pipe_1 s) \<and>
      (if tools_checksum_xor b (unat (psize r)) \<noteq> Some (pcsum r)
         then pipe_queue (pipe_of type s') = rs \<and> sent s' = sent s \<and> smem s' = (smem s)(a := None)
       else if ret < 0
         then pipe_queue (pipe_of type s') = (if over_limits rs then tl rs else rs) @ [r] \<and> sent s' = sent s \<and>
              smem s' = (if over_limits rs then (smem s)(the (pdat (hd rs)) := None) else smem s)
       else pipe_queue (pipe_of type s') = rs \<and> smem s' = (smem s)(a := None) \<and>
            sent s' = sent s @ [(pop r, take (unat (psize r)) b)])"
proof -
  obtain d where rd: "pipe_read (pipe_of type s) = Some (r, d)" "pipe_queue d = rs"
    using assms(2) by (simp add: pipe_read_def)
  let ?s = "set_pipe type d (smem s) s"
  have v: "pipe_inv (pipe_of type s)" "owns (r # rs @ other_records type s) (smem s)"
    using assms(1,2) by (simp_all add: sender_inv_view [of s type])
  have d: "pipe_inv d" by (rule pipe_read_inv [OF v(1) rd(1)])
  have good: "b \<noteq> []" "unat (psize r) \<le> length b"
    using v(2) assms(3,4) by (auto simp: owns_def good_record_def)
  from checksum_xor_total [OF this] obtain c where c: "tools_checksum_xor b (unat (psize r)) = Some c" by auto
  have other: "(case type of ePIPE_1 \<Rightarrow> pipe_2 (set_pipe type d' m s') = pipe_2 s' | ePIPE_2 \<Rightarrow> pipe_1 (set_pipe type d' m s') = pipe_1 s')"
    for d' m s' by (cases type) (simp_all add: set_pipe_def)
  have step: "sender_network_process type True ret s =
      (if c \<noteq> pcsum r then map_option (\<lambda>s2. (-1, s2)) (free_packet (pdat r) ?s)
       else map_option (\<lambda>(res, s2). (0, s2)) (sender_tx_data ret r type ?s))"
    using rd(1) assms(3,4) c by (simp add: sender_network_process_def pipe_check_csum_data_def)
  show ?thesis
  proof (cases "c \<noteq> pcsum r \<or> 0 \<le> ret")
    case True
    then show ?thesis
      using step c assms(3,4) rd(2) other [of d "smem s" s]
      by (cases type) (auto simp: free_packet_def free_block_def sender_tx_data_def pipe_of_def set_pipe_def)
  next
    case False
    have "over_limits rs \<longrightarrow> rs \<noteq> []" by (auto simp: over_limits_def)
    then obtain q where q: "over_limits rs \<longrightarrow> (\<exists>qs. rs = q # qs)" by (cases rs) auto
    have m1: "free_block (pdat q) (smem s) = Some ((smem s)(the (pdat (hd rs)) := None)) \<or> \<not> over_limits rs"
      using q v(2) by (auto simp: owns_def good_record_iff free_block_def)
    from re_add_over_limits [OF d, of r "other_records type s" "smem s" q] v(2) rd(2) m1 q
    obtain d' where re: "pipe_re_add_data r d (smem s) =
        Some (0, d', if over_limits rs then (smem s)(the (pdat (hd rs)) := None) else smem s)"
      "pipe_queue d' = (if over_limits rs then tl rs else rs) @ [r]" by auto
    show ?thesis
      using False step c re
      by (cases type) (auto simp: sender_tx_data_def pipe_of_def set_pipe_def)
  qed
qed

definition sample_record :: pipeData where
  "sample_record = \<lparr>pop = 4, pdat = Some 1, psize = 2, pcsum = 3\<rparr>"

definition sample_sender :: sender where
  "sample_sender =
     \<lparr>pipe_1 = \<lparr>fd_read = 5, fd_write = 6, pipe_num = 0, pipe_size = 0, pipe_queue = []\<rparr>,
      pipe_2 = \<lparr>fd_read = 3, fd_write = 4, pipe_num = 1, pipe_size = 2, pipe_queue = [sample_record]\<rparr>,
      smem = [1 \<mapsto> [1, 2]], sent = [], closed = []\<rparr>"

text \<open>The only packet of the second pipe cannot be sent and comes back to it.\<close>

theorem sender_process_oldest_witness:
  "\<exists>s'. sender_network_process ePIPE_2 True (-1) sample_sender = Some (0, s') \<and>
     pipe_1 s' = pipe_1 sample_sender \<and> pipe_queue (pipe_2 s') = [sample_record] \<and> sent s' = [] \<and>
     smem s' = smem sample_sender"
proof -
  have "sender_inv sample_sender" "pipe_queue (pipe_of ePIPE_2 sample_sender) = sample_record # []"
    "pdat sample_record = Some 1" "smem sample_sender 1 = Some [1, 2]"
    by (simp_all add: sample_sender_def sample_record_def sender_inv_def pipe_inv_def owns_def all_records_def
        good_record_def pipe_of_def PIPE_MAX_NUM_def rec_bytes_def)
  note step = sender_process_oldest [OF this, of "-1"]
  have "tools_checksum_xor [1, 2] 2 = Some 3"
    using checksum_xor_defined [of "[1, 2]"] by (simp add: numeral_2_eq_2 [symmetric])
  then have "tools_checksum_xor [1, 2] (unat (psize sample_record)) = Some (pcsum sample_record)"
    by (simp add: sample_record_def)
  then show ?thesis
    using step by (simp add: over_limits_def pipe_of_def) (simp add: sample_sender_def)
qed

end
