(* ===== verification/ErrorMgr.thy ===== *)
theory ErrorMgr
  imports Storage
begin

text \<open>
  \<open>base/error.c\<close>: the error manager. A critical error is written to a log file, counted in a
  data file that survives restarts, and escalated: process exit, reboot, final. The build without
  \<open>DEBUG\<close> is modelled. The text is the formatted message, the time stamp and the kernel time are
  inputs; \<open>exit_thread_all\<close> sets \<open>threads_exit\<close>, \<open>led_noti\<close> sets \<open>err_led\<close>, the marker
  file \<open>FLG_ERR_PATH\<close> is the flag \<open>no_mon\<close>. The debug channel is left out.
\<close>

definition LOG_ERR_MAX_COUNT :: nat where "LOG_ERR_MAX_COUNT = 50"
definition LOG_CRITICAL_MAX_COUNT :: nat where "LOG_CRITICAL_MAX_COUNT = 10"
definition MAX_RETRY_EXIT :: int where "MAX_RETRY_EXIT = 3"
definition MAX_RETRY_REBOOT :: int where "MAX_RETRY_REBOOT = 3"
definition WORKING_PROPERLY_SECS :: int where "WORKING_PROPERLY_SECS = 10 * 60"
definition LOG_ERR_PATH :: string where "LOG_ERR_PATH = ''/system/mds/log/error.log''"
definition LOG_CRITICAL_PATH :: string where "LOG_CRITICAL_PATH = ''/system/mds/log/critical.log''"
definition DAT_ERR_PATH :: string where "DAT_ERR_PATH = ''/system/mds/log/error.dat''"
definition MSG_LOG_SIZE :: nat where "MSG_LOG_SIZE = 25 + 530"

datatype errorType = eERROR_NONE | eERROR_LOG | eERROR_EXIT | eERROR_REBOOT | eERROR_FINAL

fun level_code :: "errorType \<Rightarrow> int" where
  "level_code eERROR_NONE = 0"
| "level_code eERROR_LOG = 1"
| "level_code eERROR_EXIT = 2"
| "level_code eERROR_REBOOT = 3"
| "level_code eERROR_FINAL = 4"

record errorData =
  no_exit :: int
  no_reboot :: int

record err =
  eos :: os
  gError_state :: errorType
  was_checked :: bool
  no_mon :: bool
  threads_exit :: bool
  err_led :: bool

subsection \<open>The log file\<close>

text \<open>
  A log file is a sequence of records of \<open>unit\<close> bytes, the newest first. The buffer holds at
  most \<open>max_count\<close> records.
\<close>

definition insert_log_history :: "string \<Rightarrow> byte list option \<Rightarrow> nat \<Rightarrow> nat \<Rightarrow> os \<Rightarrow> int \<times> os" where
  "insert_log_history file pmsg unit max_count s =
     (case pmsg of
        None \<Rightarrow> (-1, s)
      | Some msg \<Rightarrow>
          (let (m, s1) = syscall s
           in if m \<noteq> Done then (-2, s1)
              else
                (case os_open_wr file False s1 of
                   (False, s2) \<Rightarrow> (-1, s2)
                 | (True, s2) \<Rightarrow>
                     (case os_read (the (files s2 file)) (unit * max_count) s2 of
                        (None, s3) \<Rightarrow> (-1, s3)
                      | (Some pdata, s3) \<Rightarrow>
                          (let nhist = length pdata div unit;
                               (off, s4) = write_once file 0 msg s3;
                               nhist' = (if nhist + 1 > max_count then nhist - 1 else nhist);
                               (off', s5) = write_once file off (take (unit * nhist') pdata) s4
                           in (0, s5))))))"

definition insert_log_msg :: "string \<Rightarrow> byte list \<Rightarrow> byte list option \<Rightarrow> nat \<Rightarrow> os \<Rightarrow> int \<times> os" where
  "insert_log_msg file stamp msg max_count s =
     (let date = pad0 25 (snprintf 24 (stamp @ str ''\<newline>''));
          contents = (case msg of None \<Rightarrow> [] | Some t \<Rightarrow> snprintf 529 (t @ str ''\<newline>\<newline>''))
      in insert_log_history file (Some (date @ pad0 530 contents)) MSG_LOG_SIZE max_count s)"

subsection \<open>The counters\<close>

text \<open>The digit \<open>n + '0'\<close> as a character.\<close>

definition chr_digit :: "int \<Rightarrow> byte" where
  "chr_digit n = word_of_int (n + 48)"

definition error_reset_datafile :: "os \<Rightarrow> os" where
  "error_reset_datafile s = snd (storage_save_file DAT_ERR_PATH [48, 48] s)"

definition error_read_datafile :: "os \<Rightarrow> errorData \<times> os" where
  "error_read_datafile s =
     (case storage_load_file DAT_ERR_PATH [48, 48] s of
        (ret, d, s1) \<Rightarrow>
          (if ret < 0 then \<lparr>no_exit = 0, no_reboot = 0\<rparr>
           else \<lparr>no_exit = uint (d ! 0) - 48, no_reboot = uint (d ! 1) - 48\<rparr>, s1))"

definition error_write_datafile :: "errorData \<Rightarrow> os \<Rightarrow> os" where
  "error_write_datafile e s =
     snd (storage_save_file DAT_ERR_PATH
       [chr_digit (no_exit e), chr_digit (no_reboot e)] s)"

definition error_check_working_properly :: "int \<Rightarrow> err \<Rightarrow> err" where
  "error_check_working_properly ktime s =
     (if was_checked s then s
      else
        (let s1 = s\<lparr>was_checked := True\<rparr>
         in if ktime \<ge> WORKING_PROPERLY_SECS then s1\<lparr>eos := error_reset_datafile (eos s1)\<rparr> else s1))"

subsection \<open>A critical error\<close>

definition error_make_no_mon :: "err \<Rightarrow> err" where
  "error_make_no_mon s = s\<lparr>no_mon := True\<rparr>"

definition error_rm_no_mon :: "err \<Rightarrow> err" where
  "error_rm_no_mon s = s\<lparr>no_mon := False\<rparr>"

text \<open>The first \<open>switch\<close>: count the error and decide how far to escalate.\<close>

definition escalate_reboot :: "errorData \<Rightarrow> os \<Rightarrow> errorType \<times> os" where
  "escalate_reboot e s =
     (if no_reboot e \<ge> MAX_RETRY_REBOOT then (eERROR_FINAL, s)
      else (eERROR_REBOOT, error_write_datafile (e\<lparr>no_reboot := no_reboot e + 1\<rparr>) s))"

definition escalate :: "errorType \<Rightarrow> errorData \<Rightarrow> os \<Rightarrow> errorType \<times> os" where
  "escalate level e s =
     (case level of
        eERROR_EXIT \<Rightarrow>
          if no_exit e \<ge> MAX_RETRY_EXIT then escalate_reboot (e\<lparr>no_exit := 0\<rparr>) s
          else (eERROR_EXIT, error_write_datafile (e\<lparr>no_exit := no_exit e + 1\<rparr>) s)
      | eERROR_REBOOT \<Rightarrow> escalate_reboot e s
      | _ \<Rightarrow> (level, s))"

definition error_critical :: "errorType \<Rightarrow> byte list \<Rightarrow> byte list \<Rightarrow> int \<Rightarrow> err \<Rightarrow> err" where
  "error_critical level msg stamp ktime s =
     (let (e, s1) =
        (if level = eERROR_LOG then
           (\<lparr>no_exit = 0, no_reboot = 0\<rparr>,
            s\<lparr>eos := snd (insert_log_msg LOG_ERR_PATH stamp
               (Some (snprintf 529 (take 512 msg @ str '' level '' @ dec (level_code level) @
                  str ''\<newline>''))) LOG_ERR_MAX_COUNT (eos s))\<rparr>)
         else
           (let s0 = error_check_working_properly ktime s;
                (e, o1) = error_read_datafile (eos s0);
                o2 = snd (insert_log_msg LOG_ERR_PATH stamp
                  (Some (snprintf 529 (take 512 msg @ str '' level '' @ dec (level_code level) @
                     str '' exit '' @ dec (no_exit e) @ str '' reboot '' @ dec (no_reboot e) @
                     str ''\<newline>''))) LOG_ERR_MAX_COUNT o1)
            in (e, s0\<lparr>eos := o2\<rparr>)));
          (do_level, o3) = escalate level e (eos s1);
          s2 = s1\<lparr>eos := o3, gError_state := do_level\<rparr>
      in case do_level of
           eERROR_EXIT \<Rightarrow> (error_make_no_mon s2)\<lparr>threads_exit := True\<rparr>
         | eERROR_REBOOT \<Rightarrow> (error_make_no_mon s2)\<lparr>threads_exit := True\<rparr>
         | eERROR_FINAL \<Rightarrow>
             (let o4 = snd (insert_log_msg LOG_CRITICAL_PATH stamp
                        (Some (snprintf 529 (take 512 msg @ str ''\<newline>'')))
                        LOG_CRITICAL_MAX_COUNT (eos s2))
              in (error_make_no_mon (s2\<lparr>err_led := True, eos := error_reset_datafile o4\<rparr>))
                   \<lparr>threads_exit := True\<rparr>)
         | _ \<Rightarrow> s2)"

subsection \<open>The log keeps the newest records\<close>

lemma take_concat_blocks:
  "(\<forall>r \<in> set rs. length r = u) \<Longrightarrow> take (u * n) (concat rs) = concat (take n rs)"
proof (induction rs arbitrary: n)
  case (Cons r rs)
  then show ?case by (cases n) simp_all
qed simp

lemma length_concat_blocks:
  "(\<forall>r \<in> set rs. length r = u) \<Longrightarrow> length (concat rs) = u * length rs"
  by (induction rs) simp_all

lemma insert_log_healthy:
  assumes "healthy s"
  shows "\<exists>new. insert_log_history file (Some msg) u mx s =
    (0, s\<lparr>files := (files s)(file \<mapsto> new)\<rparr>)"
  using assms
  by (auto simp: insert_log_history_def os_open_wr_def write_once_def Let_def split: option.splits)

lemma insert_log_msg_healthy:
  "healthy s \<Longrightarrow> \<exists>new. insert_log_msg file stamp msg mx s = (0, s\<lparr>files := (files s)(file \<mapsto> new)\<rparr>)"
  unfolding insert_log_msg_def Let_def by (rule insert_log_healthy)

lemma insert_log_records:
  assumes "healthy s" and "files s file = Some (concat rs)" and "\<forall>r \<in> set rs. length r = u"
    and "length msg = u" and "0 < u" and "length rs \<le> mx" and "0 < mx"
  shows "insert_log_history file (Some msg) u mx s =
    (0, s\<lparr>files := (files s)(file \<mapsto> concat (take mx (msg # rs)))\<rparr>)"
proof -
  have len: "length (concat rs) = u * length rs" by (rule length_concat_blocks [OF assms(3)])
  have all: "take (u * mx) (concat rs) = concat rs"
    using assms(6) len by simp
  let ?n = "if length rs + 1 > mx then length rs - 1 else length rs"
  have n: "min (length rs) (mx - 1) = ?n" using assms(6,7) by auto
  have new: "overlay (length msg) (take (u * ?n) (concat rs)) (overlay 0 msg (concat rs)) =
      concat (take mx (msg # rs))"
  proof (cases rs)
    case Nil
    with assms(7) show ?thesis by (cases mx) (simp_all add: overlay_def)
  next
    case (Cons r rs')
    have tk: "take mx (msg # rs) = msg # take ?n rs"
      unfolding n [symmetric] using assms(7) by (cases mx) (auto simp: min_def)
    have "length msg + u * ?n \<ge> length (concat rs)"
      using Cons assms(4,6) len by auto
    moreover have "take (u * ?n) (concat rs) = concat (take ?n rs)"
      by (rule take_concat_blocks [OF assms(3)])
    moreover have "length (take (u * ?n) (concat rs)) = u * ?n"
      using len by simp
    ultimately show ?thesis
      unfolding tk overlay_def using assms(4) by simp
  qed
  show ?thesis
    using assms(1,2,4,5) all len new
    by (simp add: insert_log_history_def os_open_wr_def write_once_def)
qed

subsection \<open>The counters as one number\<close>

text \<open>The data file holds the two counters as digits.\<close>

definition counters :: "os \<Rightarrow> int \<Rightarrow> int \<Rightarrow> bool" where
  "counters s e r \<longleftrightarrow>
     healthy s \<and> stored DAT_ERR_PATH [chr_digit e, chr_digit r] s \<and>
     0 \<le> e \<and> e \<le> 3 \<and> 0 \<le> r \<and> r \<le> 3"

lemma digit: "0 \<le> e \<Longrightarrow> e \<le> 3 \<Longrightarrow> uint (chr_digit e) = e + 48"
  unfolding chr_digit_def by (subst uint_word_of_int) simp

lemma chr_digit_0: "chr_digit 0 = 48"
  by (simp add: chr_digit_def)

lemma counters_read:
  "counters s e r \<Longrightarrow> error_read_datafile s = (\<lparr>no_exit = e, no_reboot = r\<rparr>, s)"
  using store.load_law [of s DAT_ERR_PATH "[chr_digit e, chr_digit r]" "[48, 48]"]
  by (simp add: counters_def error_read_datafile_def digit)

lemma counters_save:
  assumes "healthy s" and "0 \<le> e" "e \<le> 3" "0 \<le> r" "r \<le> 3"
  shows "counters (snd (storage_save_file DAT_ERR_PATH
     [chr_digit e, chr_digit r] s)) e r"
  using store.save_law [OF assms(1)] assms
  by (metis counters_def surjective_pairing)

lemma counters_write:
  "healthy s \<Longrightarrow> 0 \<le> no_exit d \<Longrightarrow> no_exit d \<le> 3 \<Longrightarrow> 0 \<le> no_reboot d \<Longrightarrow> no_reboot d \<le> 3 \<Longrightarrow>
     counters (error_write_datafile d s) (no_exit d) (no_reboot d)"
  unfolding error_write_datafile_def by (rule counters_save)

lemma counters_reset: "healthy s \<Longrightarrow> counters (error_reset_datafile s) 0 0"
  using counters_save [of s 0 0] by (simp add: error_reset_datafile_def chr_digit_0)

lemma log_paths: "LOG_ERR_PATH \<noteq> DAT_ERR_PATH" "LOG_CRITICAL_PATH \<noteq> DAT_ERR_PATH"
  by (simp_all add: LOG_ERR_PATH_def LOG_CRITICAL_PATH_def DAT_ERR_PATH_def)

lemma counters_log:
  assumes "counters s e r" and "file \<noteq> DAT_ERR_PATH"
  shows "counters (snd (insert_log_msg file stamp msg mx s)) e r"
proof -
  from assms(1) have "healthy s" by (simp add: counters_def)
  from insert_log_msg_healthy [OF this] obtain new
    where "insert_log_msg file stamp msg mx s = (0, s\<lparr>files := (files s)(file \<mapsto> new)\<rparr>)" by blast
  with assms show ?thesis by (simp add: counters_def stored_def)
qed

lemma counters_healthy: "counters s e r \<Longrightarrow> healthy s"
  by (simp add: counters_def)

text \<open>The part of \<open>error_critical\<close> before the decision leaves the counters alone.\<close>

lemma counters_escalate:
  assumes "counters s e r"
  shows "escalate eERROR_REBOOT \<lparr>no_exit = e, no_reboot = r\<rparr> s = (l, s') \<Longrightarrow>
      (if r < 3 then l = eERROR_REBOOT \<and> counters s' e (r + 1) else l = eERROR_FINAL \<and> s' = s)"
    and "escalate eERROR_EXIT \<lparr>no_exit = e, no_reboot = r\<rparr> s = (l, s') \<Longrightarrow>
      (if e < 3 then l = eERROR_EXIT \<and> counters s' (e + 1) r
       else if r < 3 then l = eERROR_REBOOT \<and> counters s' 0 (r + 1)
       else l = eERROR_FINAL \<and> s' = s)"
  using assms counters_write [of s "\<lparr>no_exit = e, no_reboot = r + 1\<rparr>"]
    counters_write [of s "\<lparr>no_exit = 0, no_reboot = r + 1\<rparr>"]
    counters_write [of s "\<lparr>no_exit = e + 1, no_reboot = r\<rparr>"]
  by (auto simp: escalate_def escalate_reboot_def MAX_RETRY_REBOOT_def MAX_RETRY_EXIT_def
      counters_def split: if_splits)

subsection \<open>Properties\<close>

lemma critical_counters:
  assumes "counters (eos (error_check_working_properly ktime s)) e r"
    and "level = eERROR_EXIT \<or> level = eERROR_REBOOT"
  obtains o1 l o2 where "counters o1 e r"
    and "escalate level \<lparr>no_exit = e, no_reboot = r\<rparr> o1 = (l, o2)"
    and "gError_state (error_critical level msg stamp ktime s) = l"
    and "l \<noteq> eERROR_NONE \<Longrightarrow> l \<noteq> eERROR_LOG \<Longrightarrow>
         threads_exit (error_critical level msg stamp ktime s)"
    and "l = eERROR_FINAL \<Longrightarrow> healthy o2 \<Longrightarrow>
         counters (eos (error_critical level msg stamp ktime s)) 0 0"
    and "l \<noteq> eERROR_FINAL \<Longrightarrow> eos (error_critical level msg stamp ktime s) = o2"
proof -
  let ?s0 = "error_check_working_properly ktime s"
  let ?o1 = "snd (insert_log_msg LOG_ERR_PATH stamp
    (Some (snprintf 529 (take 512 msg @ str '' level '' @ dec (level_code level) @
       str '' exit '' @ dec e @ str '' reboot '' @ dec r @ str ''\<newline>''))) LOG_ERR_MAX_COUNT
    (eos ?s0))"
  have c: "counters ?o1 e r" by (rule counters_log [OF assms(1) log_paths(1)])
  obtain l o2 where l: "escalate level \<lparr>no_exit = e, no_reboot = r\<rparr> ?o1 = (l, o2)" by fastforce
  have log: "counters (error_reset_datafile (snd (insert_log_msg LOG_CRITICAL_PATH stamp m n o2))) 0 0"
    if "healthy o2" for m n
  proof -
    from insert_log_msg_healthy [OF that] obtain new where
      "insert_log_msg LOG_CRITICAL_PATH stamp m n o2 =
         (0, o2\<lparr>files := (files o2)(LOG_CRITICAL_PATH \<mapsto> new)\<rparr>)" by blast
    with that show ?thesis by (simp add: counters_reset)
  qed
  have "level \<noteq> eERROR_LOG" using assms(2) by auto
  then show ?thesis
    by (intro that [OF c l])
      (simp_all add: error_critical_def counters_read [OF assms(1)] Let_def error_make_no_mon_def
        l log split: errorType.split)
qed

lemma critical_exit:
  assumes "counters (eos (error_check_working_properly ktime s)) e r"
  shows "let s' = error_critical eERROR_EXIT msg stamp ktime s
    in threads_exit s' \<and>
       (if e < 3 then gError_state s' = eERROR_EXIT \<and> counters (eos s') (e + 1) r
        else if r < 3 then gError_state s' = eERROR_REBOOT \<and> counters (eos s') 0 (r + 1)
        else gError_state s' = eERROR_FINAL \<and> counters (eos s') 0 0)"
proof -
  obtain o1 l o2 where *: "counters o1 e r"
    "escalate eERROR_EXIT \<lparr>no_exit = e, no_reboot = r\<rparr> o1 = (l, o2)"
    "gError_state (error_critical eERROR_EXIT msg stamp ktime s) = l"
    "l \<noteq> eERROR_NONE \<Longrightarrow> l \<noteq> eERROR_LOG \<Longrightarrow>
         threads_exit (error_critical eERROR_EXIT msg stamp ktime s)"
    "l = eERROR_FINAL \<Longrightarrow> healthy o2 \<Longrightarrow>
         counters (eos (error_critical eERROR_EXIT msg stamp ktime s)) 0 0"
    "l \<noteq> eERROR_FINAL \<Longrightarrow> eos (error_critical eERROR_EXIT msg stamp ktime s) = o2"
    using critical_counters [OF assms, of eERROR_EXIT msg stamp] by metis
  from counters_escalate(2) [OF *(1,2)] *(1,3-6) counters_healthy [OF *(1)] show ?thesis
    by (simp add: Let_def split: if_splits)
qed

lemma critical_reboot:
  assumes "counters (eos (error_check_working_properly ktime s)) e r"
  shows "let s' = error_critical eERROR_REBOOT msg stamp ktime s
    in threads_exit s' \<and>
       (if r < 3 then gError_state s' = eERROR_REBOOT \<and> counters (eos s') e (r + 1)
        else gError_state s' = eERROR_FINAL \<and> counters (eos s') 0 0)"
proof -
  obtain o1 l o2 where *: "counters o1 e r"
    "escalate eERROR_REBOOT \<lparr>no_exit = e, no_reboot = r\<rparr> o1 = (l, o2)"
    "gError_state (error_critical eERROR_REBOOT msg stamp ktime s) = l"
    "l \<noteq> eERROR_NONE \<Longrightarrow> l \<noteq> eERROR_LOG \<Longrightarrow>
         threads_exit (error_critical eERROR_REBOOT msg stamp ktime s)"
    "l = eERROR_FINAL \<Longrightarrow> healthy o2 \<Longrightarrow>
         counters (eos (error_critical eERROR_REBOOT msg stamp ktime s)) 0 0"
    "l \<noteq> eERROR_FINAL \<Longrightarrow> eos (error_critical eERROR_REBOOT msg stamp ktime s) = o2"
    using critical_counters [OF assms, of eERROR_REBOOT msg stamp] by metis
  from counters_escalate(1) [OF *(1,2)] *(1,3-6) counters_healthy [OF *(1)] show ?thesis
    by (simp add: Let_def split: if_splits)
qed

text \<open>The escalation seen from outside: one number below 16.\<close>

definition escalation :: "err \<Rightarrow> int \<Rightarrow> bool" where
  "escalation s v \<longleftrightarrow> counters (eos s) (v mod 4) (v div 4) \<and> 0 \<le> v \<and> v < 16"

text \<open>
  C28: escalation is a counter. While the device has been up for less than ten minutes, an
  \<open>eERROR_EXIT\<close> advances the persistent counter by one modulo 16 and is escalated to a reboot
  after every third exit and to a final error exactly when the counter wraps around; an
  \<open>eERROR_REBOOT\<close> advances it by four, and is final when that would reach 16. Every one of them
  ends the threads.
\<close>

theorem error_escalation_counter:
  assumes "escalation s v" and "ktime < WORKING_PROPERLY_SECS"
  shows "(let s' = error_critical eERROR_EXIT msg stamp ktime s
     in escalation s' ((v + 1) mod 16) \<and>
        gError_state s' = (if v = 15 then eERROR_FINAL
                           else if v mod 4 = 3 then eERROR_REBOOT else eERROR_EXIT) \<and>
        threads_exit s') \<and>
    (let s' = error_critical eERROR_REBOOT msg stamp ktime s
     in escalation s' (if v + 4 < 16 then v + 4 else 0) \<and>
        gError_state s' = (if v + 4 < 16 then eERROR_REBOOT else eERROR_FINAL) \<and> threads_exit s')"
proof -
  have s0: "eos (error_check_working_properly ktime s) = eos s"
    using assms(2) by (simp add: error_check_working_properly_def)
  from assms(1) have c: "counters (eos (error_check_working_properly ktime s)) (v mod 4) (v div 4)"
    and v: "0 \<le> v" "v < 16"
    by (auto simp: escalation_def s0)
  from v have "v \<in> {0,1,2,3,4,5,6,7,8,9,10,11,12,13,14,15}"
    unfolding insert_iff empty_iff by presburger
  then show ?thesis
    using critical_exit [OF c, of msg stamp] critical_reboot [OF c, of msg stamp]
    unfolding escalation_def Let_def insert_iff empty_iff by (elim disjE) simp_all
qed

lemma error_start_escalation:
  "escalation \<lparr>eos = error_reset_datafile \<lparr>files = Map.empty, script = []\<rparr>,
     gError_state = eERROR_NONE, was_checked = False, no_mon = False, threads_exit = False,
     err_led = False\<rparr> 0"
  using counters_reset [of "\<lparr>files = Map.empty, script = []\<rparr>"]
  by (simp add: escalation_def healthy_def)

theorem error_escalation_counter_witness:
  "let s = \<lparr>eos = error_reset_datafile \<lparr>files = Map.empty, script = []\<rparr>,
       gError_state = eERROR_NONE, was_checked = False, no_mon = False, threads_exit = False,
       err_led = False\<rparr>; v = 0
   in (let s' = error_critical eERROR_EXIT (str ''x'') (str ''now'') 20 s
     in escalation s' ((v + 1) mod 16) \<and>
        gError_state s' = (if v = 15 then eERROR_FINAL
                           else if v mod 4 = 3 then eERROR_REBOOT else eERROR_EXIT) \<and>
        threads_exit s') \<and>
    (let s' = error_critical eERROR_REBOOT (str ''x'') (str ''now'') 20 s
     in escalation s' (if v + 4 < 16 then v + 4 else 0) \<and>
        gError_state s' = (if v + 4 < 16 then eERROR_REBOOT else eERROR_FINAL) \<and> threads_exit s')"
  unfolding Let_def [of "\<lparr>eos = _, gError_state = _, was_checked = _, no_mon = _,
      threads_exit = _, err_led = _\<rparr>"] Let_def [of "0::int"]
  by (rule error_escalation_counter [OF error_start_escalation])
    (simp add: WORKING_PROPERLY_SECS_def)

text \<open>
  The escalation does not get beyond process restarts on a device that has been up for ten
  minutes. The uptime is that of the kernel and the check is repeated by every new process, so the
  first critical error of each process clears the counters of the processes before it: however many
  processes die of \<open>eERROR_EXIT\<close> in a row, the error stays at that level.
\<close>

theorem error_exit_never_escalates:
  assumes "healthy (eos s)" and "list_all (\<lambda>(msg, stamp, ktime). ktime \<ge> WORKING_PROPERLY_SECS) lives"
    and "lives \<noteq> []"
  shows "let s' = foldl (\<lambda>s (msg, stamp, ktime).
             error_critical eERROR_EXIT msg stamp ktime (s\<lparr>was_checked := False\<rparr>)) s lives
         in gError_state s' = eERROR_EXIT \<and> counters (eos s') 1 0"
  using assms(2,3)
proof (induction lives rule: rev_induct)
  case (snoc x xs)
  obtain msg stamp ktime where x: "x = (msg, stamp, ktime)" by (cases x)
  let ?f = "\<lambda>s (msg, stamp, ktime).
    error_critical eERROR_EXIT msg stamp ktime (s\<lparr>was_checked := False\<rparr>)"
  let ?s = "foldl ?f s xs"
  have "healthy (eos ?s)"
    using snoc assms(1) by (cases "xs = []") (auto simp: Let_def dest: counters_healthy)
  moreover have "ktime \<ge> WORKING_PROPERLY_SECS" using snoc.prems x by simp
  ultimately have
    "counters (eos (error_check_working_properly ktime (?s\<lparr>was_checked := False\<rparr>))) 0 0"
    by (simp add: error_check_working_properly_def counters_reset)
  from critical_exit [OF this, of msg stamp] show ?case
    by (simp add: Let_def x)
qed simp

theorem error_exit_never_escalates_witness:
  "let s' = foldl (\<lambda>s (msg, stamp, ktime).
             error_critical eERROR_EXIT msg stamp ktime (s\<lparr>was_checked := False\<rparr>))
           \<lparr>eos = \<lparr>files = Map.empty, script = []\<rparr>, gError_state = eERROR_NONE,
            was_checked = False, no_mon = False, threads_exit = False, err_led = False\<rparr>
           [(str ''a'', str ''t'', 600), (str ''b'', str ''t'', 700), (str ''c'', str ''t'', 800),
            (str ''d'', str ''t'', 900), (str ''e'', str ''t'', 1000)]
         in gError_state s' = eERROR_EXIT \<and> counters (eos s') 1 0"
  by (rule error_exit_never_escalates) (simp_all add: healthy_def WORKING_PROPERLY_SECS_def)

text \<open>
  A log file keeps the newest records. On a device without faults, inserting a record puts it
  in front of the stored ones and drops the oldest when the file is full.
\<close>

theorem log_history_keeps_newest:
  assumes "healthy s" and "files s file = Some (concat rs)" and "\<forall>r \<in> set rs. length r = unit"
    and "length msg = unit" and "0 < unit" and "length rs \<le> max_count" and "0 < max_count"
  shows "insert_log_history file (Some msg) unit max_count s =
    (0, s\<lparr>files := (files s)(file \<mapsto> concat (take max_count (msg # rs)))\<rparr>)"
  by (rule insert_log_records) (rule assms)+

theorem log_history_keeps_newest_witness:
  "insert_log_history ''log'' (Some [7, 8]) 2 3
      \<lparr>files = [''log'' \<mapsto> concat [[5, 6], [3, 4], [1, 2]]], script = []\<rparr> =
    (0, \<lparr>files = [''log'' \<mapsto> concat [[5, 6], [3, 4], [1, 2]]], script = []\<rparr>
          \<lparr>files := (files \<lparr>files = [''log'' \<mapsto> concat [[5, 6], [3, 4], [1, 2]]], script = []\<rparr>)
             (''log'' \<mapsto> concat (take 3 ([7, 8] # [[5, 6], [3, 4], [1, 2]])))\<rparr>)"
  by (rule log_history_keeps_newest) (simp_all add: healthy_def)

end
