(* ===== verification/Validation.thy ===== *)
theory Validation
  imports Posix
begin

text \<open>
  \<open>util/validation.c\<close>: the checks on values that arrive by SMS or from the configuration. A
  buffer is the list of its bytes; reading beyond its end is undefined (\<open>None\<close>), so a string
  function needs a terminating NUL inside the buffer. Results are \<open>DEFINES_MDS_OK\<close> and
  \<open>DEFINES_MDS_NOK\<close>.
\<close>

datatype mdsReturn = DEFINES_MDS_OK | DEFINES_MDS_NOK

definition mds_of :: "bool \<Rightarrow> mdsReturn" where
  "mds_of b = (if b then DEFINES_MDS_OK else DEFINES_MDS_NOK)"

lemma mds_of_OK [simp]: "mds_of b = DEFINES_MDS_OK \<longleftrightarrow> b"
  by (simp add: mds_of_def)

definition DEFINES_IP_LEN :: nat where "DEFINES_IP_LEN = 15"

subsection \<open>Strings in buffers\<close>

definition cstr :: "byte list \<Rightarrow> byte list" where
  "cstr buff = takeWhile (\<lambda>c. c \<noteq> 0) buff"

definition strlen :: "byte list \<Rightarrow> nat option" where
  "strlen buff = (if 0 \<in> set buff then Some (length (cstr buff)) else None)"

definition strnlen :: "byte list \<Rightarrow> nat \<Rightarrow> nat option" where
  "strnlen buff n =
     (if 0 \<in> set (take n buff) \<or> n \<le> length buff then Some (length (cstr (take n buff))) else None)"

definition isdigit :: "byte \<Rightarrow> bool" where
  "isdigit c \<longleftrightarrow> 48 \<le> c \<and> c \<le> 57"

definition isalpha :: "byte \<Rightarrow> bool" where
  "isalpha c \<longleftrightarrow> 65 \<le> c \<and> c \<le> 90 \<or> 97 \<le> c \<and> c \<le> 122"

subsection \<open>Checks\<close>

fun all_digits :: "byte list \<Rightarrow> bool" where
  "all_digits [] = True"
| "all_digits (c # cs) = (if \<not> isdigit c then False else all_digits cs)"

definition validation_check_phonenum :: "byte list \<Rightarrow> mdsReturn option" where
  "validation_check_phonenum buff =
     (case strlen buff of
        None \<Rightarrow> None
      | Some len \<Rightarrow>
          if len < 7 then Some DEFINES_MDS_NOK else Some (mds_of (all_digits (take len buff))))"

definition validation_check_imei :: "byte list \<Rightarrow> mdsReturn option" where
  "validation_check_imei buff =
     (case strlen buff of
        None \<Rightarrow> None
      | Some len \<Rightarrow>
          if len \<noteq> 15 then Some DEFINES_MDS_NOK else Some (mds_of (all_digits (take len buff))))"

text \<open>The loop over the characters of an address: the current digit run and the dots so far.\<close>

fun ip_loop :: "byte list \<Rightarrow> nat \<Rightarrow> nat \<Rightarrow> bool" where
  "ip_loop [] nNum nDot = (nDot = 3)"
| "ip_loop (c # cs) nNum nDot =
     (if c < 48 \<or> 57 < c then (if c = 46 then ip_loop cs 0 (nDot + 1) else False)
      else if nNum + 1 > 3 then False else ip_loop cs (nNum + 1) nDot)"

definition validation_check_ip :: "byte list \<Rightarrow> mdsReturn option" where
  "validation_check_ip buff =
     (case strnlen buff DEFINES_IP_LEN of
        None \<Rightarrow> None
      | Some len \<Rightarrow>
          if len > 15 \<or> len < 7 then Some DEFINES_MDS_NOK
          else Some (mds_of (ip_loop (take len buff) 0 0)))"

definition isalpha_apn :: "byte \<Rightarrow> bool" where
  "isalpha_apn ch \<longleftrightarrow>
     97 \<le> ch \<and> ch \<le> 122 \<or> 65 \<le> ch \<and> ch \<le> 90 \<or> 48 \<le> ch \<and> ch \<le> 57 \<or> ch = 46"

definition validation_check_dns_addr :: "byte list \<Rightarrow> nat \<Rightarrow> mdsReturn option" where
  "validation_check_dns_addr buff buff_len =
     (if list_all isalpha_apn (take buff_len buff)
      then (if buff_len \<le> length buff then Some DEFINES_MDS_OK else None)
      else Some DEFINES_MDS_NOK)"

text \<open>The copy loop: it drops the quotes, counts them, and writes past the 512 bytes if it must.\<close>

fun apn_loop :: "byte list \<Rightarrow> nat \<Rightarrow> byte list \<Rightarrow> (nat \<times> byte list) option" where
  "apn_loop [] cnt apn = Some (cnt, apn)"
| "apn_loop (c # cs) cnt apn =
     (if c = 34 then apn_loop cs (cnt + 1) apn
      else if length apn < 512 then apn_loop cs cnt (apn @ [c]) else None)"

definition validation_check_apn_addr :: "byte list \<Rightarrow> nat \<Rightarrow> mdsReturn option" where
  "validation_check_apn_addr buff buff_len =
     (case read_mem buff buff_len of
        None \<Rightarrow> None
      | Some cs \<Rightarrow>
          (case apn_loop cs 0 [] of
             None \<Rightarrow> None
           | Some (chk_cnt, apn) \<Rightarrow>
               if chk_cnt > 2 then Some DEFINES_MDS_NOK
               else if apn = [] then Some DEFINES_MDS_NOK
               else validation_check_dns_addr apn (length apn)))"

definition validation_check_is_num :: "byte list \<Rightarrow> nat \<Rightarrow> mdsReturn option" where
  "validation_check_is_num buff buff_len =
     (if list_ex isalpha (take buff_len buff) then Some DEFINES_MDS_NOK
      else if buff_len \<le> length buff then Some DEFINES_MDS_OK else None)"

text \<open>The bounds are the decimal constants of the source.\<close>

definition validation_check_lat_lon :: "real \<Rightarrow> real \<Rightarrow> mdsReturn" where
  "validation_check_lat_lon lat lon =
     (if lat < 33.059704 \<or> lat > 38.625083 \<or> lon < 124.904331 \<or> lon > 131.876004
      then DEFINES_MDS_NOK else DEFINES_MDS_OK)"

subsection \<open>What is accepted\<close>

lemma all_digits_iff: "all_digits cs \<longleftrightarrow> list_all isdigit cs"
  by (induction cs) auto

lemma take_strlen: "strlen buff = Some n \<Longrightarrow> take n buff = cstr buff"
  by (auto simp: strlen_def cstr_def takeWhile_eq_take [symmetric] split: if_splits)

lemma strnlen_take: "strnlen buff n = Some k \<Longrightarrow> take k buff = cstr (take n buff) \<and> k \<le> n"
proof -
  assume "strnlen buff n = Some k"
  then have k: "k = length (cstr (take n buff))" by (auto simp: strnlen_def split: if_splits)
  have "length (cstr (take n buff)) \<le> length (take n buff)"
    unfolding cstr_def by (rule length_takeWhile_le)
  then have le: "k \<le> n" using k by simp
  have "cstr (take n buff) = take k (take n buff)"
    unfolding k cstr_def by (rule takeWhile_eq_take [of "\<lambda>c. c \<noteq> 0" "take n buff"])
  with le show ?thesis by (simp add: min_def)
qed

text \<open>The dotted groups of an address.\<close>

fun groups :: "byte list \<Rightarrow> byte list list" where
  "groups [] = [[]]"
| "groups (c # cs) =
     (if c = 46 then [] # groups cs
      else (case groups cs of [] \<Rightarrow> [[c]] | g # gs \<Rightarrow> (c # g) # gs))"

lemma groups_ne [simp]: "groups cs \<noteq> []"
  by (induction cs) (auto split: list.splits)

lemma ip_loop_groups:
  "ip_loop cs n d \<longleftrightarrow>
     d + length (groups cs) = 4 \<and> n + length (hd (groups cs)) \<le> 3 + (if hd (groups cs) = [] then n else 0) \<and>
     (\<forall>g \<in> set (tl (groups cs)). length g \<le> 3) \<and> (\<forall>g \<in> set (groups cs). list_all isdigit g)"
proof (induction cs arbitrary: n d)
  case Nil
  then show ?case by auto
next
  case (Cons c cs)
  obtain g gs where g: "groups cs = g # gs" by (cases "groups cs") auto
  show ?case
  proof (cases "c = 46")
    case True
    then show ?thesis using Cons [of 0 "d + 1"] g by (auto simp: isdigit_def)
  next
    case False
    show ?thesis
    proof (cases "isdigit c")
      case True
      with False show ?thesis using Cons [of "n + 1" d] g
        by (auto simp: isdigit_def not_less)
    next
      case nd: False
      with False g show ?thesis by (auto simp: isdigit_def not_le)
    qed
  qed
qed

subsection \<open>Properties\<close>

text \<open>
  The address check looks at the first 15 characters of the string and accepts exactly those
  that are at least 7 characters long and consist of four groups of at most three decimal digits
  (possibly none) separated by dots.
\<close>

theorem ip_accepts_exactly:
  assumes "strnlen buff DEFINES_IP_LEN = Some len"
  shows "validation_check_ip buff = Some DEFINES_MDS_OK \<longleftrightarrow>
    (let a = cstr (take 15 buff)
     in 7 \<le> length a \<and> length (groups a) = 4 \<and>
        (\<forall>g \<in> set (groups a). length g \<le> 3 \<and> list_all isdigit g))"
proof -
  from strnlen_take [OF assms] have t: "take len buff = cstr (take 15 buff)" "len \<le> 15"
    by (auto simp: DEFINES_IP_LEN_def)
  from assms have len: "len = length (cstr (take 15 buff))"
    by (auto simp: strnlen_def DEFINES_IP_LEN_def split: if_splits)
  obtain g gs where g: "groups (cstr (take 15 buff)) = g # gs"
    by (cases "groups (cstr (take 15 buff))") auto
  show ?thesis
    using assms t len g
    by (auto simp: validation_check_ip_def ip_loop_groups Let_def)
qed

theorem ip_accepts_exactly_witness:
  "validation_check_ip (str ''192.168.0.12'' @ [0]) = Some DEFINES_MDS_OK \<longleftrightarrow>
    (let a = cstr (take 15 (str ''192.168.0.12'' @ [0]))
     in 7 \<le> length a \<and> length (groups a) = 4 \<and>
        (\<forall>g \<in> set (groups a). length g \<le> 3 \<and> list_all isdigit g))"
  by (rule ip_accepts_exactly [where len = 12]) code_simp

text \<open>
  The check is weaker than its name. It accepts numbers above 255, empty groups, and a string
  whose first 15 characters look like an address, whatever follows.
\<close>

theorem ip_accepts_non_addresses:
  "validation_check_ip (str ''999.999.999.999'' @ [0]) = Some DEFINES_MDS_OK \<and>
   validation_check_ip (str ''123.456..'' @ [0]) = Some DEFINES_MDS_OK \<and>
   validation_check_ip (str ''255.255.255.255.example'' @ [0]) = Some DEFINES_MDS_OK"
  by code_simp

text \<open>
  A terminated string is accepted as a telephone number exactly when it has at least seven
  characters, as an IMEI exactly when it has fifteen, and in both cases all of them are digits.
\<close>

theorem number_checks_exact:
  assumes "0 \<in> set buff"
  shows "(validation_check_phonenum buff = Some DEFINES_MDS_OK \<longleftrightarrow>
      7 \<le> length (cstr buff) \<and> list_all isdigit (cstr buff)) \<and>
    (validation_check_imei buff = Some DEFINES_MDS_OK \<longleftrightarrow>
      length (cstr buff) = 15 \<and> list_all isdigit (cstr buff))"
proof -
  have s: "strlen buff = Some (length (cstr buff))" using assms by (simp add: strlen_def)
  show ?thesis
    using take_strlen [OF s]
    by (auto simp: validation_check_phonenum_def validation_check_imei_def s all_digits_iff)
qed

theorem number_checks_exact_witness:
  "(validation_check_phonenum (str ''01012345678'' @ [0]) = Some DEFINES_MDS_OK \<longleftrightarrow>
      7 \<le> length (cstr (str ''01012345678'' @ [0])) \<and>
      list_all isdigit (cstr (str ''01012345678'' @ [0]))) \<and>
    (validation_check_imei (str ''01012345678'' @ [0]) = Some DEFINES_MDS_OK \<longleftrightarrow>
      length (cstr (str ''01012345678'' @ [0])) = 15 \<and>
      list_all isdigit (cstr (str ''01012345678'' @ [0])))"
  by (rule number_checks_exact) simp

end
