(* ===== verification/Distance.thy ===== *)
theory Distance
  imports Prelude
begin

text \<open>
  The great-circle distance of \<open>base/mileage.c\<close>. Floating-point values are real numbers. The one
  effect of rounding the code reacts to is modelled: the argument of \<open>acos\<close> is computed with a
  rounding \<open>rnd\<close>, and when the rounded value leaves \<open>[-1, 1]\<close> the library returns NaN and the
  functions return -1.1. With \<open>rnd = (\<lambda>x. x)\<close> the formula is exact.
\<close>

definition rad :: "real \<Rightarrow> real" where
  "rad d = d * pi / 180"

definition acos_arg :: "real \<Rightarrow> real \<Rightarrow> real \<Rightarrow> real \<Rightarrow> real" where
  "acos_arg tlat1 tlat2 tlon1 tlon2 =
     sin (rad tlat1) * sin (rad tlat2) + cos (rad tlat1) * cos (rad tlat2) * cos (rad (tlon1 - tlon2))"

definition arc_km :: "real \<Rightarrow> real" where
  "arc_km a = arccos a * 180 / pi * 60 * 1.1515 * 1.609344"

definition get_distance_km :: "(real \<Rightarrow> real) \<Rightarrow> real \<Rightarrow> real \<Rightarrow> real \<Rightarrow> real \<Rightarrow> real" where
  "get_distance_km rnd tlat1 tlat2 tlon1 tlon2 =
     (if tlat1 = tlat2 \<and> tlon1 = tlon2 then 0
      else (let a = rnd (acos_arg tlat1 tlat2 tlon1 tlon2)
            in if a < -1 \<or> 1 < a then -1.1 else arc_km a))"

definition get_distance_m :: "(real \<Rightarrow> real) \<Rightarrow> real \<Rightarrow> real \<Rightarrow> real \<Rightarrow> real \<Rightarrow> real" where
  "get_distance_m rnd tlat1 tlat2 tlon1 tlon2 =
     (if tlat1 = tlat2 \<and> tlon1 = tlon2 then 0
      else (let a = rnd (acos_arg tlat1 tlat2 tlon1 tlon2)
            in if a < -1 \<or> 1 < a then -1.1 else arc_km a * 1000))"

text \<open>\<open>(int) x\<close> for a value in range: truncation towards zero.\<close>

definition to_int :: "real \<Rightarrow> int" where
  "to_int x = (if 0 \<le> x then \<lfloor>x\<rfloor> else \<lceil>x\<rceil>)"

lemma to_int_of_int [simp]: "to_int (of_int k) = k"
  by (simp add: to_int_def)

lemma to_int_0 [simp]: "to_int 0 = 0"
  by (simp add: to_int_def)

lemma to_int_nonneg: "0 \<le> x \<Longrightarrow> 0 \<le> to_int x"
  by (simp add: to_int_def)

lemma to_int_neg: "to_int (-1.1) = -1"
  by (simp add: to_int_def ceiling_eq_iff)

lemma arc_km_bounds: "-1 \<le> a \<Longrightarrow> a \<le> 1 \<Longrightarrow> 0 \<le> arc_km a \<and> arc_km a \<le> 20015"
proof -
  assume a: "-1 \<le> a" "a \<le> 1"
  define t where "t = arccos a / pi"
  from a have t: "0 \<le> t" "t \<le> 1"
    by (simp_all add: t_def arccos_lbound arccos_ubound divide_le_eq)
  have "arc_km a = t * (1563603426 / 78125)"
    by (simp add: arc_km_def t_def)
  with t show ?thesis by linarith
qed

lemma get_distance_m_cases:
  "get_distance_m rnd a b c d = -1.1 \<or>
   0 \<le> get_distance_m rnd a b c d \<and> get_distance_m rnd a b c d \<le> 20015000"
  using arc_km_bounds by (auto simp: get_distance_m_def Let_def not_less)

lemma get_distance_km_cases:
  "get_distance_km rnd a b c d = -1.1 \<or>
   0 \<le> get_distance_km rnd a b c d \<and> get_distance_km rnd a b c d \<le> 20015"
  using arc_km_bounds by (auto simp: get_distance_km_def Let_def not_less)

text \<open>The exact argument of \<open>acos\<close> is a cosine, so only rounding can produce NaN.\<close>

lemma acos_arg_bounds: "-1 \<le> acos_arg a b c d" "acos_arg a b c d \<le> 1"
proof -
  let ?x = "rad a" and ?y = "rad b" and ?z = "cos (rad (c - d))"
  have z: "-1 \<le> ?z" "?z \<le> 1" by simp_all
  have "(1 + ?z) * cos (?x - ?y) - (1 - ?z) * cos (?x + ?y) = 2 * acos_arg a b c d"
    by (simp add: acos_arg_def cos_add cos_diff algebra_simps)
  moreover have "\<bar>(1 + ?z) * cos (?x - ?y)\<bar> \<le> 1 + ?z" "\<bar>(1 - ?z) * cos (?x + ?y)\<bar> \<le> 1 - ?z"
  proof -
    have "\<bar>1 + ?z\<bar> = 1 + ?z" "\<bar>1 - ?z\<bar> = 1 - ?z" using z by linarith+
    moreover have "0 \<le> 1 + ?z" "0 \<le> 1 - ?z" using z by linarith+
    then have "(1 + ?z) * \<bar>cos (?x - ?y)\<bar> \<le> 1 + ?z" "(1 - ?z) * \<bar>cos (?x + ?y)\<bar> \<le> 1 - ?z"
      by (simp_all add: mult_left_le)
    ultimately show "\<bar>(1 + ?z) * cos (?x - ?y)\<bar> \<le> 1 + ?z" "\<bar>(1 - ?z) * cos (?x + ?y)\<bar> \<le> 1 - ?z"
      by (simp_all only: abs_mult)
  qed
  ultimately show "-1 \<le> acos_arg a b c d" "acos_arg a b c d \<le> 1"
    by linarith+
qed

lemma acos_arg_sym: "acos_arg a b c d = acos_arg b a d c"
proof -
  have "cos (rad (c - d)) = cos (rad (d - c))"
  proof -
    have "rad (c - d) = - rad (d - c)" by (simp add: rad_def field_simps)
    then show ?thesis by simp
  qed
  then show ?thesis by (simp add: acos_arg_def algebra_simps)
qed

text \<open>
  A distance is either the error value -1.1 (only when rounding pushed the argument of
  \<open>acos\<close> out of range) or lies between 0 and half the circumference of the earth; computed exactly
  it is never an error, and it does not depend on the direction.
\<close>

theorem distance_range_and_symmetry:
  "(get_distance_m rnd a b c d = -1.1 \<or>
    0 \<le> get_distance_m rnd a b c d \<and> get_distance_m rnd a b c d \<le> 20015000) \<and>
   0 \<le> get_distance_m (\<lambda>x. x) a b c d \<and> get_distance_m rnd a b c d = get_distance_m rnd b a d c \<and>
   get_distance_km rnd a b c d = get_distance_km rnd b a d c"
proof (intro conjI)
  show "get_distance_m rnd a b c d = -1.1 \<or>
    0 \<le> get_distance_m rnd a b c d \<and> get_distance_m rnd a b c d \<le> 20015000"
    by (rule get_distance_m_cases)
  show "0 \<le> get_distance_m (\<lambda>x. x) a b c d"
    using acos_arg_bounds [of a b c d] arc_km_bounds [of "acos_arg a b c d"]
    by (auto simp: get_distance_m_def Let_def)
  show "get_distance_m rnd a b c d = get_distance_m rnd b a d c"
    and "get_distance_km rnd a b c d = get_distance_km rnd b a d c"
    by (auto simp: get_distance_m_def get_distance_km_def acos_arg_sym [of a b c d])
qed

end
