(* ===== verification/GpsData.thy ===== *)
theory GpsData
  imports Distance
begin

text \<open>
  \<open>gpsData_t\<close> of \<open>base/gpstool.h\<close>, the record the GPS parser fills and every consumer of a
  position reads. The fields carry a \<open>g\<close> in front. Coordinates are real numbers, \<open>time_t\<close> is an
  integer.
\<close>

record gpsData =
  gyear :: u16
  gmon :: byte
  gday :: byte
  ghour :: byte
  gmin :: byte
  gsec :: byte
  gsatellite :: byte
  glat :: real
  glon :: real
  gspeed :: int
  gactive :: byte
  gangle :: real
  gutc_sec :: int
  ghdop :: real
  galtitude :: real

definition zero_gps :: gpsData where
  "zero_gps = \<lparr>gyear = 0, gmon = 0, gday = 0, ghour = 0, gmin = 0, gsec = 0, gsatellite = 0,
     glat = 0, glon = 0, gspeed = 0, gactive = 0, gangle = 0, gutc_sec = 0, ghdop = 0, galtitude = 0\<rparr>"

end
