(* ===== verification/Tools.thy ===== *)
theory Tools
  imports Storage Validation
begin

text \<open>
  The rest of \<open>util/tools.c\<close> the framework builds on: searching in buffers, whole-file reads and
  writes through the C library, the kernel clock. \<open>fopen\<close>, \<open>fread\<close> and \<open>fwrite\<close> are modelled
  over the system calls of theory Posix: the library repeats short transfers and stops at the first
  error.
\<close>

subsection \<open>Searching\<close>

text \<open>The result is an index; the inner \<open>None\<close> is NULL.\<close>

fun strnchr_from :: "nat \<Rightarrow> byte list \<Rightarrow> byte \<Rightarrow> nat \<Rightarrow> nat option option" where
  "strnchr_from i s ch 0 = Some None"
| "strnchr_from i [] ch (Suc n) = None"
| "strnchr_from i (c # cs) ch (Suc n) =
     (if c = ch then Some (Some i) else strnchr_from (Suc i) cs ch n)"

definition tools_strnchr :: "byte list \<Rightarrow> byte \<Rightarrow> nat \<Rightarrow> nat option option" where
  "tools_strnchr s ch str_len = strnchr_from 0 s ch str_len"

fun strnstr_from :: "nat \<Rightarrow> byte list \<Rightarrow> byte \<Rightarrow> byte list \<Rightarrow> nat \<Rightarrow> nat option option" where
  "strnstr_from i [] c pat n = None"
| "strnstr_from i (sc # s) c pat n =
     (if sc = 0 \<or> n < 1 then Some None
      else if sc \<noteq> c then strnstr_from (Suc i) s c pat (n - 1)
      else if length pat > n - 1 then Some None
      else if take (length pat) s = pat then Some (Some i)
      else strnstr_from (Suc i) s c pat (n - 1))"

definition tools_strnstr :: "byte list \<Rightarrow> byte list \<Rightarrow> nat \<Rightarrow> nat option option" where
  "tools_strnstr s pat str_len =
     (case pat of [] \<Rightarrow> Some (Some 0) | c # pat2 \<Rightarrow> strnstr_from 0 s c pat2 str_len)"

lemma strnstr_from_found:
  "strnstr_from i s c pat n = Some (Some k) \<Longrightarrow>
     i \<le> k \<and> take (Suc (length pat)) (drop (k - i) s) = c # pat \<and> k - i + Suc (length pat) \<le> n"
proof (induction i s c pat n rule: strnstr_from.induct)
  case (2 i sc s c pat n)
  show ?case
  proof (cases "sc = c \<and> take (length pat) s = pat \<and> k = i")
    case True
    with "2.prems" show ?thesis by (auto split: if_splits)
  next
    case False
    with "2.prems" have ne: "sc \<noteq> 0" "1 \<le> n" and
      rec: "strnstr_from (Suc i) s c pat (n - 1) = Some (Some k)"
      by (auto split: if_splits)
    from "2.prems" False ne have
      "Suc i \<le> k \<and> take (Suc (length pat)) (drop (k - Suc i) s) = c # pat \<and>
       k - Suc i + Suc (length pat) \<le> n - 1"
      using "2.IH" rec by (auto split: if_splits)
    moreover from this have "drop (k - i) (sc # s) = drop (k - Suc i) s"
    proof -
      from \<open>Suc i \<le> k \<and> _ \<and> _\<close> have "Suc i \<le> k" by simp
      then have "k - i = Suc (k - Suc i)" by arith
      then show ?thesis by simp
    qed
    ultimately show ?thesis using ne by auto
  qed
qed simp

lemma tools_strnstr_found:
  "tools_strnstr s pat n = Some (Some k) \<Longrightarrow> take (length pat) (drop k s) = pat"
  by (cases pat) (auto simp: tools_strnstr_def dest: strnstr_from_found)

fun null2space :: "byte list \<Rightarrow> int \<times> byte list" where
  "null2space [] = (0, [])"
| "null2space (b # bs) =
     (let (res, cs) = null2space bs in if b = 0 then (res + 1, 0x20 # cs) else (res, b # cs))"

definition tools_null2space :: "byte list \<Rightarrow> nat \<Rightarrow> (int \<times> byte list) option" where
  "tools_null2space buff data_len =
     map_option (\<lambda>bs. let (res, cs) = null2space bs in (res, cs @ drop data_len buff))
       (read_mem buff data_len)"

subsection \<open>The clock\<close>

text \<open>
  \<open>ticks\<close> are the answers of successive \<open>clock_gettime\<close> calls: \<open>None\<close> when the call fails,
  the seconds otherwise. The result is the time and the number of calls.
\<close>

definition RETRY_GET_KERNELTIME :: nat where "RETRY_GET_KERNELTIME = 5"

fun kerneltime_loop :: "(nat \<Rightarrow> int option) \<Rightarrow> nat \<Rightarrow> nat \<Rightarrow> int \<times> nat" where
  "kerneltime_loop ticks i 0 = (0, i)"
| "kerneltime_loop ticks i (Suc n_try) =
     (case ticks i of
        None \<Rightarrow> kerneltime_loop ticks (Suc i) n_try
      | Some t \<Rightarrow> if t > 0 then (t, Suc i) else kerneltime_loop ticks (Suc i) n_try)"

definition tools_get_kerneltime :: "(nat \<Rightarrow> int option) \<Rightarrow> int \<times> nat" where
  "tools_get_kerneltime ticks = kerneltime_loop ticks 0 RETRY_GET_KERNELTIME"

subsection \<open>Whole files\<close>

function fread :: "byte list \<Rightarrow> nat \<Rightarrow> os \<Rightarrow> byte list \<times> os" where
  "fread rest n s =
     (if n = 0 then ([], s)
      else
        (case os_read rest n s of
           (None, s1) \<Rightarrow> ([], s1)
         | (Some [], s1) \<Rightarrow> ([], s1)
         | (Some (b # bs), s1) \<Rightarrow>
             (let (more, s2) = fread (drop (Suc (length bs)) rest) (n - Suc (length bs)) s1
              in ((b # bs) @ more, s2))))"
  by pat_completeness auto
termination by (relation "measure (\<lambda>(rest, n, s). n)") auto

declare fread.simps [simp del]

function fwrite :: "string \<Rightarrow> nat \<Rightarrow> byte list \<Rightarrow> os \<Rightarrow> os" where
  "fwrite path off bs s =
     (case os_write path off bs s of
        (Written n, s1) \<Rightarrow> if n < length bs then fwrite path (off + n) (drop n bs) s1 else s1
      | (_, s1) \<Rightarrow> s1)"
  by pat_completeness auto
termination
  by (relation "measure (\<lambda>(path, off, bs, s). length (script s))")
    (auto dest!: os_write_script_less [OF sym])

declare fwrite.simps [simp del]

definition tools_write_data :: "string \<Rightarrow> byte list \<Rightarrow> bool \<Rightarrow> os \<Rightarrow> int \<times> os" where
  "tools_write_data filename buff app s =
     (case os_open_wr filename (\<not> app) s of
        (False, s1) \<Rightarrow> (-1, s1)
      | (True, s1) \<Rightarrow>
          (let off = (if app then length (the (files s1 filename)) else 0)
           in (0, fwrite filename off buff s1)))"

definition tools_read_data :: "string \<Rightarrow> nat \<Rightarrow> os \<Rightarrow> int \<times> byte list \<times> os" where
  "tools_read_data filename buff_len s =
     (case os_open_rd filename s of
        (None, s1) \<Rightarrow> (-1, [], s1)
      | (Some content, s1) \<Rightarrow>
          (let (got, s2) = fread content buff_len s1 in (int (length got), got, s2)))"

fun tools_check_exist_file :: "string \<Rightarrow> nat \<Rightarrow> os \<Rightarrow> int \<times> os" where
  "tools_check_exist_file filename 0 s = (-1, s)"
| "tools_check_exist_file filename (Suc timeout) s =
     (let (found, s1) = os_access filename s
      in if found then (0, s1) else tools_check_exist_file filename timeout s1)"

lemma fwrite_healthy:
  "healthy s \<Longrightarrow> fwrite p off bs s = s\<lparr>files := (files s)(p \<mapsto>
     overlay off bs (case files s p of None \<Rightarrow> [] | Some c \<Rightarrow> c))\<rparr>"
  by (subst fwrite.simps) simp

lemma fread_healthy: "healthy s \<Longrightarrow> fread rest n s = (take n rest, s)"
proof (cases "n = 0 \<or> rest = []")
  case True
  then show "healthy s \<Longrightarrow> ?thesis" by (subst fread.simps) auto
next
  case False
  assume h: "healthy s"
  obtain b bs where tk: "take n rest = b # bs" using False by (cases "take n rest") auto
  then have len: "Suc (length bs) = min (length rest) n" by (metis length_Cons length_take)
  have "fread (drop (Suc (length bs)) rest) (n - Suc (length bs)) s = ([], s)"
  proof (cases "n \<le> length rest")
    case True
    with len show ?thesis by (subst fread.simps) simp
  next
    case F: False
    with len have "drop (Suc (length bs)) rest = []" by simp
    with h show ?thesis by (subst fread.simps) simp
  qed
  with h False tk show ?thesis by (subst fread.simps) simp
qed

lemma tools_write_data_healthy:
  "healthy s \<Longrightarrow> tools_write_data f d False s = (0, s\<lparr>files := (files s)(f \<mapsto> d)\<rparr>)"
  by (simp add: tools_write_data_def fwrite_healthy)

lemma tools_read_data_healthy:
  "healthy s \<Longrightarrow> files s f = Some c \<Longrightarrow>
     tools_read_data f n s = (int (length (take n c)), take n c, s)"
  by (simp add: tools_read_data_def fread_healthy)

end
