(* ===== verification/Config.thy ===== *)
theory Config
  imports Tools
begin

text \<open>
  \<open>base/config.c\<close>: the configuration read from the ini file at start-up. The iniparser library is
  not part of the repository. A parsed file is a map from keys to text; \<open>getint\<close> is the library's
  conversion of a text to a number, \<open>ini_set\<close> its update of a dictionary (the flag says whether it
  succeeded) and \<open>loads i\<close> the outcome of the \<open>i\<close>-th attempt to parse the file. Character arrays
  hold the bytes \<open>strncpy\<close> put there.
\<close>

type_synonym dict = "string \<Rightarrow> byte list option"

definition INI_INVALID_KEY_INT :: int where "INI_INVALID_KEY_INT = -1"
definition INI_RETRY_CNT :: nat where "INI_RETRY_CNT = 3"
definition INI_MAX_SAVE_ARRAY :: nat where "INI_MAX_SAVE_ARRAY = 20"

record configCommon =
  bootstrap :: int
  initial_turnoff :: int
  first_pwr_status_on :: int
  time_hold_power :: int
  time_hold_ign :: int
  log_poweroff :: int
  sms_passwd :: "byte list"
  alive_time_sec :: int

record configGPS =
  gps_time_zone :: int
  adjust_gps :: int
  gps_err_enable :: int
  gps_err_speed_kms :: int
  gps_err_dist_kms :: int
  gps_err_ignore_dist_m :: int
  gps_err_first_dist_m :: int
  gps_err_max_dist_m :: int

record configMileage =
  mil_enable :: int
  daily_mileage :: int

record configWebdm =
  webdm_enable :: int
  tx_power :: int
  tx_ignition :: int
  tx_report :: int
  tx_log :: int

record configNoti =
  turn_on_sms_enable :: int
  target_num :: "byte list"

record configurationBase =
  common :: configCommon
  gps :: configGPS
  mileage :: configMileage
  webdm :: configWebdm
  noti :: configNoti

definition default_config :: configurationBase where
  "default_config =
     \<lparr>common = \<lparr>bootstrap = 0, initial_turnoff = 1, first_pwr_status_on = 1,
                time_hold_power = 15, time_hold_ign = 10, log_poweroff = 0,
                sms_passwd = pad0 20 (str ''default''), alive_time_sec = 15\<rparr>,
      gps = \<lparr>gps_time_zone = 9, adjust_gps = 1, gps_err_enable = 1, gps_err_speed_kms = 200,
             gps_err_dist_kms = 150, gps_err_ignore_dist_m = 1500,
             gps_err_first_dist_m = 2000, gps_err_max_dist_m = 12000\<rparr>,
      mileage = \<lparr>mil_enable = 1, daily_mileage = 0\<rparr>,
      webdm = \<lparr>webdm_enable = 1, tx_power = 1, tx_ignition = 1, tx_report = 0, tx_log = 1\<rparr>,
      noti = \<lparr>turn_on_sms_enable = 0, target_num = pad0 16 []\<rparr>\<rparr>"

subsection \<open>Values\<close>

definition get_value_ini_int :: "(byte list \<Rightarrow> int) \<Rightarrow> dict \<Rightarrow> string \<Rightarrow> int option" where
  "get_value_ini_int getint d key =
     (let ret = (case d key of None \<Rightarrow> INI_INVALID_KEY_INT | Some t \<Rightarrow> getint t)
      in if ret = INI_INVALID_KEY_INT then None else Some ret)"

text \<open>\<open>strncpy\<close> pads with NULs and does not terminate a text that fills the buffer.\<close>

definition get_value_ini_str :: "dict \<Rightarrow> string \<Rightarrow> nat \<Rightarrow> byte list option" where
  "get_value_ini_str d key buff_len = map_option (pad0 buff_len) (d key)"

text \<open>
  The sequence of keys of \<open>load_config_base\<close>, each with what it writes into the configuration.
\<close>

datatype 'c entry =
    EInt string "int \<Rightarrow> 'c \<Rightarrow> 'c"
  | EStr string nat "byte list \<Rightarrow> 'c \<Rightarrow> 'c"

definition config_entries :: "configurationBase entry list" where
  "config_entries =
    [EInt ''webdm:enable'' (\<lambda>v c. c\<lparr>webdm := webdm c\<lparr>webdm_enable := v\<rparr>\<rparr>),
     EInt ''webdm:tx_power'' (\<lambda>v c. c\<lparr>webdm := webdm c\<lparr>tx_power := v\<rparr>\<rparr>),
     EInt ''webdm:tx_ignition'' (\<lambda>v c. c\<lparr>webdm := webdm c\<lparr>tx_ignition := v\<rparr>\<rparr>),
     EInt ''webdm:tx_report'' (\<lambda>v c. c\<lparr>webdm := webdm c\<lparr>tx_report := v\<rparr>\<rparr>),
     EInt ''webdm:tx_log'' (\<lambda>v c. c\<lparr>webdm := webdm c\<lparr>tx_log := v\<rparr>\<rparr>),
     EInt ''noti:turn_on_sms'' (\<lambda>v c. c\<lparr>noti := noti c\<lparr>turn_on_sms_enable := v\<rparr>\<rparr>),
     EStr ''noti:target_num'' 16 (\<lambda>v c. c\<lparr>noti := noti c\<lparr>target_num := v\<rparr>\<rparr>),
     EInt ''common:bootstrap'' (\<lambda>v c. c\<lparr>common := common c\<lparr>bootstrap := v\<rparr>\<rparr>),
     EInt ''common:initial_turnoff'' (\<lambda>v c. c\<lparr>common := common c\<lparr>initial_turnoff := v\<rparr>\<rparr>),
     EInt ''common:first_pwr_status_on'' (\<lambda>v c. c\<lparr>common := common c\<lparr>first_pwr_status_on := v\<rparr>\<rparr>),
     EInt ''common:time_hold_power'' (\<lambda>v c. c\<lparr>common := common c\<lparr>time_hold_power := v\<rparr>\<rparr>),
     EInt ''common:time_hold_ign'' (\<lambda>v c. c\<lparr>common := common c\<lparr>time_hold_ign := v\<rparr>\<rparr>),
     EInt ''common:log_poweroff'' (\<lambda>v c. c\<lparr>common := common c\<lparr>log_poweroff := v\<rparr>\<rparr>),
     EStr ''common:sms_passwd'' 20 (\<lambda>v c. c\<lparr>common := common c\<lparr>sms_passwd := v\<rparr>\<rparr>),
     EInt ''common:alive_time_sec'' (\<lambda>v c. c\<lparr>common := common c\<lparr>alive_time_sec := v\<rparr>\<rparr>),
     EInt ''gps:gps_time_zone'' (\<lambda>v c. c\<lparr>gps := gps c\<lparr>gps_time_zone := v\<rparr>\<rparr>),
     EInt ''gps:adjust_gps'' (\<lambda>v c. c\<lparr>gps := gps c\<lparr>adjust_gps := v\<rparr>\<rparr>),
     EInt ''gps:gps_err_enable'' (\<lambda>v c. c\<lparr>gps := gps c\<lparr>gps_err_enable := v\<rparr>\<rparr>),
     EInt ''gps:gps_err_speed_kms'' (\<lambda>v c. c\<lparr>gps := gps c\<lparr>gps_err_speed_kms := v\<rparr>\<rparr>),
     EInt ''gps:gps_err_dist_kms'' (\<lambda>v c. c\<lparr>gps := gps c\<lparr>gps_err_dist_kms := v\<rparr>\<rparr>),
     EInt ''gps:gps_err_ignore_dist_m'' (\<lambda>v c. c\<lparr>gps := gps c\<lparr>gps_err_ignore_dist_m := v\<rparr>\<rparr>),
     EInt ''gps:gps_err_first_dist_m'' (\<lambda>v c. c\<lparr>gps := gps c\<lparr>gps_err_first_dist_m := v\<rparr>\<rparr>),
     EInt ''gps:gps_err_max_dist_m'' (\<lambda>v c. c\<lparr>gps := gps c\<lparr>gps_err_max_dist_m := v\<rparr>\<rparr>),
     EInt ''mileage:enable'' (\<lambda>v c. c\<lparr>mileage := mileage c\<lparr>mil_enable := v\<rparr>\<rparr>),
     EInt ''mileage:daily_mileage'' (\<lambda>v c. c\<lparr>mileage := mileage c\<lparr>daily_mileage := v\<rparr>\<rparr>)]"

text \<open>
  One pass over the keys: it stops at the first missing one, with the values before it already
  written.
\<close>

definition load_entry :: "(byte list \<Rightarrow> int) \<Rightarrow> dict \<Rightarrow> 'c entry \<Rightarrow> 'c \<Rightarrow> 'c option" where
  "load_entry getint d e c =
     (case e of
        EInt key f \<Rightarrow> map_option (\<lambda>v. f v c) (get_value_ini_int getint d key)
      | EStr key n f \<Rightarrow> map_option (\<lambda>v. f v c) (get_value_ini_str d key n))"

fun load_entries :: "(byte list \<Rightarrow> int) \<Rightarrow> dict \<Rightarrow> 'c entry list \<Rightarrow> 'c \<Rightarrow> bool \<times> 'c" where
  "load_entries getint d [] c = (True, c)"
| "load_entries getint d (e # es) c =
     (case load_entry getint d e c of
        None \<Rightarrow> (False, c)
      | Some c' \<Rightarrow> load_entries getint d es c')"

function load_loop_cfg :: "(byte list \<Rightarrow> int) \<Rightarrow> (nat \<Rightarrow> dict option) \<Rightarrow> nat \<Rightarrow> configurationBase \<Rightarrow>
    nat \<times> configurationBase" where
  "load_loop_cfg getint loads ntry c =
     (if ntry + 1 \<le> INI_RETRY_CNT then
        (case loads (ntry + 1) of
           None \<Rightarrow> load_loop_cfg getint loads (ntry + 1) c
         | Some d \<Rightarrow>
             (case load_entries getint d config_entries c of
                (True, c') \<Rightarrow> (ntry + 1, c')
              | (False, c') \<Rightarrow> load_loop_cfg getint loads (ntry + 1) c'))
      else (ntry + 1, c))"
  by pat_completeness auto
termination by (relation "measure (\<lambda>(g, l, n, c). INI_RETRY_CNT - n)") auto

declare load_loop_cfg.simps [simp del]

text \<open>
  \<open>present\<close> is the result of waiting for the file. The flag of the result says whether a
  configuration is returned; the static configuration changes in both cases.
\<close>

definition load_config_base :: "(byte list \<Rightarrow> int) \<Rightarrow> bool \<Rightarrow> (nat \<Rightarrow> dict option) \<Rightarrow>
    configurationBase \<Rightarrow> bool \<times> configurationBase" where
  "load_config_base getint present loads c =
     (if \<not> present then (False, c)
      else (case load_loop_cfg getint loads 0 c of (ntry, c') \<Rightarrow> (\<not> ntry > INI_RETRY_CNT, c')))"

subsection \<open>Saving\<close>

text \<open>
  The ini file is the dictionary it parses to (\<open>None\<close>: it does not parse); \<open>ini_set\<close> may fail.
\<close>

definition save_config :: "(dict \<Rightarrow> string \<Rightarrow> byte list \<Rightarrow> dict option) \<Rightarrow> bool \<Rightarrow> string \<Rightarrow> byte list \<Rightarrow>
    dict option \<Rightarrow> int \<times> dict option" where
  "save_config ini_set present name msg file =
     (if \<not> present then (-1, file)
      else
        (case file of
           None \<Rightarrow> (-1, file)
         | Some ini \<Rightarrow>
             (case ini_set ini name msg of None \<Rightarrow> (-1, file) | Some ini' \<Rightarrow> (0, Some ini'))))"

text \<open>At most \<open>INI_MAX_SAVE_ARRAY\<close> entries, up to the first with a NULL.\<close>

fun set_array :: "(dict \<Rightarrow> string \<Rightarrow> byte list \<Rightarrow> dict option) \<Rightarrow> nat \<Rightarrow>
    (string option \<times> byte list option) list \<Rightarrow> dict \<Rightarrow> dict option option" where
  "set_array ini_set 0 data ini = Some (Some ini)"
| "set_array ini_set (Suc i) [] ini = None"
| "set_array ini_set (Suc i) ((n, m) # data) ini =
     (case (n, m) of
        (Some name, Some msg) \<Rightarrow>
          (case ini_set ini name msg of
             None \<Rightarrow> Some None
           | Some ini' \<Rightarrow> set_array ini_set i data ini')
      | _ \<Rightarrow> Some (Some ini))"

definition save_config_array :: "(dict \<Rightarrow> string \<Rightarrow> byte list \<Rightarrow> dict option) \<Rightarrow> bool \<Rightarrow>
    (string option \<times> byte list option) list \<Rightarrow> dict option \<Rightarrow> (int \<times> dict option) option" where
  "save_config_array ini_set present data file =
     (if \<not> present then Some (-1, file)
      else
        (case file of
           None \<Rightarrow> Some (-1, file)
         | Some ini \<Rightarrow>
             (case set_array ini_set INI_MAX_SAVE_ARRAY data ini of
                None \<Rightarrow> None
              | Some None \<Rightarrow> Some (-1, file)
              | Some (Some ini') \<Rightarrow> Some (0, Some ini'))))"

text \<open>
  The user file: when it is missing it is first copied from the original (\<open>org\<close>; \<open>None\<close> when the
  copy fails).
\<close>

definition save_config_user :: "(dict \<Rightarrow> string \<Rightarrow> byte list \<Rightarrow> dict option) \<Rightarrow> bool \<Rightarrow>
    dict option option \<Rightarrow> string \<Rightarrow> byte list \<Rightarrow> dict option \<Rightarrow> int \<times> dict option" where
  "save_config_user ini_set present org name msg file =
     (case (if present then Some file else org) of
        None \<Rightarrow> (-1, file)
      | Some file1 \<Rightarrow>
          (case file1 of
             None \<Rightarrow> (-1, file1)
           | Some ini \<Rightarrow>
               (case ini_set ini name msg of None \<Rightarrow> (-1, file1) | Some ini' \<Rightarrow> (0, Some ini'))))"

definition save_config_array_user :: "(dict \<Rightarrow> string \<Rightarrow> byte list \<Rightarrow> dict option) \<Rightarrow> bool \<Rightarrow>
    (string option \<times> byte list option) list \<Rightarrow> dict option \<Rightarrow> (int \<times> dict option) option" where
  "save_config_array_user ini_set present data file =
     save_config_array ini_set present data file"

subsection \<open>A complete pass determines the configuration\<close>

text \<open>Every field is written by some entry, so the previous configuration does not matter.\<close>

definition write_entry :: "(byte list \<Rightarrow> int) \<Rightarrow> dict \<Rightarrow> 'c \<Rightarrow> 'c entry \<Rightarrow> 'c" where
  "write_entry getint d c e =
     (case e of
        EInt key f \<Rightarrow> f (the (get_value_ini_int getint d key)) c
      | EStr key n f \<Rightarrow> f (the (get_value_ini_str d key n)) c)"

lemma load_entry_writes:
  "load_entry getint d e c = Some c' \<Longrightarrow>
   c' = write_entry getint d c e \<and> load_entry getint d e c2 = Some (write_entry getint d c2 e)"
  by (cases e) (auto simp: load_entry_def write_entry_def)

lemma load_entries_writes:
  "load_entries getint d es c = (True, c') \<Longrightarrow>
   c' = foldl (write_entry getint d) c es \<and>
   load_entries getint d es c2 = (True, foldl (write_entry getint d) c2 es)"
proof (induction es arbitrary: c c2)
  case (Cons e es)
  then obtain c1 where c1: "load_entry getint d e c = Some c1" "load_entries getint d es c1 = (True, c')"
    by (cases "load_entry getint d e c") auto
  note w = load_entry_writes [OF c1(1), of c2]
  with Cons.IH [OF c1(2), of "write_entry getint d c2 e"] show ?case by simp
qed simp

lemma write_entry_simps:
  "write_entry getint d c (EInt key f) = f (the (get_value_ini_int getint d key)) c"
  "write_entry getint d c (EStr key n g) = g (the (get_value_ini_str d key n)) c"
  by (simp_all add: write_entry_def)

lemma writes_all_fields:
  "foldl (write_entry getint d) c config_entries = foldl (write_entry getint d) c2 config_entries"
proof -
  obtain cm g m w n cm2 g2 m2 w2 n2 where
    "c = \<lparr>common = cm, gps = g, mileage = m, webdm = w, noti = n\<rparr>"
    "c2 = \<lparr>common = cm2, gps = g2, mileage = m2, webdm = w2, noti = n2\<rparr>"
    by (cases c, cases c2) blast
  then show ?thesis
    by (cases cm; cases g; cases m; cases w; cases n; cases cm2; cases g2; cases m2; cases w2; cases n2)
       (simp only: config_entries_def foldl.simps write_entry_simps configurationBase.simps
         configCommon.simps configGPS.simps configMileage.simps configWebdm.simps configNoti.simps)
qed

lemma load_complete:
  assumes "load_entries getint d config_entries c = (True, c')"
  shows "load_entries getint d config_entries c2 = (True, c')"
  using load_entries_writes [OF assms] writes_all_fields by metis

text \<open>An attempt is useless when the file does not parse or a key is missing.\<close>

definition attempt_fails :: "(byte list \<Rightarrow> int) \<Rightarrow> dict option \<Rightarrow> bool" where
  "attempt_fails getint l \<longleftrightarrow>
     (case l of None \<Rightarrow> True
      | Some d \<Rightarrow> \<not> fst (load_entries getint d config_entries default_config))"

lemma attempt_fails_any:
  "attempt_fails getint (Some d) \<Longrightarrow> \<not> fst (load_entries getint d config_entries c)"
proof
  assume f: "attempt_fails getint (Some d)" and "fst (load_entries getint d config_entries c)"
  then have "load_entries getint d config_entries c =
      (True, snd (load_entries getint d config_entries c))"
    by (metis (full_types) prod.collapse)
  from load_complete [OF this, of default_config] f show False by (simp add: attempt_fails_def)
qed

lemma load_loop_skip:
  assumes "attempt_fails getint (loads (ntry + 1))" and "ntry + 1 \<le> INI_RETRY_CNT"
  shows "\<exists>c'. load_loop_cfg getint loads ntry c = load_loop_cfg getint loads (ntry + 1) c'"
proof (cases "loads (ntry + 1)")
  case None
  with assms(2) show ?thesis by (subst load_loop_cfg.simps) auto
next
  case (Some d)
  with attempt_fails_any assms(1) have "\<not> fst (load_entries getint d config_entries c)" by simp
  with Some assms(2) show ?thesis
    by (subst load_loop_cfg.simps) (auto split: prod.splits bool.splits)
qed

lemma load_loop_hit:
  assumes "\<And>j. ntry < j \<Longrightarrow> j < i \<Longrightarrow> attempt_fails getint (loads j)"
    and "ntry < i" and "i \<le> INI_RETRY_CNT" and "loads i = Some d"
    and "load_entries getint d config_entries default_config = (True, c')"
  shows "load_loop_cfg getint loads ntry c = (i, c')"
  using assms(1,2)
proof (induction "i - ntry" arbitrary: ntry c)
  case 0
  then show ?case by simp
next
  case (Suc n)
  show ?case
  proof (cases "ntry + 1 = i")
    case True
    with assms(3,4) load_complete [OF assms(5), of c] show ?thesis
      by (subst load_loop_cfg.simps) simp
  next
    case False
    with Suc.prems assms(3) load_loop_skip [of getint loads ntry c] obtain c2
      where "load_loop_cfg getint loads ntry c = load_loop_cfg getint loads (ntry + 1) c2" by auto
    with Suc.hyps(1) [of "ntry + 1" c2] Suc.hyps(2) Suc.prems False show ?thesis by simp
  qed
qed

lemma load_loop_none:
  assumes "\<And>j. attempt_fails getint (loads j)"
  shows "\<exists>c'. load_loop_cfg getint loads ntry c = (max ntry INI_RETRY_CNT + 1, c')"
proof (induction "INI_RETRY_CNT - ntry" arbitrary: ntry c)
  case 0
  then show ?case by (subst load_loop_cfg.simps) auto
next
  case (Suc n)
  then have le: "ntry + 1 \<le> INI_RETRY_CNT" and n: "n = INI_RETRY_CNT - (ntry + 1)" by linarith+
  with load_loop_skip [of getint loads ntry c, OF assms] obtain c2
    where "load_loop_cfg getint loads ntry c = load_loop_cfg getint loads (ntry + 1) c2" by auto
  with Suc.hyps(1) [OF n, of c2] le show ?case by (auto simp: max_def)
qed

subsection \<open>Properties\<close>

text \<open>
  The configuration returned is exactly that of the first complete attempt. If one of the three
  attempts parses the file with every key present, the load succeeds and every field has the value of
  that file, whatever the defaults or the incomplete attempts before it had written.
\<close>

theorem load_config_from_complete_file:
  assumes "1 \<le> i" and "i \<le> INI_RETRY_CNT" and "loads i = Some d"
    and "load_entries getint d config_entries default_config = (True, c')"
    and "\<forall>j. 1 \<le> j \<and> j < i \<longrightarrow> attempt_fails getint (loads j)"
  shows "load_config_base getint True loads c = (True, c')"
  using load_loop_hit [of 0 i getint loads d c' c] assms by (simp add: load_config_base_def)

definition sample_file :: "string \<Rightarrow> byte list option" where
  "sample_file = map_of (map (\<lambda>e. case e of EInt k _ \<Rightarrow> (k, [7]) | EStr k _ _ \<Rightarrow> (k, [65])) config_entries)"

theorem load_config_from_complete_file_witness:
  "load_config_base (\<lambda>t. uint (hd t)) True
     (\<lambda>i. if i = 2 then Some sample_file else None) default_config =
   (True, snd (load_entries (\<lambda>t. uint (hd t)) sample_file config_entries default_config))"
proof (rule load_config_from_complete_file [where i = 2 and d = sample_file])
  have "fst (load_entries (\<lambda>t. uint (hd t)) sample_file config_entries default_config)"
    by code_simp
  then show "load_entries (\<lambda>t. uint (hd t)) sample_file config_entries default_config =
      (True, snd (load_entries (\<lambda>t. uint (hd t)) sample_file config_entries default_config))"
    by (metis (full_types) prod.collapse)
qed (auto simp: INI_RETRY_CNT_def attempt_fails_def)

text \<open>
  A setting of -1 makes the terminal reject its whole configuration: the value stands for a
  missing key. A file with the time zone -1 is refused at every attempt.
\<close>

theorem load_config_rejects_minus_one:
  assumes "d ''gps:gps_time_zone'' = Some t" and "getint t = -1"
  shows "fst (load_config_base getint True (\<lambda>_. Some d) c) = False"
proof -
  have "\<not> fst (load_entries getint d config_entries default_config)"
  proof
    assume "fst (load_entries getint d config_entries default_config)"
    then show False
      using assms
      by (auto simp: config_entries_def load_entry_def get_value_ini_int_def Let_def
          INI_INVALID_KEY_INT_def split: option.splits)
  qed
  then have "attempt_fails getint (Some d)" by (simp add: attempt_fails_def)
  with load_loop_none [of getint "\<lambda>_. Some d" 0 c] show ?thesis
    by (auto simp: load_config_base_def)
qed

theorem load_config_rejects_minus_one_witness:
  "fst (load_config_base (\<lambda>t. if t = str ''-1'' then -1 else uint (hd t)) True
     (\<lambda>_. Some (sample_file(''gps:gps_time_zone'' \<mapsto> str ''-1''))) default_config) = False"
  by (rule load_config_rejects_minus_one [where t = "str ''-1''"]) simp_all

end
