(* ===== verification/CritData.thy ===== *)
theory CritData
  imports Tools
begin

text \<open>
  \<open>board/crit-data.c\<close>: the critical data block, 512 bytes that hold the mileage and the last
  position, kept in a RAM disk and copied to flash. The block is modelled byte by byte: the header
  (version, CRC-16, length) in bytes 0 to 4, the packed body of 36 bytes after it, all fields
  little-endian. Floating-point fields are their 32-bit patterns.

  The \<open>mds_api\<close> library is not part of the repository: its four file functions are the
  components of the record \<open>mds_api\<close>, over a world \<open>'w\<close>.
\<close>

record 'w mds_api =
  m_read :: "string \<Rightarrow> nat \<Rightarrow> 'w \<Rightarrow> int \<times> byte list \<times> 'w"
  m_write :: "string \<Rightarrow> byte list \<Rightarrow> 'w \<Rightarrow> int \<times> 'w"
  m_cp :: "string \<Rightarrow> string \<Rightarrow> 'w \<Rightarrow> 'w"
  m_exists :: "string \<Rightarrow> nat \<Rightarrow> 'w \<Rightarrow> bool"

record 'w crit =
  critical_data :: "byte list"
  cw :: 'w

definition CRITICAL_DATA_TMP_FS :: string where
  "CRITICAL_DATA_TMP_FS = ''/tmp/critical.dat''"
definition CRITICAL_DATA_NAND_FS :: string where
  "CRITICAL_DATA_NAND_FS = ''/data/mds/data/critical.dat''"
definition DEFAULT_CRITICAL_DATA :: string where "DEFAULT_CRITICAL_DATA = ''AABBCCDD''"
definition CRIT_VERSION :: byte where "CRIT_VERSION = 1"
definition MAX_CRITICAL_DATA :: nat where "MAX_CRITICAL_DATA = 512"
definition CRIT_HEADER_SIZE :: nat where "CRIT_HEADER_SIZE = 5"
definition CRIT_BODY_SIZE :: nat where "CRIT_BODY_SIZE = 36"

subsection \<open>Fields of the block\<close>

definition le32 :: "u32 \<Rightarrow> byte list" where
  "le32 w = [ucast w, ucast (drop_bit 8 w), ucast (drop_bit 16 w), ucast (drop_bit 24 w)]"

definition of_le32 :: "byte list \<Rightarrow> u32" where
  "of_le32 bs = ucast (bs ! 0) OR push_bit 8 (ucast (bs ! 1)) OR push_bit 16 (ucast (bs ! 2)) OR
     push_bit 24 (ucast (bs ! 3))"

lemma of_le32 [simp]: "of_le32 (le32 w) = w"
proof (rule bit_word_eqI)
  fix n assume n: "n < LENGTH(32)"
  consider "n < 8" | "8 \<le> n" "n < 16" | "16 \<le> n" "n < 24" | "24 \<le> n" by linarith
  then show "bit (of_le32 (le32 w)) n = bit w n"
    by cases (use n in \<open>auto simp: of_le32_def le32_def bit_simps\<close>)
qed

definition get16 :: "nat \<Rightarrow> byte list \<Rightarrow> u16" where
  "get16 off b = of_le16 [b ! off, b ! (off + 1)]"

definition get32 :: "nat \<Rightarrow> byte list \<Rightarrow> u32" where
  "get32 off b = of_le32 [b ! off, b ! (off + 1), b ! (off + 2), b ! (off + 3)]"

definition put16 :: "nat \<Rightarrow> u16 \<Rightarrow> byte list \<Rightarrow> byte list" where
  "put16 off w b = b[off := le16 w ! 0, off + 1 := le16 w ! 1]"

definition put32 :: "nat \<Rightarrow> u32 \<Rightarrow> byte list \<Rightarrow> byte list" where
  "put32 off w b =
     b[off := le32 w ! 0, off + 1 := le32 w ! 1, off + 2 := le32 w ! 2, off + 3 := le32 w ! 3]"

text \<open>The offsets of the packed structures \<open>critHeader_t\<close>, \<open>critMileage_t\<close>, \<open>critGPS_t\<close>.\<close>

definition OFF_CRC :: nat where "OFF_CRC = 1"
definition OFF_LENGTH :: nat where "OFF_LENGTH = 3"
definition OFF_MILEAGE :: nat where "OFF_MILEAGE = 5"
definition OFF_YEAR :: nat where "OFF_YEAR = 9"
definition OFF_MON :: nat where "OFF_MON = 13"
definition OFF_DAY :: nat where "OFF_DAY = 17"
definition OFF_LASTLAT :: nat where "OFF_LASTLAT = 21"
definition OFF_LASTLON :: nat where "OFF_LASTLON = 25"
definition OFF_LAT :: nat where "OFF_LAT = 29"
definition OFF_LON :: nat where "OFF_LON = 33"
definition OFF_UTC :: nat where "OFF_UTC = 37"

lemmas crit_offsets = OFF_CRC_def OFF_LENGTH_def OFF_MILEAGE_def OFF_YEAR_def OFF_MON_def
  OFF_DAY_def OFF_LASTLAT_def OFF_LASTLON_def OFF_LAT_def OFF_LON_def OFF_UTC_def

lemmas crit_sizes = MAX_CRITICAL_DATA_def CRIT_HEADER_SIZE_def CRIT_BODY_SIZE_def

text \<open>A \<open>float\<close> compares equal to 0 when it is 0 or -0.\<close>

definition float_zero :: "u32 \<Rightarrow> bool" where
  "float_zero w \<longleftrightarrow> w = 0 \<or> w = 0x80000000"

definition zero_block :: "byte list" where
  "zero_block = replicate MAX_CRITICAL_DATA 0"

subsection \<open>Start-up\<close>

definition crit_init_simul :: "'w mds_api \<Rightarrow> 'w \<Rightarrow> 'w" where
  "crit_init_simul api w =
     (if m_exists api CRITICAL_DATA_TMP_FS 0 w
      then m_cp api CRITICAL_DATA_TMP_FS CRITICAL_DATA_NAND_FS w
      else if m_exists api CRITICAL_DATA_NAND_FS 1 w
      then m_cp api CRITICAL_DATA_NAND_FS CRITICAL_DATA_TMP_FS w
      else w)"

definition crit_backup_simul :: "'w mds_api \<Rightarrow> 'w \<Rightarrow> 'w" where
  "crit_backup_simul api w = m_cp api CRITICAL_DATA_TMP_FS CRITICAL_DATA_NAND_FS w"

text \<open>\<open>mds_api_read_data\<close> fills the front of the block with what it read.\<close>

definition crit_fill :: "'w mds_api \<Rightarrow> 'w crit \<Rightarrow> int \<times> 'w crit" where
  "crit_fill api s =
     (case m_read api CRITICAL_DATA_TMP_FS MAX_CRITICAL_DATA (cw s) of
        (r, bs, w) \<Rightarrow>
          (r, s\<lparr>critical_data := take MAX_CRITICAL_DATA (bs @ drop (length bs) (critical_data s)),
                cw := w\<rparr>))"

definition crit_implausible :: "byte list \<Rightarrow> bool" where
  "crit_implausible b \<longleftrightarrow> float_zero (get32 OFF_LAT b) \<or> float_zero (get32 OFF_LON b) \<or>
     get32 OFF_UTC b = 0 \<or> get32 OFF_MILEAGE b = 0"

fun crit_read_loop :: "'w mds_api \<Rightarrow> nat \<Rightarrow> 'w crit \<Rightarrow> bool \<times> 'w crit" where
  "crit_read_loop api 0 s = (False, s)"
| "crit_read_loop api (Suc n_try) s =
     (case crit_fill api s of
        (r, s1) \<Rightarrow>
          if r < 0 then crit_read_loop api n_try s1
          else if crit_implausible (critical_data s1) then crit_read_loop api n_try s1
          else (True, s1))"

text \<open>\<open>strcmp\<close> with the default text: equal up to and including the terminating NUL.\<close>

definition crit_is_default :: "byte list \<Rightarrow> bool" where
  "crit_is_default b \<longleftrightarrow> take 9 b = str DEFAULT_CRITICAL_DATA @ [0]"

definition crit_clear :: "'w crit \<Rightarrow> 'w crit" where
  "crit_clear s = s\<lparr>critical_data := zero_block\<rparr>"

definition crit_init :: "'w mds_api \<Rightarrow> 'w crit \<Rightarrow> (int \<times> 'w crit) option" where
  "crit_init api s =
     (case crit_read_loop api 3 (s\<lparr>cw := crit_init_simul api (cw s)\<rparr>) of
        (crit_read_ret, s1) \<Rightarrow>
          if \<not> crit_read_ret then Some (0, crit_clear s1)
          else if crit_is_default (critical_data s1) then Some (0, crit_clear s1)
          else
            (case crc16_get (drop CRIT_HEADER_SIZE (critical_data s1))
                    (unat (get16 OFF_LENGTH (critical_data s1))) of
               None \<Rightarrow> None
             | Some c \<Rightarrow>
                 if c \<noteq> get16 OFF_CRC (critical_data s1) then Some (0, crit_clear s1)
                 else Some (0, s1)))"

subsection \<open>Reading and writing fields\<close>

definition crit_check_data :: int where "crit_check_data = 0"

definition crit_store :: "'w mds_api \<Rightarrow> 'w crit \<Rightarrow> int \<times> 'w crit" where
  "crit_store api s =
     (case m_write api CRITICAL_DATA_TMP_FS (critical_data s) (cw s) of
        (r, w) \<Rightarrow> (if r < 0 then -1 else 0, s\<lparr>cw := w\<rparr>))"

definition crit_write_data :: "'w mds_api \<Rightarrow> 'w crit \<Rightarrow> int \<times> 'w crit" where
  "crit_write_data api s =
     (if crit_check_data < 0 then (-1, s)
      else
        (let b = critical_data s;
             body = take CRIT_BODY_SIZE (drop CRIT_HEADER_SIZE b);
             b1 = put16 OFF_CRC (crc16 body) b;
             b2 = put16 OFF_LENGTH (of_nat CRIT_BODY_SIZE) b1;
             b3 = b2[0 := CRIT_VERSION]
         in crit_store api (s\<lparr>critical_data := b3\<rparr>)))"

definition crit_read_data :: "'w crit \<Rightarrow> int \<times> 'w crit" where
  "crit_read_data s = (let fd_crit = -1 :: int in if fd_crit < 0 then (-1, s) else (0, s))"

definition crit_get_data_mileage :: "'w crit \<Rightarrow> u32" where
  "crit_get_data_mileage s = get32 OFF_MILEAGE (critical_data s)"

definition crit_get_data_mileage_detail :: "'w crit \<Rightarrow> u32 \<times> u32 \<times> u32 \<times> u32 \<times> u32 \<times> u32" where
  "crit_get_data_mileage_detail s =
     (let b = critical_data s
      in (get32 OFF_MILEAGE b, get32 OFF_YEAR b, get32 OFF_MON b, get32 OFF_DAY b,
          get32 OFF_LASTLAT b, get32 OFF_LASTLON b))"

definition crit_get_data_gps :: "'w crit \<Rightarrow> u32 \<times> u32 \<times> u32" where
  "crit_get_data_gps s =
     (let b = critical_data s in (get32 OFF_LAT b, get32 OFF_LON b, get32 OFF_UTC b))"

definition crit_set_data_mileage :: "'w mds_api \<Rightarrow> u32 \<Rightarrow> 'w crit \<Rightarrow> int \<times> 'w crit" where
  "crit_set_data_mileage api mileage s =
     crit_store api (s\<lparr>critical_data := put32 OFF_MILEAGE mileage (critical_data s)\<rparr>)"

definition crit_set_data_mileage_detail ::
    "'w mds_api \<Rightarrow> u32 \<Rightarrow> u32 \<Rightarrow> u32 \<Rightarrow> u32 \<Rightarrow> u32 \<Rightarrow> u32 \<Rightarrow> 'w crit \<Rightarrow> int \<times> 'w crit" where
  "crit_set_data_mileage_detail api mileage y m d lat lon s =
     crit_store api (s\<lparr>critical_data :=
       put32 OFF_LASTLON lon (put32 OFF_LASTLAT lat (put32 OFF_DAY d (put32 OFF_MON m
         (put32 OFF_YEAR y (put32 OFF_MILEAGE mileage (critical_data s))))))\<rparr>)"

definition crit_set_data_mileage_write :: "'w mds_api \<Rightarrow> u32 \<Rightarrow> 'w crit \<Rightarrow> int \<times> 'w crit" where
  "crit_set_data_mileage_write api mileage s =
     (case crit_set_data_mileage api mileage s of
        (r, s1) \<Rightarrow>
          if r < 0 then (-1, s1)
          else (case crit_write_data api s1 of (r2, s2) \<Rightarrow> (if r2 < 0 then -1 else 0, s2)))"

definition crit_set_data_mileage_detail_write ::
    "'w mds_api \<Rightarrow> u32 \<Rightarrow> u32 \<Rightarrow> u32 \<Rightarrow> u32 \<Rightarrow> u32 \<Rightarrow> u32 \<Rightarrow> 'w crit \<Rightarrow> int \<times> 'w crit" where
  "crit_set_data_mileage_detail_write api mileage y m d lat lon s =
     (case crit_set_data_mileage_detail api mileage y m d lat lon s of
        (r, s1) \<Rightarrow>
          if r < 0 then (-1, s1)
          else (case crit_write_data api s1 of (r2, s2) \<Rightarrow> (if r2 < 0 then -1 else 0, s2)))"

definition crit_set_data_gps :: "'w mds_api \<Rightarrow> u32 \<Rightarrow> u32 \<Rightarrow> u32 \<Rightarrow> 'w crit \<Rightarrow> int \<times> 'w crit" where
  "crit_set_data_gps api lat lon utc_sec s =
     crit_store api (s\<lparr>critical_data :=
       put32 OFF_UTC utc_sec (put32 OFF_LON lon (put32 OFF_LAT lat (critical_data s)))\<rparr>)"

definition crit_set_data_gps_write ::
    "'w mds_api \<Rightarrow> u32 \<Rightarrow> u32 \<Rightarrow> u32 \<Rightarrow> 'w crit \<Rightarrow> int \<times> 'w crit" where
  "crit_set_data_gps_write api lat lon utc_sec s =
     (case crit_set_data_gps api lat lon utc_sec s of
        (r, s1) \<Rightarrow>
          if r < 0 then (-1, s1)
          else (case crit_write_data api s1 of (r2, s2) \<Rightarrow> (if r2 < 0 then -1 else 0, s2)))"

definition crit_clear_write :: "'w mds_api \<Rightarrow> 'w crit \<Rightarrow> int \<times> 'w crit" where
  "crit_clear_write api s =
     (case crit_write_data api (crit_clear s) of (r, s1) \<Rightarrow> (if r < 0 then -1 else 0, s1))"

definition crit_get_support_stat :: int where "crit_get_support_stat = 1"

subsection \<open>Fields do not overlap\<close>

lemma put_length [simp]: "length (put16 off v b) = length b" "length (put32 off w b) = length b"
  by (simp_all add: put16_def put32_def)

lemma get_put16 [simp]: "off + 2 \<le> length b \<Longrightarrow> get16 off (put16 off w b) = w"
proof -
  assume "off + 2 \<le> length b"
  then have "get16 off (put16 off w b) = of_le16 [le16 w ! 0, le16 w ! 1]"
    by (simp add: get16_def put16_def nth_list_update)
  also have "[le16 w ! 0, le16 w ! 1] = le16 w" by (simp add: le16_def)
  finally show ?thesis by simp
qed

lemma get_put32 [simp]: "off + 4 \<le> length b \<Longrightarrow> get32 off (put32 off w b) = w"
proof -
  assume "off + 4 \<le> length b"
  then have "get32 off (put32 off w b) = of_le32 [le32 w ! 0, le32 w ! 1, le32 w ! 2, le32 w ! 3]"
    by (simp add: get32_def put32_def nth_list_update)
  also have "[le32 w ! 0, le32 w ! 1, le32 w ! 2, le32 w ! 3] = le32 w" by (simp add: le32_def)
  finally show ?thesis by simp
qed

lemma get_put_other:
  "off + 4 \<le> o' \<or> o' + 4 \<le> off \<Longrightarrow> get32 off (put32 o' w b) = get32 off b"
  "off + 4 \<le> o' \<or> o' + 2 \<le> off \<Longrightarrow> get32 off (put16 o' v b) = get32 off b"
  "off + 2 \<le> o' \<or> o' + 2 \<le> off \<Longrightarrow> get16 off (put16 o' v b) = get16 off b"
  by (auto simp: get32_def put32_def get16_def put16_def)

lemma get_version [simp]:
  "0 < off \<Longrightarrow> get32 off (b[0 := v]) = get32 off b" "0 < off \<Longrightarrow> get16 off (b[0 := v]) = get16 off b"
  by (simp_all add: get32_def get16_def)

lemma drop_put16: "o' + 2 \<le> n \<Longrightarrow> drop n (put16 o' v b) = drop n b"
  by (simp add: put16_def)


subsection \<open>The medium\<close>

text \<open>
  What the block relies on of the file functions while \<open>ok\<close>: what was written to the RAM disk is
  read back, also after the copying of a start-up.
\<close>

locale crit_media =
  fixes api :: "'w mds_api"
    and ok :: "'w \<Rightarrow> bool"
    and holds :: "byte list \<Rightarrow> 'w \<Rightarrow> bool"
  assumes write_law: "ok w \<Longrightarrow> length b = MAX_CRITICAL_DATA \<Longrightarrow>
      m_write api CRITICAL_DATA_TMP_FS b w = (r, w') \<Longrightarrow> 0 \<le> r \<and> ok w' \<and> holds b w'"
    and read_law: "ok w \<Longrightarrow> holds b w \<Longrightarrow> length b = MAX_CRITICAL_DATA \<Longrightarrow>
      \<exists>r w'. m_read api CRITICAL_DATA_TMP_FS MAX_CRITICAL_DATA w = (r, b, w') \<and> 0 \<le> r \<and>
        ok w' \<and> holds b w'"
    and init_law: "ok w \<Longrightarrow> holds b w \<Longrightarrow>
      ok (crit_init_simul api w) \<and> holds b (crit_init_simul api w)"
begin

lemma store_holds:
  assumes "ok (cw s)" and "length (critical_data s) = MAX_CRITICAL_DATA"
  shows "\<exists>w. crit_store api s = (0, s\<lparr>cw := w\<rparr>) \<and> ok w \<and> holds (critical_data s) w"
proof -
  obtain r w where "m_write api CRITICAL_DATA_TMP_FS (critical_data s) (cw s) = (r, w)"
    by fastforce
  with write_law [OF assms this] show ?thesis by (auto simp: crit_store_def)
qed

lemma fill_holds:
  assumes "ok (cw s)" and "holds b (cw s)" and "length b = MAX_CRITICAL_DATA"
  shows "\<exists>r w. crit_fill api s = (r, s\<lparr>critical_data := b, cw := w\<rparr>) \<and> 0 \<le> r \<and> ok w \<and> holds b w"
  using read_law [OF assms] assms(3) by (auto simp: crit_fill_def)

lemma read_loop_plausible:
  assumes "ok (cw s)" and "holds b (cw s)" and "length b = MAX_CRITICAL_DATA"
    and "\<not> crit_implausible b"
  shows "\<exists>w. crit_read_loop api (Suc n) s = (True, s\<lparr>critical_data := b, cw := w\<rparr>) \<and> ok w"
  using fill_holds [OF assms(1-3)] assms(4) by auto

lemma read_loop_implausible:
  assumes "length b = MAX_CRITICAL_DATA" and "crit_implausible b"
  shows "ok (cw s) \<Longrightarrow> holds b (cw s) \<Longrightarrow> \<exists>s'. crit_read_loop api n s = (False, s')"
proof (induction n arbitrary: s)
  case (Suc n)
  from fill_holds [OF Suc.prems assms(1)] obtain r w where
    "crit_fill api s = (r, s\<lparr>critical_data := b, cw := w\<rparr>)" "0 \<le> r" "ok w" "holds b w" by auto
  with Suc.IH [of "s\<lparr>critical_data := b, cw := w\<rparr>"] assms(2) show ?case by simp
qed simp

lemma init_wipes_implausible:
  assumes "ok (cw s)" and "holds b (cw s)" and "length b = MAX_CRITICAL_DATA"
    and "crit_implausible b"
  shows "\<exists>s'. crit_init api s = Some (0, s') \<and> critical_data s' = zero_block"
  using read_loop_implausible [OF assms(3,4), of "s\<lparr>cw := crit_init_simul api (cw s)\<rparr>" 3]
    init_law [OF assms(1,2)]
  by (auto simp: crit_init_def crit_clear_def)

lemma init_checks:
  assumes "ok (cw s)" and "holds b (cw s)" and "length b = MAX_CRITICAL_DATA"
    and "\<not> crit_implausible b" and "\<not> crit_is_default b"
    and "get16 OFF_LENGTH b = of_nat CRIT_BODY_SIZE"
  shows "\<exists>s'. crit_init api s = Some (0, s') \<and> critical_data s' =
    (if crc16 (take CRIT_BODY_SIZE (drop CRIT_HEADER_SIZE b)) = get16 OFF_CRC b
     then b else zero_block)"
proof -
  let ?s = "s\<lparr>cw := crit_init_simul api (cw s)\<rparr>"
  obtain w where rl: "crit_read_loop api 3 ?s = (True, s\<lparr>critical_data := b, cw := w\<rparr>)"
    using read_loop_plausible [of ?s b 2] init_law [OF assms(1,2)] assms(3,4)
    by (auto simp: numeral_3_eq_3 numeral_2_eq_2)
  have "crc16_get (drop CRIT_HEADER_SIZE b) (unat (get16 OFF_LENGTH b)) =
      Some (crc16 (take CRIT_BODY_SIZE (drop CRIT_HEADER_SIZE b)))"
    using assms(3,6) by (simp add: crc16_get_def read_mem_def crit_sizes)
  with rl assms(5) show ?thesis by (simp add: crit_init_def crit_clear_def)
qed

text \<open>A block after \<open>crit_write_data\<close> carries a matching header.\<close>

lemma write_data_image:
  assumes "ok (cw s)" and "length (critical_data s) = MAX_CRITICAL_DATA"
  shows "\<exists>s'. crit_write_data api s = (0, s') \<and> ok (cw s') \<and> holds (critical_data s') (cw s') \<and>
    length (critical_data s') = MAX_CRITICAL_DATA \<and>
    drop CRIT_HEADER_SIZE (critical_data s') = drop CRIT_HEADER_SIZE (critical_data s) \<and>
    get16 OFF_LENGTH (critical_data s') = of_nat CRIT_BODY_SIZE \<and>
    get16 OFF_CRC (critical_data s') =
      crc16 (take CRIT_BODY_SIZE (drop CRIT_HEADER_SIZE (critical_data s'))) \<and>
    critical_data s' ! 0 = CRIT_VERSION"
proof -
  let ?b = "(put16 OFF_LENGTH (of_nat CRIT_BODY_SIZE) (put16 OFF_CRC
    (crc16 (take CRIT_BODY_SIZE (drop CRIT_HEADER_SIZE (critical_data s)))) (critical_data s)))
      [0 := CRIT_VERSION]"
  have len: "length ?b = MAX_CRITICAL_DATA" using assms(2) by simp
  have dr: "drop CRIT_HEADER_SIZE ?b = drop CRIT_HEADER_SIZE (critical_data s)"
    by (simp add: drop_put16 crit_sizes crit_offsets)
  have "get16 OFF_LENGTH ?b = of_nat CRIT_BODY_SIZE"
    using assms(2) by (simp add: crit_sizes crit_offsets)
  moreover have "get16 OFF_CRC ?b =
      crc16 (take CRIT_BODY_SIZE (drop CRIT_HEADER_SIZE (critical_data s)))"
    using assms(2) get_put_other(3) [of 1 3] by (simp add: crit_sizes crit_offsets)
  moreover have "?b ! 0 = CRIT_VERSION" using assms(2) by (simp add: crit_sizes)
  moreover obtain w where "crit_store api (s\<lparr>critical_data := ?b\<rparr>) =
      (0, s\<lparr>critical_data := ?b, cw := w\<rparr>)" "ok w" "holds ?b w"
    using store_holds [of "s\<lparr>critical_data := ?b\<rparr>"] assms(1) len by auto
  ultimately show ?thesis
    using len dr by (auto simp: crit_write_data_def crit_check_data_def Let_def)
qed

end

text \<open>
  The file functions of \<open>util/tools.c\<close> have the signatures of the library's; on a device without
  faults they satisfy its contract.
\<close>

definition tools_api :: "os mds_api" where
  "tools_api =
     \<lparr>m_read = (\<lambda>p n w. tools_read_data p n w),
      m_write = (\<lambda>p d w. tools_write_data p d False w),
      m_cp = (\<lambda>a b w. snd (tools_cp a b True w)),
      m_exists = (\<lambda>p n w. files w p \<noteq> None)\<rparr>"

definition on_disk :: "byte list \<Rightarrow> os \<Rightarrow> bool" where
  "on_disk b w \<longleftrightarrow> files w CRITICAL_DATA_TMP_FS = Some b"

lemma crit_paths: "CRITICAL_DATA_TMP_FS \<noteq> CRITICAL_DATA_NAND_FS"
  by (simp add: CRITICAL_DATA_TMP_FS_def CRITICAL_DATA_NAND_FS_def)

interpretation media: crit_media tools_api healthy on_disk
proof unfold_locales
  fix w b r w'
  assume "healthy w" and "m_write tools_api CRITICAL_DATA_TMP_FS b w = (r, w')"
  then show "0 \<le> r \<and> healthy w' \<and> on_disk b w'"
    by (auto simp: tools_api_def tools_write_data_healthy on_disk_def)
next
  fix w b assume "healthy w" "on_disk b w" "length b = MAX_CRITICAL_DATA"
  then show "\<exists>r w'. m_read tools_api CRITICAL_DATA_TMP_FS MAX_CRITICAL_DATA w = (r, b, w') \<and>
      0 \<le> r \<and> healthy w' \<and> on_disk b w'"
    by (simp add: tools_api_def tools_read_data_healthy on_disk_def)
next
  fix w b assume "healthy w" "on_disk b w"
  then show "healthy (crit_init_simul tools_api w) \<and> on_disk b (crit_init_simul tools_api w)"
    using crit_paths
    by (simp add: crit_init_simul_def tools_api_def on_disk_def tools_cp_healthy)
qed


lemma not_default: "length b = MAX_CRITICAL_DATA \<Longrightarrow> b ! 0 = CRIT_VERSION \<Longrightarrow> \<not> crit_is_default b"
proof
  assume "length b = MAX_CRITICAL_DATA" "b ! 0 = CRIT_VERSION" "crit_is_default b"
  then have "take 9 b ! 0 = (str DEFAULT_CRITICAL_DATA @ [0]) ! 0"
    by (simp add: crit_is_default_def)
  with \<open>b ! 0 = CRIT_VERSION\<close> \<open>length b = _\<close> show False
    by (simp add: str_def DEFAULT_CRITICAL_DATA_def CRIT_VERSION_def of_char_def)
qed

lemma get32_drop:
  "drop CRIT_HEADER_SIZE b = drop CRIT_HEADER_SIZE b' \<Longrightarrow> length b = length b' \<Longrightarrow>
     CRIT_HEADER_SIZE \<le> off \<Longrightarrow> off + 4 \<le> length b \<Longrightarrow> get32 off b = get32 off b'"
proof -
  assume dr: "drop CRIT_HEADER_SIZE b = drop CRIT_HEADER_SIZE b'" and len: "length b = length b'"
    and off: "CRIT_HEADER_SIZE \<le> off" "off + 4 \<le> length b"
  have "b ! i = b' ! i" if "CRIT_HEADER_SIZE \<le> i" "i < length b" for i
    using arg_cong [OF dr, of "\<lambda>l. l ! (i - CRIT_HEADER_SIZE)"] that len by simp
  with off show ?thesis by (simp add: get32_def)
qed

text \<open>What a write of all fields leaves on the medium, and what a later start-up makes of it.\<close>

lemma saved_block:
  assumes "healthy (cw s)" and "length (critical_data s) = MAX_CRITICAL_DATA"
  shows "\<exists>s'. crit_write_data tools_api s = (0, s') \<and> healthy (cw s') \<and>
    length (critical_data s') = MAX_CRITICAL_DATA \<and>
    drop CRIT_HEADER_SIZE (critical_data s') = drop CRIT_HEADER_SIZE (critical_data s) \<and>
    (\<forall>t. cw t = cw s' \<longrightarrow> (\<exists>t'. crit_init tools_api t = Some (0, t') \<and> critical_data t' =
       (if crit_implausible (critical_data s) then zero_block else critical_data s')))"
proof -
  obtain s' where w: "crit_write_data tools_api s = (0, s')" "healthy (cw s')"
    "on_disk (critical_data s') (cw s')" "length (critical_data s') = MAX_CRITICAL_DATA"
    "drop CRIT_HEADER_SIZE (critical_data s') = drop CRIT_HEADER_SIZE (critical_data s)"
    "get16 OFF_LENGTH (critical_data s') = of_nat CRIT_BODY_SIZE"
    "get16 OFF_CRC (critical_data s') =
      crc16 (take CRIT_BODY_SIZE (drop CRIT_HEADER_SIZE (critical_data s')))"
    "critical_data s' ! 0 = CRIT_VERSION"
    using media.write_data_image [OF assms] by auto
  have "get32 off (critical_data s') = get32 off (critical_data s)"
    if "CRIT_HEADER_SIZE \<le> off" "off + 4 \<le> MAX_CRITICAL_DATA" for off
    using get32_drop [OF w(5)] w(4) assms(2) that by simp
  then have imp: "crit_implausible (critical_data s') = crit_implausible (critical_data s)"
    by (simp add: crit_implausible_def crit_sizes crit_offsets)
  have "\<exists>t'. crit_init tools_api t = Some (0, t') \<and> critical_data t' =
      (if crit_implausible (critical_data s) then zero_block else critical_data s')"
    if "cw t = cw s'" for t
    using media.init_wipes_implausible [of t "critical_data s'"]
      media.init_checks [of t "critical_data s'", OF _ _ w(4)] not_default [OF w(4,8)] w imp that
    by auto
  with w show ?thesis by blast
qed

subsection \<open>Properties\<close>

text \<open>
  C34: critical data survive a restart. On a device without faults, after a mileage and a position
  were written, a new process that starts with any memory content reads back every field, provided
  the mileage, the position and its time are not zero.
\<close>

theorem crit_data_survives_restart:
  assumes "healthy (cw s)" and "length (critical_data s) = MAX_CRITICAL_DATA"
    and "mileage \<noteq> 0" and "\<not> float_zero lat" and "\<not> float_zero lon" and "utc \<noteq> 0"
  shows "\<exists>s1 s2. crit_set_data_mileage_detail_write tools_api mileage y m d llat llon s = (0, s1) \<and>
    crit_set_data_gps_write tools_api lat lon utc s1 = (0, s2) \<and>
    (\<forall>t. cw t = cw s2 \<longrightarrow> (\<exists>t'. crit_init tools_api t = Some (0, t') \<and>
       crit_get_data_gps t' = (lat, lon, utc) \<and>
       crit_get_data_mileage_detail t' = (mileage, y, m, d, llat, llon)))"
proof -
  let ?b1 = "put32 OFF_LASTLON llon (put32 OFF_LASTLAT llat (put32 OFF_DAY d (put32 OFF_MON m
         (put32 OFF_YEAR y (put32 OFF_MILEAGE mileage (critical_data s))))))"
  obtain w1 where w1: "crit_set_data_mileage_detail tools_api mileage y m d llat llon s =
      (0, s\<lparr>critical_data := ?b1, cw := w1\<rparr>)" "healthy w1"
    using media.store_holds [of "s\<lparr>critical_data := ?b1\<rparr>"] assms(1,2)
    by (auto simp: crit_set_data_mileage_detail_def)
  obtain s1 where s1: "crit_write_data tools_api (s\<lparr>critical_data := ?b1, cw := w1\<rparr>) = (0, s1)"
    "healthy (cw s1)" "length (critical_data s1) = MAX_CRITICAL_DATA"
    "drop CRIT_HEADER_SIZE (critical_data s1) = drop CRIT_HEADER_SIZE ?b1"
    using saved_block [of "s\<lparr>critical_data := ?b1, cw := w1\<rparr>"] w1(2) assms(2) by auto
  let ?b2 = "put32 OFF_UTC utc (put32 OFF_LON lon (put32 OFF_LAT lat (critical_data s1)))"
  obtain w2 where w2: "crit_set_data_gps tools_api lat lon utc s1 =
      (0, s1\<lparr>critical_data := ?b2, cw := w2\<rparr>)" "healthy w2"
    using media.store_holds [of "s1\<lparr>critical_data := ?b2\<rparr>"] s1(2,3)
    by (auto simp: crit_set_data_gps_def)
  let ?s2 = "s1\<lparr>critical_data := ?b2, cw := w2\<rparr>"
  have old: "get32 off (critical_data s1) = get32 off ?b1"
    if "CRIT_HEADER_SIZE \<le> off" "off + 4 \<le> MAX_CRITICAL_DATA" for off
    using get32_drop [OF s1(4)] s1(3) assms(2) that by simp
  have "\<not> crit_implausible ?b2"
    using assms(2-6) s1(3) old [of 5]
    by (simp add: crit_implausible_def crit_offsets crit_sizes get_put_other)
  then obtain s2 where s2: "crit_write_data tools_api ?s2 = (0, s2)"
    "length (critical_data s2) = MAX_CRITICAL_DATA"
    "drop CRIT_HEADER_SIZE (critical_data s2) = drop CRIT_HEADER_SIZE ?b2"
    "\<forall>t. cw t = cw s2 \<longrightarrow> (\<exists>t'. crit_init tools_api t = Some (0, t') \<and>
       critical_data t' = critical_data s2)"
    using saved_block [of ?s2] w2(2) s1(3) by auto
  have new: "get32 off (critical_data s2) = get32 off ?b2"
    if "CRIT_HEADER_SIZE \<le> off" "off + 4 \<le> MAX_CRITICAL_DATA" for off
    using get32_drop [OF s2(3)] s2(2) s1(3) that by simp
  have fields: "crit_get_data_gps t' = (lat, lon, utc) \<and>
      crit_get_data_mileage_detail t' = (mileage, y, m, d, llat, llon)"
    if "critical_data t' = critical_data s2" for t' :: "os crit"
    using assms(2) s1(3) old new that
    by (simp add: crit_get_data_gps_def crit_get_data_mileage_detail_def crit_offsets crit_sizes
        get_put_other)
  show ?thesis
    using w1 s1(1) w2 s2(1,4) fields
    by (intro exI [of _ s1] exI [of _ s2])
      (fastforce simp: crit_set_data_mileage_detail_write_def crit_set_data_gps_write_def)
qed

theorem crit_data_survives_restart_witness:
  "\<exists>s1 s2. crit_set_data_mileage_detail_write tools_api 1200 2017 9 13 0x42140000 0x42FE0000
      \<lparr>critical_data = zero_block, cw = \<lparr>files = Map.empty, script = []\<rparr>\<rparr> = (0, s1) \<and>
    crit_set_data_gps_write tools_api 0x42140000 0x42FE0000 1505290000 s1 = (0, s2) \<and>
    (\<forall>t. cw t = cw s2 \<longrightarrow> (\<exists>t'. crit_init tools_api t = Some (0, t') \<and>
       crit_get_data_gps t' = (0x42140000, 0x42FE0000, 1505290000) \<and>
       crit_get_data_mileage_detail t' = (1200, 2017, 9, 13, 0x42140000, 0x42FE0000)))"
  by (rule crit_data_survives_restart)
    (simp_all add: healthy_def zero_block_def float_zero_def)

text \<open>
  A device that has not travelled yet loses its position. When the mileage is still zero, the
  start-up treats the block as invalid and clears it, although it was written completely and its
  checksum is right.
\<close>

theorem crit_zero_mileage_loses_position:
  assumes "healthy (cw s)" and "length (critical_data s) = MAX_CRITICAL_DATA"
    and "crit_get_data_mileage s = 0"
  shows "\<exists>s'. crit_set_data_gps_write tools_api lat lon utc s = (0, s') \<and>
    (\<forall>t. cw t = cw s' \<longrightarrow> (\<exists>t'. crit_init tools_api t = Some (0, t') \<and>
       critical_data t' = zero_block))"
proof -
  let ?b = "put32 OFF_UTC utc (put32 OFF_LON lon (put32 OFF_LAT lat (critical_data s)))"
  obtain w where w: "crit_set_data_gps tools_api lat lon utc s =
      (0, s\<lparr>critical_data := ?b, cw := w\<rparr>)" "healthy w"
    using media.store_holds [of "s\<lparr>critical_data := ?b\<rparr>"] assms(1,2)
    by (auto simp: crit_set_data_gps_def)
  have "crit_implausible ?b"
    using assms(3)
    by (simp add: crit_implausible_def crit_get_data_mileage_def crit_offsets get_put_other)
  with saved_block [of "s\<lparr>critical_data := ?b, cw := w\<rparr>"] w assms(2) show ?thesis
    by (auto simp: crit_set_data_gps_write_def)
qed

theorem crit_zero_mileage_loses_position_witness:
  "\<exists>s'. crit_set_data_gps_write tools_api 0x42140000 0x42FE0000 1505290000
      \<lparr>critical_data = zero_block, cw = \<lparr>files = Map.empty, script = []\<rparr>\<rparr> = (0, s') \<and>
    (\<forall>t. cw t = cw s' \<longrightarrow> (\<exists>t'. crit_init tools_api t = Some (0, t') \<and>
       critical_data t' = zero_block))"
  by (rule crit_zero_mileage_loses_position)
    (simp_all add: healthy_def zero_block_def crit_get_data_mileage_def get32_def crit_offsets
      MAX_CRITICAL_DATA_def of_le32_def)

end
