(* ===== verification/Mileage.thy ===== *)
theory Mileage
  imports GpsData Config
begin

text \<open>
  \<open>base/mileage.c\<close>: the odometer. \<open>mileage_buf\<close> accumulates distances as a floating-point
  number, \<open>mileagedata\<close> is the record saved to a file. The function-local static variables are
  fields of the state. \<open>crit_rec\<close> is what the critical data block holds of the mileage (theory
  CritData models the block itself). \<open>enc\<close> and \<open>deco\<close> are the representation of
  \<open>mileageData_t\<close> in memory; the kernel time is an argument.

  Assigning the sum to an \<open>unsigned int\<close> is undefined when its truncation is negative or does not
  fit (\<open>None\<close>).
\<close>

record mileageData =
  distance_sum :: int
  lastyear :: int
  lastmon :: int
  lastday :: int
  lastlat :: real
  lastlon :: real

record mil =
  mileagedata :: mileageData
  mileage_buf :: real
  detect_move :: bool
  last_mileage_time :: int
  last_mileage_time_2 :: int
  last_active_stat :: int
  crit_rec :: mileageData

definition MILEAGE_CHECK_INTERVAL_SECS :: int where "MILEAGE_CHECK_INTERVAL_SECS = 10"
definition MILEAGE_PATH :: string where "MILEAGE_PATH = ''/data/mds/data/mileage.dat''"

definition to_uint :: "real \<Rightarrow> int option" where
  "to_uint x = (if x \<le> -1 \<or> 2 ^ 32 \<le> x then None else Some (to_int x))"

text \<open>The rectangle around Korea outside of which a position is refused.\<close>

definition outside :: "real \<Rightarrow> real \<Rightarrow> bool" where
  "outside la lo \<longleftrightarrow> la < 32.657876 \<or> la > 39.283294 \<or> lo < 123.263168 \<or> lo > 132.074203"

definition last_from :: "gpsData \<Rightarrow> mileageData \<Rightarrow> mileageData" where
  "last_from g md = md\<lparr>lastyear := uint (gyear g), lastmon := uint (gmon g), lastday := uint (gday g),
     lastlat := glat g, lastlon := glon g\<rparr>"

definition mil_crit :: "mil \<Rightarrow> mil" where
  "mil_crit s = s\<lparr>crit_rec := mileagedata s\<rparr>"

subsection \<open>Accumulation\<close>

definition mileage_process :: "(real \<Rightarrow> real) \<Rightarrow> configMileage \<Rightarrow> int \<Rightarrow> gpsData \<Rightarrow> mil \<Rightarrow>
    (int \<times> mil) option" where
  "mileage_process rnd conf ktime g s =
     (if mil_enable conf = 0 then Some (0, s)
      else if outside (glat g) (glon g) then Some (-1, s)
      else
        (let s1 = (if gspeed g \<noteq> 0 then s\<lparr>detect_move := True\<rparr> else s); md = mileagedata s1
         in if outside (lastlat md) (lastlon md)
            then Some (0, s1\<lparr>mileagedata := last_from g md\<rparr>)
            else if daily_mileage conf = 1 \<and>
                (lastyear md \<noteq> uint (gyear g) \<or> lastmon md \<noteq> uint (gmon g) \<or>
                 lastday md \<noteq> uint (gday g))
            then Some (0, s1\<lparr>mileagedata := (last_from g md)\<lparr>distance_sum := 0\<rparr>\<rparr>)
            else if \<not> detect_move s1 then Some (0, s1)
            else if ktime - last_mileage_time s1 \<ge> MILEAGE_CHECK_INTERVAL_SECS then
              (let s2 = s1\<lparr>last_mileage_time := ktime\<rparr>
               in if glat g \<noteq> lastlat md \<or> glon g \<noteq> lastlon md then
                    (let buf = mileage_buf s2 +
                           get_distance_m rnd (lastlat md) (glat g) (lastlon md) (glon g)
                     in case to_uint buf of
                          None \<Rightarrow> None
                        | Some d \<Rightarrow>
                            Some (0, mil_crit (s2\<lparr>mileage_buf := buf, detect_move := False,
                              mileagedata := (last_from g md)\<lparr>distance_sum := d\<rparr>\<rparr>)))
                  else Some (0, s2))
            else Some (0, s1)))"

definition mileage_process_2 :: "(real \<Rightarrow> real) \<Rightarrow> int \<Rightarrow> gpsData \<Rightarrow> mil \<Rightarrow> (int \<times> mil) option" where
  "mileage_process_2 rnd ktime g s =
     (if outside (glat g) (glon g) then Some (-1, s)
      else
        (let md = mileagedata s; cur = uint (gactive g)
         in if outside (lastlat md) (lastlon md)
            then Some (0, s\<lparr>mileagedata := last_from g md, last_active_stat := cur\<rparr>)
            else
              (let force_calc = (last_active_stat s = 0 \<and> cur = 1);
                   need_to_calc = (gspeed g > 0 \<or> force_calc)
               in if \<not> need_to_calc then Some (0, s\<lparr>last_active_stat := cur\<rparr>)
                  else if force_calc \<or> ktime - last_mileage_time_2 s > 0 \<and> cur = 1 then
                    (let s1 = s\<lparr>last_mileage_time_2 := ktime\<rparr>
                     in if glat g \<noteq> lastlat md \<or> glon g \<noteq> lastlon md then
                          (let tmp = get_distance_m rnd (lastlat md) (glat g) (lastlon md) (glon g)
                           in if tmp > 0 then
                                (case to_uint (mileage_buf s1 + tmp) of
                                   None \<Rightarrow> None
                                 | Some d \<Rightarrow>
                                     Some (0, (mil_crit (s1\<lparr>mileage_buf := mileage_buf s1 + tmp,
                                       mileagedata := (last_from g md)\<lparr>distance_sum := d\<rparr>\<rparr>))
                                       \<lparr>last_active_stat := cur\<rparr>))
                              else Some (0, (mil_crit s1)\<lparr>last_active_stat := cur\<rparr>))
                        else Some (0, s1\<lparr>last_active_stat := cur\<rparr>))
                  else Some (0, s\<lparr>last_active_stat := cur\<rparr>))))"

definition mileage_get_m :: "mil \<Rightarrow> int option" where
  "mileage_get_m s = to_uint (mileage_buf s)"

definition mileage_set_m :: "u32 \<Rightarrow> mil \<Rightarrow> mil" where
  "mileage_set_m val s = s\<lparr>mileage_buf := of_int (uint val)\<rparr>"

subsection \<open>Persistence\<close>

definition mileage_write :: "(mileageData \<Rightarrow> byte list) \<Rightarrow> configMileage \<Rightarrow> mil \<Rightarrow> os \<Rightarrow>
    (int \<times> mil \<times> os) option" where
  "mileage_write enc conf s os =
     (if mil_enable conf = 0 then Some (0, s, os)
      else
        (case to_uint (mileage_buf s) of
           None \<Rightarrow> None
         | Some d \<Rightarrow>
             (let s1 = mil_crit (s\<lparr>mileagedata := mileagedata s\<lparr>distance_sum := d\<rparr>\<rparr>);
                  (r, os1) = storage_save_file MILEAGE_PATH (enc (mileagedata s1)) os
              in Some (if r < 0 then -1 else 0, s1, os1))))"

text \<open>\<open>support\<close> is \<open>crit_get_support_stat ()\<close>.\<close>

definition mileage_read :: "(mileageData \<Rightarrow> byte list) \<Rightarrow> (byte list \<Rightarrow> mileageData) \<Rightarrow> int \<Rightarrow>
    configMileage \<Rightarrow> int \<Rightarrow> mil \<Rightarrow> os \<Rightarrow> int \<times> mil \<times> os" where
  "mileage_read enc deco support conf ktime s os =
     (if mil_enable conf = 0 then (0, s, os)
      else
        (case storage_load_file MILEAGE_PATH (enc (mileagedata s)) os of
           (r, d, os1) \<Rightarrow>
             if r < 0 \<and> support = 0 then
               (-1, s\<lparr>mileagedata := \<lparr>distance_sum = 0, lastyear = 0, lastmon = 0, lastday = 0,
                       lastlat = 0, lastlon = 0\<rparr>, mileage_buf := 0\<rparr>, os1)
             else
               (let md = deco d; crit = crit_rec s;
                    s1 = (if distance_sum md \<ge> distance_sum crit
                          then s\<lparr>mileagedata := md, mileage_buf := of_int (distance_sum md)\<rparr>
                          else s\<lparr>mileagedata := crit, mileage_buf := of_int (distance_sum crit)\<rparr>);
                    s2 = (if ktime < 60
                          then s1\<lparr>mileagedata := mileagedata s1\<lparr>lastlat := 0, lastlon := 0\<rparr>\<rparr> else s1)
                in (0, s2, os1))))"

subsection \<open>Properties\<close>

text \<open>
  The odometer never runs backwards. A step of \<open>mileage_process_2\<close> either leaves the sum
  alone, or adds exactly the distance from the last position to the new one, which is positive, and
  makes the new position the last one; the values written to the critical data are those of the
  record.
\<close>

theorem mileage_process_2_monotone:
  assumes "mileage_process_2 rnd ktime g s = Some (r, s')"
  shows "mileage_buf s' = mileage_buf s \<and> distance_sum (mileagedata s') = distance_sum (mileagedata s) \<or>
    mileage_buf s' = mileage_buf s +
        get_distance_m rnd (lastlat (mileagedata s)) (glat g) (lastlon (mileagedata s)) (glon g) \<and>
    mileage_buf s < mileage_buf s' \<and> to_uint (mileage_buf s') = Some (distance_sum (mileagedata s')) \<and>
    lastlat (mileagedata s') = glat g \<and> lastlon (mileagedata s') = glon g \<and>
    crit_rec s' = mileagedata s'"
  using assms
  by (auto simp: mileage_process_2_def Let_def last_from_def mil_crit_def
      split: if_splits option.splits)

lemma dist_quarter: "get_distance_m (\<lambda>_. 0) 37 38 127 127 = 10007061.9264"
  by (simp add: get_distance_m_def arc_km_def arccos_0)

definition sample_mil :: mil where
  "sample_mil = \<lparr>mileagedata = \<lparr>distance_sum = 100, lastyear = 2017, lastmon = 9, lastday = 13,
      lastlat = 37, lastlon = 127\<rparr>, mileage_buf = 100, detect_move = True, last_mileage_time = 0,
     last_mileage_time_2 = 0, last_active_stat = 1,
     crit_rec = \<lparr>distance_sum = 100, lastyear = 2017, lastmon = 9, lastday = 13,
      lastlat = 37, lastlon = 127\<rparr>\<rparr>"

definition sample_fix :: gpsData where
  "sample_fix = zero_gps\<lparr>gyear := 2017, gmon := 9, gday := 14, glat := 38, glon := 127,
     gspeed := 50, gactive := 1\<rparr>"

theorem mileage_process_2_monotone_witness:
  "\<exists>r s'. mileage_process_2 (\<lambda>_. 0) 100 sample_fix sample_mil = Some (r, s') \<and>
    (mileage_buf s' = mileage_buf sample_mil \<and>
       distance_sum (mileagedata s') = distance_sum (mileagedata sample_mil) \<or>
     mileage_buf s' = mileage_buf sample_mil + get_distance_m (\<lambda>_. 0)
         (lastlat (mileagedata sample_mil)) (glat sample_fix)
         (lastlon (mileagedata sample_mil)) (glon sample_fix) \<and>
     mileage_buf sample_mil < mileage_buf s' \<and>
     to_uint (mileage_buf s') = Some (distance_sum (mileagedata s')) \<and>
     lastlat (mileagedata s') = glat sample_fix \<and> lastlon (mileagedata s') = glon sample_fix \<and>
     crit_rec s' = mileagedata s')"
proof -
  have "to_uint (100 + 10007061.9264) = Some 10007161"
    by (simp add: to_uint_def to_int_def floor_eq_iff)
  then obtain r s' where run: "mileage_process_2 (\<lambda>_. 0) 100 sample_fix sample_mil = Some (r, s')"
    by (auto simp: mileage_process_2_def sample_mil_def sample_fix_def zero_gps_def outside_def
        dist_quarter Let_def)
  from run mileage_process_2_monotone [OF run] show ?thesis by blast
qed

text \<open>
  The original \<open>mileage_process\<close> adds the error value of the distance. When rounding pushes the
  argument of \<open>acos\<close> out of range, a step that accumulates takes 1.1 m off the odometer, and below
  0.1 m the conversion to \<open>unsigned int\<close> is undefined.
\<close>

theorem mileage_process_subtracts_error:
  assumes "mil_enable conf \<noteq> 0" and "daily_mileage conf \<noteq> 1"
    and "\<not> outside (glat g) (glon g)" and "\<not> outside (lastlat (mileagedata s)) (lastlon (mileagedata s))"
    and "detect_move s" and "ktime - last_mileage_time s \<ge> MILEAGE_CHECK_INTERVAL_SECS"
    and "glat g \<noteq> lastlat (mileagedata s) \<or> glon g \<noteq> lastlon (mileagedata s)"
    and "rnd (acos_arg (lastlat (mileagedata s)) (glat g) (lastlon (mileagedata s)) (glon g)) > 1"
    and "0 \<le> mileage_buf s" and "mileage_buf s < 2 ^ 32"
  shows "(mileage_buf s \<le> 0.1 \<longrightarrow> mileage_process rnd conf ktime g s = None) \<and>
    (0.1 < mileage_buf s \<longrightarrow> (\<exists>s'. mileage_process rnd conf ktime g s = Some (0, s') \<and>
       mileage_buf s' = mileage_buf s - 1.1))"
proof -
  have "get_distance_m rnd (lastlat (mileagedata s)) (glat g) (lastlon (mileagedata s)) (glon g) = -1.1"
    using assms(7,8) by (auto simp: get_distance_m_def)
  then show ?thesis
    using assms
    by (auto simp: mileage_process_def Let_def to_uint_def mil_crit_def last_from_def)
qed

theorem mileage_process_subtracts_error_witness:
  "(mileage_buf sample_mil \<le> 0.1 \<longrightarrow> mileage_process (\<lambda>_. 2) \<lparr>mil_enable = 1, daily_mileage = 0\<rparr>
       100 sample_fix sample_mil = None) \<and>
    (0.1 < mileage_buf sample_mil \<longrightarrow>
     (\<exists>s'. mileage_process (\<lambda>_. 2) \<lparr>mil_enable = 1, daily_mileage = 0\<rparr> 100 sample_fix sample_mil =
         Some (0, s') \<and> mileage_buf s' = mileage_buf sample_mil - 1.1))"
  by (rule mileage_process_subtracts_error)
    (simp_all add: sample_mil_def sample_fix_def zero_gps_def outside_def
      MILEAGE_CHECK_INTERVAL_SECS_def)

text \<open>
  The daily mileage is never reset. With \<open>daily_mileage\<close> set, the first fix of a new day
  clears the sum of the record but not the accumulator: the value the terminal reports is unchanged,
  and the next movement writes the old total plus the new distance into the record again.
\<close>

theorem daily_mileage_not_reset:
  assumes "mil_enable conf \<noteq> 0" and "daily_mileage conf = 1"
    and "\<not> outside (glat g) (glon g)" and "\<not> outside (lastlat (mileagedata s)) (lastlon (mileagedata s))"
    and "lastday (mileagedata s) \<noteq> uint (gday g)" and "gspeed g \<noteq> 0"
    and "gyear g2 = gyear g" and "gmon g2 = gmon g" and "gday g2 = gday g"
    and "\<not> outside (glat g2) (glon g2)" and "glat g2 \<noteq> glat g"
    and "ktime2 - last_mileage_time s \<ge> MILEAGE_CHECK_INTERVAL_SECS"
    and "to_uint (mileage_buf s + get_distance_m rnd (glat g) (glat g2) (glon g) (glon g2)) = Some tot"
  shows "\<exists>s1 s2. mileage_process rnd conf ktime g s = Some (0, s1) \<and>
    distance_sum (mileagedata s1) = 0 \<and> mileage_get_m s1 = mileage_get_m s \<and>
    mileage_process rnd conf ktime2 g2 s1 = Some (0, s2) \<and> distance_sum (mileagedata s2) = tot"
  using assms
  by (auto simp: mileage_process_def Let_def last_from_def mil_crit_def mileage_get_m_def)

theorem daily_mileage_not_reset_witness:
  "\<exists>s1 s2. mileage_process (\<lambda>_. 0) \<lparr>mil_enable = 1, daily_mileage = 1\<rparr> 90
      (sample_fix\<lparr>glat := 37\<rparr>) sample_mil = Some (0, s1) \<and>
    distance_sum (mileagedata s1) = 0 \<and> mileage_get_m s1 = mileage_get_m sample_mil \<and>
    mileage_process (\<lambda>_. 0) \<lparr>mil_enable = 1, daily_mileage = 1\<rparr> 100 sample_fix s1 = Some (0, s2) \<and>
    distance_sum (mileagedata s2) = 10007161"
proof (rule daily_mileage_not_reset)
  have "to_uint (100 + 10007061.9264) = Some 10007161"
    by (simp add: to_uint_def to_int_def floor_eq_iff)
  then show "to_uint (mileage_buf sample_mil + get_distance_m (\<lambda>_. 0) (glat (sample_fix\<lparr>glat := 37\<rparr>))
      (glat sample_fix) (glon (sample_fix\<lparr>glat := 37\<rparr>)) (glon sample_fix)) = Some 10007161"
    by (simp add: sample_mil_def sample_fix_def zero_gps_def dist_quarter)
qed (simp_all add: sample_mil_def sample_fix_def zero_gps_def outside_def
      MILEAGE_CHECK_INTERVAL_SECS_def)

end
