(* ===== verification/Geofence.thy ===== *)
theory Geofence
  imports GpsData Storage
begin

text \<open>
  \<open>util/geofence-v2.c\<close>: up to 100 circular fences around fixed positions, each of which reports when
  the terminal enters it, leaves it, or both. The three static arrays are lists; \<open>enc_setup\<close> and
  the like are the representations of the two tables in memory, which are saved with theory Storage.
  Distances are those of theory Distance with the rounding \<open>rnd\<close>.
\<close>

definition GEO_FENCE_V2_MAX_COUNT :: nat where "GEO_FENCE_V2_MAX_COUNT = 100"
definition WAIT_TIME_UNTIL_NEXT_GEO_EVENT :: int where "WAIT_TIME_UNTIL_NEXT_GEO_EVENT = 3"
definition GEO_FENCE_V2_SETUP_DATA_FILE :: string where
  "GEO_FENCE_V2_SETUP_DATA_FILE = ''/data/mds/data/geo_fence_v2.dat''"
definition GEO_FENCE_V2_STATUS_FILE :: string where
  "GEO_FENCE_V2_STATUS_FILE = ''/data/mds/data/geo_fence_status_v2.dat''"

datatype fence_setup = SETUP_UNKNOWN | SETUP_ENTRY | SETUP_EXIT | SETUP_ENTRY_EXIT
datatype fence_notification = NONE_NOTIFICATION | IN_NOTIFICATION | OUT_NOTIFICATION

record geo_setup =
  enable :: bool
  latitude :: real
  longitude :: real
  fence_range :: int
  setup_fence_status :: fence_setup

record geo =
  setup_data :: "geo_setup list"
  status_data :: "fence_notification list"
  hold_count :: "int list"

subsection \<open>Tables\<close>

definition init_geo_fence_data :: "geo \<Rightarrow> geo" where
  "init_geo_fence_data s =
     s\<lparr>setup_data := replicate GEO_FENCE_V2_MAX_COUNT
         \<lparr>enable = False, latitude = 0, longitude = 0, fence_range = 0, setup_fence_status = SETUP_UNKNOWN\<rparr>,
       status_data := replicate GEO_FENCE_V2_MAX_COUNT OUT_NOTIFICATION,
       hold_count := replicate GEO_FENCE_V2_MAX_COUNT 0\<rparr>"

definition set_geo_fence_setup_info :: "int \<Rightarrow> geo_setup \<Rightarrow> geo \<Rightarrow> int \<times> geo" where
  "set_geo_fence_setup_info idx data s =
     (if idx \<ge> int GEO_FENCE_V2_MAX_COUNT \<or> idx < 0 then (-1, s)
      else (0, s\<lparr>setup_data := (setup_data s)[nat idx := data]\<rparr>))"

definition get_geo_fence_setup_info :: "int \<Rightarrow> geo \<Rightarrow> int \<times> geo_setup option" where
  "get_geo_fence_setup_info idx s =
     (if idx \<ge> int GEO_FENCE_V2_MAX_COUNT \<or> idx < 0 then (-1, None)
      else (0, Some (setup_data s ! nat idx)))"

definition save_geo_fence_status_info :: "(fence_notification list \<Rightarrow> byte list) \<Rightarrow> geo \<Rightarrow> os \<Rightarrow>
    int \<times> os" where
  "save_geo_fence_status_info enc_status s os =
     storage_save_file GEO_FENCE_V2_STATUS_FILE (enc_status (status_data s)) os"

definition save_geo_fence_setup_info :: "(geo_setup list \<Rightarrow> byte list) \<Rightarrow> geo \<Rightarrow> os \<Rightarrow> int \<times> os" where
  "save_geo_fence_setup_info enc_setup s os =
     storage_save_file GEO_FENCE_V2_SETUP_DATA_FILE (enc_setup (setup_data s)) os"

definition deinit_geo_fence :: "(fence_notification list \<Rightarrow> byte list) \<Rightarrow> geo \<Rightarrow> os \<Rightarrow> os" where
  "deinit_geo_fence enc_status s os = snd (save_geo_fence_status_info enc_status s os)"

text \<open>Load a table; when that fails, write what is in memory as the default.\<close>

definition load_or_save :: "string \<Rightarrow> byte list \<Rightarrow> os \<Rightarrow> byte list \<times> os" where
  "load_or_save file mem os =
     (case storage_load_file file mem os of
        (ret, d, os1) \<Rightarrow>
          if ret \<noteq> 0 then (d, snd (storage_save_file file d os1)) else (d, os1))"

definition init_geo_fence :: "(geo_setup list \<Rightarrow> byte list) \<Rightarrow> (byte list \<Rightarrow> geo_setup list) \<Rightarrow>
    (fence_notification list \<Rightarrow> byte list) \<Rightarrow> (byte list \<Rightarrow> fence_notification list) \<Rightarrow>
    bool \<Rightarrow> geo \<Rightarrow> os \<Rightarrow> int \<times> geo \<times> os" where
  "init_geo_fence enc_setup dec_setup enc_status dec_status read_saved s os =
     (let s1 = init_geo_fence_data s
      in if read_saved then
           (let (d1, os1) = load_or_save GEO_FENCE_V2_SETUP_DATA_FILE (enc_setup (setup_data s1)) os;
                (d2, os2) = load_or_save GEO_FENCE_V2_STATUS_FILE (enc_status (status_data s1)) os1
            in (0, s1\<lparr>setup_data := dec_setup d1, status_data := dec_status d2\<rparr>, os2))
         else (0, s1, os))"

subsection \<open>One fence\<close>

definition check_fence_data :: "int \<Rightarrow> int \<Rightarrow> int \<Rightarrow> fence_notification" where
  "check_fence_data d entry_range exit_range =
     (if d \<le> entry_range then IN_NOTIFICATION
      else if d > exit_range then OUT_NOTIFICATION else NONE_NOTIFICATION)"

definition get_notification :: "(real \<Rightarrow> real) \<Rightarrow> nat \<Rightarrow> gpsData \<Rightarrow> geo \<Rightarrow>
    fence_notification \<times> geo" where
  "get_notification rnd idx g s =
     (let f = setup_data s ! idx;
          dist_diff = to_int (get_distance_m rnd (latitude f) (glat g) (longitude f) (glon g))
      in if dist_diff < 0 then (NONE_NOTIFICATION, s)
         else
           (let r0 = check_fence_data dist_diff (fence_range f) (fence_range f);
                result = (case setup_fence_status f of
                            SETUP_UNKNOWN \<Rightarrow> NONE_NOTIFICATION | _ \<Rightarrow> r0)
            in if result \<noteq> NONE_NOTIFICATION \<and> result \<noteq> status_data s ! idx then
                 (let s1 = s\<lparr>status_data := (status_data s)[idx := result]\<rparr>
                  in (if setup_fence_status f = SETUP_ENTRY then
                        (if result \<noteq> IN_NOTIFICATION then NONE_NOTIFICATION else result)
                      else if setup_fence_status f = SETUP_EXIT then
                        (if result \<noteq> OUT_NOTIFICATION then NONE_NOTIFICATION else result)
                      else result, s1))
               else (NONE_NOTIFICATION, s)))"

subsection \<open>All fences\<close>

text \<open>The loop from fence \<open>i\<close>: the event, the number of its fence (when written), the state.\<close>

function geo_loop :: "(real \<Rightarrow> real) \<Rightarrow> nat \<Rightarrow> gpsData \<Rightarrow> geo \<Rightarrow>
    fence_notification \<times> nat option \<times> geo" where
  "geo_loop rnd i g s =
     (if i < GEO_FENCE_V2_MAX_COUNT then
        (if \<not> enable (setup_data s ! i) then geo_loop rnd (i + 1) g s
         else
           (let h = hold_count s ! i; s1 = s\<lparr>hold_count := (hold_count s)[i := h - 1]\<rparr>
            in if h > 0 then geo_loop rnd (i + 1) g s1
               else
                 (case get_notification rnd i g s1 of
                    (result, s2) \<Rightarrow>
                      if result = NONE_NOTIFICATION then geo_loop rnd (i + 1) g s2
                      else (result, Some i,
                        s2\<lparr>hold_count := (hold_count s2)[i := WAIT_TIME_UNTIL_NEXT_GEO_EVENT]\<rparr>))))
      else (NONE_NOTIFICATION, None, s))"
  by pat_completeness auto
termination by (relation "measure (\<lambda>(rnd, i, g, s). GEO_FENCE_V2_MAX_COUNT - i)") auto

declare geo_loop.simps [simp del]

definition get_geofence_notification :: "(real \<Rightarrow> real) \<Rightarrow> gpsData \<Rightarrow> geo \<Rightarrow>
    fence_notification \<times> nat option \<times> geo" where
  "get_geofence_notification rnd g s = geo_loop rnd 0 g s"

subsection \<open>Frames\<close>

lemma get_notification_frame:
  "get_notification rnd i g s = (r, s') \<Longrightarrow>
     setup_data s' = setup_data s \<and> hold_count s' = hold_count s \<and>
     (\<forall>j. j \<noteq> i \<longrightarrow> status_data s' ! j = status_data s ! j) \<and>
     length (status_data s') = length (status_data s)"
  by (auto simp: get_notification_def Let_def split: if_splits)

lemma get_notification_event:
  assumes "get_notification rnd i g s = (r, s')" and "r \<noteq> NONE_NOTIFICATION"
    and "i < length (status_data s)"
  shows "status_data s ! i \<noteq> r \<and> status_data s' ! i = r \<and>
    (r = IN_NOTIFICATION \<longleftrightarrow> to_int (get_distance_m rnd (latitude (setup_data s ! i)) (glat g)
        (longitude (setup_data s ! i)) (glon g)) \<le> fence_range (setup_data s ! i)) \<and>
    (setup_fence_status (setup_data s ! i) = SETUP_ENTRY \<longrightarrow> r = IN_NOTIFICATION) \<and>
    (setup_fence_status (setup_data s ! i) = SETUP_EXIT \<longrightarrow> r = OUT_NOTIFICATION)"
  using assms
  by (auto simp: get_notification_def Let_def check_fence_data_def split: if_splits fence_setup.splits)

lemma get_notification_quiet:
  assumes "get_notification rnd i g s = (NONE_NOTIFICATION, s')"
    and "setup_fence_status (setup_data s ! i) = SETUP_ENTRY_EXIT"
  shows "s' = s"
  using assms
  by (auto simp: get_notification_def Let_def check_fence_data_def split: if_splits)

lemma geo_loop_found:
  "geo_loop rnd i g s = (r, Some k, s') \<Longrightarrow> length (hold_count s) = GEO_FENCE_V2_MAX_COUNT \<Longrightarrow>
     r \<noteq> NONE_NOTIFICATION \<and> i \<le> k \<and> k < GEO_FENCE_V2_MAX_COUNT \<and> enable (setup_data s ! k) \<and>
     hold_count s ! k \<le> 0 \<and> hold_count s' ! k = WAIT_TIME_UNTIL_NEXT_GEO_EVENT \<and>
     setup_data s' = setup_data s \<and>
     (\<forall>j. k < j \<or> j < i \<longrightarrow> hold_count s' ! j = hold_count s ! j \<and> status_data s' ! j = status_data s ! j)"
proof (induction rnd i g s arbitrary: r k s' rule: geo_loop.induct)
  case (1 rnd i g s)
  show ?case
  proof (cases "i < GEO_FENCE_V2_MAX_COUNT")
    case False
    with "1.prems" show ?thesis by (subst (asm) geo_loop.simps) simp
  next
    case i: True
    let ?s1 = "s\<lparr>hold_count := (hold_count s)[i := hold_count s ! i - 1]\<rparr>"
    obtain res s2 where gn: "get_notification rnd i g ?s1 = (res, s2)"
      by (cases "get_notification rnd i g ?s1")
    note fr = get_notification_frame [OF gn]
    consider (off) "\<not> enable (setup_data s ! i)"
      | (hold) "enable (setup_data s ! i)" "hold_count s ! i > 0"
      | (quiet) "enable (setup_data s ! i)" "\<not> hold_count s ! i > 0" "res = NONE_NOTIFICATION"
      | (event) "enable (setup_data s ! i)" "\<not> hold_count s ! i > 0" "res \<noteq> NONE_NOTIFICATION"
      by blast
    then show ?thesis
    proof cases
      case off
      with i "1.prems"(1) have "geo_loop rnd (i + 1) g s = (r, Some k, s')"
        by (subst (asm) geo_loop.simps) simp
      from "1.IH"(1) [OF i off this "1.prems"(2)] show ?thesis by auto
    next
      case hold
      with i "1.prems"(1) have "geo_loop rnd (i + 1) g ?s1 = (r, Some k, s')"
        by (subst (asm) geo_loop.simps) (simp add: Let_def)
      from "1.IH"(2) [OF i _ refl refl hold(2) this] hold "1.prems"(2) show ?thesis by auto
    next
      case quiet
      with i "1.prems"(1) gn have "geo_loop rnd (i + 1) g s2 = (r, Some k, s')"
        by (subst (asm) geo_loop.simps) (simp add: Let_def)
      from "1.IH"(3) [OF i _ refl refl quiet(2) gn [symmetric] quiet(3) this] quiet "1.prems"(2) fr
      show ?thesis by auto
    next
      case event
      with i "1.prems"(1) gn have "k = i" "r = res"
        "s' = s2\<lparr>hold_count := (hold_count s2)[i := WAIT_TIME_UNTIL_NEXT_GEO_EVENT]\<rparr>"
        by (subst (asm) geo_loop.simps, simp add: Let_def)+
      with event i fr "1.prems"(2) show ?thesis by auto
    qed
  qed
qed

subsection \<open>Properties\<close>

text \<open>The events one fence produces for a sequence of positions.\<close>

fun fence_events :: "(real \<Rightarrow> real) \<Rightarrow> nat \<Rightarrow> gpsData list \<Rightarrow> geo \<Rightarrow> fence_notification list" where
  "fence_events rnd i [] s = []"
| "fence_events rnd i (g # gs) s =
     (let (r, s') = get_notification rnd i g s
      in (if r = NONE_NOTIFICATION then [] else [r]) @ fence_events rnd i gs s')"

fun alternating :: "fence_notification \<Rightarrow> fence_notification list \<Rightarrow> bool" where
  "alternating last_ev [] = True"
| "alternating last_ev (e # es) = (e \<noteq> last_ev \<and> e \<noteq> NONE_NOTIFICATION \<and> alternating e es)"

text \<open>
  A fence set up for entry and exit reports entries and exits alternately, beginning with the
  opposite of its stored status, for every sequence of positions and every rounding.
\<close>

theorem geofence_alternates:
  assumes "i < length (status_data s)"
    and "setup_fence_status (setup_data s ! i) = SETUP_ENTRY_EXIT"
  shows "alternating (status_data s ! i) (fence_events rnd i gs s)"
  using assms
proof (induction gs arbitrary: s)
  case (Cons g gs)
  obtain r s' where gn: "get_notification rnd i g s = (r, s')" by (cases "get_notification rnd i g s")
  note fr = get_notification_frame [OF gn]
  show ?case
  proof (cases "r = NONE_NOTIFICATION")
    case True
    with get_notification_quiet gn Cons.prems have "s' = s" by blast
    with Cons gn True show ?thesis by simp
  next
    case False
    from Cons.IH [of s'] Cons.prems fr have
      "alternating (status_data s' ! i) (fence_events rnd i gs s')" by simp
    with get_notification_event [OF gn False Cons.prems(1)] gn False show ?thesis by auto
  qed
qed simp

definition sample_geo :: geo where
  "sample_geo = \<lparr>setup_data = replicate 100 \<lparr>enable = True, latitude = 37, longitude = 127,
       fence_range = 500, setup_fence_status = SETUP_ENTRY_EXIT\<rparr>,
     status_data = replicate 100 OUT_NOTIFICATION, hold_count = replicate 100 0\<rparr>"

theorem geofence_alternates_witness:
  "alternating (status_data sample_geo ! 7) (fence_events (\<lambda>x. x) 7
     [zero_gps\<lparr>glat := 37, glon := 127\<rparr>, zero_gps, zero_gps\<lparr>glat := 37, glon := 127\<rparr>] sample_geo)"
  by (rule geofence_alternates) (simp_all add: sample_geo_def)

text \<open>
  One call reports at most one fence, and the others are not lost. The reporting fence was
  enabled and not on hold and is put on hold for three calls; the fences after it are not examined in
  this call, their status and hold are untouched, so their event is reported by a later call.
\<close>

theorem geofence_one_event_per_call:
  assumes "get_geofence_notification rnd g s = (r, Some k, s')"
    and "length (hold_count s) = GEO_FENCE_V2_MAX_COUNT"
  shows "r \<noteq> NONE_NOTIFICATION \<and> k < GEO_FENCE_V2_MAX_COUNT \<and> enable (setup_data s ! k) \<and>
    hold_count s ! k \<le> 0 \<and> hold_count s' ! k = WAIT_TIME_UNTIL_NEXT_GEO_EVENT \<and>
    (\<forall>j > k. hold_count s' ! j = hold_count s ! j \<and> status_data s' ! j = status_data s ! j)"
  using geo_loop_found [of rnd 0 g s r k s'] assms by (auto simp: get_geofence_notification_def)

theorem geofence_one_event_per_call_witness:
  "\<exists>s'. get_geofence_notification (\<lambda>x. x) (zero_gps\<lparr>glat := 37, glon := 127\<rparr>) sample_geo =
      (IN_NOTIFICATION, Some 0, s') \<and>
    (IN_NOTIFICATION \<noteq> NONE_NOTIFICATION \<and> 0 < GEO_FENCE_V2_MAX_COUNT \<and>
     enable (setup_data sample_geo ! 0) \<and> hold_count sample_geo ! 0 \<le> 0 \<and>
     hold_count s' ! 0 = WAIT_TIME_UNTIL_NEXT_GEO_EVENT \<and>
     (\<forall>j > 0. hold_count s' ! j = hold_count sample_geo ! j \<and>
        status_data s' ! j = status_data sample_geo ! j))"
proof -
  let ?run = "get_geofence_notification (\<lambda>x. x) (zero_gps\<lparr>glat := 37, glon := 127\<rparr>) sample_geo"
  have "fst ?run = IN_NOTIFICATION \<and> fst (snd ?run) = Some 0"
    unfolding get_geofence_notification_def
    by (simp add: geo_loop.simps [of _ 0] sample_geo_def get_notification_def get_distance_m_def check_fence_data_def
        GEO_FENCE_V2_MAX_COUNT_def)
  then obtain s' where run: "?run = (IN_NOTIFICATION, Some 0, s')"
    by (metis prod.collapse)
  from geofence_one_event_per_call [OF run] run show ?thesis
    by (simp add: sample_geo_def GEO_FENCE_V2_MAX_COUNT_def)
qed

end
