(* ===== verification/Watchdog.thy ===== *)
theory Watchdog
  imports Tools
begin

text \<open>
  \<open>base/watchdog.c\<close>: every thread reports its kernel time, and a process that runs every few
  seconds powers the device off when one of them has been silent for too long at three consecutive
  checks. The build with the second network thread, the button thread and GPS has five watchdogs.
  \<open>time_t\<close> is a signed 32-bit number; the comparison with the unsigned limit is unsigned on the
  32-bit targets, so it is made on 32-bit words. The kernel time is an argument; the log text is left
  out; \<open>poweroff\<close> does not return and sets \<open>wd_poweroff\<close>.
\<close>

datatype eWdType = eWdNet1 | eWdNet2 | eWdPwr | eWdMain | eWdGps

definition wd_index :: "eWdType \<Rightarrow> nat" where
  "wd_index t = (case t of eWdNet1 \<Rightarrow> 0 | eWdNet2 \<Rightarrow> 1 | eWdPwr \<Rightarrow> 2 | eWdMain \<Rightarrow> 3 | eWdGps \<Rightarrow> 4)"

definition eWdLast :: nat where "eWdLast = 5"
definition WATCHDOG_DEFAULT_SEC :: u32 where "WATCHDOG_DEFAULT_SEC = 600"

record wd =
  ktime_wd :: "int list"
  watchdog_time :: "u32 list"
  num_watchdog :: "int list"
  flag_wd_mutex :: bool
  ktime_prev_run :: int
  wd_poweroff :: bool

definition wd_init :: wd where
  "wd_init = \<lparr>ktime_wd = replicate eWdLast 0, watchdog_time = replicate eWdLast WATCHDOG_DEFAULT_SEC,
     num_watchdog = replicate eWdLast 0, flag_wd_mutex = False, ktime_prev_run = 0,
     wd_poweroff = False\<rparr>"

subsection \<open>Operations\<close>

definition watchdog_set_cur_ktime :: "eWdType \<Rightarrow> int \<Rightarrow> wd \<Rightarrow> int \<times> wd" where
  "watchdog_set_cur_ktime t ktime_cur s =
     (if ktime_cur \<le> 0 then (-1, s)
      else (0, s\<lparr>ktime_wd := (ktime_wd s)[wd_index t := ktime_cur]\<rparr>))"

definition watchdog_set_init_ktime :: "eWdType \<Rightarrow> wd \<Rightarrow> int \<times> wd" where
  "watchdog_set_init_ktime t s = (0, s\<lparr>ktime_wd := (ktime_wd s)[wd_index t := 0]\<rparr>)"

definition watchdog_set_time :: "eWdType \<Rightarrow> u32 \<Rightarrow> wd \<Rightarrow> int \<times> wd" where
  "watchdog_set_time t secs s = (0, s\<lparr>watchdog_time := (watchdog_time s)[wd_index t := secs]\<rparr>)"

text \<open>\<open>ktime_cur - ktime_wd[i] >= watchdog_time[i]\<close>, an unsigned comparison.\<close>

definition wd_late :: "int \<Rightarrow> int \<Rightarrow> u32 \<Rightarrow> bool" where
  "wd_late cur last_report limit \<longleftrightarrow> limit \<le> word_of_int (cur - last_report)"

definition wd_check :: "int \<Rightarrow> nat \<Rightarrow> wd \<Rightarrow> wd" where
  "wd_check cur i s =
     (if wd_poweroff s then s
      else if ktime_wd s ! i = 0 then s
      else
        (let n = (if wd_late cur (ktime_wd s ! i) (watchdog_time s ! i)
                  then num_watchdog s ! i + 1 else 0);
             s1 = s\<lparr>num_watchdog := (num_watchdog s)[i := n]\<rparr>
         in if n < 3 then s1
            else if flag_wd_mutex s1 then s1
            else s1\<lparr>flag_wd_mutex := True, wd_poweroff := True\<rparr>))"

definition watchdog_process :: "int \<Rightarrow> wd \<Rightarrow> wd" where
  "watchdog_process cur s =
     (if cur \<le> 0 then s
      else if cur - ktime_prev_run s \<le> 3 then s
      else foldl (\<lambda>s i. wd_check cur i s) (s\<lparr>ktime_prev_run := cur\<rparr>) [0..<eWdLast])"

subsection \<open>Lemmas\<close>

definition wd_wf :: "wd \<Rightarrow> bool" where
  "wd_wf s \<longleftrightarrow> length (ktime_wd s) = eWdLast \<and> length (watchdog_time s) = eWdLast \<and>
     length (num_watchdog s) = eWdLast \<and> flag_wd_mutex s = wd_poweroff s"

lemma wd_index_less [simp]: "wd_index t < eWdLast"
  by (cases t) (simp_all add: wd_index_def eWdLast_def)

lemma wd_init_wf: "wd_wf wd_init"
  by (simp add: wd_wf_def wd_init_def)

lemma wd_check_frame [frames]:
  "ktime_wd (wd_check cur i s) = ktime_wd s" "watchdog_time (wd_check cur i s) = watchdog_time s"
  "ktime_prev_run (wd_check cur i s) = ktime_prev_run s"
  "length (num_watchdog (wd_check cur i s)) = length (num_watchdog s)"
  "j \<noteq> i \<Longrightarrow> num_watchdog (wd_check cur i s) ! j = num_watchdog s ! j"
  by (simp_all add: wd_check_def Let_def)

lemma wd_check_wf [keeps]: "wd_wf s \<Longrightarrow> wd_wf (wd_check cur i s)"
  by (auto simp: wd_wf_def wd_check_def Let_def)

lemma wd_check_off: "wd_poweroff s \<Longrightarrow> wd_poweroff (wd_check cur i s)"
  by (simp add: wd_check_def)

lemma wd_fold_frame:
  "ktime_wd (foldl (\<lambda>s i. wd_check cur i s) s is) = ktime_wd s \<and>
   watchdog_time (foldl (\<lambda>s i. wd_check cur i s) s is) = watchdog_time s \<and>
   ktime_prev_run (foldl (\<lambda>s i. wd_check cur i s) s is) = ktime_prev_run s \<and>
   (wd_wf s \<longrightarrow> wd_wf (foldl (\<lambda>s i. wd_check cur i s) s is)) \<and>
   (wd_poweroff s \<longrightarrow> wd_poweroff (foldl (\<lambda>s i. wd_check cur i s) s is))"
  by (induction "is" arbitrary: s) (simp_all add: frames keeps wd_check_off)

lemma watchdog_process_frame:
  "ktime_wd (watchdog_process cur s) = ktime_wd s \<and>
   watchdog_time (watchdog_process cur s) = watchdog_time s \<and>
   (wd_wf s \<longrightarrow> wd_wf (watchdog_process cur s))"
  using wd_fold_frame [of cur "s\<lparr>ktime_prev_run := cur\<rparr>" "[0..<eWdLast]"]
  by (simp add: watchdog_process_def wd_wf_def)

text \<open>One effective check, seen from a single watchdog.\<close>

lemma wd_fold_counter:
  assumes "wd_wf s" and "i < eWdLast" and "ktime_wd s ! i \<noteq> 0" and "\<not> wd_poweroff s"
    and "wd_late cur (ktime_wd s ! i) (watchdog_time s ! i)" and "0 \<le> num_watchdog s ! i"
    and "i \<in> set is" and "distinct is"
  shows "wd_poweroff (foldl (\<lambda>s i. wd_check cur i s) s is) \<or>
    num_watchdog s ! i + 1 < 3 \<and>
    num_watchdog (foldl (\<lambda>s i. wd_check cur i s) s is) ! i = num_watchdog s ! i + 1"
  using assms(1,4,6-8) assms(3,5)
proof (induction "is" arbitrary: s)
  case (Cons j js)
  show ?case
  proof (cases "j = i")
    case True
    let ?s = "wd_check cur i s"
    have other: "num_watchdog (foldl (\<lambda>s i. wd_check cur i s) t js) ! i = num_watchdog t ! i" for t
      using Cons.prems(5) True by (induction js arbitrary: t) (auto simp: frames)
    have "wd_poweroff ?s \<or> num_watchdog s ! i + 1 < 3 \<and> num_watchdog ?s ! i = num_watchdog s ! i + 1"
      using Cons.prems assms(2) by (auto simp: wd_check_def Let_def wd_wf_def)
    with True other wd_fold_frame [of cur ?s js] show ?thesis by auto
  next
    case False
    let ?s = "wd_check cur j s"
    show ?thesis
    proof (cases "wd_poweroff ?s")
      case True
      with wd_fold_frame [of cur ?s js] show ?thesis by simp
    next
      case F: False
      have "i \<in> set js" "distinct js" using Cons.prems(4,5) False by auto
      with Cons.IH [of ?s] Cons.prems F False show ?thesis by (simp add: frames keeps)
    qed
  qed
qed simp

lemma watchdog_process_counts:
  assumes "wd_wf s" and "i < eWdLast" and "ktime_wd s ! i \<noteq> 0" and "\<not> wd_poweroff s"
    and "wd_late cur (ktime_wd s ! i) (watchdog_time s ! i)" and "0 \<le> num_watchdog s ! i"
    and "0 < cur" and "cur - ktime_prev_run s > 3"
  shows "wd_poweroff (watchdog_process cur s) \<or>
    num_watchdog s ! i + 1 < 3 \<and> num_watchdog (watchdog_process cur s) ! i = num_watchdog s ! i + 1"
  using wd_fold_counter [of "s\<lparr>ktime_prev_run := cur\<rparr>" i cur "[0..<eWdLast]"] assms
  by (simp add: watchdog_process_def wd_wf_def)

lemma watchdog_process_run:
  "0 < cur \<Longrightarrow> cur - ktime_prev_run s > 3 \<Longrightarrow> ktime_prev_run (watchdog_process cur s) = cur"
  using wd_fold_frame [of cur "s\<lparr>ktime_prev_run := cur\<rparr>" "[0..<eWdLast]"]
  by (simp add: watchdog_process_def)

lemma wd_late_iff: "0 \<le> cur - w \<Longrightarrow> cur - w < 2 ^ 32 \<Longrightarrow> wd_late cur w limit \<longleftrightarrow> uint limit \<le> cur - w"
  unfolding wd_late_def word_le_def uint_word_of_int by simp

lemma wd_check_quiet:
  assumes "\<not> wd_poweroff s" and "num_watchdog s = replicate eWdLast 0" and "i < eWdLast"
    and "ktime_wd s ! i \<noteq> 0 \<longrightarrow> \<not> wd_late cur (ktime_wd s ! i) (watchdog_time s ! i)"
  shows "wd_check cur i s = s"
proof -
  have "(num_watchdog s)[i := 0] = num_watchdog s"
    using assms(2,3) by (simp add: list_update_same_conv)
  with assms show ?thesis by (simp add: wd_check_def Let_def)
qed

lemma wd_fold_quiet:
  assumes "\<not> wd_poweroff s" and "num_watchdog s = replicate eWdLast 0" and "set is \<subseteq> {..<eWdLast}"
    and "\<forall>i < eWdLast. ktime_wd s ! i \<noteq> 0 \<longrightarrow> \<not> wd_late cur (ktime_wd s ! i) (watchdog_time s ! i)"
  shows "foldl (\<lambda>s i. wd_check cur i s) s is = s"
  using assms by (induction "is") (auto simp: wd_check_quiet)

subsection \<open>Properties\<close>

text \<open>
  What happens to the watchdogs: a thread reports, withdraws from the supervision or sets its limit, or
  the process runs a check.
\<close>

datatype wd_event = Reports eWdType int | Withdraws eWdType | Sets_limit eWdType u32 | Checks int

fun wd_step :: "wd_event \<Rightarrow> wd \<Rightarrow> wd" where
  "wd_step (Reports t c) s = snd (watchdog_set_cur_ktime t c s)"
| "wd_step (Withdraws t) s = snd (watchdog_set_init_ktime t s)"
| "wd_step (Sets_limit t n) s = snd (watchdog_set_time t n s)"
| "wd_step (Checks c) s = watchdog_process c s"

definition wd_run :: "wd_event list \<Rightarrow> wd \<Rightarrow> wd" where
  "wd_run evs s = foldl (\<lambda>s e. wd_step e s) s evs"

text \<open>The thread \<open>t\<close> does nothing, and every check is made when its last report \<open>w\<close> is older than its limit.\<close>

fun silent :: "eWdType \<Rightarrow> int \<Rightarrow> u32 \<Rightarrow> wd_event \<Rightarrow> bool" where
  "silent t w limit (Reports u c) \<longleftrightarrow> u \<noteq> t"
| "silent t w limit (Withdraws u) \<longleftrightarrow> u \<noteq> t"
| "silent t w limit (Sets_limit u n) \<longleftrightarrow> u \<noteq> t"
| "silent t w limit (Checks c) \<longleftrightarrow> uint limit \<le> c - w \<and> c < 2 ^ 31"

text \<open>How many checks come more than three seconds behind the one that counted before them.\<close>

fun checks_after :: "int \<Rightarrow> wd_event list \<Rightarrow> nat" where
  "checks_after p [] = 0"
| "checks_after p (Checks c # evs) = (if c > p + 3 then Suc (checks_after c evs) else checks_after p evs)"
| "checks_after p (_ # evs) = checks_after p evs"

lemma wd_index_inj: "u \<noteq> t \<Longrightarrow> wd_index u \<noteq> wd_index t"
  by (cases u; cases t; simp add: wd_index_def)

lemma wd_step_keeps:
  assumes "silent t w limit e" and "\<forall>c. e \<noteq> Checks c"
  shows "ktime_wd (wd_step e s) ! wd_index t = ktime_wd s ! wd_index t"
    "watchdog_time (wd_step e s) ! wd_index t = watchdog_time s ! wd_index t"
    "num_watchdog (wd_step e s) = num_watchdog s" "ktime_prev_run (wd_step e s) = ktime_prev_run s"
    "wd_poweroff (wd_step e s) = wd_poweroff s" "wd_wf s \<Longrightarrow> wd_wf (wd_step e s)"
  using assms wd_index_inj
  by (cases e; force simp: watchdog_set_cur_ktime_def watchdog_set_init_ktime_def watchdog_set_time_def wd_wf_def)+

lemma wd_run_off: "wd_poweroff s \<Longrightarrow> wd_poweroff (wd_run evs s)"
proof (induction evs arbitrary: s)
  case (Cons e evs)
  have "wd_poweroff (wd_step e s)"
  proof (cases e)
    case (Checks c)
    then show ?thesis using wd_fold_frame [of c "s\<lparr>ktime_prev_run := c\<rparr>" "[0..<eWdLast]"] Cons.prems
      by (simp add: watchdog_process_def)
  qed (use Cons.prems in \<open>simp_all add: watchdog_set_cur_ktime_def watchdog_set_init_ktime_def watchdog_set_time_def\<close>)
  with Cons.IH show ?case by (simp add: wd_run_def)
qed (simp add: wd_run_def)

lemma wd_run_silent:
  assumes "wd_wf s" and "0 \<le> num_watchdog s ! wd_index t" and "ktime_wd s ! wd_index t = w" and "0 < w"
    and "watchdog_time s ! wd_index t = limit" and "list_all (silent t w limit) evs"
    and "3 \<le> num_watchdog s ! wd_index t + int (checks_after (ktime_prev_run s) evs)"
    and "0 < checks_after (ktime_prev_run s) evs"
  shows "wd_poweroff (wd_run evs s)"
  using assms
proof (induction evs arbitrary: s)
  case Nil
  then show ?case by simp
next
  case (Cons e evs)
  note run = wd_run_def
  show ?case
  proof (cases "wd_poweroff s")
    case True
    then show ?thesis by (rule wd_run_off)
  next
    case on: False
    show ?thesis
    proof (cases e)
      case (Checks c)
      let ?s = "watchdog_process c s" and ?i = "wd_index t"
      have c: "uint limit \<le> c - w" "c < 2147483648" and "0 \<le> uint limit" using Cons.prems(6) Checks by simp_all
      then have "0 < c" "0 \<le> c - w" "c - w < 4294967296" using Cons.prems(4) by linarith+
      then have pos: "0 < c" "0 \<le> c - w" "c - w < 2 ^ 32" by simp_all
      show ?thesis
      proof (cases "c > ktime_prev_run s + 3")
        case True
        have late: "wd_late c (ktime_wd s ! ?i) (watchdog_time s ! ?i)"
          using wd_late_iff [OF pos(2,3)] c Cons.prems(3,5) by simp
        have "wd_poweroff ?s \<or> num_watchdog s ! ?i + 1 < 3 \<and> num_watchdog ?s ! ?i = num_watchdog s ! ?i + 1"
          using Cons.prems(2-4) on late pos(1) True by (intro watchdog_process_counts [OF Cons.prems(1)]) simp_all
        moreover have "ktime_prev_run ?s = c" using watchdog_process_run [of c s] pos(1) True by simp
        moreover have "wd_poweroff (wd_run (e # evs) s) = wd_poweroff (wd_run evs ?s)" by (simp add: run Checks)
        ultimately show ?thesis
          using Cons.IH [of ?s] Cons.prems watchdog_process_frame [of c s] wd_run_off [of ?s evs] True Checks by auto
      next
        case False
        then have "?s = s" by (simp add: watchdog_process_def)
        with Cons.IH [of s] Cons.prems Checks False show ?thesis by (simp add: run)
      qed
    qed (use Cons.IH [of "wd_step e s"] Cons.prems wd_step_keeps [of t w limit e s] in \<open>simp_all add: run\<close>)
  qed
qed

text \<open>
  C35: a silent thread is caught, whatever happens meanwhile. When a started thread no longer reports, and
  three checks, each more than three seconds behind the one that counted before, find its last report
  older than its limit, the device is powered off, whatever the other threads report, withdraw and set
  before and between the checks, and however many further checks are made.
\<close>

theorem watchdog_catches_silent_thread:
  assumes "wd_wf s" and "0 \<le> num_watchdog s ! wd_index t" and "ktime_wd s ! wd_index t = w" and "w > 0"
    and "list_all (silent t w (watchdog_time s ! wd_index t)) evs" and "3 \<le> checks_after (ktime_prev_run s) evs"
  shows "wd_poweroff (wd_run evs s)"
  by (rule wd_run_silent [OF assms(1-4) refl assms(5)]) (use assms(2,6) in simp_all)

text \<open>The GPS thread is silent; the main thread reports before every check.\<close>

theorem watchdog_catches_silent_thread_witness:
  "wd_poweroff (wd_run
     [Reports eWdMain 700, Checks 701, Withdraws eWdNet2, Checks 702, Reports eWdMain 704, Checks 705,
      Sets_limit eWdPwr 30, Reports eWdMain 708, Checks 709]
     (snd (watchdog_set_cur_ktime eWdGps 100 wd_init)))"
  by (rule watchdog_catches_silent_thread [where w = 100 and t = eWdGps])
    (simp_all add: watchdog_set_cur_ktime_def wd_init_def wd_wf_def wd_index_def eWdLast_def
      WATCHDOG_DEFAULT_SEC_def)

text \<open>
  No false alarm. A check at which every started thread has reported within its limit, and not in
  the future, leaves the counters at zero and does not power off.
\<close>

theorem watchdog_no_false_alarm:
  assumes "\<not> wd_poweroff s" and "num_watchdog s = replicate eWdLast 0"
    and "\<forall>i < eWdLast. ktime_wd s ! i \<noteq> 0 \<longrightarrow>
      0 \<le> cur - ktime_wd s ! i \<and> cur - ktime_wd s ! i < uint (watchdog_time s ! i)"
  shows "\<not> wd_poweroff (watchdog_process cur s) \<and>
    num_watchdog (watchdog_process cur s) = replicate eWdLast 0"
proof -
  have "\<not> wd_late cur (ktime_wd s ! i) (watchdog_time s ! i)"
    if "i < eWdLast" "ktime_wd s ! i \<noteq> 0" for i
  proof -
    from assms(3) that have b: "0 \<le> cur - ktime_wd s ! i"
      "cur - ktime_wd s ! i < uint (watchdog_time s ! i)" by auto
    moreover have "uint (watchdog_time s ! i) < 2 ^ LENGTH(32)" by (rule unsigned_less)
    ultimately show ?thesis by (subst wd_late_iff) simp_all
  qed
  then show ?thesis
    using assms(1,2) wd_fold_quiet [of "s\<lparr>ktime_prev_run := cur\<rparr>" "[0..<eWdLast]" cur]
    by (simp add: watchdog_process_def lessThan_atLeast0)
qed

theorem watchdog_no_false_alarm_witness:
  "\<not> wd_poweroff (watchdog_process 500 (snd (watchdog_set_cur_ktime eWdNet1 450 wd_init))) \<and>
   num_watchdog (watchdog_process 500 (snd (watchdog_set_cur_ktime eWdNet1 450 wd_init))) =
     replicate eWdLast 0"
proof (rule watchdog_no_false_alarm)
  show "\<forall>i < eWdLast. ktime_wd (snd (watchdog_set_cur_ktime eWdNet1 450 wd_init)) ! i \<noteq> 0 \<longrightarrow>
      0 \<le> 500 - ktime_wd (snd (watchdog_set_cur_ktime eWdNet1 450 wd_init)) ! i \<and>
      500 - ktime_wd (snd (watchdog_set_cur_ktime eWdNet1 450 wd_init)) ! i <
      uint (watchdog_time (snd (watchdog_set_cur_ktime eWdNet1 450 wd_init)) ! i)"
    by (auto simp: watchdog_set_cur_ktime_def wd_init_def wd_index_def WATCHDOG_DEFAULT_SEC_def
        nth_list_update)
qed (simp_all add: watchdog_set_cur_ktime_def wd_init_def)

text \<open>
  A report that is newer than the clock the process has read counts as late, because the
  difference wraps around. This can happen when a thread reports between the reading of the clock and
  the comparison; three such checks in a row power off a healthy device.
\<close>

theorem watchdog_future_report_is_late:
  assumes "cur < w" and "w - cur \<le> 2 ^ 31" and "uint limit \<le> 2 ^ 31"
  shows "wd_late cur w limit"
proof -
  have "(cur - w) mod 2 ^ 32 = cur - w + 2 ^ 32"
    by (rule int_mod_pos_eq [where q = "-1"]) (use assms in auto)
  then have "uint (word_of_int (cur - w) :: u32) = cur - w + 2 ^ 32"
    unfolding uint_word_of_int by simp
  moreover have "w - cur \<le> 2147483648" "uint limit \<le> 2147483648" "(2::int) ^ 32 = 4294967296"
    using assms(2,3) by simp_all
  ultimately show ?thesis unfolding wd_late_def word_le_def by linarith
qed

theorem watchdog_future_report_is_late_witness: "wd_late 1000 1001 WATCHDOG_DEFAULT_SEC"
  by (rule watchdog_future_report_is_late) (simp_all add: WATCHDOG_DEFAULT_SEC_def)

end
