(* ===== verification/Dmmgr.thy ===== *)
theory Dmmgr
  imports Config
begin

text \<open>
  \<open>base/dmmgr.c\<close>: events for the device-management server. An event that meets no network or
  loses its session is remembered, one flag per kind of event, and sent again later by the button
  thread. The server library (\<open>dm_event\<close>), the network state, the timed lock and the kernel time
  are the environment of a call. \<open>sent\<close> is the sequence of calls of \<open>dm_event\<close>; the bit masks
  that select the fields of a message are left out. An update that starts does not return: the
  device powers off, which is the result \<open>None\<close>.
\<close>

datatype dmEventType =
  eEVENT_PWR_ON | eEVENT_PWR_OFF | eEVENT_KEY_ON | eEVENT_KEY_OFF | eEVENT_REPORT |
  eEVENT_STATUS | eEVENT_LOG | eEVENT_WARNING | eEVENT_BREAKDOWN | eEVENT_UPDATE | eEVENT_MAX

text \<open>The kinds of events in the order of their numbers, below \<open>eEVENT_MAX\<close>.\<close>

definition dm_events :: "dmEventType list" where
  "dm_events = [eEVENT_PWR_ON, eEVENT_PWR_OFF, eEVENT_KEY_ON, eEVENT_KEY_OFF, eEVENT_REPORT,
     eEVENT_STATUS, eEVENT_LOG, eEVENT_WARNING, eEVENT_BREAKDOWN, eEVENT_UPDATE]"

definition TIME_TO_SEND_ALIVE :: int where "TIME_TO_SEND_ALIVE = 60 * 60 * 12"

datatype dm_res = DM_EV_RESP_OK | DM_EV_RESP_UPDATE | DM_ERR_INVALID_SESSION | DM_OTHER int

record dm_env =
  net_up :: bool
  lock_ok :: bool
  answer :: dm_res
  dm_ktime :: int

type_synonym dm_call = "dmEventType \<times> string option \<times> int"

record dmmgr =
  incomplete_event_buffer :: "dmEventType \<Rightarrow> bool"
  flag_send_key_on :: int
  flag_run_update :: int
  prev_time_dm_send :: int
  time_alive_log :: int
  sent :: "dm_call list"

definition dmmgr_start :: dmmgr where
  "dmmgr_start = \<lparr>incomplete_event_buffer = (\<lambda>_. False), flag_send_key_on = 0,
     flag_run_update = 0, prev_time_dm_send = 0, time_alive_log = 0, sent = []\<rparr>"

subsection \<open>Operations\<close>

text \<open>The events that are remembered, by both \<open>switch\<close> statements.\<close>

definition resendable :: "dmEventType \<Rightarrow> bool" where
  "resendable t \<longleftrightarrow> t \<in> {eEVENT_PWR_ON, eEVENT_PWR_OFF, eEVENT_KEY_ON, eEVENT_KEY_OFF,
     eEVENT_STATUS, eEVENT_UPDATE}"

definition remember :: "dmEventType \<Rightarrow> dmmgr \<Rightarrow> dmmgr" where
  "remember t s =
     (if resendable t then s\<lparr>incomplete_event_buffer := (incomplete_event_buffer s)(t := True)\<rparr> else s)"

text \<open>The events a setting switches off.\<close>

definition dm_skip :: "configWebdm \<Rightarrow> dmEventType \<Rightarrow> bool" where
  "dm_skip w t =
     (case t of
        eEVENT_PWR_ON \<Rightarrow> tx_power w = 0
      | eEVENT_PWR_OFF \<Rightarrow> tx_power w = 0
      | eEVENT_KEY_ON \<Rightarrow> tx_ignition w = 0
      | eEVENT_KEY_OFF \<Rightarrow> tx_ignition w = 0
      | eEVENT_REPORT \<Rightarrow> tx_report w = 0
      | eEVENT_LOG \<Rightarrow> tx_log w = 0
      | _ \<Rightarrow> False)"

definition dm_finish :: "dm_env \<Rightarrow> bool \<Rightarrow> dmmgr \<Rightarrow> dmmgr" where
  "dm_finish e skip s =
     (if \<not> skip \<and> dm_ktime e > 0 then s\<lparr>prev_time_dm_send := dm_ktime e\<rparr> else s)"

definition dmmgr_send ::
  "configWebdm \<Rightarrow> dm_env \<Rightarrow> dmEventType \<Rightarrow> string option \<Rightarrow> int \<Rightarrow> dmmgr \<Rightarrow> dm_res option \<times> dmmgr" where
  "dmmgr_send w e t msg evo_errno s =
     (if webdm_enable w = 0 then (Some DM_EV_RESP_OK, s)
      else if t = eEVENT_MAX then (Some (DM_OTHER (-1)), s)
      else
        (let s1 = (if t = eEVENT_KEY_ON \<and> tx_ignition w \<noteq> 0 then s\<lparr>flag_send_key_on := 1\<rparr> else s)
         in if \<not> net_up e then (Some DM_EV_RESP_OK, remember t s1)
            else if \<not> lock_ok e then (Some (DM_OTHER (-1)), s1)
            else if dm_skip w t then (Some DM_EV_RESP_OK, dm_finish e True s1)
            else
              (let s2 = s1\<lparr>sent := sent s1 @ [(t, msg, evo_errno)]\<rparr>
               in case answer e of
                    DM_EV_RESP_UPDATE \<Rightarrow>
                      if flag_run_update s2 = 1 then (Some DM_EV_RESP_UPDATE, dm_finish e False s2)
                      else (None, s2\<lparr>flag_run_update := 1\<rparr>)
                  | DM_EV_RESP_OK \<Rightarrow> (Some DM_EV_RESP_OK, dm_finish e False s2)
                  | DM_ERR_INVALID_SESSION \<Rightarrow>
                      (Some DM_ERR_INVALID_SESSION, dm_finish e False (remember t s2))
                  | DM_OTHER k \<Rightarrow> (Some (DM_OTHER k), dm_finish e False s2))))"

text \<open>
  The loop over the flags; \<open>env t\<close> is the environment the call for \<open>t\<close> meets. The flag of the
  result is \<open>False\<close> when a call did not return.
\<close>

fun late_loop ::
  "configWebdm \<Rightarrow> (dmEventType \<Rightarrow> dm_env) \<Rightarrow> dmEventType list \<Rightarrow> dmmgr \<Rightarrow> bool \<times> dmmgr" where
  "late_loop w env [] s = (True, s)"
| "late_loop w env (t # ts) s =
     (if incomplete_event_buffer s t then
        (case dmmgr_send w (env t) t (Some ''late event'') 0
                (s\<lparr>incomplete_event_buffer := (incomplete_event_buffer s)(t := False)\<rparr>) of
           (None, s1) \<Rightarrow> (False, s1)
         | (Some _, s1) \<Rightarrow> late_loop w env ts s1)
      else late_loop w env ts s)"

definition dmmgr_send_incomplete_event ::
  "configWebdm \<Rightarrow> bool \<Rightarrow> (dmEventType \<Rightarrow> dm_env) \<Rightarrow> dmmgr \<Rightarrow> bool \<times> dmmgr" where
  "dmmgr_send_incomplete_event w up env s =
     (if \<not> up then (True, s) else late_loop w env dm_events s)"

definition dmmgr_sended_key_on :: "dmmgr \<Rightarrow> int" where
  "dmmgr_sended_key_on s = flag_send_key_on s"

text \<open>A log text of the program, \<open>devel_webdm_send_log\<close> of \<open>devel.c\<close>; the text is the formatted one.\<close>

definition devel_webdm_send_log :: "configWebdm \<Rightarrow> dm_env \<Rightarrow> string \<Rightarrow> dmmgr \<Rightarrow> dm_res option \<times> dmmgr" where
  "devel_webdm_send_log w e msg s =
     (if webdm_enable w = 0 \<or> tx_log w = 0 then (Some DM_EV_RESP_OK, s)
      else dmmgr_send w e eEVENT_LOG (Some msg) 0 s)"

text \<open>
  \<open>cur_ktime\<close> is the clock this function reads, \<open>e\<close> the environment of the message. Behind the message
  \<open>get_watchdog_status\<close> of \<open>watchdog.c\<close> sends the state of the watchdogs as another one: \<open>status\<close> is its text
  and its environment, \<open>None\<close> when its reading of the clock fails.
\<close>

definition dmmgr_alive_send ::
  "configWebdm \<Rightarrow> int \<Rightarrow> dm_env \<Rightarrow> (string \<times> dm_env) option \<Rightarrow> dmmgr \<Rightarrow> dm_res option \<times> dmmgr" where
  "dmmgr_alive_send w cur_ktime e status s =
     (if cur_ktime \<le> 0 then (Some DM_EV_RESP_OK, s)
      else
        (let s1 = (if cur_ktime - time_alive_log s > 10 then s\<lparr>time_alive_log := cur_ktime\<rparr> else s)
         in if prev_time_dm_send s1 = 0 then
              (Some DM_EV_RESP_OK, s1\<lparr>prev_time_dm_send := cur_ktime\<rparr>)
            else if cur_ktime - prev_time_dm_send s1 > TIME_TO_SEND_ALIVE then
              (case dmmgr_send w e eEVENT_LOG (Some ''Alive'') 0 (s1\<lparr>prev_time_dm_send := cur_ktime\<rparr>) of
                 (None, s2) \<Rightarrow> (None, s2)
               | (Some r, s2) \<Rightarrow>
                   (case status of
                      None \<Rightarrow> (Some r, s2)
                    | Some (msg, e2) \<Rightarrow> devel_webdm_send_log w e2 msg s2))
            else (Some DM_EV_RESP_OK, s1)))"

subsection \<open>Lemmas\<close>

lemma dm_events_all: "t \<noteq> eEVENT_MAX \<Longrightarrow> t \<in> set dm_events"
  by (cases t) (simp_all add: dm_events_def)

lemma dm_events_distinct [simp]: "distinct dm_events"
  by (simp add: dm_events_def)

lemma dm_finish_frame [frames]:
  "incomplete_event_buffer (dm_finish e k s) = incomplete_event_buffer s"
  "sent (dm_finish e k s) = sent s"
  "flag_run_update (dm_finish e k s) = flag_run_update s"
  by (simp_all add: dm_finish_def)

lemma remember_frame [frames]:
  "sent (remember t s) = sent s" "flag_run_update (remember t s) = flag_run_update s"
  "incomplete_event_buffer (remember t s) u =
     (incomplete_event_buffer s u \<or> u = t \<and> resendable t)"
  by (auto simp: remember_def)

text \<open>What one call does to the flags and to the server, for every environment.\<close>

lemma dmmgr_send_flags:
  "incomplete_event_buffer (snd (dmmgr_send w e t msg n s)) u =
     (incomplete_event_buffer s u \<or>
      u = t \<and> resendable t \<and> webdm_enable w \<noteq> 0 \<and>
        (\<not> net_up e \<or> lock_ok e \<and> \<not> dm_skip w t \<and> answer e = DM_ERR_INVALID_SESSION))"
  by (auto simp: dmmgr_send_def Let_def frames resendable_def split: dm_res.splits)

lemma dmmgr_send_sent:
  "sent (snd (dmmgr_send w e t msg n s)) = sent s @
     (if webdm_enable w \<noteq> 0 \<and> t \<noteq> eEVENT_MAX \<and> net_up e \<and> lock_ok e \<and> \<not> dm_skip w t
      then [(t, msg, n)] else [])"
  by (auto simp: dmmgr_send_def Let_def frames split: dm_res.splits)

lemma dmmgr_send_returns:
  "answer e \<noteq> DM_EV_RESP_UPDATE \<Longrightarrow> fst (dmmgr_send w e t msg n s) \<noteq> None"
  by (auto simp: dmmgr_send_def Let_def split: dm_res.splits)

text \<open>Only events that can be sent again are ever remembered.\<close>

definition dm_wf :: "configWebdm \<Rightarrow> dmmgr \<Rightarrow> bool" where
  "dm_wf w s \<longleftrightarrow> (\<forall>t. incomplete_event_buffer s t \<longrightarrow> resendable t)"

lemma dmmgr_start_wf: "dm_wf w dmmgr_start"
  by (simp add: dm_wf_def dmmgr_start_def)

lemma dmmgr_send_wf [keeps]: "dm_wf w s \<Longrightarrow> dm_wf w (snd (dmmgr_send w e t msg n s))"
  by (auto simp: dm_wf_def dmmgr_send_flags)

text \<open>The whole effect of the loop, when no answer starts an update.\<close>

definition stays :: "configWebdm \<Rightarrow> dm_env \<Rightarrow> dmEventType \<Rightarrow> bool" where
  "stays w e t \<longleftrightarrow> \<not> net_up e \<or> lock_ok e \<and> \<not> dm_skip w t \<and> answer e = DM_ERR_INVALID_SESSION"

definition passes :: "configWebdm \<Rightarrow> dm_env \<Rightarrow> dmEventType \<Rightarrow> bool" where
  "passes w e t \<longleftrightarrow> net_up e \<and> lock_ok e \<and> \<not> dm_skip w t"

lemma late_loop_effect:
  assumes "\<forall>t. answer (env t) \<noteq> DM_EV_RESP_UPDATE" and "webdm_enable w \<noteq> 0"
    and "\<forall>t. incomplete_event_buffer s t \<longrightarrow> resendable t" and "distinct ts"
  shows "\<exists>s'. late_loop w env ts s = (True, s') \<and>
    sent s' = sent s @ map (\<lambda>t. (t, Some ''late event'', 0))
      (filter (\<lambda>t. incomplete_event_buffer s t \<and> passes w (env t) t) ts) \<and>
    (\<forall>u. incomplete_event_buffer s' u =
      (incomplete_event_buffer s u \<and> (u \<in> set ts \<longrightarrow> stays w (env u) u)))"
  using assms(3,4)
proof (induction ts arbitrary: s)
  case Nil
  then show ?case by simp
next
  case (Cons t ts)
  show ?case
  proof (cases "incomplete_event_buffer s t")
    case False
    with Cons.IH [of s] Cons.prems show ?thesis by auto
  next
    case True
    let ?s0 = "s\<lparr>incomplete_event_buffer := (incomplete_event_buffer s)(t := False)\<rparr>"
    obtain r s1 where send: "dmmgr_send w (env t) t (Some ''late event'') 0 ?s0 = (r, s1)"
      by fastforce
    have t: "resendable t" "t \<noteq> eEVENT_MAX"
      using Cons.prems(1) True by (auto simp: resendable_def)
    have flags: "incomplete_event_buffer s1 u =
        (incomplete_event_buffer s u \<and> (u = t \<longrightarrow> stays w (env t) t))" for u
      using dmmgr_send_flags [of w "env t" t "Some ''late event''" 0 ?s0 u] send t assms(2) True
      by (auto simp: stays_def)
    have sent: "sent s1 = sent s @ (if passes w (env t) t then [(t, Some ''late event'', 0)] else [])"
      using dmmgr_send_sent [of w "env t" t "Some ''late event''" 0 ?s0] send t assms(2)
      by (simp add: passes_def)
    have r: "r \<noteq> None"
      using dmmgr_send_returns [of "env t" w t "Some ''late event''" 0 ?s0] send assms(1) by simp
    have same: "filter (\<lambda>u. incomplete_event_buffer s1 u \<and> passes w (env u) u) ts =
        filter (\<lambda>u. incomplete_event_buffer s u \<and> passes w (env u) u) ts"
      using Cons.prems(2) flags by (auto intro: filter_cong)
    obtain s' where s': "late_loop w env ts s1 = (True, s')"
      "sent s' = sent s1 @ map (\<lambda>t. (t, Some ''late event'', 0))
        (filter (\<lambda>u. incomplete_event_buffer s1 u \<and> passes w (env u) u) ts)"
      "\<forall>u. incomplete_event_buffer s' u =
        (incomplete_event_buffer s1 u \<and> (u \<in> set ts \<longrightarrow> stays w (env u) u))"
      using Cons.IH [of s1] Cons.prems flags by auto
    have "late_loop w env (t # ts) s = (True, s')"
      using True send r s'(1) by auto
    moreover have "incomplete_event_buffer s' u = (incomplete_event_buffer s u \<and>
        (u \<in> set (t # ts) \<longrightarrow> stays w (env u) u))" for u
      using s'(3) flags Cons.prems(2) by auto
    ultimately show ?thesis
      using s'(2) same sent True by auto
  qed
qed

text \<open>The invariant over any sequence of events, with the network in any state.\<close>

definition dm_run :: "configWebdm \<Rightarrow> (dmEventType \<times> dm_env) list \<Rightarrow> dmmgr \<Rightarrow> dmmgr" where
  "dm_run w xs s = foldl (\<lambda>s (t, e). snd (dmmgr_send w e t None 0 s)) s xs"

lemma dm_run_Cons: "dm_run w ((t, e) # xs) s = dm_run w xs (snd (dmmgr_send w e t None 0 s))"
  by (simp add: dm_run_def)

lemma dm_run_wf: "dm_wf w s \<Longrightarrow> dm_wf w (dm_run w xs s)"
  unfolding dm_run_def by (rule foldl_invariant) (auto simp: keeps)

lemma dm_run_outage:
  assumes "webdm_enable w \<noteq> 0" and "\<forall>(t, e) \<in> set xs. \<not> net_up e"
  shows "sent (dm_run w xs s) = sent s \<and>
    (\<forall>u. incomplete_event_buffer (dm_run w xs s) u =
      (incomplete_event_buffer s u \<or> u \<in> fst ` set xs \<and> resendable u))"
  using assms(2)
proof (induction xs arbitrary: s)
  case Nil
  then show ?case by (simp add: dm_run_def)
next
  case (Cons x xs)
  obtain t e where x: "x = (t, e)" by fastforce
  show ?case
    using Cons.IH [of "snd (dmmgr_send w e t None 0 s)"] Cons.prems assms(1)
    by (auto simp: x dm_run_Cons dmmgr_send_flags dmmgr_send_sent)
qed

subsection \<open>Properties\<close>

text \<open>
  C37: events that occur while the network is down, in whatever order and however often. Power and key
  events, status and update requests are remembered, one of each kind; reports, logs, warnings and
  breakdowns are lost. The next pass of the button thread, with any state of the network, of the lock and any
  answers but one that starts an update, sends each remembered kind once, in the order of the
  enumeration, where the network is up, the lock is free and the kind is not switched off. Afterwards
  a kind is still remembered exactly when its turn met no network or it lost the session; one that is
  switched off or met a busy lock is forgotten.
\<close>

theorem late_events_sent_once:
  assumes "webdm_enable w \<noteq> 0" and "\<forall>(t, e) \<in> set xs. \<not> net_up e"
    and "\<forall>t. answer (env t) \<noteq> DM_EV_RESP_UPDATE"
  shows "\<exists>s'. dmmgr_send_incomplete_event w True env (dm_run w xs dmmgr_start) = (True, s') \<and>
    (let kept = {t \<in> fst ` set xs. t \<in> {eEVENT_PWR_ON, eEVENT_PWR_OFF, eEVENT_KEY_ON, eEVENT_KEY_OFF,
                   eEVENT_STATUS, eEVENT_UPDATE}}
     in sent s' = map (\<lambda>t. (t, Some ''late event'', 0))
          (filter (\<lambda>t. t \<in> kept \<and> net_up (env t) \<and> lock_ok (env t) \<and> \<not> dm_skip w t) dm_events) \<and>
        (\<forall>t. incomplete_event_buffer s' t \<longleftrightarrow> t \<in> kept \<and>
          (\<not> net_up (env t) \<or> lock_ok (env t) \<and> \<not> dm_skip w t \<and> answer (env t) = DM_ERR_INVALID_SESSION)))"
proof -
  let ?s = "dm_run w xs dmmgr_start"
  have out: "sent ?s = []" "incomplete_event_buffer ?s u = (u \<in> fst ` set xs \<and> resendable u)" for u
    using dm_run_outage [OF assms(1,2), of dmmgr_start] by (auto simp: dmmgr_start_def)
  have "\<forall>t. incomplete_event_buffer ?s t \<longrightarrow> resendable t" using out(2) by simp
  from late_loop_effect [OF assms(3,1) this dm_events_distinct]
  obtain s' where s': "late_loop w env dm_events ?s = (True, s')"
    and sent: "sent s' = sent ?s @ map (\<lambda>t. (t, Some ''late event'', 0))
      (filter (\<lambda>t. incomplete_event_buffer ?s t \<and> passes w (env t) t) dm_events)"
    and flags: "\<forall>u. incomplete_event_buffer s' u =
      (incomplete_event_buffer ?s u \<and> (u \<in> set dm_events \<longrightarrow> stays w (env u) u))"
    by auto
  define kept where "kept = {t \<in> fst ` set xs. t \<in> {eEVENT_PWR_ON, eEVENT_PWR_OFF, eEVENT_KEY_ON, eEVENT_KEY_OFF,
    eEVENT_STATUS, eEVENT_UPDATE}}"
  have kept: "incomplete_event_buffer ?s u \<longleftrightarrow> u \<in> kept" for u
    by (simp only: out(2) resendable_def kept_def mem_Collect_eq)
  have all: "u \<in> kept \<Longrightarrow> u \<in> set dm_events" for u
    unfolding kept_def by (rule dm_events_all) auto
  have "dmmgr_send_incomplete_event w True env ?s = (True, s')"
    using s' by (simp add: dmmgr_send_incomplete_event_def)
  moreover have "sent s' = map (\<lambda>t. (t, Some ''late event'', 0))
      (filter (\<lambda>t. t \<in> kept \<and> net_up (env t) \<and> lock_ok (env t) \<and> \<not> dm_skip w t) dm_events)"
    by (simp only: sent out(1) kept passes_def append_Nil)
  moreover have "\<forall>t. incomplete_event_buffer s' t \<longleftrightarrow> t \<in> kept \<and>
      (\<not> net_up (env t) \<or> lock_ok (env t) \<and> \<not> dm_skip w t \<and> answer (env t) = DM_ERR_INVALID_SESSION)"
    using flags all by (simp only: kept stays_def) blast
  ultimately show ?thesis unfolding Let_def kept_def by blast
qed

definition dm_down :: dm_env where
  "dm_down = \<lparr>net_up = False, lock_ok = True, answer = DM_EV_RESP_OK, dm_ktime = 50\<rparr>"

definition dm_up :: dm_env where
  "dm_up = \<lparr>net_up = True, lock_ok = True, answer = DM_EV_RESP_OK, dm_ktime = 60\<rparr>"

text \<open>
  A log, key off and then key on during an outage reach the server as key on and then key off, without the log.
\<close>

theorem late_events_sent_once_witness:
  "\<exists>s'. dmmgr_send_incomplete_event (webdm default_config) True (\<lambda>_. dm_up)
      (dm_run (webdm default_config)
        [(eEVENT_LOG, dm_down), (eEVENT_KEY_OFF, dm_down), (eEVENT_KEY_ON, dm_down)] dmmgr_start) = (True, s') \<and>
    sent s' = [(eEVENT_KEY_ON, Some ''late event'', 0), (eEVENT_KEY_OFF, Some ''late event'', 0)] \<and>
    (\<forall>t. \<not> incomplete_event_buffer s' t)"
  using late_events_sent_once [of "webdm default_config"
      "[(eEVENT_LOG, dm_down), (eEVENT_KEY_OFF, dm_down), (eEVENT_KEY_ON, dm_down)]" "\<lambda>_. dm_up"]
  by (simp add: default_config_def dm_down_def dm_up_def dm_skip_def dm_events_def)

text \<open>
  The pass clears the flag of an event before it sends the event, and a send that waits for the
  lock in vain does not set it again: an event whose turn meets a busy lock is neither sent nor
  remembered.
\<close>

theorem late_event_lost_on_busy_lock:
  assumes "webdm_enable w \<noteq> 0" and "dm_wf w s" and "incomplete_event_buffer s t"
    and "\<forall>u. answer (env u) \<noteq> DM_EV_RESP_UPDATE" and "net_up (env t)" and "\<not> lock_ok (env t)"
  shows "\<exists>s'. dmmgr_send_incomplete_event w True env s = (True, s') \<and>
    \<not> incomplete_event_buffer s' t \<and> (\<exists>new. sent s' = sent s @ new \<and> t \<notin> fst ` set new)"
proof -
  have "\<forall>t. incomplete_event_buffer s t \<longrightarrow> resendable t" using assms(2) by (simp add: dm_wf_def)
  from late_loop_effect [OF assms(4,1) this dm_events_distinct]
  obtain s' where s': "late_loop w env dm_events s = (True, s')"
    and sent: "sent s' = sent s @ map (\<lambda>t. (t, Some ''late event'', 0))
      (filter (\<lambda>t. incomplete_event_buffer s t \<and> passes w (env t) t) dm_events)"
    and flags: "\<forall>u. incomplete_event_buffer s' u =
      (incomplete_event_buffer s u \<and> (u \<in> set dm_events \<longrightarrow> stays w (env u) u))"
    by auto
  have "t \<in> set dm_events"
    using assms(2,3) by (intro dm_events_all) (auto simp: dm_wf_def resendable_def)
  then have "\<not> incomplete_event_buffer s' t" using flags assms(5,6) by (simp add: stays_def)
  moreover have "t \<notin> fst ` set (map (\<lambda>t. (t, Some ''late event'', 0 :: int))
      (filter (\<lambda>t. incomplete_event_buffer s t \<and> passes w (env t) t) dm_events))"
    using assms(6) by (auto simp: passes_def)
  ultimately show ?thesis using s' sent by (auto simp: dmmgr_send_incomplete_event_def simp del: set_map)
qed

theorem late_event_lost_on_busy_lock_witness:
  "\<exists>s'. dmmgr_send_incomplete_event (webdm default_config) True (\<lambda>_. dm_up\<lparr>lock_ok := False\<rparr>)
      (dm_run (webdm default_config) [(eEVENT_KEY_OFF, dm_down)] dmmgr_start) = (True, s') \<and>
    \<not> incomplete_event_buffer s' eEVENT_KEY_OFF \<and>
    (\<exists>new. sent s' = sent (dm_run (webdm default_config) [(eEVENT_KEY_OFF, dm_down)] dmmgr_start) @ new \<and>
       eEVENT_KEY_OFF \<notin> fst ` set new)"
  by (rule late_event_lost_on_busy_lock)
    (auto simp: dm_wf_def dm_run_def default_config_def dm_up_def dm_skip_def dm_down_def
      dmmgr_send_flags dmmgr_start_def resendable_def)

end
