(* ===== verification/Debounce.thy ===== *)
theory Debounce
  imports Prelude
begin

text \<open>
  The contract of a line with two levels that is observed in passes and whose changes are acted upon
  only after the line has been stable for a time: what one pass may do to the accepted level, the
  time since which it is stable, and the events reported. The consequences for whole runs are proved
  once, inside the locale.
\<close>

text \<open>Passes that follow each other in time, the first not before \<open>t\<close>.\<close>

fun in_order :: "('x \<Rightarrow> bool) \<Rightarrow> ('x \<Rightarrow> int) \<Rightarrow> ('x \<Rightarrow> int) \<Rightarrow> int \<Rightarrow> 'x list \<Rightarrow> bool" where
  "in_order ok start finish t [] = True"
| "in_order ok start finish t (x # xs) =
     (t \<le> start x \<and> ok x \<and> in_order ok start finish (finish x) xs)"

text \<open>
  What one observation at time \<open>t1\<close> (stored at \<open>t2\<close>) of level \<open>v\<close> makes of the accepted
  level \<open>c\<close>, last confirmed at \<open>since\<close>.
\<close>

definition debounce :: "int \<Rightarrow> int \<Rightarrow> int \<Rightarrow> int \<Rightarrow> int \<times> int \<Rightarrow> int \<times> int" where
  "debounce hold t1 t2 v = (\<lambda>(c, since).
     if t1 - since < hold then (c, if v = c then t2 else since)
     else (if v \<in> {0, 1} then v else c, t2))"

lemma debounce_binary: "c \<in> {0, 1} \<Longrightarrow> fst (debounce hold t1 t2 v (c, since)) \<in> {0, 1}"
  by (auto simp: debounce_def)

lemma debounce_change:
  "fst (debounce hold t1 t2 v (c, since)) \<noteq> c \<Longrightarrow>
     v = fst (debounce hold t1 t2 v (c, since)) \<and> hold \<le> t1 - since"
  by (auto simp: debounce_def split: if_splits)

lemma debounce_refresh:
  "v = fst (debounce hold t1 t2 v (c, since)) \<Longrightarrow> snd (debounce hold t1 t2 v (c, since)) = t2"
  by (auto simp: debounce_def split: if_splits)

lemma debounce_since: "snd (debounce hold t1 t2 v (c, since)) \<in> {since, t2}"
  by (auto simp: debounce_def)

locale steady_line =
  fixes step :: "'x \<Rightarrow> 's \<Rightarrow> 's"
    and cur since :: "'s \<Rightarrow> int"
    and evs :: "'s \<Rightarrow> 'e list"
    and report :: "int \<Rightarrow> 'e"
    and sampled ok :: "'x \<Rightarrow> bool"
    and level start now1 now2 finish :: "'x \<Rightarrow> int"
    and hold :: int
  assumes observes: "cur s \<in> {0, 1} \<Longrightarrow> sampled x \<Longrightarrow>
      \<exists>u \<in> {since s, start x}. (cur (step x s), since (step x s)) =
         debounce hold (now1 x) (now2 x) (level x) (cur s, u)"
    and skips: "\<not> sampled x \<Longrightarrow> cur (step x s) = cur s \<and> since (step x s) = since s"
    and report_distinct: "report 0 \<noteq> report 1"
    and reported: "cur s \<in> {0, 1} \<Longrightarrow> evs (step x s) =
      evs s @ (if cur (step x s) = cur s then [] else [report (cur (step x s))])"
    and ordered: "ok x \<Longrightarrow> start x \<le> now2 x \<and> now2 x \<le> finish x"
begin

lemma observed:
  assumes "cur s \<in> {0, 1}" and "sampled x"
  obtains u where "u = since s \<or> u = start x"
    and "cur (step x s) = fst (debounce hold (now1 x) (now2 x) (level x) (cur s, u))"
    and "since (step x s) = snd (debounce hold (now1 x) (now2 x) (level x) (cur s, u))"
  using observes [OF assms] by (metis fst_conv insertE singletonD snd_conv)

lemma binary: "cur s \<in> {0, 1} \<Longrightarrow> cur (step x s) \<in> {0, 1}"
  using observed [of s x] skips [of x s] debounce_binary [of "cur s"] by metis

lemma change:
  assumes "cur s \<in> {0, 1}" and "cur (step x s) \<noteq> cur s" and "since s \<le> start x"
  shows "sampled x \<and> level x = cur (step x s) \<and> hold \<le> now1 x - since s"
proof -
  have x: "sampled x" using assms(2) skips by blast
  obtain u where u: "u = since s \<or> u = start x"
    and cur: "cur (step x s) = fst (debounce hold (now1 x) (now2 x) (level x) (cur s, u))"
    using observed [OF assms(1) x] by metis
  have "level x = cur (step x s) \<and> hold \<le> now1 x - u"
    using debounce_change [of hold "now1 x" "now2 x" "level x" "cur s" u] assms(2) cur by simp
  then show ?thesis using u assms(3) x by auto
qed

lemma refresh:
  assumes "cur s \<in> {0, 1}" and "sampled x" and "level x = cur (step x s)"
  shows "since (step x s) = now2 x"
  using observed [OF assms(1,2)] assms(3) debounce_refresh by metis

lemma since_grows:
  assumes "cur s \<in> {0, 1}" and "ok x" and "since s \<le> start x"
  shows "since s \<le> since (step x s) \<and> since (step x s) \<le> finish x"
proof (cases "sampled x")
  case True
  obtain u where "u = since s \<or> u = start x" and "since (step x s) \<in> {u, now2 x}"
    using observed [OF assms(1) True] debounce_since by metis
  then show ?thesis using assms(3) ordered [OF assms(2)] by auto
next
  case False
  then show ?thesis using skips [OF False] assms(3) ordered [OF assms(2)] by auto
qed

definition seen :: "'x list \<Rightarrow> int \<Rightarrow> 's \<Rightarrow> bool" where
  "seen past t s \<longleftrightarrow> cur s \<in> {0, 1} \<and> since s \<le> t \<and>
     (\<forall>y \<in> set past. now2 y \<le> t \<and> (sampled y \<and> level y = cur s \<longrightarrow> now2 y \<le> since s))"

lemma seen_step:
  assumes "seen past t s" and "t \<le> start x" and "ok x"
  shows "seen (past @ [x]) (finish x) (step x s)"
proof -
  have bin: "cur s \<in> {0, 1}" and s: "since s \<le> start x"
    using assms(1,2) by (auto simp: seen_def)
  note grow = since_grows [OF bin assms(3) s] and now2 = ordered [OF assms(3)]
  have "now2 y \<le> since (step x s)" if "y \<in> set past" "sampled y" "level y = cur (step x s)" for y
  proof (cases "cur (step x s) = cur s")
    case True
    then have "now2 y \<le> since s" using that assms(1) by (auto simp: seen_def)
    then show ?thesis using grow by linarith
  next
    case False
    then have "since (step x s) = now2 x"
      using refresh [OF bin, of x] change [OF bin False s] by simp
    moreover have "now2 y \<le> t" using that(1) assms(1) by (auto simp: seen_def)
    ultimately show ?thesis using assms(2) now2 by linarith
  qed
  moreover have "now2 y \<le> finish x" if "y \<in> set past" for y
    using that assms(1,2) now2 by (fastforce simp: seen_def)
  ultimately show ?thesis
    using binary [OF bin] grow now2 refresh [OF bin, of x] by (auto simp: seen_def)
qed

lemma steady:
  assumes "in_order ok start finish t (xs @ [x])" and "seen past t s"
    and "cur (step x (foldl (\<lambda>s x. step x s) s xs)) \<noteq> cur (foldl (\<lambda>s x. step x s) s xs)"
  shows "sampled x \<and> level x = cur (step x (foldl (\<lambda>s x. step x s) s xs)) \<and>
    (\<forall>y \<in> set past \<union> set xs. sampled y \<and> now1 x - now2 y < hold \<longrightarrow>
       level y \<noteq> cur (foldl (\<lambda>s x. step x s) s xs))"
  using assms
proof (induction xs arbitrary: t past s)
  case Nil
  then have "since s \<le> start x" and "cur s \<in> {0, 1}" by (auto simp: seen_def)
  with Nil change [of s x] show ?case by (force simp: seen_def)
next
  case (Cons z zs)
  then have "seen (past @ [z]) (finish z) (step z s)"
    by (intro seen_step [of past t]) simp_all
  with Cons.IH [of "finish z" "past @ [z]" "step z s"] Cons.prems show ?case by simp
qed

lemma debounced:
  assumes "in_order ok start finish t (xs @ [x])" and "cur s \<in> {0, 1}" and "since s \<le> t"
    and "cur (step x (foldl (\<lambda>s x. step x s) s xs)) \<noteq> cur (foldl (\<lambda>s x. step x s) s xs)"
  shows "sampled x \<and> level x = cur (step x (foldl (\<lambda>s x. step x s) s xs)) \<and>
    (\<forall>y \<in> set xs. sampled y \<and> now1 x - now2 y < hold \<longrightarrow>
       level y \<noteq> cur (foldl (\<lambda>s x. step x s) s xs))"
  using steady [OF assms(1) _ assms(4), of "[]"] assms(2,3) by (auto simp: seen_def)

text \<open>The events reported alternate and the last one is the accepted level.\<close>

definition told :: "'s \<Rightarrow> bool" where
  "told s \<longleftrightarrow> cur s \<in> {0, 1} \<and> evs s \<noteq> [] \<and> last (evs s) = report (cur s) \<and>
     successively (\<noteq>) (evs s)"

lemma told_step: "told s \<Longrightarrow> told (step x s)"
  using binary [of s x] report_distinct
  by (auto simp: told_def reported successively_append_iff)

lemma told_run: "told s \<Longrightarrow> told (foldl (\<lambda>s x. step x s) s xs)"
  by (rule foldl_invariant) (auto intro: told_step)

end

end
