(* ===== verification/BtnPwr.thy ===== *)
theory BtnPwr
  imports Debounce Dmmgr ErrorMgr
begin

text \<open>
  \<open>base/thread-btn-pwr.c\<close>: the thread that watches the buttons, the ignition line and the power
  source. A change of a line is acted upon only after it has been stable for a configured time. The
  build with GPS and without \<open>SERVER_ABBR_DSKL\<close>, \<open>EMUL_GPS\<close> and FOTA is modelled; traces and
  the watchdog's debug marks are left out.

  The readings of the clock in one pass are a function of their number, the level of each line is
  the one the pass reads (it reads each line at most once). What the thread does to the rest of the
  program is the sequence \<open>calls\<close> of the functions it calls; \<open>Dm t\<close> is
  \<open>dmmgr_send (t, NULL, 0)\<close>. The second part states the contract of a line that is observed this
  way as a locale and instantiates it for the ignition and for the power source.
\<close>

definition BTN_LED_BLINK_SECS :: int where "BTN_LED_BLINK_SECS = 3"
definition BTN_HOLD_SECS :: int where "BTN_HOLD_SECS = 3"
definition POWER_SRC_DC :: int where "POWER_SRC_DC = 0"
definition POWER_SRC_BATTERY :: int where "POWER_SRC_BATTERY = 1"
definition POWER_IGNITION_ON :: int where "POWER_IGNITION_ON = 0"
definition POWER_IGNITION_OFF :: int where "POWER_IGNITION_OFF = 1"

datatype call =
  Dm dmEventType | button1_callback | button2_callback | ignition_on_callback | ignition_off_callback |
  power_on_callback | power_off_callback | led_key_noti | led_key_noti_off | devel_log_poweroff |
  call_mileage_write | gps_valid_data_write | gps_restart_check_distance | crit_backup |
  nettool_init_hostbyname_func | late_events | wd_report | wd_process | call_error errorType

record input_event =
  ev_type :: nat
  ev_code :: nat
  ev_value :: int

record btn =
  btn_1_push_time :: int
  btn_2_push_time :: int
  key_led_noti :: int
  key_led_start :: int
  key_led_end :: int
  time_ign_hold_time :: int
  ign_on :: int
  time_pwr_hold_time :: int
  pwr_on :: int
  calls :: "call list"

definition btn_init :: btn where
  "btn_init = \<lparr>btn_1_push_time = 0, btn_2_push_time = 0, key_led_noti = 0, key_led_start = 0,
     key_led_end = 0, time_ign_hold_time = 0, ign_on = POWER_IGNITION_OFF,
     time_pwr_hold_time = 0, pwr_on = POWER_SRC_DC, calls = []\<rparr>"

definition power_get_ignition_status :: "int \<Rightarrow> int" where
  "power_get_ignition_status gpio =
     (if gpio = POWER_IGNITION_ON then POWER_IGNITION_ON
      else if gpio = POWER_IGNITION_OFF then POWER_IGNITION_OFF else -1)"

definition power_get_power_source :: "int \<Rightarrow> int" where
  "power_get_power_source gpio =
     (if gpio = POWER_SRC_DC then POWER_SRC_DC
      else if gpio = POWER_SRC_BATTERY then POWER_SRC_BATTERY else -1)"

subsection \<open>Operations\<close>

definition does :: "call list \<Rightarrow> btn \<Rightarrow> btn" where
  "does cs s = s\<lparr>calls := calls s @ cs\<rparr>"

text \<open>The readings of the clock by one function are \<open>k 0\<close>, \<open>k 1\<close> and so on.\<close>

definition check_btn_pwr_event :: "(nat \<Rightarrow> int) \<Rightarrow> input_event \<Rightarrow> btn \<Rightarrow> btn" where
  "check_btn_pwr_event k ev s =
     (if ev_type ev = 1 \<and> ev_code ev = 0x1d3 \<and> ev_value ev = 1 then
        (if k 0 - btn_1_push_time s > BTN_HOLD_SECS then
           does [led_key_noti, button1_callback]
             (s\<lparr>btn_1_push_time := k 1, key_led_start := k 2, key_led_noti := 1\<rparr>)
         else s)
      else if ev_type ev = 1 \<and> ev_code ev = 0x1d2 \<and> ev_value ev = 1 then
        (if k 0 - btn_2_push_time s > BTN_HOLD_SECS then
           does [led_key_noti, button2_callback]
             (s\<lparr>btn_2_push_time := k 1, key_led_start := k 2, key_led_noti := 1\<rparr>)
         else s)
      else if ev_type ev = 0x16 then
        (if ev_code ev = 8 then s\<lparr>time_ign_hold_time := k 0\<rparr>
         else if ev_code ev = 9 then s\<lparr>time_pwr_hold_time := k 0\<rparr>
         else s)
      else s)"

definition check_led_noti_off :: "int \<Rightarrow> btn \<Rightarrow> btn" where
  "check_led_noti_off t s =
     (if key_led_noti s \<noteq> 0 then
        (let s1 = s\<lparr>key_led_end := t\<rparr>
         in if key_led_end s1 - key_led_start s1 \<ge> BTN_LED_BLINK_SECS
            then does [led_key_noti_off] (s1\<lparr>key_led_noti := 0\<rparr>) else s1)
      else s)"

definition check_ign_onoff :: "int \<Rightarrow> (nat \<Rightarrow> int) \<Rightarrow> int \<Rightarrow> btn \<Rightarrow> btn" where
  "check_ign_onoff ign_hold_sec k status s =
     (if ign_on s = POWER_IGNITION_ON then
        (if k 0 - time_ign_hold_time s < ign_hold_sec then
           (if status = POWER_IGNITION_ON then s\<lparr>time_ign_hold_time := k 1\<rparr> else s)
         else if status = POWER_IGNITION_OFF then
           (does [devel_log_poweroff, Dm eEVENT_KEY_OFF, call_mileage_write, gps_valid_data_write,
                  ignition_off_callback] s)
             \<lparr>time_ign_hold_time := k 1, ign_on := POWER_IGNITION_OFF\<rparr>
         else s\<lparr>time_ign_hold_time := k 1\<rparr>)
      else
        (if k 0 - time_ign_hold_time s < ign_hold_sec then
           (if status = POWER_IGNITION_OFF then s\<lparr>time_ign_hold_time := k 1\<rparr> else s)
         else if status = POWER_IGNITION_ON then
           (does [nettool_init_hostbyname_func, Dm eEVENT_KEY_ON, gps_restart_check_distance,
                  ignition_on_callback] s)
             \<lparr>time_ign_hold_time := k 1, ign_on := POWER_IGNITION_ON\<rparr>
         else s\<lparr>time_ign_hold_time := k 1\<rparr>))"

definition check_pwr_onoff :: "int \<Rightarrow> (nat \<Rightarrow> int) \<Rightarrow> int \<Rightarrow> btn \<Rightarrow> btn" where
  "check_pwr_onoff pwr_hold_sec k source s =
     (if pwr_on s = POWER_SRC_DC then
        (if k 0 - time_pwr_hold_time s < pwr_hold_sec then
           (if source = POWER_SRC_DC then s\<lparr>time_pwr_hold_time := k 1\<rparr> else s)
         else if source = POWER_SRC_BATTERY then
           (does [devel_log_poweroff, Dm eEVENT_PWR_OFF, crit_backup, power_off_callback] s)
             \<lparr>time_pwr_hold_time := k 1, pwr_on := POWER_SRC_BATTERY\<rparr>
         else s\<lparr>time_pwr_hold_time := k 1\<rparr>)
      else
        (if k 0 - time_pwr_hold_time s < pwr_hold_sec then
           (if source = POWER_SRC_BATTERY then s\<lparr>time_pwr_hold_time := k 1\<rparr> else s)
         else if source = POWER_SRC_DC then
           (does [Dm eEVENT_PWR_ON, power_on_callback] s)
             \<lparr>time_pwr_hold_time := k 1, pwr_on := POWER_SRC_DC\<rparr>
         else s\<lparr>time_pwr_hold_time := k 1\<rparr>))"

text \<open>The part of \<open>thread_btn_pwr\<close> before its loop.\<close>

definition btn_start_pwr :: "configCommon \<Rightarrow> int \<Rightarrow> int \<Rightarrow> btn \<Rightarrow> btn" where
  "btn_start_pwr conf t source s =
     (if first_pwr_status_on conf = 1 then
        does [Dm eEVENT_PWR_ON, power_on_callback]
          (s\<lparr>time_pwr_hold_time := t, pwr_on := POWER_SRC_DC\<rparr>)
      else if source = POWER_SRC_BATTERY then
        does [Dm eEVENT_PWR_OFF, power_off_callback]
          (s\<lparr>time_pwr_hold_time := t, pwr_on := POWER_SRC_BATTERY\<rparr>)
      else
        does [Dm eEVENT_PWR_ON, power_on_callback]
          (s\<lparr>time_pwr_hold_time := t, pwr_on := POWER_SRC_DC\<rparr>))"

definition btn_start_ign :: "int \<Rightarrow> int \<Rightarrow> btn \<Rightarrow> btn" where
  "btn_start_ign t status s =
     (if status = POWER_IGNITION_OFF then
        does [Dm eEVENT_KEY_OFF, ignition_off_callback]
          (s\<lparr>time_ign_hold_time := t, ign_on := POWER_IGNITION_OFF\<rparr>)
      else
        does [Dm eEVENT_KEY_ON, ignition_on_callback]
          (s\<lparr>time_ign_hold_time := t, ign_on := POWER_IGNITION_ON\<rparr>))"

definition btn_start :: "configCommon \<Rightarrow> (nat \<Rightarrow> int) \<Rightarrow> int \<Rightarrow> int \<Rightarrow> bool \<Rightarrow> btn \<Rightarrow> btn" where
  "btn_start conf k status source opened s =
     (let s1 = btn_start_ign (k 1) status (btn_start_pwr conf (k 0) source s);
          s2 = s1\<lparr>btn_1_push_time := k 2, btn_2_push_time := k 2\<rparr>
      in if opened then s2 else does [call_error eERROR_REBOOT] s2)"

text \<open>One pass of the loop. \<open>Readable None\<close> is a short read of the event device.\<close>

datatype selected = Sel_error bool | Sel_timeout | Readable "input_event option"

record pass =
  sel :: selected
  clk :: "nat \<Rightarrow> int"
  ign_level :: int
  pwr_level :: int

definition btn_pass :: "configCommon \<Rightarrow> pass \<Rightarrow> btn \<Rightarrow> btn" where
  "btn_pass conf x s =
     (let s1 = does [late_events, wd_report, wd_process] s
      in case sel x of
           Sel_error eintr \<Rightarrow> if eintr then s1 else does [call_error eERROR_EXIT] s1
         | _ \<Rightarrow>
             (let s2 = (case sel x of Readable (Some ev) \<Rightarrow> check_btn_pwr_event (clk x) ev s1 | _ \<Rightarrow> s1);
                  s3 = check_led_noti_off (clk x 3) s2;
                  s4 = check_ign_onoff (time_hold_ign conf) (\<lambda>n. clk x (4 + n))
                         (power_get_ignition_status (ign_level x)) s3
              in check_pwr_onoff (time_hold_power conf) (\<lambda>n. clk x (6 + n))
                   (power_get_power_source (pwr_level x)) s4))"

definition btn_run :: "configCommon \<Rightarrow> pass list \<Rightarrow> btn \<Rightarrow> btn" where
  "btn_run conf xs s = foldl (\<lambda>s x. btn_pass conf x s) s xs"

subsection \<open>The two lines\<close>

definition key_events :: "btn \<Rightarrow> call list" where
  "key_events s = filter (\<lambda>c. c \<in> {Dm eEVENT_KEY_ON, Dm eEVENT_KEY_OFF}) (calls s)"

definition power_events :: "btn \<Rightarrow> call list" where
  "power_events s = filter (\<lambda>c. c \<in> {Dm eEVENT_PWR_ON, Dm eEVENT_PWR_OFF}) (calls s)"

definition key_report :: "int \<Rightarrow> call" where
  "key_report c = (if c = POWER_IGNITION_ON then Dm eEVENT_KEY_ON else Dm eEVENT_KEY_OFF)"

definition power_report :: "int \<Rightarrow> call" where
  "power_report c = (if c = POWER_SRC_DC then Dm eEVENT_PWR_ON else Dm eEVENT_PWR_OFF)"

definition sampled :: "pass \<Rightarrow> bool" where
  "sampled x \<longleftrightarrow> (case sel x of Sel_error _ \<Rightarrow> False | _ \<Rightarrow> True)"

text \<open>The clock does not run backwards within a pass.\<close>

definition clk_ok :: "pass \<Rightarrow> bool" where
  "clk_ok x \<longleftrightarrow> sorted (map (clk x) [0, 1, 2, 3, 4, 5, 6, 7])"

lemma clk_okD:
  assumes "clk_ok x"
  shows "clk x 0 \<le> clk x 4" "clk x 0 \<le> clk x 5" "clk x 0 \<le> clk x 6" "clk x 0 \<le> clk x 7"
    "clk x 4 \<le> clk x 5" "clk x 5 \<le> clk x 7" "clk x 6 \<le> clk x 7"
proof -
  have *: "clk x 0 \<le> clk x 1" "clk x 1 \<le> clk x 2" "clk x 2 \<le> clk x 3" "clk x 3 \<le> clk x 4"
    "clk x 4 \<le> clk x 5" "clk x 5 \<le> clk x 6" "clk x 6 \<le> clk x 7"
    using assms by (simp_all add: clk_ok_def)
  show "clk x 0 \<le> clk x 4" "clk x 0 \<le> clk x 5" "clk x 0 \<le> clk x 6" "clk x 0 \<le> clk x 7"
    "clk x 4 \<le> clk x 5" "clk x 5 \<le> clk x 7" "clk x 6 \<le> clk x 7"
    using * by linarith+
qed

lemmas line_defs = POWER_IGNITION_ON_def POWER_IGNITION_OFF_def POWER_SRC_DC_def
  POWER_SRC_BATTERY_def

lemma does_frame [frames]:
  "ign_on (does cs s) = ign_on s" "pwr_on (does cs s) = pwr_on s"
  "time_ign_hold_time (does cs s) = time_ign_hold_time s"
  "time_pwr_hold_time (does cs s) = time_pwr_hold_time s"
  "calls (does cs s) = calls s @ cs"
  by (simp_all add: does_def)

text \<open>Everything in a pass before the line is looked at can only postpone the acceptance.\<close>

lemma event_frame [frames]:
  "ign_on (check_btn_pwr_event k ev s) = ign_on s" "pwr_on (check_btn_pwr_event k ev s) = pwr_on s"
  "key_events (check_btn_pwr_event k ev s) = key_events s"
  "power_events (check_btn_pwr_event k ev s) = power_events s"
  "time_ign_hold_time (check_btn_pwr_event k ev s) \<in> {time_ign_hold_time s, k 0}"
  "time_pwr_hold_time (check_btn_pwr_event k ev s) \<in> {time_pwr_hold_time s, k 0}"
  by (simp_all add: check_btn_pwr_event_def frames key_events_def power_events_def)

lemma led_frame [frames]:
  "ign_on (check_led_noti_off t s) = ign_on s" "pwr_on (check_led_noti_off t s) = pwr_on s"
  "key_events (check_led_noti_off t s) = key_events s"
  "power_events (check_led_noti_off t s) = power_events s"
  "time_ign_hold_time (check_led_noti_off t s) = time_ign_hold_time s"
  "time_pwr_hold_time (check_led_noti_off t s) = time_pwr_hold_time s"
  by (simp_all add: check_led_noti_off_def frames key_events_def power_events_def Let_def)

lemma start_frame [frames]:
  "key_events (does [late_events, wd_report, wd_process] s) = key_events s"
  "power_events (does [late_events, wd_report, wd_process] s) = power_events s"
  "key_events (does [call_error e] s) = key_events s"
  "power_events (does [call_error e] s) = power_events s"
  by (simp_all add: frames key_events_def power_events_def)

lemma ign_frame [frames]:
  "pwr_on (check_ign_onoff h k v s) = pwr_on s"
  "time_pwr_hold_time (check_ign_onoff h k v s) = time_pwr_hold_time s"
  "power_events (check_ign_onoff h k v s) = power_events s"
  by (simp_all add: check_ign_onoff_def frames power_events_def)

lemma pwr_frame [frames]:
  "ign_on (check_pwr_onoff h k v s) = ign_on s"
  "time_ign_hold_time (check_pwr_onoff h k v s) = time_ign_hold_time s"
  "key_events (check_pwr_onoff h k v s) = key_events s"
  by (simp_all add: check_pwr_onoff_def frames key_events_def)

lemma pass_ign:
  assumes "sampled x"
  shows "\<exists>s3. ign_on s3 = ign_on s \<and> key_events s3 = key_events s \<and>
    time_ign_hold_time s3 \<in> {time_ign_hold_time s, clk x 0} \<and>
    (let s4 = check_ign_onoff (time_hold_ign conf) (\<lambda>n. clk x (4 + n))
        (power_get_ignition_status (ign_level x)) s3
     in ign_on (btn_pass conf x s) = ign_on s4 \<and> key_events (btn_pass conf x s) = key_events s4 \<and>
        time_ign_hold_time (btn_pass conf x s) = time_ign_hold_time s4)"
proof -
  let ?s1 = "does [late_events, wd_report, wd_process] s"
  let ?s2 = "case sel x of Readable (Some ev) \<Rightarrow> check_btn_pwr_event (clk x) ev ?s1 | _ \<Rightarrow> ?s1"
  let ?s3 = "check_led_noti_off (clk x 3) ?s2"
  have "ign_on ?s3 = ign_on s \<and> key_events ?s3 = key_events s \<and>
      time_ign_hold_time ?s3 \<in> {time_ign_hold_time s, clk x 0}"
    using event_frame(5) [of "clk x" _ ?s1]
    by (auto simp: frames split: selected.split option.split)
  moreover have "btn_pass conf x s = check_pwr_onoff (time_hold_power conf) (\<lambda>n. clk x (6 + n))
      (power_get_power_source (pwr_level x)) (check_ign_onoff (time_hold_ign conf)
        (\<lambda>n. clk x (4 + n)) (power_get_ignition_status (ign_level x)) ?s3)"
    using assms by (simp add: btn_pass_def sampled_def Let_def split: selected.splits)
  ultimately show ?thesis by (intro exI [of _ ?s3]) (simp add: frames Let_def)
qed

lemma pass_pwr:
  assumes "sampled x"
  shows "\<exists>s4. pwr_on s4 = pwr_on s \<and> power_events s4 = power_events s \<and>
    time_pwr_hold_time s4 \<in> {time_pwr_hold_time s, clk x 0} \<and>
    btn_pass conf x s = check_pwr_onoff (time_hold_power conf) (\<lambda>n. clk x (6 + n))
        (power_get_power_source (pwr_level x)) s4"
proof -
  let ?s1 = "does [late_events, wd_report, wd_process] s"
  let ?s2 = "case sel x of Readable (Some ev) \<Rightarrow> check_btn_pwr_event (clk x) ev ?s1 | _ \<Rightarrow> ?s1"
  let ?s4 = "check_ign_onoff (time_hold_ign conf) (\<lambda>n. clk x (4 + n))
      (power_get_ignition_status (ign_level x)) (check_led_noti_off (clk x 3) ?s2)"
  have "pwr_on ?s4 = pwr_on s \<and> power_events ?s4 = power_events s \<and>
      time_pwr_hold_time ?s4 \<in> {time_pwr_hold_time s, clk x 0}"
    using event_frame(6) [of "clk x" _ ?s1]
    by (auto simp: frames split: selected.split option.split)
  then show ?thesis
    using assms
    by (intro exI [of _ ?s4]) (simp add: btn_pass_def sampled_def Let_def split: selected.splits)
qed

lemma pass_not_sampled:
  "\<not> sampled x \<Longrightarrow> ign_on (btn_pass conf x s) = ign_on s \<and> pwr_on (btn_pass conf x s) = pwr_on s \<and>
     time_ign_hold_time (btn_pass conf x s) = time_ign_hold_time s \<and>
     time_pwr_hold_time (btn_pass conf x s) = time_pwr_hold_time s \<and>
     key_events (btn_pass conf x s) = key_events s \<and> power_events (btn_pass conf x s) = power_events s"
  by (auto simp: btn_pass_def sampled_def Let_def frames split: selected.splits)

lemma ign_observes:
  assumes "ign_on s \<in> {0, 1}"
  shows "(ign_on (check_ign_onoff h k v s), time_ign_hold_time (check_ign_onoff h k v s)) =
      debounce h (k 0) (k 1) v (ign_on s, time_ign_hold_time s)"
    and "key_events (check_ign_onoff h k v s) = key_events s @
      (if ign_on (check_ign_onoff h k v s) = ign_on s then []
       else [key_report (ign_on (check_ign_onoff h k v s))])"
  using assms
  by (auto simp: check_ign_onoff_def debounce_def frames line_defs key_events_def key_report_def)

lemma pwr_observes:
  assumes "pwr_on s \<in> {0, 1}"
  shows "(pwr_on (check_pwr_onoff h k v s), time_pwr_hold_time (check_pwr_onoff h k v s)) =
      debounce h (k 0) (k 1) v (pwr_on s, time_pwr_hold_time s)"
    and "power_events (check_pwr_onoff h k v s) = power_events s @
      (if pwr_on (check_pwr_onoff h k v s) = pwr_on s then []
       else [power_report (pwr_on (check_pwr_onoff h k v s))])"
  using assms
  by (auto simp: check_pwr_onoff_def debounce_def frames line_defs power_events_def power_report_def)

text \<open>Both lines meet the contract.\<close>

interpretation key: steady_line "btn_pass conf" ign_on time_ign_hold_time key_events key_report sampled
    clk_ok "\<lambda>x. power_get_ignition_status (ign_level x)" "\<lambda>x. clk x 0" "\<lambda>x. clk x 4" "\<lambda>x. clk x 5"
    "\<lambda>x. clk x 7" "time_hold_ign conf" for conf
proof (unfold_locales, goal_cases)
  case (1 s x)
  obtain s3 where s3: "ign_on s3 = ign_on s" "time_ign_hold_time s3 \<in> {time_ign_hold_time s, clk x 0}"
    and eq: "ign_on (btn_pass conf x s) = ign_on (check_ign_onoff (time_hold_ign conf)
        (\<lambda>n. clk x (4 + n)) (power_get_ignition_status (ign_level x)) s3)"
      "time_ign_hold_time (btn_pass conf x s) = time_ign_hold_time (check_ign_onoff (time_hold_ign conf)
        (\<lambda>n. clk x (4 + n)) (power_get_ignition_status (ign_level x)) s3)"
    using pass_ign [OF 1(2), of s conf] by (metis (mono_tags, lifting))
  show ?case
    using ign_observes(1) [of s3] 1(1) s3 unfolding eq by (intro bexI [OF _ s3(2)]) simp
next
  case (3)
  then show ?case by (simp add: key_report_def line_defs)
next
  case (4 s x)
  then show ?case
    using pass_not_sampled [of x conf s] pass_ign [of x s conf] ign_observes(2)
    by (cases "sampled x") (metis (mono_tags, lifting), simp)
next
  case (5 x)
  then show ?case using clk_okD [of x] by simp
qed (simp add: pass_not_sampled)

interpretation power: steady_line "btn_pass conf" pwr_on time_pwr_hold_time power_events power_report
    sampled clk_ok "\<lambda>x. power_get_power_source (pwr_level x)" "\<lambda>x. clk x 0" "\<lambda>x. clk x 6"
    "\<lambda>x. clk x 7" "\<lambda>x. clk x 7" "time_hold_power conf" for conf
proof (unfold_locales, goal_cases)
  case (1 s x)
  obtain s4 where s4: "pwr_on s4 = pwr_on s" "time_pwr_hold_time s4 \<in> {time_pwr_hold_time s, clk x 0}"
    and eq: "btn_pass conf x s = check_pwr_onoff (time_hold_power conf) (\<lambda>n. clk x (6 + n))
        (power_get_power_source (pwr_level x)) s4"
    using pass_pwr [OF 1(2), of s conf] by metis
  show ?case
    using pwr_observes(1) [of s4] 1(1) s4 unfolding eq by (intro bexI [OF _ s4(2)]) simp
next
  case (3)
  then show ?case by (simp add: power_report_def line_defs)
next
  case (4 s x)
  then show ?case
    using pass_not_sampled [of x conf s] pass_pwr [of x s conf] pwr_observes(2)
    by (cases "sampled x") (metis, simp)
next
  case (5 x)
  then show ?case using clk_okD [of x] by simp
qed (simp add: pass_not_sampled)

subsection \<open>Properties\<close>

text \<open>
  C36: a change of the ignition is accepted, and with it the key event sent, only when the line has
  the new level and no pass of the last \<open>time_hold_ign\<close> seconds has found the old level on it. The
  passes follow each other in time.
\<close>

theorem key_change_is_debounced:
  assumes "in_order clk_ok (\<lambda>x. clk x 0) (\<lambda>x. clk x 7) t (xs @ [x])"
    and "ign_on s \<in> {0, 1}" and "time_ign_hold_time s \<le> t"
    and "ign_on (btn_pass conf x (btn_run conf xs s)) \<noteq> ign_on (btn_run conf xs s)"
  shows "sampled x \<and>
    power_get_ignition_status (ign_level x) = ign_on (btn_pass conf x (btn_run conf xs s)) \<and>
    (\<forall>y \<in> set xs. sampled y \<and> clk x 4 - clk y 5 < time_hold_ign conf \<longrightarrow>
       power_get_ignition_status (ign_level y) \<noteq> ign_on (btn_run conf xs s))"
  using key.debounced [OF assms(1-3), of conf] assms(4) by (simp add: btn_run_def)

definition tick :: "int \<Rightarrow> int \<Rightarrow> pass" where
  "tick t v = \<lparr>sel = Sel_timeout, clk = (\<lambda>_. t), ign_level = v, pwr_level = 0\<rparr>"

definition demo_conf :: configCommon where
  "demo_conf = common default_config"

theorem key_change_is_debounced_witness:
  "let s = btn_run demo_conf [tick 110 1, tick 115 0] btn_init in
     sampled (tick 120 0) \<and>
     power_get_ignition_status (ign_level (tick 120 0)) = ign_on (btn_pass demo_conf (tick 120 0) s) \<and>
     power_get_ignition_status (ign_level (tick 115 0)) \<noteq> ign_on s"
proof -
  note run = tick_def clk_ok_def btn_init_def line_defs btn_run_def btn_pass_def does_def
    check_led_noti_off_def check_ign_onoff_def check_pwr_onoff_def demo_conf_def default_config_def
    power_get_ignition_status_def power_get_power_source_def
  have "sampled (tick 120 0) \<and>
    power_get_ignition_status (ign_level (tick 120 0)) =
      ign_on (btn_pass demo_conf (tick 120 0) (btn_run demo_conf [tick 110 1, tick 115 0] btn_init)) \<and>
    (\<forall>y \<in> set [tick 110 1, tick 115 0].
       sampled y \<and> clk (tick 120 0) 4 - clk y 5 < time_hold_ign demo_conf \<longrightarrow>
       power_get_ignition_status (ign_level y) \<noteq>
         ign_on (btn_run demo_conf [tick 110 1, tick 115 0] btn_init))"
    by (rule key_change_is_debounced [where t = 0]) (simp_all add: run)
  moreover have "sampled (tick 115 0)" "clk (tick 120 0) 4 - clk (tick 115 0) 5 < time_hold_ign demo_conf"
    by (simp_all add: sampled_def run)
  ultimately show ?thesis by (simp add: Let_def)
qed

text \<open>
  From the start of the thread on, whatever happens, the key events reported to the server
  alternate, as do the power events, and the last one of each kind is the accepted level of its line.
\<close>

theorem key_and_power_events_alternate:
  "let s = btn_run conf xs (btn_start conf k status source opened btn_init) in
     successively (\<noteq>) (key_events s) \<and> key_events s \<noteq> [] \<and>
       last (key_events s) = key_report (ign_on s) \<and>
     successively (\<noteq>) (power_events s) \<and> power_events s \<noteq> [] \<and>
       last (power_events s) = power_report (pwr_on s)"
proof -
  let ?s = "btn_run conf xs (btn_start conf k status source opened btn_init)"
  have "key.told (btn_start conf k status source opened btn_init)"
    and "power.told (btn_start conf k status source opened btn_init)"
    unfolding key.told_def power.told_def
    by (auto simp: btn_start_def btn_start_ign_def btn_start_pwr_def btn_init_def does_def line_defs
        key_events_def power_events_def key_report_def power_report_def Let_def)
  then have "key.told ?s" and "power.told ?s"
    unfolding btn_run_def by (auto intro: key.told_run power.told_run)
  then show ?thesis by (simp add: key.told_def power.told_def Let_def)
qed

end
