(* ===== verification/CFloat.thy ===== *)
theory CFloat
  imports Complex_Main
begin

text \<open>
  The numbers of C's \<open>float\<close> and \<open>double\<close> as the reals they stand for: \<open>to_float\<close> and \<open>to_double\<close> round a real
  to the nearest number of the format, to the even one of two (IEEE 754), with the small exponents of
  numbers near zero. A real beyond the largest number, which would become an infinity, is rounded as if the
  largest exponent had more digits; no sum of decimal fields of the program comes near it.
\<close>

subsection \<open>Rounding\<close>

definition round_even :: "real \<Rightarrow> int" where
  "round_even y =
     (let n = \<lfloor>y\<rfloor>; d = y - of_int n
      in if d < 1 / 2 then n else if d > 1 / 2 then n + 1 else if even n then n else n + 1)"

text \<open>The exponent of the format with the exponents from \<open>emin\<close> to \<open>emax\<close>.\<close>

definition fexp :: "int \<Rightarrow> int \<Rightarrow> real \<Rightarrow> int" where
  "fexp emin emax x =
     (case List.find (\<lambda>e. \<bar>x\<bar> < 2 powi (e + 1)) [emin..emax] of Some e \<Rightarrow> e | None \<Rightarrow> emax)"

definition fround :: "nat \<Rightarrow> int \<Rightarrow> int \<Rightarrow> real \<Rightarrow> real" where
  "fround p emin emax x =
     (let u = 2 powi (fexp emin emax x - int p + 1) in of_int (round_even (x / u)) * u)"

definition to_float :: "real \<Rightarrow> real" where
  "to_float x = fround 24 (-126) 127 x"

definition to_double :: "real \<Rightarrow> real" where
  "to_double x = fround 53 (-1022) 1023 x"

subsection \<open>Rounding to an integer\<close>

lemma round_even_near: "\<bar>y - of_int k\<bar> < 1 / 2 \<Longrightarrow> round_even y = k"
proof -
  assume a: "\<bar>y - of_int k\<bar> < 1 / 2"
  show "round_even y = k"
  proof (cases "of_int k \<le> y")
    case True
    with a have "\<lfloor>y\<rfloor> = k" by linarith
    with a True show ?thesis by (simp add: round_even_def)
  next
    case False
    with a have "\<lfloor>y\<rfloor> = k - 1" by linarith
    with a False show ?thesis by (simp add: round_even_def)
  qed
qed

lemma round_even_int [simp]: "round_even (of_int k) = k"
  by (rule round_even_near) simp

lemma round_even_error: "\<bar>of_int (round_even y) - y\<bar> \<le> 1 / 2"
proof -
  have "of_int \<lfloor>y\<rfloor> \<le> y" "y < of_int \<lfloor>y\<rfloor> + 1" by linarith+
  then show ?thesis by (simp add: round_even_def Let_def)
qed

lemma round_even_uminus: "round_even (- y) = - round_even y"
proof (cases "\<bar>y - of_int (round_even y)\<bar> < 1 / 2")
  case True
  then show ?thesis by (intro round_even_near) (simp add: abs_minus_commute)
next
  case False
  define n where "n = \<lfloor>y\<rfloor>"
  from False have d: "y - of_int n = 1 / 2"
    using round_even_error [of y] unfolding round_even_def Let_def n_def by (auto split: if_splits)
  then have "\<lfloor>- y\<rfloor> = - n - 1" by linarith
  with d show ?thesis by (auto simp: round_even_def n_def Let_def)
qed

text \<open>A bound that is an integer is kept.\<close>

lemma round_even_bound: "\<bar>y\<bar> \<le> of_int k \<Longrightarrow> \<bar>round_even y\<bar> \<le> k"
  using round_even_error [of y] by linarith

subsection \<open>The exponent\<close>

lemma pow_mono: "e \<le> f \<Longrightarrow> (2 :: real) powi e \<le> 2 powi f"
  by (intro power_int_increasing) simp_all

lemma fexp_le: "emin \<le> emax \<Longrightarrow> emin \<le> fexp emin emax x \<and> fexp emin emax x \<le> emax"
  by (auto simp: fexp_def find_Some_iff split: option.split dest: nth_mem)

lemma find_upto:
  assumes "List.find P [a..b] = Some e"
  shows "a \<le> e \<and> e \<le> b \<and> P e \<and> (\<forall>f. a \<le> f \<and> f < e \<longrightarrow> \<not> P f)"
proof -
  obtain i where i: "i < length [a..b]" "P e" "e = [a..b] ! i" "\<And>j. j < i \<Longrightarrow> \<not> P ([a..b] ! j)"
    using assms by (auto simp: find_Some_iff)
  have nth: "j < length [a..b] \<Longrightarrow> [a..b] ! j = a + int j" for j by (simp add: nth_upto)
  have "\<not> P f" if "a \<le> f" "f < e" for f
    using i(4) [of "nat (f - a)"] i(1,3) that nth [of "nat (f - a)"] nth [of i] by simp
  with i nth [of i] show ?thesis by auto
qed

lemma fexp_least:
  assumes "emin \<le> e" "e \<le> emax" "\<bar>x\<bar> < 2 powi (e + 1)"
  shows "fexp emin emax x \<le> e"
proof (cases "List.find (\<lambda>e. \<bar>x\<bar> < 2 powi (e + 1)) [emin..emax]")
  case None
  with assms show ?thesis by (auto simp: find_None_iff)
next
  case (Some f)
  with find_upto [OF Some] assms show ?thesis by (auto simp: fexp_def not_less [symmetric])
qed

lemma fexp_bound:
  "emin \<le> emax \<Longrightarrow> \<bar>x\<bar> < 2 powi (fexp emin emax x + 1) \<or> fexp emin emax x = emax"
  by (auto simp: fexp_def split: option.split dest: find_upto)

lemma fexp_eq:
  assumes "emin \<le> e" "e \<le> emax" "2 powi e \<le> \<bar>x\<bar>" "\<bar>x\<bar> < 2 powi (e + 1)"
  shows "fexp emin emax x = e"
proof (rule antisym)
  show "fexp emin emax x \<le> e" by (rule fexp_least [OF assms(1,2,4)])
  show "e \<le> fexp emin emax x"
  proof (rule ccontr)
    assume "\<not> ?thesis"
    then have "fexp emin emax x + 1 \<le> e" "fexp emin emax x < emax" using assms(2) by simp_all
    with fexp_bound [of emin emax x] assms(1,2) have "\<bar>x\<bar> < 2 powi (fexp emin emax x + 1)" by simp
    also have "\<dots> \<le> 2 powi e" by (rule pow_mono) fact
    finally show False using assms(3) by simp
  qed
qed

lemma fexp_uminus [simp]: "fexp emin emax (- x) = fexp emin emax x"
  by (simp add: fexp_def)

subsection \<open>Rounding to a format\<close>

lemma fround_uminus: "fround p emin emax (- x) = - fround p emin emax x"
  by (simp add: fround_def Let_def round_even_uminus)

lemma fround_near:
  assumes "emin \<le> e" "e \<le> emax" "2 powi e \<le> \<bar>x\<bar>" "\<bar>x\<bar> < 2 powi (e + 1)"
    and "\<bar>x - of_int k * 2 powi (e - int p + 1)\<bar> < 2 powi (e - int p + 1) / 2"
  shows "fround p emin emax x = of_int k * 2 powi (e - int p + 1)"
proof -
  define u :: real where "u = 2 powi (e - int p + 1)"
  have u: "u > 0" by (simp add: u_def)
  then have "x / u - of_int k = (x - of_int k * u) / u" by (simp add: field_simps)
  with u have "\<bar>x / u - of_int k\<bar> = \<bar>x - of_int k * u\<bar> / u" by (simp add: abs_divide)
  also have "\<dots> < 1 / 2" using assms(5) u by (simp add: u_def [symmetric] divide_less_eq)
  finally have "round_even (x / u) = k" by (rule round_even_near)
  then show ?thesis using fexp_eq [OF assms(1-4)] by (simp add: fround_def Let_def u_def)
qed

lemma fround_error:
  assumes "emin \<le> e" "e \<le> emax" "2 powi e \<le> \<bar>x\<bar>" "\<bar>x\<bar> < 2 powi (e + 1)"
  shows "\<bar>fround p emin emax x - x\<bar> \<le> 2 powi (e - int p)"
proof -
  define u :: real where "u = 2 powi (e - int p + 1)"
  have u: "u > 0" "u / 2 = 2 powi (e - int p)" by (simp_all add: u_def power_int_add_1)
  have "fround p emin emax x - x = (of_int (round_even (x / u)) - x / u) * u"
    using fexp_eq [OF assms] u(1) by (simp add: fround_def Let_def u_def [symmetric] left_diff_distrib)
  then have "\<bar>fround p emin emax x - x\<bar> = \<bar>of_int (round_even (x / u)) - x / u\<bar> * u" using u(1) by (simp add: abs_mult)
  also have "\<dots> \<le> 1 / 2 * u" by (rule mult_right_mono [OF round_even_error]) (use u in simp)
  finally show ?thesis using u(2) by simp
qed

text \<open>What has been rounded stays as it is.\<close>

lemma fround_idem:
  assumes "emin \<le> emax" "0 < p"
  shows "fround p emin emax (fround p emin emax x) = fround p emin emax x"
proof -
  define e where "e = fexp emin emax x"
  define u :: real where "u = 2 powi (e - int p + 1)"
  define k where "k = round_even (x / u)"
  define y where "y = of_int k * u"
  have y: "fround p emin emax x = y" by (simp add: fround_def Let_def y_def k_def u_def e_def)
  define f where "f = fexp emin emax y"
  have e: "emin \<le> e" "e \<le> emax" using fexp_le [OF assms(1)] by (simp_all add: e_def)
  have u: "u > 0" "u * 2 ^ p = 2 powi (e + 1)"
    by (simp_all add: u_def power_int_of_nat [symmetric] power_int_add [symmetric] del: power_int_of_nat)
  have "\<exists>j. y / 2 powi (f - int p + 1) = of_int j"
  proof (cases "f \<le> e")
    case True
    then have "y / 2 powi (f - int p + 1) = of_int k * 2 powi (e - f)"
      by (simp add: y_def u_def power_int_diff [symmetric] flip: times_divide_eq_right)
    also have "\<dots> = of_int (k * 2 ^ nat (e - f))" using True by (simp add: power_int_def)
    finally show ?thesis by blast
  next
    case False
    have f: "f \<le> emax" using fexp_le [OF assms(1)] by (simp add: f_def)
    with False have "\<bar>x\<bar> < 2 powi (e + 1)" using fexp_bound [OF assms(1), of x] by (auto simp: e_def)
    then have "\<bar>x / u\<bar> \<le> of_int (2 ^ p)" using u by (simp add: abs_div_pos [symmetric] divide_le_eq mult.commute)
    then have k: "\<bar>k\<bar> \<le> 2 ^ p" unfolding k_def by (rule round_even_bound)
    have abs_y: "\<bar>y\<bar> = of_int \<bar>k\<bar> * u" using u by (simp add: y_def abs_mult)
    have "\<not> \<bar>y\<bar> < 2 powi (e + 1)" using fexp_least [OF e, of y] False by (auto simp: f_def)
    then have "of_int \<bar>k\<bar> * u \<ge> of_int (2 ^ p) * u" using abs_y u(2) by (simp add: mult.commute)
    then have k2: "\<bar>k\<bar> = 2 ^ p" using k u(1) by (simp only: mult_le_cancel_right of_int_le_iff) simp
    then have "\<bar>y\<bar> = 2 powi (e + 1)" using abs_y u(2) by (simp add: mult.commute)
    then have "\<bar>y\<bar> < 2 powi (e + 1 + 1)" 
      using power_int_strict_increasing [of "e + 1" "e + 1 + 1" "2 :: real"] by simp
    then have "f \<le> e + 1" using fexp_least [of emin "e + 1" emax y] e False f by (simp add: f_def)
    with False have fe: "f = e + 1" by simp
    obtain q where q: "p = Suc q" using assms(2) by (cases p) auto
    have "f - int p + 1 = e - int p + 1 + 1" by (simp add: fe)
    then have "(2 :: real) powi (f - int p + 1) = u * 2"
      unfolding u_def by (metis power_int_add_1 zero_neq_numeral)
    then have "y / 2 powi (f - int p + 1) = of_int k / 2" using u(1) by (simp add: y_def)
    also have "\<dots> = of_int (k div 2)"
    proof -
      have "even \<bar>k\<bar>" by (simp only: k2 q) simp
      then have "even k" by simp
      then show ?thesis by (auto elim: evenE)
    qed
    finally show ?thesis by blast
  qed
  then obtain j where j: "y / 2 powi (f - int p + 1) = of_int j" ..
  have "fround p emin emax y = of_int j * 2 powi (f - int p + 1)"
    by (simp only: fround_def Let_def f_def [symmetric] j round_even_int)
  also have "\<dots> = y" by (simp only: j [symmetric]) simp
  finally show ?thesis by (simp only: y)
qed

text \<open>A number with few enough binary digits is one of the format.\<close>

lemma fround_exact:
  assumes "\<bar>k\<bar> < 2 ^ p" "emin \<le> j + int p - 1" "j + int p - 1 \<le> emax"
  shows "fround p emin emax (of_int k * 2 powi j) = of_int k * 2 powi j"
proof -
  define x :: real where "x = of_int k * 2 powi j"
  define f where "f = fexp emin emax x"
  have "\<bar>x\<bar> = of_int \<bar>k\<bar> * 2 powi j" by (simp add: x_def abs_mult)
  also have "\<dots> < of_int (2 ^ p) * 2 powi j" using assms(1) by (intro mult_strict_right_mono) (simp_all only: of_int_less_iff, simp)
  also have "\<dots> = 2 powi (j + int p - 1 + 1)" by (simp add: power_int_add)
  finally have "f \<le> j + int p - 1" unfolding f_def by (rule fexp_least [OF assms(2,3)])
  then obtain d where "j = f - int p + 1 + int d" using zle_iff_zadd [of "f - int p + 1" j] by auto
  then have j: "2 powi j = 2 powi (f - int p + 1) * (2 :: real) ^ d"
    using power_int_add [of "2 :: real" "f - int p + 1" "int d"] by (simp only: power_int_of_nat) simp
  have "x / 2 powi (f - int p + 1) = of_int (k * 2 ^ d)" by (simp add: x_def j)
  then have "fround p emin emax x = of_int (k * 2 ^ d) * 2 powi (f - int p + 1)"
    by (simp only: fround_def Let_def f_def [symmetric] round_even_int)
  also have "\<dots> = x" by (simp add: x_def j)
  finally show ?thesis by (simp only: x_def)
qed

text \<open>Whole and half numbers.\<close>

lemma half: "of_int k * (2 :: real) powi (- 1) = of_int k / 2"
  by (simp add: power_int_minus)

lemma to_float_half: "\<bar>k\<bar> < 16777216 \<Longrightarrow> to_float (of_int k / 2) = of_int k / 2"
  unfolding to_float_def half [symmetric] by (rule fround_exact) simp_all

lemma to_double_half: "\<bar>k\<bar> < 16777216 \<Longrightarrow> to_double (of_int k / 2) = of_int k / 2"
  unfolding to_double_def half [symmetric] by (rule fround_exact) simp_all

lemma to_float_float [simp]: "to_float (to_float x) = to_float x" "to_float (- to_float x) = - to_float x"
  by (simp_all add: to_float_def fround_idem fround_uminus)

lemma to_float_0 [simp]: "to_float 0 = 0" and to_double_0 [simp]: "to_double 0 = 0"
  using round_even_int [of 0] by (simp_all add: to_float_def to_double_def fround_def Let_def)

end
