(* ===== verification/Nmea.thy ===== *)
theory Nmea
  imports GpsData Validation CFloat "HOL-Library.Sublist"
begin

text \<open>
  The NMEA parser of \<open>base/gpstool.c\<close>: the tokenizer \<open>tok_next\<close>, the field parsers and the loop
  of \<open>gps_parse\<close> over the sentences GPGGA and GPRMC. A block is a list of bytes, the position an
  index into it; reading behind the end of the memory is undefined (\<open>None\<close>). \<open>tempbuf\<close> is the
  C string it holds: its last byte is never written with anything but NUL, so a token that does not
  fit leaves its first 31 characters. Characters are unsigned, as on the ARM targets.

  Fields whose values \<open>gps_parse\<close> only parses to drop them (time and position of GPGGA) are not
  listed in \<open>gga_field\<close>: their parsers have no effect.
\<close>

subsection \<open>Numbers\<close>

text \<open>
  \<open>decimal\<close> is a decimal number with optional sign, fraction and exponent, \<open>atof\<close> the \<open>double\<close> next to it.
  The hexadecimal numbers, infinities and NaNs that the library also reads are left out. The arithmetic
  of the parsers is the one of the source: \<open>double\<close> in the expressions, \<open>float\<close> in what is stored.
\<close>

definition digits_val :: "byte list \<Rightarrow> nat" where
  "digits_val ds = foldl (\<lambda>v d. 10 * v + (unat d - 48)) 0 ds"

definition read_sign :: "byte list \<Rightarrow> bool \<times> byte list" where
  "read_sign s = (case s of c # cs \<Rightarrow> if c = 45 then (True, cs) else if c = 43 then (False, cs) else (False, s)
     | [] \<Rightarrow> (False, []))"

definition exponent :: "byte list \<Rightarrow> real" where
  "exponent s =
     (case s of
        [] \<Rightarrow> 1
      | c # cs \<Rightarrow>
          if c = 101 \<or> c = 69 then
            (let (neg, r) = read_sign cs; ds = takeWhile isdigit r
             in if neg then 1 / 10 ^ digits_val ds else 10 ^ digits_val ds)
          else 1)"

definition decimal :: "byte list \<Rightarrow> real" where
  "decimal t =
     (let s = dropWhile (\<lambda>c. c \<in> {32, 9, 10, 11, 12, 13}) t;
          (neg, r) = read_sign s;
          ip = takeWhile isdigit r; r1 = dropWhile isdigit r;
          (fp, r2) = (case r1 of c # cs \<Rightarrow> if c = 46 then (takeWhile isdigit cs, dropWhile isdigit cs) else ([], r1)
                      | [] \<Rightarrow> ([], []));
          v = (if ip = [] \<and> fp = [] then 0
               else (real (digits_val ip) + real (digits_val fp) / 10 ^ length fp) * exponent r2)
      in if neg then - v else v)"

definition atof :: "byte list \<Rightarrow> real" where
  "atof t = to_double (decimal t)"

text \<open>\<open>buf[i] - '0'\<close>.\<close>

definition dig :: "byte list \<Rightarrow> nat \<Rightarrow> int" where
  "dig buf i = uint (buf ! i) - 48"

definition FLT_MAX :: real where "FLT_MAX = (2 - 1 / 2 ^ 23) * 2 ^ 127"

subsection \<open>Field parsers\<close>

text \<open>\<open>None\<close> is \<open>GPS_PARSE_FALSE\<close>; the value the C function stores then is never used.\<close>

definition gps_parse_time :: "byte list \<Rightarrow> (int \<times> int \<times> int) option" where
  "gps_parse_time b =
     (if length b < 6 then None
      else Some (dig b 0 * 10 + dig b 1, dig b 2 * 10 + dig b 3, dig b 4 * 10 + dig b 5))"

definition gps_parse_valid :: "byte list \<Rightarrow> bool option" where
  "gps_parse_valid b = (if length b < 1 then None else Some (b ! 0 = 65))"

definition gps_parse_date :: "byte list \<Rightarrow> (int \<times> int \<times> int) option" where
  "gps_parse_date b =
     (if length b < 6 then None
      else Some (2000 + dig b 4 * 10 + dig b 5, dig b 2 * 10 + dig b 3, dig b 0 * 10 + dig b 1))"

definition gps_parse_angle :: "byte list \<Rightarrow> real option" where
  "gps_parse_angle b = (if length b < 3 then None else Some (to_float (atof b)))"

definition gps_parse_dop :: "byte list \<Rightarrow> real option" where
  "gps_parse_dop b = (if length b < 1 then None else Some (to_float (atof b)))"

definition gps_parse_altitude :: "byte list \<Rightarrow> real option" where
  "gps_parse_altitude b = (if length b < 1 then None else Some (to_float (atof b)))"

definition gps_parse_latitude :: "byte list \<Rightarrow> real option" where
  "gps_parse_latitude b =
     (if length b < 9 then None
      else Some (to_float (to_double (of_int (dig b 0 * 10 + dig b 1) + to_double (atof (drop 2 b) / 60)))))"

definition gps_parse_indicator_south :: "byte list \<Rightarrow> bool option" where
  "gps_parse_indicator_south b = (if length b < 1 then None else Some (b ! 0 = 83))"

definition gps_parse_indicator_west :: "byte list \<Rightarrow> bool option" where
  "gps_parse_indicator_west b = (if length b < 1 then None else Some (b ! 0 = 87))"

definition gps_parse_longitude :: "byte list \<Rightarrow> real option" where
  "gps_parse_longitude b =
     (if length b < 10 then None
      else Some (to_float (to_double (of_int (dig b 0 * 100 + dig b 1 * 10 + dig b 2) +
             to_double (atof (drop 3 b) / 60)))))"

definition gps_parse_speed :: "byte list \<Rightarrow> int option" where
  "gps_parse_speed b =
     (if length b < 3 then None
      else (let temp_speed = to_float (atof b)
            in Some (to_int (to_float (to_double (temp_speed * to_double 1.852))))))"

definition gps_parse_satellites :: "byte list \<Rightarrow> int option" where
  "gps_parse_satellites b =
     (if length b < 1 then None
      else if length b = 1 then Some (dig b 0)
      else if length b = 2 then Some (dig b 0 * 10 + uint (b ! 1) - 48)
      else None)"

subsection \<open>The tokenizer\<close>

definition delimiter :: "byte \<Rightarrow> bool" where
  "delimiter c \<longleftrightarrow> c \<in> {44, 42, 13, 10}"

fun tok_scan :: "nat \<Rightarrow> byte list \<Rightarrow> byte list \<Rightarrow> (nat \<times> byte list) option" where
  "tok_scan len acc [] = None"
| "tok_scan len acc (c # cs) =
     (if c = 0 \<or> delimiter c then Some (length acc + 1, acc)
      else if length acc + 1 = len then Some (0, acc)
      else tok_scan len (acc @ [c]) cs)"

definition tok_next :: "nat \<Rightarrow> byte list \<Rightarrow> nat \<Rightarrow> (nat \<times> byte list) option" where
  "tok_next len m p = tok_scan len [] (drop p m)"

subsection \<open>The sentences\<close>

record nmea =
  utc_year :: int
  utc_mon :: int
  utc_day :: int
  utc_hour :: int
  utc_min :: int
  utc_sec :: int
  cur_lat :: real
  cur_long :: real
  cur_south :: bool
  cur_west :: bool
  cur_satellite :: int
  cur_active :: bool
  cur_speed :: int
  cur_angle :: real
  cur_hdop :: real
  cur_altitude :: real

definition nmea_start :: nmea where
  "nmea_start = \<lparr>utc_year = 0, utc_mon = 0, utc_day = 0, utc_hour = 0, utc_min = 0, utc_sec = 0,
     cur_lat = 0, cur_long = 0, cur_south = False, cur_west = False, cur_satellite = 0,
     cur_active = False, cur_speed = 0, cur_angle = 0, cur_hdop = 0, cur_altitude = 0\<rparr>"

definition gga_field :: "nat \<Rightarrow> byte list \<Rightarrow> nmea \<Rightarrow> nmea" where
  "gga_field j t n =
     (if j = 7 then (case gps_parse_satellites t of Some v \<Rightarrow> n\<lparr>cur_satellite := v\<rparr> | None \<Rightarrow> n)
      else if j = 8 then n\<lparr>cur_hdop := (case gps_parse_dop t of Some v \<Rightarrow> v | None \<Rightarrow> FLT_MAX)\<rparr>
      else if j = 9 then (case gps_parse_altitude t of Some v \<Rightarrow> n\<lparr>cur_altitude := v\<rparr> | None \<Rightarrow> n)
      else n)"

definition rmc_field :: "nat \<Rightarrow> byte list \<Rightarrow> nmea \<Rightarrow> nmea" where
  "rmc_field j t n =
     (if j = 1 then (case gps_parse_time t of
                       Some (h, m, s) \<Rightarrow> n\<lparr>utc_hour := h, utc_min := m, utc_sec := s\<rparr> | None \<Rightarrow> n)
      else if j = 2 then (case gps_parse_valid t of Some v \<Rightarrow> n\<lparr>cur_active := v\<rparr> | None \<Rightarrow> n)
      else if j = 3 then (case gps_parse_latitude t of Some v \<Rightarrow> n\<lparr>cur_lat := v\<rparr> | None \<Rightarrow> n)
      else if j = 4 then (case gps_parse_indicator_south t of Some v \<Rightarrow> n\<lparr>cur_south := v\<rparr> | None \<Rightarrow> n)
      else if j = 5 then (case gps_parse_longitude t of Some v \<Rightarrow> n\<lparr>cur_long := v\<rparr> | None \<Rightarrow> n)
      else if j = 6 then (case gps_parse_indicator_west t of Some v \<Rightarrow> n\<lparr>cur_west := v\<rparr> | None \<Rightarrow> n)
      else if j = 7 then n\<lparr>cur_speed := (case gps_parse_speed t of Some v \<Rightarrow> v | None \<Rightarrow> -1)\<rparr>
      else if j = 8 then (case gps_parse_angle t of Some v \<Rightarrow> n\<lparr>cur_angle := v\<rparr> | None \<Rightarrow> n)
      else if j = 9 then (case gps_parse_date t of
                            Some (y, m, d) \<Rightarrow> n\<lparr>utc_year := y, utc_mon := m, utc_day := d\<rparr> | None \<Rightarrow> n)
      else n)"

text \<open>The loop over the fields of a sentence: it counts fields and does not look at the size.\<close>

fun field_loop :: "(nat \<Rightarrow> byte list \<Rightarrow> nmea \<Rightarrow> nmea) \<Rightarrow> byte list \<Rightarrow> nat list \<Rightarrow>
    byte list \<times> nat \<times> nmea \<Rightarrow> (byte list \<times> nat \<times> nmea) option" where
  "field_loop f m [] s = Some s"
| "field_loop f m (j # js) (tok, p, n) =
     (case tok_next 32 m p of
        None \<Rightarrow> None
      | Some (cnt, tok') \<Rightarrow> field_loop f m js (tok', p + cnt, f j tok n))"

definition sentence :: "string \<Rightarrow> (nat \<Rightarrow> byte list \<Rightarrow> nmea \<Rightarrow> nmea) \<Rightarrow> nat \<Rightarrow> byte list \<Rightarrow>
    byte list \<times> nat \<times> nmea \<Rightarrow> (byte list \<times> nat \<times> nmea) option" where
  "sentence name f k m s = (if sublist (str name) (fst s) then field_loop f m [0..<k] s else Some s)"

definition MAX_TRY_CNT :: nat where "MAX_TRY_CNT = 180"

fun parse_loop :: "nat \<Rightarrow> byte list \<Rightarrow> int \<Rightarrow> nat \<times> nmea \<Rightarrow> nmea option" where
  "parse_loop 0 m sz (p, n) = Some n"
| "parse_loop (Suc k) m sz (p, n) =
     (if int p \<ge> sz then Some n
      else
        (case tok_next 32 m p of
           None \<Rightarrow> None
         | Some (cnt, tok) \<Rightarrow>
             (case sentence ''$GPGGA'' gga_field 15 m (tok, p + cnt, n) of
                None \<Rightarrow> None
              | Some s1 \<Rightarrow>
                  (case sentence ''$GPRMC'' rmc_field 13 m s1 of
                     None \<Rightarrow> None
                   | Some (tok', p', n') \<Rightarrow> parse_loop k m sz (p', n')))))"

definition nmea_parse :: "byte list \<Rightarrow> int \<Rightarrow> nmea option" where
  "nmea_parse m sz = parse_loop MAX_TRY_CNT m sz (0, nmea_start)"

subsection \<open>Lemmas\<close>

text \<open>A token that fits, a list of tokens with the delimiters behind them, and the block they form.\<close>

definition good_tok :: "byte list \<Rightarrow> bool" where
  "good_tok t \<longleftrightarrow> length t \<le> 31 \<and> (\<forall>c \<in> set t. c \<noteq> 0 \<and> \<not> delimiter c)"

definition joined :: "(byte list \<times> byte) list \<Rightarrow> byte list" where
  "joined ts = concat (map (\<lambda>(t, d). t @ [d]) ts)"

definition good_toks :: "(byte list \<times> byte) list \<Rightarrow> bool" where
  "good_toks ts \<longleftrightarrow> (\<forall>(t, d) \<in> set ts. good_tok t \<and> delimiter d)"

lemma joined_simps [simp]:
  "joined [] = []" "joined ((t, d) # ts) = t @ d # joined ts" "joined (xs @ ys) = joined xs @ joined ys"
  by (simp_all add: joined_def)

lemma tok_scan_good:
  assumes "length acc + length t \<le> 31" and "\<forall>c \<in> set t. c \<noteq> 0 \<and> \<not> delimiter c" and "delimiter d"
  shows "tok_scan 32 acc (t @ d # rest) = Some (length acc + length t + 1, acc @ t)"
  using assms(1,2)
proof (induction t arbitrary: acc)
  case Nil
  with assms(3) show ?case by simp
next
  case (Cons c t)
  then show ?case using Cons.IH [of "acc @ [c]"] by simp
qed

lemma tok_next_good:
  assumes "drop p m = t @ d # rest" and "good_tok t" and "delimiter d"
  shows "tok_next 32 m p = Some (length t + 1, t)" and "drop (p + (length t + 1)) m = rest"
proof -
  show "tok_next 32 m p = Some (length t + 1, t)"
    using assms tok_scan_good [of "[]" t d rest] by (simp add: tok_next_def good_tok_def)
  have "drop (p + (length t + 1)) m = drop (length t + 1) (drop p m)" by (simp add: add.commute)
  then show "drop (p + (length t + 1)) m = rest" using assms(1) by simp
qed

lemma field_loop_joined:
  assumes "drop p m = joined ts @ rest" and "good_toks ts" and "length ts = length js"
  shows "field_loop f m js (tok, p, n) =
    Some (last (tok # map fst ts), p + length (joined ts),
      foldl (\<lambda>n (j, t). f j t n) n (zip js (tok # map fst ts)))"
  using assms
proof (induction js arbitrary: ts tok p n)
  case Nil
  then show ?case by simp
next
  case (Cons j js)
  then obtain t d us where ts: "ts = (t, d) # us" by (cases ts) auto
  have good: "good_tok t" "delimiter d" "good_toks us" using Cons.prems(2) by (simp_all add: ts good_toks_def)
  have at: "drop p m = t @ d # (joined us @ rest)" using Cons.prems(1) by (simp add: ts)
  note tok = tok_next_good [OF at good(1,2)]
  show ?case
    using Cons.IH [OF tok(2) good(3), of t "f j tok n"] Cons.prems(3) tok(1)
    by (simp add: ts add.assoc)
qed

text \<open>Too few tokens before the end of the memory: the loop over the fields reads behind it.\<close>

lemma field_loop_overrun:
  assumes "drop p m = joined ts" and "good_toks ts" and "length ts < length js"
  shows "field_loop f m js (tok, p, n) = None"
  using assms
proof (induction js arbitrary: ts tok p n)
  case Nil
  then show ?case by simp
next
  case (Cons j js)
  show ?case
  proof (cases ts)
    case Nil
    with Cons.prems(1) show ?thesis by (simp add: tok_next_def)
  next
    case ts: (Cons td us)
    obtain t d where td: "td = (t, d)" by fastforce
    have good: "good_tok t" "delimiter d" "good_toks us"
      using Cons.prems(2) by (simp_all add: ts td good_toks_def)
    have at: "drop p m = t @ d # joined us" using Cons.prems(1) by (simp add: ts td)
    note tok = tok_next_good [OF at good(1,2)]
    show ?thesis
      using Cons.IH [OF tok(2) good(3), of t "f j tok n"] Cons.prems(3) tok(1) by (simp add: ts)
  qed
qed

text \<open>A token that does not fit is not consumed.\<close>

lemma tok_scan_long:
  assumes "length acc + length t = 31" and "\<forall>c \<in> set (t @ [c']). c \<noteq> 0 \<and> \<not> delimiter c"
  shows "tok_scan 32 acc (t @ c' # rest) = Some (0, acc @ t)"
  using assms
proof (induction t arbitrary: acc)
  case (Cons c t)
  then show ?case using Cons.IH [of "acc @ [c]"] by simp
qed simp

lemma parse_loop_stuck:
  assumes "tok_next 32 m p = Some (0, t)" and "\<not> sublist (str ''$GPGGA'') t" and "\<not> sublist (str ''$GPRMC'') t"
  shows "parse_loop k m sz (p, n) = Some n"
  by (induction k) (simp_all add: assms sentence_def)

text \<open>One pass of the main loop over a token that starts no sentence.\<close>

lemma parse_loop_skip:
  assumes "drop p m = t @ d # rest" and "good_tok t" and "delimiter d" and "int p < sz"
    and "\<not> sublist (str ''$GPGGA'') t" and "\<not> sublist (str ''$GPRMC'') t"
  shows "parse_loop (Suc k) m sz (p, n) = parse_loop k m sz (p + (length t + 1), n)"
  using assms(4-6) tok_next_good [OF assms(1-3)] by (simp add: sentence_def)

text \<open>The fields as single updates.\<close>

definition val :: "'a \<Rightarrow> 'a option \<Rightarrow> 'a" where
  "val d x = (case x of Some v \<Rightarrow> v | None \<Rightarrow> d)"

lemma val_simps [simp]: "val d None = d" "val d (Some v) = v"
  by (simp_all add: val_def)

lemma rmc_field_simps:
  "rmc_field 1 t n = n\<lparr>utc_hour := fst (val (utc_hour n, utc_min n, utc_sec n) (gps_parse_time t)),
     utc_min := fst (snd (val (utc_hour n, utc_min n, utc_sec n) (gps_parse_time t))),
     utc_sec := snd (snd (val (utc_hour n, utc_min n, utc_sec n) (gps_parse_time t)))\<rparr>"
  "rmc_field 2 t n = n\<lparr>cur_active := val (cur_active n) (gps_parse_valid t)\<rparr>"
  "rmc_field 3 t n = n\<lparr>cur_lat := val (cur_lat n) (gps_parse_latitude t)\<rparr>"
  "rmc_field 4 t n = n\<lparr>cur_south := val (cur_south n) (gps_parse_indicator_south t)\<rparr>"
  "rmc_field 5 t n = n\<lparr>cur_long := val (cur_long n) (gps_parse_longitude t)\<rparr>"
  "rmc_field 6 t n = n\<lparr>cur_west := val (cur_west n) (gps_parse_indicator_west t)\<rparr>"
  "rmc_field 7 t n = n\<lparr>cur_speed := val (-1) (gps_parse_speed t)\<rparr>"
  "rmc_field 8 t n = n\<lparr>cur_angle := val (cur_angle n) (gps_parse_angle t)\<rparr>"
  "rmc_field 9 t n = n\<lparr>utc_year := fst (val (utc_year n, utc_mon n, utc_day n) (gps_parse_date t)),
     utc_mon := fst (snd (val (utc_year n, utc_mon n, utc_day n) (gps_parse_date t))),
     utc_day := snd (snd (val (utc_year n, utc_mon n, utc_day n) (gps_parse_date t)))\<rparr>"
  "j \<notin> {1, 2, 3, 4, 5, 6, 7, 8, 9} \<Longrightarrow> rmc_field j t n = n"
  by (simp_all add: rmc_field_def val_def split: option.split prod.split)

lemma gga_field_simps:
  "gga_field 7 t n = n\<lparr>cur_satellite := val (cur_satellite n) (gps_parse_satellites t)\<rparr>"
  "gga_field 8 t n = n\<lparr>cur_hdop := val FLT_MAX (gps_parse_dop t)\<rparr>"
  "gga_field 9 t n = n\<lparr>cur_altitude := val (cur_altitude n) (gps_parse_altitude t)\<rparr>"
  "j \<notin> {7, 8, 9} \<Longrightarrow> gga_field j t n = n"
  by (simp_all add: gga_field_def val_def split: option.split)

definition rmc_all :: "byte list list \<Rightarrow> nmea \<Rightarrow> nmea" where
  "rmc_all ts n = foldl (\<lambda>n (j, t). rmc_field j t n) n (zip [0..<13] ts)"

definition gga_all :: "byte list list \<Rightarrow> nmea \<Rightarrow> nmea" where
  "gga_all ts n = foldl (\<lambda>n (j, t). gga_field j t n) n (zip [0..<15] ts)"

lemma rmc_all_eq:
  assumes "length ts = 14"
  shows "rmc_all ts nmea_start =
    (let (h, mi, se) = val (0, 0, 0) (gps_parse_time (ts ! 1));
         (y, mo, da) = val (0, 0, 0) (gps_parse_date (ts ! 9))
     in nmea_start\<lparr>utc_year := y, utc_mon := mo, utc_day := da, utc_hour := h, utc_min := mi,
          utc_sec := se, cur_lat := val 0 (gps_parse_latitude (ts ! 3)),
          cur_long := val 0 (gps_parse_longitude (ts ! 5)),
          cur_south := val False (gps_parse_indicator_south (ts ! 4)),
          cur_west := val False (gps_parse_indicator_west (ts ! 6)),
          cur_active := val False (gps_parse_valid (ts ! 2)),
          cur_speed := val (-1) (gps_parse_speed (ts ! 7)),
          cur_angle := val 0 (gps_parse_angle (ts ! 8))\<rparr>)"
proof -
  have upt: "[0..<13] = [0, 1, 2, 3, 4, 5, 6, 7, 8, 9, 10, 11, 12::nat]"
    by (simp add: upt_rec)
  have "zip [0..<13] ts = map (\<lambda>i. (i, ts ! i)) [0..<13]"
    using assms by (intro nth_equalityI) simp_all
  then have z: "zip [0..<13] ts = map (\<lambda>i. (i, ts ! i)) [0, 1, 2, 3, 4, 5, 6, 7, 8, 9, 10, 11, 12]"
    unfolding upt .
  show ?thesis
    unfolding rmc_all_def z
    by (simp add: rmc_field_simps nmea_start_def del: One_nat_def split: prod.split)
qed

lemma gga_all_eq:
  assumes "length ts = 16"
  shows "gga_all ts n = n\<lparr>cur_satellite := val (cur_satellite n) (gps_parse_satellites (ts ! 7)),
    cur_hdop := val FLT_MAX (gps_parse_dop (ts ! 8)),
    cur_altitude := val (cur_altitude n) (gps_parse_altitude (ts ! 9))\<rparr>"
proof -
  have upt: "[0..<15] = [0, 1, 2, 3, 4, 5, 6, 7, 8, 9, 10, 11, 12, 13, 14::nat]"
    by (simp add: upt_rec)
  have "zip [0..<15] ts = map (\<lambda>i. (i, ts ! i)) [0..<15]"
    using assms by (intro nth_equalityI) simp_all
  then have z: "zip [0..<15] ts =
      map (\<lambda>i. (i, ts ! i)) [0, 1, 2, 3, 4, 5, 6, 7, 8, 9, 10, 11, 12, 13, 14]"
    unfolding upt .
  show ?thesis
    unfolding gga_all_def z by (simp add: gga_field_simps del: One_nat_def)
qed

lemma names:
  "sublist (str ''$GPRMC'') (str ''$GPRMC'')" "\<not> sublist (str ''$GPGGA'') (str ''$GPRMC'')"
  "sublist (str ''$GPGGA'') (str ''$GPGGA'')" "\<not> sublist (str ''$GPRMC'') (str ''$GPGGA'')"
  "good_tok (str ''$GPRMC'')" "good_tok (str ''$GPGGA'')"
  by (simp_all add: str_def sublist_code good_tok_def delimiter_def)

text \<open>A pass over a whole sentence.\<close>

lemma parse_loop_rmc:
  assumes "drop p m = joined ((str ''$GPRMC'', 44) # ts) @ rest" and "good_toks ts" and "length ts = 13"
    and "int p < sz"
  shows "parse_loop (Suc k) m sz (p, n) = parse_loop k m sz
    (p + length (joined ((str ''$GPRMC'', 44) # ts)), rmc_all (str ''$GPRMC'' # map fst ts) n)"
proof -
  have d: "delimiter 44" by (simp add: delimiter_def)
  have at: "drop p m = str ''$GPRMC'' @ 44 # (joined ts @ rest)" using assms(1) by simp
  note tok = tok_next_good [OF at names(5) d]
  have len: "length ts = length [0..<13]" using assms(3) by simp
  show ?thesis
    using assms(4) tok(1) field_loop_joined [OF tok(2) assms(2) len, of rmc_field]
    by (simp add: sentence_def names rmc_all_def add.assoc)
qed

lemma parse_loop_gga:
  assumes "drop p m = joined ((str ''$GPGGA'', 44) # ts) @ rest" and "good_toks ts" and "length ts = 15"
    and "int p < sz" and "\<not> sublist (str ''$GPRMC'') (fst (last ts))"
  shows "parse_loop (Suc k) m sz (p, n) = parse_loop k m sz
    (p + length (joined ((str ''$GPGGA'', 44) # ts)), gga_all (str ''$GPGGA'' # map fst ts) n)"
proof -
  have d: "delimiter 44" by (simp add: delimiter_def)
  have at: "drop p m = str ''$GPGGA'' @ 44 # (joined ts @ rest)" using assms(1) by simp
  note tok = tok_next_good [OF at names(6) d]
  have len: "length ts = length [0..<15]" using assms(3) by simp
  have "last (str ''$GPGGA'' # map fst ts) = fst (last ts)"
    using assms(3) by (cases "ts = []") (simp_all add: last_map)
  then show ?thesis
    using assms(4,5) tok(1) field_loop_joined [OF tok(2) assms(2) len, of gga_field]
    by (simp add: sentence_def names gga_all_def add.assoc)
qed

subsection \<open>Properties\<close>

text \<open>A block as the receiver sends it: a GPRMC and a GPGGA sentence, each closed by CR and LF.\<close>

definition nmea_block :: "(byte list \<times> byte) list \<Rightarrow> (byte list \<times> byte) list \<Rightarrow> byte list" where
  "nmea_block rs gs = joined ((str ''$GPRMC'', 44) # rs @ ([], 10) # (str ''$GPGGA'', 44) # gs @ [([], 10)])"

lemma empty_tok: "good_tok []" "delimiter 10" "\<not> sublist (str ''$GPGGA'') []" "\<not> sublist (str ''$GPRMC'') []"
  by (simp_all add: good_tok_def delimiter_def str_def)

lemma nmea_block_loop:
  assumes "good_toks rs" and "length rs = 13" and "good_toks gs" and "length gs = 15"
    and "\<not> sublist (str ''$GPRMC'') (fst (last gs))"
  shows "nmea_parse (nmea_block rs gs @ rest) (int (length (nmea_block rs gs))) =
    Some (gga_all (str ''$GPGGA'' # map fst gs) (rmc_all (str ''$GPRMC'' # map fst rs) nmea_start))"
proof -
  define m where "m = nmea_block rs gs @ rest"
  define sz where "sz = int (length (nmea_block rs gs))"
  define R where "R = joined ((str ''$GPRMC'', 44) # rs)"
  define G where "G = joined ((str ''$GPGGA'', 44) # gs)"
  define n1 where "n1 = rmc_all (str ''$GPRMC'' # map fst rs) nmea_start"
  define n2 where "n2 = gga_all (str ''$GPGGA'' # map fst gs) n1"
  have m: "m = R @ [] @ 10 # G @ [] @ 10 # rest"
    by (simp add: m_def nmea_block_def R_def G_def)
  have sz: "sz = int (length R + length G + 2)"
    by (simp add: sz_def nmea_block_def R_def G_def)
  have d0: "drop 0 m = joined ((str ''$GPRMC'', 44) # rs) @ ([] @ 10 # G @ [] @ 10 # rest)"
    by (simp only: m R_def drop_0)
  have d1: "drop (length R) m = [] @ 10 # (G @ [] @ 10 # rest)" by (simp add: m)
  have d2: "drop (length R + 1) m = joined ((str ''$GPGGA'', 44) # gs) @ ([] @ 10 # rest)"
    unfolding G_def [symmetric] by (simp add: m)
  have d3: "drop (length R + 1 + length G) m = [] @ 10 # rest" by (simp add: m)
  have lt: "int 0 < sz" "int (length R) < sz" "int (length R + 1) < sz"
    "int (length R + 1 + length G) < sz" "sz \<le> int (length R + 1 + length G + 1)"
    by (simp_all add: sz)
  have "parse_loop MAX_TRY_CNT m sz (0, nmea_start) = parse_loop (Suc (Suc (Suc (Suc 176)))) m sz (0, nmea_start)"
    by (simp add: MAX_TRY_CNT_def)
  also have "\<dots> = parse_loop (Suc (Suc (Suc 176))) m sz (length R, n1)"
    by (simp only: parse_loop_rmc [OF d0 assms(1,2) lt(1)] R_def n1_def add_0)
  also have "\<dots> = parse_loop (Suc (Suc 176)) m sz (length R + 1, n1)"
    by (simp only: parse_loop_skip [OF d1 empty_tok(1,2) lt(2) empty_tok(3,4)] list.size add_0)
  also have "\<dots> = parse_loop (Suc 176) m sz (length R + 1 + length G, n2)"
    by (simp only: parse_loop_gga [OF d2 assms(3,4) lt(3) assms(5)] G_def n2_def)
  also have "\<dots> = parse_loop 176 m sz (length R + 1 + length G + 1, n2)"
    by (simp only: parse_loop_skip [OF d3 empty_tok(1,2) lt(4) empty_tok(3,4)] list.size add_0)
  also have "\<dots> = parse_loop (Suc 175) m sz (length R + 1 + length G + 1, n2)" by simp
  also have "\<dots> = Some n2" by (simp only: parse_loop.simps lt(5) if_True)
  finally show ?thesis
    by (simp add: nmea_parse_def m_def sz_def n1_def n2_def)
qed

lemma gps_block_parsed_values:
  assumes "good_toks rs" and "length rs = 13" and "good_toks gs" and "length gs = 15"
    and "\<not> sublist (str ''$GPRMC'') (fst (last gs))"
  shows "\<exists>n. nmea_parse (nmea_block rs gs @ rest) (int (length (nmea_block rs gs))) = Some n \<and>
    (utc_hour n, utc_min n, utc_sec n) = val (0, 0, 0) (gps_parse_time (fst (rs ! 0))) \<and>
    (utc_year n, utc_mon n, utc_day n) = val (0, 0, 0) (gps_parse_date (fst (rs ! 8))) \<and>
    cur_lat n = val 0 (gps_parse_latitude (fst (rs ! 2))) \<and>
    cur_long n = val 0 (gps_parse_longitude (fst (rs ! 4))) \<and>
    cur_south n = val False (gps_parse_indicator_south (fst (rs ! 3))) \<and>
    cur_west n = val False (gps_parse_indicator_west (fst (rs ! 5))) \<and>
    cur_active n = val False (gps_parse_valid (fst (rs ! 1))) \<and>
    cur_speed n = val (-1) (gps_parse_speed (fst (rs ! 6)))"
proof -
  have l1: "length (str ''$GPRMC'' # map fst rs) = 14" and l2: "length (str ''$GPGGA'' # map fst gs) = 16"
    using assms(2,4) by simp_all
  show ?thesis
    unfolding nmea_block_loop [OF assms] rmc_all_eq [OF l1] gga_all_eq [OF l2]
    using assms(2,4) by (simp add: nth_Cons' Let_def nmea_start_def split: prod.split)
qed

text \<open>
  C26: a block of one GPRMC and one GPGGA sentence whose fields have at most 31 characters is parsed
  field by field into what the parsers of the fields make of them (numbers rounded to \<open>float\<close> as in the
  source), whatever lies behind it in the buffer; a field that is missing or too short leaves its initial
  value (the speed -1, the dilution of precision \<open>FLT_MAX\<close>). \<open>r j\<close> and \<open>g j\<close> are the fields number \<open>j\<close>.
\<close>

theorem gps_block_parsed:
  assumes "good_toks rs" and "length rs = 13" and "good_toks gs" and "length gs = 15"
    and "\<not> sublist (str ''$GPRMC'') (fst (last gs))"
  shows "nmea_parse (nmea_block rs gs @ rest) (int (length (nmea_block rs gs))) =
    (let r = (\<lambda>j. fst (rs ! (j - 1))); g = (\<lambda>j. fst (gs ! (j - 1)));
         (h, mi, se) = val (0, 0, 0) (gps_parse_time (r 1));
         (y, mo, da) = val (0, 0, 0) (gps_parse_date (r 9))
     in Some \<lparr>utc_year = y, utc_mon = mo, utc_day = da, utc_hour = h, utc_min = mi, utc_sec = se,
          cur_lat = val 0 (gps_parse_latitude (r 3)), cur_long = val 0 (gps_parse_longitude (r 5)),
          cur_south = val False (gps_parse_indicator_south (r 4)),
          cur_west = val False (gps_parse_indicator_west (r 6)),
          cur_satellite = val 0 (gps_parse_satellites (g 7)),
          cur_active = val False (gps_parse_valid (r 2)),
          cur_speed = val (-1) (gps_parse_speed (r 7)),
          cur_angle = val 0 (gps_parse_angle (r 8)),
          cur_hdop = val FLT_MAX (gps_parse_dop (g 8)),
          cur_altitude = val 0 (gps_parse_altitude (g 9))\<rparr>)"
proof -
  have l1: "length (str ''$GPRMC'' # map fst rs) = 14" and l2: "length (str ''$GPGGA'' # map fst gs) = 16"
    using assms(2,4) by simp_all
  show ?thesis
    unfolding nmea_block_loop [OF assms] rmc_all_eq [OF l1] gga_all_eq [OF l2]
    using assms(2,4) by (simp add: nth_Cons' Let_def nmea_start_def split: prod.split)
qed

definition demo_rs :: "(byte list \<times> byte) list" where
  "demo_rs = [(str ''081836.00'', 44), (str ''A'', 44), (str ''3730.0000'', 44), (str ''N'', 44),
     (str ''12730.0000'', 44), (str ''E'', 44), (str ''050.0'', 44), (str ''191.5'', 44),
     (str ''130917'', 44), ([], 44), ([], 44), (str ''A'', 42), (str ''71'', 13)]"

definition demo_gs :: "(byte list \<times> byte) list" where
  "demo_gs = [(str ''081836.00'', 44), (str ''3730.0000'', 44), (str ''N'', 44),
     (str ''12730.0000'', 44), (str ''E'', 44), (str ''1'', 44), (str ''09'', 44), (str ''1.5'', 44),
     (str ''85.5'', 44), (str ''M'', 44), ([], 44), ([], 44), ([], 44), ([], 42), (str ''47'', 13)]"

lemma demo_good: "good_toks demo_rs" "good_toks demo_gs" "length demo_rs = 13" "length demo_gs = 15"
  "\<not> sublist (str ''$GPRMC'') (fst (last demo_gs))"
  by (simp_all add: demo_rs_def demo_gs_def good_toks_def good_tok_def delimiter_def str_def sublist_code)

text \<open>The numbers of the example are half numbers but for the speed, which is near 92.6.\<close>

lemma demo_numbers:
  "to_double 30 = 30" "to_double (1 / 2) = 1 / 2" "to_double (75 / 2) = 75 / 2" "to_float (75 / 2) = 75 / 2"
  "to_double (255 / 2) = 255 / 2" "to_float (255 / 2) = 255 / 2" "to_double (383 / 2) = 383 / 2" "to_float (383 / 2) = 383 / 2"
  "to_double (3 / 2) = 3 / 2" "to_float (3 / 2) = 3 / 2" "to_double (171 / 2) = 171 / 2" "to_float (171 / 2) = 171 / 2"
  "to_double 50 = 50" "to_float 50 = 50"
  using to_double_half [of 60] to_double_half [of 1] to_double_half [of 75] to_float_half [of 75] to_double_half [of 255]
    to_float_half [of 255] to_double_half [of 383] to_float_half [of 383] to_double_half [of 3] to_float_half [of 3]
    to_double_half [of 171] to_float_half [of 171] to_double_half [of 100] to_float_half [of 100]
  by simp_all

text \<open>A bound for what rounding adds to numbers between 1 and 256.\<close>

lemma to_double_close: "2 ^ n \<le> x \<Longrightarrow> x < 2 ^ Suc n \<Longrightarrow> n < 20 \<Longrightarrow> \<bar>to_double x - x\<bar> \<le> 1 / 8589934592"
proof -
  assume x: "2 ^ n \<le> x" "x < 2 ^ Suc n" and n: "n < 20"
  have "\<bar>to_double x - x\<bar> \<le> 2 powi (int n - int 53)" unfolding to_double_def
    by (rule fround_error) (use x n in \<open>simp_all add: power_int_def nat_add_distrib\<close>)
  also have "\<dots> \<le> 2 powi (- 33)" by (rule pow_mono) (use n in simp)
  finally show ?thesis by (simp add: power_int_minus)
qed

lemma to_float_close: "2 ^ n \<le> x \<Longrightarrow> x < 2 ^ Suc n \<Longrightarrow> n < 20 \<Longrightarrow> \<bar>to_float x - x\<bar> \<le> 1 / 16"
proof -
  assume x: "2 ^ n \<le> x" "x < 2 ^ Suc n" and n: "n < 20"
  have "\<bar>to_float x - x\<bar> \<le> 2 powi (int n - int 24)" unfolding to_float_def
    by (rule fround_error) (use x n in \<open>simp_all add: power_int_def nat_add_distrib\<close>)
  also have "\<dots> \<le> 2 powi (- 4)" by (rule pow_mono) (use n in simp)
  finally show ?thesis by (simp add: power_int_minus)
qed

lemma demo_speed: "to_int (to_float (to_double (50 * to_double (463 / 250)))) = 92"
proof -
  define c where "c = to_double (463 / 250)"
  have c: "\<bar>c - 463 / 250\<bar> \<le> 1 / 8589934592" unfolding c_def by (rule to_double_close [of 0]) simp_all
  define d where "d = to_double (50 * c)"
  have "64 \<le> 50 * c" "50 * c < 128" using c by linarith+
  then have "\<bar>d - 50 * c\<bar> \<le> 1 / 8589934592" unfolding d_def by (intro to_double_close [of 6]) simp_all
  with c have d: "925 / 10 \<le> d" "d \<le> 927 / 10" by linarith+
  then have "\<bar>to_float d - d\<bar> \<le> 1 / 16" by (intro to_float_close [of 6]) simp_all
  with d have "92 \<le> to_float d" "to_float d < 93" by linarith+
  then have "to_int (to_float d) = 92" by (simp add: to_int_def floor_unique)
  then show ?thesis by (simp add: d_def c_def)
qed

theorem gps_block_parsed_witness:
  "nmea_parse (nmea_block demo_rs demo_gs @ [0]) (int (length (nmea_block demo_rs demo_gs))) =
    Some \<lparr>utc_year = 2017, utc_mon = 9, utc_day = 13, utc_hour = 8, utc_min = 18, utc_sec = 36,
      cur_lat = 37.5, cur_long = 127.5, cur_south = False, cur_west = False, cur_satellite = 9,
      cur_active = True, cur_speed = 92, cur_angle = 191.5, cur_hdop = 1.5, cur_altitude = 85.5\<rparr>"
  unfolding gps_block_parsed [OF demo_good(1,3,2,4,5)]
  by (simp add: demo_rs_def demo_gs_def str_def gps_parse_time_def gps_parse_valid_def gps_parse_date_def
      gps_parse_angle_def gps_parse_dop_def gps_parse_altitude_def gps_parse_latitude_def
      gps_parse_longitude_def gps_parse_indicator_south_def gps_parse_indicator_west_def
      gps_parse_speed_def gps_parse_satellites_def dig_def atof_def decimal_def digits_val_def read_sign_def
      exponent_def isdigit_def demo_numbers demo_speed Let_def del: One_nat_def)

text \<open>
  The \<open>float\<close> between the two multiplications can carry a speed over a whole number: 87.473 knots are
  161.99999 km/h, and the code makes 162 of them.
\<close>

lemma speed_rounded_up: "gps_parse_speed (str ''087.473'') = Some 162"
proof -
  have digits: "decimal (str ''087.473'') = 87473 / 1000"
    by (simp add: str_def decimal_def digits_val_def read_sign_def exponent_def isdigit_def del: One_nat_def)
  define a where "a = to_double (87473 / 1000)"
  have a: "\<bar>a - 87473 / 1000\<bar> \<le> 1 / 8589934592" unfolding a_def by (rule to_double_close [of 6]) simp_all
  define b where "b = to_float a"
  have "64 \<le> \<bar>a\<bar>" "\<bar>a\<bar> < 128" "\<bar>a - 11465261 / 131072\<bar> < 1 / 262144" using a by linarith+
  then have "b = of_int 11465261 * 2 powi (6 - int 24 + 1)"
    unfolding b_def to_float_def by (intro fround_near) (simp_all add: power_int_minus)
  then have b: "b = 11465261 / 131072" by (simp add: power_int_minus)
  define c where "c = to_double (463 / 250)"
  have c: "\<bar>c - 463 / 250\<bar> \<le> 1 / 8589934592" unfolding c_def by (rule to_double_close [of 0]) simp_all
  define d where "d = to_double (b * c)"
  have "128 \<le> b * c" "b * c < 256" using c unfolding b by linarith+
  then have "\<bar>d - b * c\<bar> \<le> 1 / 8589934592" unfolding d_def by (intro to_double_close [of 7]) simp_all
  then have "128 \<le> \<bar>d\<bar>" "\<bar>d\<bar> < 256" "\<bar>d - 162\<bar> < 1 / 131072" using c unfolding b by linarith+
  then have "to_float d = of_int 10616832 * 2 powi (7 - int 24 + 1)"
    unfolding to_float_def by (intro fround_near) (simp_all add: power_int_minus)
  then have "to_float d = 162" by (simp add: power_int_minus)
  then show ?thesis
    by (simp add: gps_parse_speed_def atof_def digits Let_def a_def [symmetric] b_def [symmetric] c_def [symmetric]
        d_def [symmetric] to_int_def) (simp add: str_def)
qed

text \<open>
  A run of 32 or more characters without a delimiter blocks the parser: \<open>tok_next\<close> does not move
  past it, the 180 attempts are used up on it, and nothing of the block is read, whatever sentences
  follow.
\<close>

theorem gps_long_token_blocks:
  assumes "length t = 31" and "\<forall>c \<in> set (t @ [c']). c \<noteq> 0 \<and> \<not> delimiter c"
    and "\<not> sublist (str ''$GPGGA'') t" and "\<not> sublist (str ''$GPRMC'') t"
  shows "nmea_parse (t @ c' # rest) sz = Some nmea_start"
proof -
  have "tok_next 32 (t @ c' # rest) 0 = Some (0, t)"
    using tok_scan_long [of "[]" t c' rest] assms(1,2) by (simp add: tok_next_def)
  from parse_loop_stuck [OF this assms(3,4)] show ?thesis by (simp add: nmea_parse_def)
qed

theorem gps_long_token_blocks_witness:
  "nmea_parse (replicate 31 65 @ 65 # 13 # 10 # nmea_block demo_rs demo_gs) 200 = Some nmea_start"
proof (rule gps_long_token_blocks)
  have *: "\<not> sublist (36 # xs) (replicate n (65 :: byte))" for xs n
    using set_mono_sublist [of "36 # xs" "replicate n (65 :: byte)"] by (auto split: if_splits)
  show "\<not> sublist (str ''$GPGGA'') (replicate 31 65)" "\<not> sublist (str ''$GPRMC'') (replicate 31 65)"
    using * by (simp_all add: str_def)
qed (auto simp: delimiter_def)

text \<open>
  Once a sentence has begun, the loop over its fields does not look at the size of the block: a
  sentence that is cut off makes the parser read behind the end of the memory.
\<close>

theorem gps_truncated_sentence_overreads:
  assumes "good_toks ts" and "length ts < 13"
  shows "nmea_parse (joined ((str ''$GPRMC'', 44) # ts)) (int (length (joined ((str ''$GPRMC'', 44) # ts)))) = None"
proof -
  define m where "m = joined ((str ''$GPRMC'', 44) # ts)"
  have d: "delimiter 44" by (simp add: delimiter_def)
  have at: "drop 0 m = str ''$GPRMC'' @ 44 # joined ts" by (simp add: m_def)
  note tok = tok_next_good [OF at names(5) d]
  have "length ts < length [0..<13]" using assms(2) by simp
  from field_loop_overrun [OF tok(2) assms(1) this]
  moreover have "int 0 < int (length m)" by (simp add: m_def)
  ultimately have "parse_loop (Suc k) m (int (length m)) (0, nmea_start) = None" for k
    using tok(1) by (simp add: sentence_def names)
  from this [of 179] show ?thesis by (simp add: nmea_parse_def MAX_TRY_CNT_def m_def)
qed

theorem gps_truncated_sentence_overreads_witness:
  "nmea_parse (joined [(str ''$GPRMC'', 44), (str ''081836.00'', 44), (str ''A'', 10)])
     (int (length (joined [(str ''$GPRMC'', 44), (str ''081836.00'', 44), (str ''A'', 10)]))) = None"
  by (rule gps_truncated_sentence_overreads)
    (simp_all add: good_toks_def good_tok_def delimiter_def str_def)

end
