(* ===== verification/GpsCheck.thy ===== *)
theory GpsCheck
  imports GpsData Config ErrorMgr "HOL-Library.Signed_Division"
begin

text \<open>
  The second half of \<open>base/gpstool.c\<close>: the check that refuses positions that have jumped, the last
  valid position and its persistence, the state of the antenna. Function-local static variables are
  fields of the state. The distance functions are those of theory Distance with their rounding
  \<open>rnd\<close>. \<open>gps_out\<close> is the sequence of error logs and of commands to the GPS daemon; log texts
  are left out. \<open>crit_gps\<close> is what the critical data block holds of the position, and
  \<open>enc\<close> and \<open>deco\<close> are the representation of \<open>gpsData_t\<close> in memory.
\<close>

datatype boot_type = GPS_BOOT_WARM | GPS_BOOT_COLD

datatype gps_call = Error_log | Gpsd_start boot_type | Gpsd_reset boot_type | Gpsd_stop |
  gps_ant_ok_callback | gps_ant_nok_callback

record gpsst =
  last_valid_gpsdata :: gpsData
  saved_valid_gpsdata :: gpsData
  is_set_last_gpsdata :: bool
  is_prev_gps_valid :: bool
  num_gps_error :: int
  gps_reset_cnt :: int
  cur_gps_stat :: bool
  last_sec :: int
  crit_gps :: "real \<times> real \<times> int"
  gps_out :: "gps_call list"

definition gpsst_init :: gpsst where
  "gpsst_init = \<lparr>last_valid_gpsdata = zero_gps, saved_valid_gpsdata = zero_gps,
     is_set_last_gpsdata = False, is_prev_gps_valid = False, num_gps_error = 0, gps_reset_cnt = 0,
     cur_gps_stat = True, last_sec = 0, crit_gps = (0, 0, 0), gps_out = []\<rparr>"

definition GPS_DATA_PATH :: string where "GPS_DATA_PATH = ''/data/mds/data/gps_valid.dat''"

subsection \<open>Commands to the GPS daemon\<close>

definition gps_does :: "gps_call list \<Rightarrow> gpsst \<Rightarrow> gpsst" where
  "gps_does cs s = s\<lparr>gps_out := gps_out s @ cs\<rparr>"

definition gps_on :: "boot_type \<Rightarrow> gpsst \<Rightarrow> gpsst" where
  "gps_on b s = gps_does [Gpsd_start b] (s\<lparr>cur_gps_stat := True\<rparr>)"

definition gps_reset :: "boot_type \<Rightarrow> gpsst \<Rightarrow> gpsst" where
  "gps_reset b s =
     (let s1 = s\<lparr>cur_gps_stat := True, gps_reset_cnt := gps_reset_cnt s + 1\<rparr>
      in if gps_reset_cnt s1 < 3 then s1
         else (gps_does [Gpsd_reset b] s1)\<lparr>gps_reset_cnt := 0\<rparr>)"

definition gps_off :: "gpsst \<Rightarrow> gpsst" where
  "gps_off s = (gps_does [Gpsd_stop] s)\<lparr>cur_gps_stat := False\<rparr>"

subsection \<open>The last valid position\<close>

definition gps_valid_data_set :: "gpsData \<Rightarrow> gpsst \<Rightarrow> gpsst" where
  "gps_valid_data_set g s = s\<lparr>last_valid_gpsdata := g\<rparr>"

definition gps_valid_data_clear :: "gpsst \<Rightarrow> gpsst" where
  "gps_valid_data_clear s = s\<lparr>last_valid_gpsdata := zero_gps\<rparr>"

definition gps_restart_check_distance :: "gpsst \<Rightarrow> gpsst" where
  "gps_restart_check_distance s = s\<lparr>is_set_last_gpsdata := False\<rparr>"

definition crit_set_gps :: "gpsData \<Rightarrow> gpsst \<Rightarrow> gpsst" where
  "crit_set_gps g s = s\<lparr>crit_gps := (glat g, glon g, gutc_sec g)\<rparr>"

subsection \<open>The check\<close>

text \<open>The three places that accept a position as the new last one.\<close>

definition accept :: "gpsData \<Rightarrow> gpsst \<Rightarrow> gpsst" where
  "accept g s = crit_set_gps g (gps_valid_data_set g (s\<lparr>is_prev_gps_valid := True\<rparr>))"

text \<open>After the start or a restart: at most two positions far from the stored one are refused.\<close>

definition jumped_at_first :: "(real \<Rightarrow> real) \<Rightarrow> configGPS \<Rightarrow> gpsData \<Rightarrow> gpsst \<Rightarrow> (int \<times> gpsst) option" where
  "jumped_at_first rnd conf g s =
     (let old = last_valid_gpsdata s
      in if gactive old = 1 \<and> num_gps_error s < 2 then
           (let dist_m = to_int (get_distance_m rnd (glat old) (glat g) (glon old) (glon g))
            in if dist_m < 0 then Some (0, s)
               else if dist_m > gps_err_first_dist_m conf then
                 Some (-1, gps_reset GPS_BOOT_WARM
                   (gps_does [Error_log] (s\<lparr>num_gps_error := num_gps_error s + 1\<rparr>)))
               else None)
         else None)"

text \<open>A position after a gap, compared with the last valid one.\<close>

definition jumped_on_running :: "(real \<Rightarrow> real) \<Rightarrow> configGPS \<Rightarrow> gpsData \<Rightarrow> gpsst \<Rightarrow> int \<times> gpsst" where
  "jumped_on_running rnd conf g s =
     (let old = last_valid_gpsdata s;
          dist_m = to_int (get_distance_km rnd (glat old) (glat g) (glon old) (glon g) * 1000);
          time_sec = gutc_sec g - gutc_sec old;
          ok = (0, accept g (s\<lparr>num_gps_error := 0\<rparr>))
      in if dist_m < 0 then (0, s)
         else if dist_m < gps_err_ignore_dist_m conf then ok
         else if time_sec \<le> 0 then ok
         else if dist_m div time_sec \<ge> (gps_err_dist_kms conf * 1000) sdiv 3600 \<and> num_gps_error s < 3
         then (let s1 = gps_does [Error_log] (s\<lparr>num_gps_error := num_gps_error s + 1\<rparr>)
               in (-1, (gps_reset (if num_gps_error s1 = 3 then GPS_BOOT_COLD else GPS_BOOT_WARM) s1)
                         \<lparr>is_prev_gps_valid := False\<rparr>))
         else if dist_m \<ge> gps_err_max_dist_m conf \<and> num_gps_error s < 2
         then (-1, (gps_reset GPS_BOOT_WARM
                     (gps_does [Error_log] (s\<lparr>num_gps_error := num_gps_error s + 1\<rparr>)))
                     \<lparr>is_prev_gps_valid := False\<rparr>)
         else ok)"

definition check_distance :: "(real \<Rightarrow> real) \<Rightarrow> configGPS \<Rightarrow> gpsData \<Rightarrow> gpsst \<Rightarrow> int \<times> gpsst" where
  "check_distance rnd conf g s =
     (if gactive g = 0 then (0, s\<lparr>is_prev_gps_valid := False\<rparr>)
      else
        (case (if is_set_last_gpsdata s then None else jumped_at_first rnd conf g s) of
           Some r \<Rightarrow> r
         | None \<Rightarrow>
             (let s1 = (if is_set_last_gpsdata s then s else s\<lparr>num_gps_error := 0\<rparr>)
              in if \<not> is_set_last_gpsdata s1 \<or> is_prev_gps_valid s1
                 then (0, accept g (s1\<lparr>is_set_last_gpsdata := True\<rparr>))
                 else jumped_on_running rnd conf g s1)))"

definition check_speed :: "configGPS \<Rightarrow> gpsData \<Rightarrow> gpsst \<Rightarrow> int \<times> gpsst" where
  "check_speed conf g s =
     (if gactive g = 0 then (0, s)
      else if gspeed g \<ge> gps_err_speed_kms conf
      then (-1, gps_reset GPS_BOOT_WARM (gps_does [Error_log] s))
      else (0, s))"

definition check_gps_data :: "(real \<Rightarrow> real) \<Rightarrow> configGPS \<Rightarrow> gpsData \<Rightarrow> gpsst \<Rightarrow> int \<times> gpsst" where
  "check_gps_data rnd conf g s =
     (if gps_err_enable conf = 0 then (0, s)
      else
        (case check_speed conf g s of
           (r, s1) \<Rightarrow>
             if r < 0 then (-1, s1)
             else (case check_distance rnd conf g s1 of
                     (r, s2) \<Rightarrow> if r < 0 then (-1, s2) else (0, s2))))"

definition gps_chk_valid_time :: "gpsData \<Rightarrow> gpsst \<Rightarrow> int \<times> gpsst" where
  "gps_chk_valid_time g s =
     (let cur_sec = uint (gsec g) + uint (gmin g) * 60 + uint (ghour g) * 60 * 60
      in (if cur_sec > last_sec s then 1 else -1, s\<lparr>last_sec := cur_sec\<rparr>))"

subsection \<open>Persistence of the last valid position\<close>

definition gps_valid_data_write :: "(gpsData \<Rightarrow> byte list) \<Rightarrow> configGPS \<Rightarrow> gpsst \<Rightarrow> os \<Rightarrow>
    int \<times> gpsst \<times> os" where
  "gps_valid_data_write enc conf s os =
     (let g = last_valid_gpsdata s
      in if gps_err_enable conf = 0 then (0, s, os)
         else if gactive g = 0 then (0, s, os)
         else if enc (saved_valid_gpsdata s) = enc g then (0, s, os)
         else
           (let s1 = crit_set_gps g s;
                (r, os1) = storage_save_file GPS_DATA_PATH (enc g) os
            in if r < 0 then (-1, s1, os1) else (0, s1\<lparr>saved_valid_gpsdata := g\<rparr>, os1)))"

text \<open>The retry loop; a failed load clears the last valid position.\<close>

fun valid_read_loop :: "nat \<Rightarrow> byte list \<Rightarrow> gpsst \<Rightarrow> os \<Rightarrow> int \<times> byte list \<times> gpsst \<times> os" where
  "valid_read_loop 0 d s os = (-1, d, s, os)"
| "valid_read_loop (Suc i) d s os =
     (case storage_load_file GPS_DATA_PATH d os of
        (r, d', os') \<Rightarrow>
          if r < 0 then valid_read_loop i d' (gps_valid_data_clear s) os' else (r, d', s, os'))"

definition gps_valid_data_read :: "(gpsData \<Rightarrow> byte list) \<Rightarrow> (byte list \<Rightarrow> gpsData) \<Rightarrow> int \<Rightarrow>
    configGPS \<Rightarrow> gpsst \<Rightarrow> os \<Rightarrow> int \<times> gpsst \<times> os" where
  "gps_valid_data_read enc deco support conf s os =
     (if gps_err_enable conf = 0 then (0, s, os)
      else
        (case valid_read_loop 3 (replicate (length (enc zero_gps)) 0) s os of
           (r, d, s1, os1) \<Rightarrow>
             if r < 0 \<and> support = 0 then (-1, s1, os1)
             else
               (let g = deco d; (clat, clon, cutc) = crit_gps s1;
                    g1 = (if gutc_sec g < cutc
                          then g\<lparr>glat := clat, glon := clon, gutc_sec := cutc\<rparr> else g);
                    s2 = (if glat g1 \<noteq> 0 \<and> glon g1 \<noteq> 0
                          then (gps_valid_data_set g1 s1)\<lparr>saved_valid_gpsdata := g1\<rparr> else s1)
                in (0, s2, os1))))"

subsection \<open>The antenna\<close>

definition GPS_ANT_CHK_INTERVAL_CNT :: int where "GPS_ANT_CHK_INTERVAL_CNT = 10"
definition GPS_ANT_CHK_CALL_API_CNT :: int where "GPS_ANT_CHK_CALL_API_CNT = 6"

text \<open>\<open>ant_last\<close> is \<open>None\<close> for the initial -99, else whether the last report was OK.\<close>

record gps_ant =
  gps_ant_stat_ok :: int
  gps_ant_stat_nok :: int
  gps_ant_chk_cnt :: int
  gps_ant_stat_last :: "bool option"

definition gps_ant_init :: gps_ant where
  "gps_ant_init = \<lparr>gps_ant_stat_ok = GPS_ANT_CHK_CALL_API_CNT, gps_ant_stat_nok = 0,
     gps_ant_chk_cnt = 0, gps_ant_stat_last = None\<rparr>"

definition gps_ant_chk :: "bool \<Rightarrow> gps_ant \<Rightarrow> gps_call list \<times> gps_ant" where
  "gps_ant_chk ant_ok s =
     (if gps_ant_chk_cnt s \<le> GPS_ANT_CHK_INTERVAL_CNT
      then ([], s\<lparr>gps_ant_chk_cnt := gps_ant_chk_cnt s + 1\<rparr>)
      else
        (let s1 = s\<lparr>gps_ant_chk_cnt := 0\<rparr>;
             s2 = (if ant_ok
                   then s1\<lparr>gps_ant_stat_ok := gps_ant_stat_ok s1 + 1, gps_ant_stat_nok := 0\<rparr>
                   else s1\<lparr>gps_ant_stat_ok := 0, gps_ant_stat_nok := gps_ant_stat_nok s1 + 1\<rparr>)
         in if gps_ant_stat_ok s2 > GPS_ANT_CHK_CALL_API_CNT then
              (if gps_ant_stat_last s2 \<noteq> Some True
               then ([gps_ant_ok_callback], s2\<lparr>gps_ant_stat_last := Some True\<rparr>) else ([], s2))
            else if gps_ant_stat_nok s2 > GPS_ANT_CHK_CALL_API_CNT then
              (if gps_ant_stat_last s2 \<noteq> Some False
               then ([gps_ant_nok_callback], s2\<lparr>gps_ant_stat_last := Some False\<rparr>) else ([], s2))
            else ([], s2)))"

subsection \<open>Lemmas\<close>

lemma gps_does_frame [frames]:
  "last_valid_gpsdata (gps_does cs s) = last_valid_gpsdata s" "crit_gps (gps_does cs s) = crit_gps s"
  "num_gps_error (gps_does cs s) = num_gps_error s"
  "is_set_last_gpsdata (gps_does cs s) = is_set_last_gpsdata s"
  "saved_valid_gpsdata (gps_does cs s) = saved_valid_gpsdata s"
  by (simp_all add: gps_does_def)

lemma gps_reset_frame [frames]:
  "last_valid_gpsdata (gps_reset b s) = last_valid_gpsdata s" "crit_gps (gps_reset b s) = crit_gps s"
  "num_gps_error (gps_reset b s) = num_gps_error s"
  "is_set_last_gpsdata (gps_reset b s) = is_set_last_gpsdata s"
  "saved_valid_gpsdata (gps_reset b s) = saved_valid_gpsdata s"
  by (simp_all add: gps_reset_def frames Let_def)

text \<open>A refusal by the distance check counts, and needs a count below three.\<close>

lemma jumped_at_first_refused:
  assumes "jumped_at_first rnd conf g s = Some (r, s')"
  shows "r = 0 \<and> s' = s \<or>
    r = -1 \<and> num_gps_error s < 3 \<and> num_gps_error s' = num_gps_error s + 1 \<and>
    last_valid_gpsdata s' = last_valid_gpsdata s \<and> crit_gps s' = crit_gps s \<and>
    is_set_last_gpsdata s' = is_set_last_gpsdata s \<and>
    to_int (get_distance_m rnd (glat (last_valid_gpsdata s)) (glat g)
      (glon (last_valid_gpsdata s)) (glon g)) > gps_err_first_dist_m conf"
  using assms by (auto simp: jumped_at_first_def Let_def frames split: if_splits)

lemma jumped_on_running_refused:
  assumes "jumped_on_running rnd conf g s = (r, s')"
  shows "r = 0 \<or>
    r = -1 \<and> num_gps_error s < 3 \<and> num_gps_error s' = num_gps_error s + 1 \<and>
    last_valid_gpsdata s' = last_valid_gpsdata s \<and> crit_gps s' = crit_gps s \<and>
    is_set_last_gpsdata s' = is_set_last_gpsdata s \<and>
    to_int (get_distance_km rnd (glat (last_valid_gpsdata s)) (glat g)
      (glon (last_valid_gpsdata s)) (glon g) * 1000) \<ge> gps_err_ignore_dist_m conf"
  using assms by (auto simp: jumped_on_running_def Let_def frames split: if_splits)

lemma check_distance_refused:
  assumes "check_distance rnd conf g s = (r, s')" and "r \<noteq> 0"
  shows "r = -1 \<and> gactive g \<noteq> 0 \<and> num_gps_error s < 3 \<and> num_gps_error s' = num_gps_error s + 1 \<and>
    last_valid_gpsdata s' = last_valid_gpsdata s \<and> crit_gps s' = crit_gps s \<and>
    (\<not> is_set_last_gpsdata s \<and>
       to_int (get_distance_m rnd (glat (last_valid_gpsdata s)) (glat g)
         (glon (last_valid_gpsdata s)) (glon g)) > gps_err_first_dist_m conf \<or>
     is_set_last_gpsdata s \<and>
       to_int (get_distance_km rnd (glat (last_valid_gpsdata s)) (glat g)
         (glon (last_valid_gpsdata s)) (glon g) * 1000) \<ge> gps_err_ignore_dist_m conf)"
proof (cases "is_set_last_gpsdata s")
  case True
  then have "gactive g \<noteq> 0" and "jumped_on_running rnd conf g s = (r, s')"
    using assms by (auto simp: check_distance_def split: if_splits)
  then show ?thesis using jumped_on_running_refused [of rnd conf g s r s'] assms(2) True by auto
next
  case False
  then have "gactive g \<noteq> 0" and "jumped_at_first rnd conf g s = Some (r, s')"
    using assms by (auto simp: check_distance_def split: if_splits option.splits)
  then show ?thesis using jumped_at_first_refused [of rnd conf g s r s'] assms(2) False by auto
qed

lemma check_gps_data_slow:
  assumes "gactive g \<noteq> 0" and "gspeed g < gps_err_speed_kms conf"
  shows "check_gps_data rnd conf g s =
    (if gps_err_enable conf = 0 then (0, s)
     else (case check_distance rnd conf g s of (r, s2) \<Rightarrow> if r < 0 then (-1, s2) else (0, s2)))"
  using assms by (simp add: check_gps_data_def check_speed_def)

text \<open>The results of the check for a sequence of positions.\<close>

fun check_seq :: "(real \<Rightarrow> real) \<Rightarrow> configGPS \<Rightarrow> gpsData list \<Rightarrow> gpsst \<Rightarrow> int list" where
  "check_seq rnd conf [] s = []"
| "check_seq rnd conf (g # gs) s =
     (case check_gps_data rnd conf g s of (r, s') \<Rightarrow> r # check_seq rnd conf gs s')"

lemma check_seq_refused:
  assumes "\<forall>g \<in> set gs. gactive g \<noteq> 0 \<and> gspeed g < gps_err_speed_kms conf"
    and "0 \<notin> set (check_seq rnd conf gs s)"
  shows "int (length gs) \<le> max 0 (3 - num_gps_error s)"
  using assms
proof (induction gs arbitrary: s)
  case Nil
  then show ?case by simp
next
  case (Cons g gs)
  obtain r s1 where chk: "check_distance rnd conf g s = (r, s1)" by fastforce
  have g: "gactive g \<noteq> 0" "gspeed g < gps_err_speed_kms conf" using Cons.prems(1) by simp_all
  obtain q s2 where step: "check_gps_data rnd conf g s = (q, s2)" by fastforce
  have q: "q \<noteq> 0" and rest: "0 \<notin> set (check_seq rnd conf gs s2)"
    using Cons.prems(2) step by simp_all
  have r: "r < 0" and s2: "s2 = s1"
    using step q unfolding check_gps_data_slow [OF g] chk by (auto split: if_splits)
  have "int (length gs) \<le> max 0 (3 - num_gps_error s1)"
    using Cons.IH [OF _ rest] Cons.prems(1) s2 by simp
  moreover have "num_gps_error s < 3" "num_gps_error s1 = num_gps_error s + 1"
    using check_distance_refused [OF chk] r by simp_all
  ultimately show ?case by simp
qed

subsection \<open>Properties\<close>

text \<open>
  C33: the jump filter cannot shut out a receiver that works: of any four consecutive positions that
  are fixes below the speed limit at least one is accepted, wherever they are and whatever came
  before.
\<close>

theorem jump_filter_recovers:
  assumes "0 \<le> num_gps_error s" and "length gs = 4"
    and "\<forall>g \<in> set gs. gactive g \<noteq> 0 \<and> gspeed g < gps_err_speed_kms conf"
  shows "0 \<in> set (check_seq rnd conf gs s)"
  using check_seq_refused [OF assms(3), of rnd s] assms(1,2) by (cases "0 \<in> set (check_seq rnd conf gs s)") auto

theorem jump_filter_recovers_witness:
  "0 \<in> set (check_seq (\<lambda>x. x) (gps default_config)
     (replicate 4 (zero_gps\<lparr>gactive := 1, glat := 37, glon := 127\<rparr>)) gpsst_init)"
  by (rule jump_filter_recovers) (simp_all add: gpsst_init_def zero_gps_def default_config_def)

text \<open>
  The check refuses only what it should: a refused position is a fix that is too fast, or lies
  beyond the configured distance from the last valid one; it is never stored as the last valid
  position, neither in memory nor in the critical data.
\<close>

theorem jump_refused_only_if_far:
  assumes "fst (check_gps_data rnd conf g s) \<noteq> 0"
  shows "gactive g \<noteq> 0 \<and>
    last_valid_gpsdata (snd (check_gps_data rnd conf g s)) = last_valid_gpsdata s \<and>
    crit_gps (snd (check_gps_data rnd conf g s)) = crit_gps s \<and>
    (gspeed g \<ge> gps_err_speed_kms conf \<or>
     \<not> is_set_last_gpsdata s \<and>
       to_int (get_distance_m rnd (glat (last_valid_gpsdata s)) (glat g)
         (glon (last_valid_gpsdata s)) (glon g)) > gps_err_first_dist_m conf \<or>
     is_set_last_gpsdata s \<and>
       to_int (get_distance_km rnd (glat (last_valid_gpsdata s)) (glat g)
         (glon (last_valid_gpsdata s)) (glon g) * 1000) \<ge> gps_err_ignore_dist_m conf)"
proof (cases "gactive g \<noteq> 0 \<and> gspeed g < gps_err_speed_kms conf")
  case True
  obtain r s1 where chk: "check_distance rnd conf g s = (r, s1)" by fastforce
  then have "r \<noteq> 0" and "check_gps_data rnd conf g s = (-1, s1)"
    using assms True by (auto simp: check_gps_data_slow split: if_splits)
  then show ?thesis using check_distance_refused [OF chk] by auto
next
  case False
  then show ?thesis
    using assms
    by (auto simp: check_gps_data_def check_speed_def check_distance_def frames split: if_splits)
qed

text \<open>From the equator to the pole.\<close>

lemma quarter: "to_int (get_distance_m (\<lambda>x. x) 0 90 0 0) > 2000"
proof -
  have "acos_arg 0 90 0 0 = 0" by (simp add: acos_arg_def rad_def)
  then have "get_distance_m (\<lambda>x. x) 0 90 0 0 \<ge> 10000000"
    by (simp add: get_distance_m_def arc_km_def Let_def)
  then show ?thesis unfolding to_int_def by (simp add: le_floor_iff less_le_trans)
qed

theorem jump_refused_only_if_far_witness:
  "let g = zero_gps\<lparr>gactive := 1, glat := 90\<rparr>; s = gpsst_init\<lparr>last_valid_gpsdata := zero_gps\<lparr>gactive := 1\<rparr>\<rparr>;
       r = check_gps_data (\<lambda>x. x) (gps default_config) g s
   in gactive g \<noteq> 0 \<and> last_valid_gpsdata (snd r) = last_valid_gpsdata s \<and> crit_gps (snd r) = crit_gps s \<and>
      to_int (get_distance_m (\<lambda>x. x) (glat (last_valid_gpsdata s)) (glat g)
        (glon (last_valid_gpsdata s)) (glon g)) > gps_err_first_dist_m (gps default_config)"
proof -
  have "fst (check_gps_data (\<lambda>x. x) (gps default_config) (zero_gps\<lparr>gactive := 1, glat := 90\<rparr>)
      (gpsst_init\<lparr>last_valid_gpsdata := zero_gps\<lparr>gactive := 1\<rparr>\<rparr>)) \<noteq> 0"
    using quarter
    by (simp add: check_gps_data_def check_speed_def check_distance_def jumped_at_first_def zero_gps_def
        gpsst_init_def default_config_def)
  from jump_refused_only_if_far [OF this] show ?thesis
    by (simp add: Let_def zero_gps_def gpsst_init_def default_config_def)
qed

end
