(* ===== verification/Calendar.thy ===== *)
theory Calendar
  imports Prelude
begin

text \<open>
  \<open>mktime\<close> and \<open>gmtime_r\<close> of the C library, for a process without a time zone (the system image
  sets none) and a 32-bit \<open>time_t\<close>: the proleptic Gregorian calendar. The main fact is that the
  two are inverse to each other and that every broken-down time is in range.
\<close>

record tm =
  tm_year :: int
  tm_mon :: int
  tm_mday :: int
  tm_hour :: int
  tm_min :: int
  tm_sec :: int

text \<open>Days since 1970-01-01; years begin in March, so that the leap day is the last day of a year.\<close>

definition days_from_civil :: "int \<Rightarrow> int \<Rightarrow> int \<Rightarrow> int" where
  "days_from_civil y m d =
     (let y' = (if m \<le> 2 then y - 1 else y); yoe = y' mod 400;
          doy = (153 * ((m + 9) mod 12) + 2) div 5 + d - 1
      in y' div 400 * 146097 + yoe * 365 + yoe div 4 - yoe div 100 + doy - 719468)"

definition seconds_of :: "tm \<Rightarrow> int" where
  "seconds_of t =
     ((days_from_civil (tm_year t + 1900 + tm_mon t div 12) (tm_mon t mod 12 + 1) (tm_mday t) * 24 +
       tm_hour t) * 60 + tm_min t) * 60 + tm_sec t"

definition mktime :: "tm \<Rightarrow> int" where
  "mktime t = (let s = seconds_of t in if - (2 ^ 31) \<le> s \<and> s < 2 ^ 31 then s else -1)"

text \<open>Centuries, four-year cycles and years of a 400-year cycle; the last day belongs to the last of each.\<close>

definition year_of_days :: "int \<Rightarrow> int \<times> int" where
  "year_of_days doe =
     (let c = min 3 (doe div 36524); r = doe - c * 36524;
          q = r div 1461; r2 = r mod 1461; y = min 3 (r2 div 365)
      in (100 * c + 4 * q + y, r2 - 365 * y))"

definition civil_from_days :: "int \<Rightarrow> int \<times> int \<times> int" where
  "civil_from_days z =
     (let era = (z + 719468) div 146097; (yoe, doy) = year_of_days ((z + 719468) mod 146097);
          mp = (5 * doy + 2) div 153;
          d = doy - (153 * mp + 2) div 5 + 1;
          m = (if mp < 10 then mp + 3 else mp - 9)
      in (yoe + era * 400 + (if m \<le> 2 then 1 else 0), m, d))"

definition gmtime :: "int \<Rightarrow> tm" where
  "gmtime t =
     (let (y, m, d) = civil_from_days (t div 86400); s = t mod 86400
      in \<lparr>tm_year = y - 1900, tm_mon = m - 1, tm_mday = d, tm_hour = s div 3600,
          tm_min = s mod 3600 div 60, tm_sec = s mod 60\<rparr>)"

text \<open>A broken-down time whose fields are in range.\<close>

definition tm_ok :: "tm \<Rightarrow> bool" where
  "tm_ok t \<longleftrightarrow> 0 \<le> tm_mon t \<and> tm_mon t \<le> 11 \<and> 1 \<le> tm_mday t \<and> tm_mday t \<le> 31 \<and>
     0 \<le> tm_hour t \<and> tm_hour t \<le> 23 \<and> 0 \<le> tm_min t \<and> tm_min t \<le> 59 \<and>
     0 \<le> tm_sec t \<and> tm_sec t \<le> 59"

lemma div_bounds: "0 < n \<Longrightarrow> n * (a div n) \<le> a \<and> a < n * (a div n) + n" for a n :: int
  using mult_div_mod_eq [of n a] pos_mod_bound [of n a] pos_mod_sign [of n a] by linarith

lemma div_eqI: "n * k \<le> a \<Longrightarrow> a < n * k + n \<Longrightarrow> 0 < n \<Longrightarrow> a div n = k" for a n k :: int
  by (simp add: int_div_pos_eq [of a n k "a - n * k"])

lemma year_of_days:
  assumes "0 \<le> doe" and "doe < 146097" and "year_of_days doe = (yoe, doy)"
  shows "0 \<le> yoe" "yoe < 400" "0 \<le> doy" "doy \<le> 365"
    "doe = 365 * yoe + yoe div 4 - yoe div 100 + doy"
proof -
  define c where "c = min 3 (doe div 36524)"
  define r where "r = doe - c * 36524"
  define q where "q = r div 1461"
  define r2 where "r2 = r mod 1461"
  define y where "y = min 3 (r2 div 365)"
  have eq: "yoe = 100 * c + 4 * q + y" "doy = r2 - 365 * y"
    using assms(3) by (simp_all add: year_of_days_def c_def r_def q_def r2_def y_def Let_def)
  have c: "0 \<le> c" "c \<le> 3" using assms(1) by (simp_all add: c_def pos_imp_zdiv_nonneg_iff)
  have r: "0 \<le> r" "r \<le> 36524"
    using assms(1,2) div_bounds [of 36524 doe] by (simp_all add: r_def c_def min_def)
  have r2: "0 \<le> r2" "r2 \<le> 1460" "r = 1461 * q + r2"
    using div_bounds [of 1461 r] by (simp_all add: q_def r2_def minus_div_mult_eq_mod [symmetric])
  have q: "0 \<le> q" "q \<le> 24" using r r2 by linarith+
  have y: "0 \<le> y" "y \<le> 3" using r2 by (simp_all add: y_def pos_imp_zdiv_nonneg_iff)
  have doy: "0 \<le> doy" "doy \<le> 365"
    using r2(1,2) div_bounds [of 365 r2] by (simp_all add: eq(2) y_def min_def)
  show "0 \<le> doy" "doy \<le> 365" by (rule doy)+
  show "0 \<le> yoe" "yoe < 400" using c q y by (simp_all add: eq(1))
  have "yoe div 4 = 25 * c + q" using y by (intro div_eqI) (simp_all add: eq(1))
  moreover have "yoe div 100 = c" using q y by (intro div_eqI) (simp_all add: eq(1))
  ultimately show "doe = 365 * yoe + yoe div 4 - yoe div 100 + doy"
    using r2(3) by (simp add: eq r_def)
qed

text \<open>The day of a year and the month it lies in.\<close>

lemma month_of_day:
  fixes doy :: int
  assumes "0 \<le> doy" and "doy \<le> 365" and "mp = (5 * doy + 2) div 153"
  shows "0 \<le> mp" "mp \<le> 11" "0 \<le> doy - (153 * mp + 2) div 5" "doy - (153 * mp + 2) div 5 \<le> 30"
  using assms(1,2) div_bounds [of 153 "5 * doy + 2"] div_bounds [of 5 "153 * mp + 2"]
  unfolding assms(3) [symmetric] by linarith+

lemma civil_round:
  assumes "civil_from_days z = (y, m, d)"
  shows "days_from_civil y m d = z" "1 \<le> m" "m \<le> 12" "1 \<le> d" "d \<le> 31"
proof -
  define era where "era = (z + 719468) div 146097"
  define doe where "doe = (z + 719468) mod 146097"
  obtain yoe doy where yd: "year_of_days doe = (yoe, doy)" by fastforce
  have doe: "0 \<le> doe" "doe < 146097" by (simp_all add: doe_def)
  note yr = year_of_days [OF doe yd]
  define mp where "mp = (5 * doy + 2) div 153"
  note mo = month_of_day [OF yr(3,4) mp_def]
  define m' where "m' = (if mp < 10 then mp + 3 else mp - 9)"
  have "(yoe + era * 400 + (if m' \<le> 2 then 1 else 0), m', doy - (153 * mp + 2) div 5 + 1) = (y, m, d)"
    using assms
    unfolding civil_from_days_def Let_def era_def [symmetric] doe_def [symmetric] yd prod.case
      mp_def [symmetric] m'_def [symmetric] .
  then have d: "d = doy - (153 * mp + 2) div 5 + 1" and m: "m = (if mp < 10 then mp + 3 else mp - 9)"
    and y: "y = yoe + era * 400 + (if m \<le> 2 then 1 else 0)"
    using m'_def by (simp_all only: prod.inject) blast+
  show "1 \<le> m" "m \<le> 12" using mo(1,2) unfolding m by simp_all
  show "1 \<le> d" "d \<le> 31" using mo(3,4) unfolding d by linarith+
  have mod: "(m + 9) mod 12 = mp" using mo(1,2) by (auto simp: m)
  have y': "(if m \<le> 2 then y - 1 else y) = yoe + era * 400" by (simp add: y)
  have "days_from_civil y m d = era * 146097 + (yoe * 365 + yoe div 4 - yoe div 100) + doy - 719468"
    unfolding days_from_civil_def y' mod Let_def using yr(1,2) by (simp add: d)
  also have "\<dots> = era * 146097 + doe - 719468" using yr(5) by simp
  also have "\<dots> = z" by (simp add: era_def doe_def)
  finally show "days_from_civil y m d = z" .
qed

lemma hms:
  fixes s :: int
  assumes "0 \<le> s" and "s < 86400"
  shows "0 \<le> s div 3600" "s div 3600 \<le> 23" "0 \<le> s mod 3600 div 60" "s mod 3600 div 60 \<le> 59"
    "0 \<le> s mod 60" "s mod 60 \<le> 59"
    "(s div 3600 * 60 + s mod 3600 div 60) * 60 + s mod 60 = s"
proof -
  define h r mi e where "h = s div 3600" and "r = s mod 3600" and "mi = r div 60" and "e = r mod 60"
  have e: "s mod 60 = e" using mod_mod_cancel [of 60 3600 s] by (simp add: e_def r_def)
  have 1: "s = 3600 * h + r" "0 \<le> r" "r < 3600" by (simp_all add: h_def r_def)
  have 2: "r = 60 * mi + e" "0 \<le> e" "e < 60" by (simp_all add: mi_def e_def)
  show "0 \<le> s div 3600" "s div 3600 \<le> 23" using 1 assms unfolding h_def [symmetric] by linarith+
  show "0 \<le> s mod 3600 div 60" "s mod 3600 div 60 \<le> 59"
    using 1 2 unfolding r_def [symmetric] mi_def [symmetric] by linarith+
  show "0 \<le> s mod 60" "s mod 60 \<le> 59" using 2 unfolding e by linarith+
  show "(s div 3600 * 60 + s mod 3600 div 60) * 60 + s mod 60 = s"
    using 1 2 unfolding e h_def [symmetric] r_def [symmetric] mi_def [symmetric] by (simp add: algebra_simps)
qed

lemma gmtime_ok: "tm_ok (gmtime t)"
proof -
  obtain y m d where c: "civil_from_days (t div 86400) = (y, m, d)" by (metis prod_cases3)
  note r = civil_round [OF c]
  define s where "s = t mod 86400"
  have s: "0 \<le> s" "s < 86400" by (simp_all add: s_def)
  have "gmtime t = \<lparr>tm_year = y - 1900, tm_mon = m - 1, tm_mday = d, tm_hour = s div 3600,
      tm_min = s mod 3600 div 60, tm_sec = s mod 60\<rparr>"
    unfolding gmtime_def c s_def Let_def prod.case ..
  then show ?thesis
    using r(2-5) hms(1-6) [OF s] unfolding tm_ok_def by (simp only: tm.simps) simp
qed

lemma seconds_gmtime: "seconds_of (gmtime t) = t"
proof -
  obtain y m d where c: "civil_from_days (t div 86400) = (y, m, d)" by (metis prod_cases3)
  note r = civil_round [OF c]
  define s where "s = t mod 86400"
  have s: "t = t div 86400 * 86400 + s" "0 \<le> s" "s < 86400" by (simp_all add: s_def)
  have m: "(m - 1) div 12 = 0" "(m - 1) mod 12 = m - 1" using r(2,3) by simp_all
  have "seconds_of (gmtime t) = t div 86400 * 86400 + ((s div 3600 * 60 + s mod 3600 div 60) * 60 + s mod 60)"
    using r(1) by (simp add: seconds_of_def gmtime_def c m s_def [symmetric] Let_def algebra_simps)
  then show ?thesis unfolding hms(7) [OF s(2,3)] using s(1) by simp
qed

lemma gmtime_year:
  assumes "- (2 ^ 32) \<le> t" and "t < 2 ^ 32"
  shows "1600 \<le> tm_year (gmtime t) + 1900 \<and> tm_year (gmtime t) + 1900 \<le> 2400"
proof -
  obtain y m d where c: "civil_from_days (t div 86400) = (y, m, d)" by (metis prod_cases3)
  define z where "z = t div 86400"
  have z: "-49711 \<le> z" "z \<le> 49711" using assms div_bounds [of 86400 t] by (simp_all add: z_def)
  define era where "era = (z + 719468) div 146097"
  define doe where "doe = (z + 719468) mod 146097"
  obtain yoe doy where yd: "year_of_days doe = (yoe, doy)" by fastforce
  have era: "4 \<le> era" "era \<le> 5" using z div_bounds [of 146097 "z + 719468"] by (simp_all add: era_def)
  have doe: "0 \<le> doe" "doe < 146097" by (simp_all add: doe_def)
  have "z + 719468 = 146097 * era + doe" by (simp add: era_def doe_def)
  then have "era = 4 \<or> doe \<le> 38694" using era z by linarith
  have yoe: "0 \<le> yoe" "yoe < 400" using year_of_days [OF doe yd] by simp_all
  have small: "era = 5 \<Longrightarrow> yoe \<le> 200"
    using \<open>era = 4 \<or> doe \<le> 38694\<close> year_of_days [OF doe yd] div_bounds [of 4 yoe] div_bounds [of 100 yoe]
    by linarith
  have "y \<in> {yoe + era * 400, yoe + era * 400 + 1}"
    using c unfolding civil_from_days_def Let_def z_def [symmetric] era_def [symmetric] doe_def [symmetric] yd
      prod.case prod.inject by auto
  then have "1600 \<le> y \<and> y \<le> 2400" using era yoe small by auto
  then show ?thesis by (simp add: gmtime_def c Let_def)
qed

lemma mktime_gmtime: "- (2 ^ 31) \<le> t \<Longrightarrow> t < 2 ^ 31 \<Longrightarrow> mktime (gmtime t) = t"
  by (simp add: mktime_def seconds_gmtime)

text \<open>A few dates.\<close>

lemma calendar_samples:
  "mktime \<lparr>tm_year = 117, tm_mon = 8, tm_mday = 13, tm_hour = 8, tm_min = 18, tm_sec = 36\<rparr> = 1505290716"
  "gmtime 951782399 = \<lparr>tm_year = 100, tm_mon = 1, tm_mday = 28, tm_hour = 23, tm_min = 59, tm_sec = 59\<rparr>"
  "gmtime 951782400 = \<lparr>tm_year = 100, tm_mon = 1, tm_mday = 29, tm_hour = 0, tm_min = 0, tm_sec = 0\<rparr>"
  "gmtime 0 = \<lparr>tm_year = 70, tm_mon = 0, tm_mday = 1, tm_hour = 0, tm_min = 0, tm_sec = 0\<rparr>"
  by code_simp+

end
