(* ===== verification/Gps.thy ===== *)
theory Gps
  imports Nmea GpsCheck Calendar
begin

text \<open>
  The rest of \<open>gps_parse\<close> of \<open>base/gpstool.c\<close>: from the parsed sentences to the current position.
  The build without \<open>MDS_FEATURE_USE_GPS_DEACTIVE_RESET\<close> is modelled. The readings of the system
  clock (\<open>get_system_time_utc_sec\<close>, one per place that reads it), of the kernel clock and of the
  network state are inputs. \<open>mktime\<close> and \<open>gmtime_r\<close> are those of theory Calendar.
\<close>

definition gps_utc_sec_localtime :: "int \<Rightarrow> int \<Rightarrow> tm" where
  "gps_utc_sec_localtime utc adj_hour = gmtime (utc + adj_hour * 60 * 60)"

subsection \<open>The state\<close>

record gps_state =
  checker :: gpsst
  cur_gps_data :: gpsData
  prev_gps_data :: gpsData
  flag_gps_fixed :: bool
  flag_modem_utc_setted :: bool
  flag_enabled_modem_time_driver :: bool
  g_skip_gps_when_error :: int
  count_utc_refresh :: int
  prev_gps_time :: int
  gps_dbg_msg_count :: int
  send_gps_active_log :: bool
  emul_gps_lat :: real
  emul_gps_lon :: real
  emul_gps_speed :: int

record gps_env =
  sys_start :: int
  sys_nofix :: int
  gps_ktime :: int
  gps_net_ok :: bool

definition gps_state_init :: gps_state where
  "gps_state_init = \<lparr>checker = gpsst_init, cur_gps_data = zero_gps, prev_gps_data = zero_gps,
     flag_gps_fixed = False, flag_modem_utc_setted = False, flag_enabled_modem_time_driver = False,
     g_skip_gps_when_error = 0, count_utc_refresh = 0, prev_gps_time = 0, gps_dbg_msg_count = 0,
     send_gps_active_log = False, emul_gps_lat = 0, emul_gps_lon = 0, emul_gps_speed = 0\<rparr>"

definition TIME_REFRESH_UTC :: int where "TIME_REFRESH_UTC = 60"
definition GPS_DBG_MSG_SKIP_COUNT :: int where "GPS_DBG_MSG_SKIP_COUNT = 3"

subsection \<open>Operations\<close>

definition set_date :: "tm \<Rightarrow> gpsData \<Rightarrow> gpsData" where
  "set_date t g = g\<lparr>gyear := word_of_int (tm_year t + 1900), gmon := word_of_int (tm_mon t + 1),
     gday := word_of_int (tm_mday t), ghour := word_of_int (tm_hour t), gmin := word_of_int (tm_min t),
     gsec := word_of_int (tm_sec t)\<rparr>"

text \<open>The position of a block with a fix.\<close>

definition fix_data :: "configGPS \<Rightarrow> nmea \<Rightarrow> gps_state \<Rightarrow> gpsData \<Rightarrow> gpsData" where
  "fix_data conf n s tmp =
     (let utc = mktime \<lparr>tm_year = utc_year n - 1900, tm_mon = utc_mon n - 1, tm_mday = utc_day n,
                        tm_hour = utc_hour n, tm_min = utc_min n, tm_sec = utc_sec n\<rparr>;
          t1 = tmp\<lparr>gutc_sec := utc\<rparr>;
          t2 = (if gps_time_zone conf \<noteq> 0 then set_date (gps_utc_sec_localtime utc (gps_time_zone conf)) t1
                else t1\<lparr>gyear := word_of_int (utc_year n), gmon := word_of_int (utc_mon n),
                        gday := word_of_int (utc_day n), ghour := word_of_int (utc_hour n),
                        gmin := word_of_int (utc_min n), gsec := word_of_int (utc_sec n)\<rparr>)
      in t2\<lparr>gsatellite := word_of_int (cur_satellite n), gactive := 1,
            gspeed := (if cur_speed n = -1 then gspeed (prev_gps_data s) else cur_speed n) + emul_gps_speed s,
            glat := to_float ((if cur_south n then - cur_lat n else cur_lat n) + emul_gps_lat s),
            glon := to_float ((if cur_west n then - cur_long n else cur_long n) + emul_gps_lon s),
            gangle := cur_angle n, ghdop := cur_hdop n, galtitude := cur_altitude n\<rparr>)"

text \<open>
  A block without a fix after the clock has been set or a fix been found: the last position goes on
  with the system time. The result is \<open>None\<close> when the block is dropped.
\<close>

definition nofix_data :: "configGPS \<Rightarrow> gps_env \<Rightarrow> gps_state \<Rightarrow> gpsData \<Rightarrow> gpsData option \<times> gps_state" where
  "nofix_data conf e s tmp =
     (let t1 = (if flag_gps_fixed s \<and> adjust_gps conf = 1
                then (prev_gps_data s)\<lparr>gactive := 0, gspeed := 0\<rparr> else tmp);
          clocked = flag_enabled_modem_time_driver s \<and> flag_modem_utc_setted s;
          date = (\<lambda>g. set_date (gps_utc_sec_localtime (gutc_sec g) (gps_time_zone conf)) g);
          now = t1\<lparr>gutc_sec := sys_nofix e\<rparr>
      in if gutc_sec (prev_gps_data s) = 0 then
           (if clocked then (Some (date now), s\<lparr>count_utc_refresh := 0\<rparr>) else (Some (date t1), s))
         else if clocked then
           (let s1 = s\<lparr>count_utc_refresh := count_utc_refresh s + 1\<rparr>
            in if count_utc_refresh s > TIME_REFRESH_UTC then
                 (if sys_nofix e > gutc_sec (prev_gps_data s)
                  then (Some (date now), s1\<lparr>count_utc_refresh := 0\<rparr>) else (None, s1))
               else (Some (date now), s1))
         else (Some (date now), s))"

text \<open>The check and the assignment of the new current position.\<close>

definition gps_commit :: "(real \<Rightarrow> real) \<Rightarrow> configGPS \<Rightarrow> gps_env \<Rightarrow> gpsData \<Rightarrow> gps_state \<Rightarrow> gps_state" where
  "gps_commit rnd conf e g s =
     (case check_gps_data rnd conf g (checker s) of
        (r, c) \<Rightarrow>
          if r < 0 then s\<lparr>checker := c, g_skip_gps_when_error := 3\<rparr>
          else
            (let s1 = s\<lparr>checker := c, cur_gps_data := g, prev_gps_data := g,
                        flag_gps_fixed := flag_gps_fixed s \<or> gactive g = 1,
                        prev_gps_time := gps_ktime e,
                        gps_dbg_msg_count := (if gps_dbg_msg_count s > GPS_DBG_MSG_SKIP_COUNT then 0
                                              else gps_dbg_msg_count s + 1)\<rparr>
             in if \<not> send_gps_active_log s1 \<and> gactive g = 1 \<and> gps_net_ok e
                then s1\<lparr>send_gps_active_log := True\<rparr> else s1))"

definition gps_parse :: "(real \<Rightarrow> real) \<Rightarrow> configGPS \<Rightarrow> gps_env \<Rightarrow> byte list \<Rightarrow> int \<Rightarrow> gps_state \<Rightarrow>
    gps_state option" where
  "gps_parse rnd conf e buff sz s =
     (if g_skip_gps_when_error s > 0 then Some s
      else if sz = 0 \<or> sz > 2048 then Some s
      else
        (case nmea_parse buff sz of
           None \<Rightarrow> None
         | Some n \<Rightarrow>
             (let tmp = set_date (gps_utc_sec_localtime (sys_start e) (gps_time_zone conf))
                          (zero_gps\<lparr>gutc_sec := sys_start e\<rparr>)
              in if cur_active n then
                   Some (gps_commit rnd conf e (fix_data conf n s tmp) (s\<lparr>count_utc_refresh := 0\<rparr>))
                 else if flag_modem_utc_setted s \<or> flag_gps_fixed s then
                   (case nofix_data conf e s tmp of
                      (None, s1) \<Rightarrow> Some s1
                    | (Some g, s1) \<Rightarrow> Some (gps_commit rnd conf e g s1))
                 else Some (gps_commit rnd conf e tmp s))))"

definition gps_get_curr_data :: "gps_state \<Rightarrow> gpsData" where
  "gps_get_curr_data s = cur_gps_data s"

definition gps_get_prev_data :: "gps_state \<Rightarrow> gpsData" where
  "gps_get_prev_data s = prev_gps_data s"

definition gps_set_prev_data_utc :: "int \<Rightarrow> gps_state \<Rightarrow> gps_state" where
  "gps_set_prev_data_utc t s = s\<lparr>prev_gps_data := (prev_gps_data s)\<lparr>gutc_sec := t\<rparr>\<rparr>"

definition gps_set_time_gpsData :: "int \<Rightarrow> int \<Rightarrow> int \<Rightarrow> int \<Rightarrow> int \<Rightarrow> int \<Rightarrow> gpsData \<Rightarrow> gpsData" where
  "gps_set_time_gpsData year mon day hour mi sec g =
     g\<lparr>gyear := word_of_int year, gmon := word_of_int mon, gday := word_of_int day,
       ghour := word_of_int hour, gmin := word_of_int mi, gsec := word_of_int sec\<rparr>"

text \<open>
  The clock at the start; \<open>modem\<close> is the time the modem reports, \<open>None\<close> when it fails. The emulated
  device sets nothing.
\<close>

definition gps_start_utc_adjust :: "bool \<Rightarrow> int \<Rightarrow> int option \<Rightarrow> gps_state \<Rightarrow> int \<times> gps_state" where
  "gps_start_utc_adjust emulated sys modem s =
     (if emulated then (0, s)
      else if sys = 0 then
        (case modem of
           None \<Rightarrow> (-1, s\<lparr>checker := gps_does [Error_log] (checker s)\<rparr>)
         | Some t \<Rightarrow> (0, (gps_set_prev_data_utc t s)
             \<lparr>flag_enabled_modem_time_driver := False, flag_modem_utc_setted := True\<rparr>))
      else (0, s\<lparr>flag_enabled_modem_time_driver := True, flag_modem_utc_setted := True\<rparr>))"

subsection \<open>Lemmas\<close>


lemma nmea_block_length: "0 < int (length (nmea_block rs gs))"
  by (simp add: nmea_block_def)

subsection \<open>Properties\<close>

text \<open>The position of a block with a fix, written over the fields of the block.\<close>

definition fix_of :: "configGPS \<Rightarrow> int \<times> int \<times> int \<Rightarrow> int \<times> int \<times> int \<Rightarrow> real \<Rightarrow> real \<Rightarrow> int \<Rightarrow> gpsData \<Rightarrow> bool" where
  "fix_of conf date time la lo sp g \<longleftrightarrow>
     (let (y, mo, da) = date; (h, mi, se) = time;
          t = mktime \<lparr>tm_year = y - 1900, tm_mon = mo - 1, tm_mday = da, tm_hour = h, tm_min = mi, tm_sec = se\<rparr>;
          lt = gmtime (t + gps_time_zone conf * 3600);
          d = (if gps_time_zone conf = 0 then \<lparr>tm_year = y - 1900, tm_mon = mo - 1, tm_mday = da, tm_hour = h, tm_min = mi, tm_sec = se\<rparr>
               else lt)
      in gactive g = 1 \<and> glat g = la \<and> glon g = lo \<and> gspeed g = sp \<and> gutc_sec g = t \<and>
         gyear g = word_of_int (tm_year d + 1900) \<and> gmon g = word_of_int (tm_mon d + 1) \<and>
         gday g = word_of_int (tm_mday d) \<and> ghour g = word_of_int (tm_hour d) \<and>
         gmin g = word_of_int (tm_min d) \<and> gsec g = word_of_int (tm_sec d))"

lemma fix_data_fix_of:
  assumes "cur_speed n \<noteq> -1" and "emul_gps_lat s = 0" and "emul_gps_lon s = 0" and "emul_gps_speed s = 0"
    and "to_float (cur_lat n) = cur_lat n" and "to_float (cur_long n) = cur_long n"
    and "to_float (- cur_lat n) = - cur_lat n" and "to_float (- cur_long n) = - cur_long n"
  shows "fix_of conf (utc_year n, utc_mon n, utc_day n) (utc_hour n, utc_min n, utc_sec n)
    (if cur_south n then - cur_lat n else cur_lat n) (if cur_west n then - cur_long n else cur_long n)
    (cur_speed n) (fix_data conf n s tmp)"
  using assms by (simp add: fix_of_def fix_data_def set_date_def gps_utc_sec_localtime_def Let_def mult.assoc)

lemma parsed_float:
  "gps_parse_latitude t = Some la \<Longrightarrow> to_float la = la \<and> to_float (- la) = - la"
  "gps_parse_longitude t = Some la \<Longrightarrow> to_float la = la \<and> to_float (- la) = - la"
  by (auto simp: gps_parse_latitude_def gps_parse_longitude_def split: if_splits)

lemma gps_commit_verdict:
  "if fst (check_gps_data rnd conf g (checker s)) < 0
   then cur_gps_data (gps_commit rnd conf e g s) = cur_gps_data s \<and> prev_gps_data (gps_commit rnd conf e g s) = prev_gps_data s \<and>
     flag_gps_fixed (gps_commit rnd conf e g s) = flag_gps_fixed s \<and> g_skip_gps_when_error (gps_commit rnd conf e g s) = 3
   else cur_gps_data (gps_commit rnd conf e g s) = g \<and> prev_gps_data (gps_commit rnd conf e g s) = g \<and>
     flag_gps_fixed (gps_commit rnd conf e g s) = (flag_gps_fixed s \<or> gactive g = 1) \<and>
     g_skip_gps_when_error (gps_commit rnd conf e g s) = g_skip_gps_when_error s"
  by (auto simp: gps_commit_def Let_def split: prod.split)

text \<open>What the check says of a position when it is switched off, and of one that is too fast.\<close>

lemma check_gps_data_known:
  "gps_err_enable conf = 0 \<Longrightarrow> fst (check_gps_data rnd conf g c) = 0"
  "gps_err_enable conf \<noteq> 0 \<Longrightarrow> gactive g = 1 \<Longrightarrow> gspeed g \<ge> gps_err_speed_kms conf \<Longrightarrow>
     fst (check_gps_data rnd conf g c) = -1"
  by (simp_all add: check_gps_data_def check_speed_def)

text \<open>
  C24: a block that reports a fix with its time, date, coordinates and speed (-1 stands for none), on a device that skips no
  readings and emulates no position. The position is made of the fields of the block: southern and western
  coordinates negative, the time in seconds since 1970, the calendar date of the configured time zone (with
  the time zone 0 the fields as they came). It is refused exactly when \<open>check_gps_data\<close> gives a negative
  verdict on it: then the current and the previous position and the flag of the fix stay as they are
  and the next three readings are skipped; otherwise it becomes the current and the previous position and
  the device counts as fixed. With the check switched off it is never refused, with the check switched
  on it is refused at the limit of the speed.
\<close>

theorem gps_fix_committed:
  assumes "good_toks rs" and "length rs = 13" and "good_toks gs" and "length gs = 15"
    and "\<not> sublist (str ''$GPRMC'') (fst (last gs))" and "length (nmea_block rs gs) \<le> 2048"
    and "gps_parse_valid (fst (rs ! 1)) = Some True"
    and "gps_parse_time (fst (rs ! 0)) = Some time" and "gps_parse_date (fst (rs ! 8)) = Some date"
    and "gps_parse_latitude (fst (rs ! 2)) = Some la" and "gps_parse_longitude (fst (rs ! 4)) = Some lo"
    and "gps_parse_indicator_south (fst (rs ! 3)) = Some south"
    and "gps_parse_indicator_west (fst (rs ! 5)) = Some west"
    and "gps_parse_speed (fst (rs ! 6)) = Some sp" and "sp \<noteq> -1"
    and "g_skip_gps_when_error s = 0" and "emul_gps_lat s = 0" and "emul_gps_lon s = 0" and "emul_gps_speed s = 0"
  shows "\<exists>s' g. gps_parse rnd conf e (nmea_block rs gs @ rest) (int (length (nmea_block rs gs))) s = Some s' \<and>
    fix_of conf date time (if south then - la else la) (if west then - lo else lo) sp g \<and>
    (if fst (check_gps_data rnd conf g (checker s)) < 0
     then cur_gps_data s' = cur_gps_data s \<and> prev_gps_data s' = prev_gps_data s \<and>
          flag_gps_fixed s' = flag_gps_fixed s \<and> g_skip_gps_when_error s' = 3
     else cur_gps_data s' = g \<and> prev_gps_data s' = g \<and> flag_gps_fixed s' \<and> g_skip_gps_when_error s' = 0) \<and>
    (gps_err_enable conf = 0 \<longrightarrow> cur_gps_data s' = g) \<and>
    (gps_err_enable conf \<noteq> 0 \<and> gps_err_speed_kms conf \<le> sp \<longrightarrow> cur_gps_data s' = cur_gps_data s)"
proof -
  let ?b = "nmea_block rs gs"
  obtain n where parsed: "nmea_parse (?b @ rest) (int (length ?b)) = Some n"
    and n: "cur_active n" "(utc_year n, utc_mon n, utc_day n) = date" "(utc_hour n, utc_min n, utc_sec n) = time"
      "cur_lat n = la" "cur_long n = lo" "cur_south n = south" "cur_west n = west" "cur_speed n = sp"
    using gps_block_parsed_values [OF assms(1-5), of rest] assms(7-14) by auto
  define tmp where "tmp = set_date (gps_utc_sec_localtime (sys_start e) (gps_time_zone conf))
    (zero_gps\<lparr>gutc_sec := sys_start e\<rparr>)"
  define g where "g = fix_data conf n s tmp"
  let ?s = "gps_commit rnd conf e g (s\<lparr>count_utc_refresh := 0\<rparr>)"
  have run: "gps_parse rnd conf e (?b @ rest) (int (length ?b)) s = Some ?s"
    using assms(6,16) parsed n(1) nmea_block_length [of rs gs]
    by (simp add: gps_parse_def g_def tmp_def Let_def)
  have is_fix: "fix_of conf date time (if south then - la else la) (if west then - lo else lo) sp g"
    using fix_data_fix_of [of n s conf tmp, unfolded n] assms(15,17-19) parsed_float(1) [OF assms(10)]
      parsed_float(2) [OF assms(11)] by (simp add: g_def)
  then have g: "gactive g = 1" "gspeed g = sp" by (auto simp: fix_of_def Let_def split: prod.splits)
  show ?thesis
    using run is_fix g gps_commit_verdict [of rnd conf g "s\<lparr>count_utc_refresh := 0\<rparr>" e] assms(16)
      check_gps_data_known [where rnd = rnd and conf = conf and g = g and c = "checker s"]
    by (intro exI [of _ ?s] exI [of _ g]) (auto split: if_splits)
qed

definition demo_env :: gps_env where
  "demo_env = \<lparr>sys_start = 1505290000, sys_nofix = 1505290000, gps_ktime = 60, gps_net_ok = True\<rparr>"

theorem gps_fix_committed_witness:
  "\<exists>s' g. gps_parse to_float ((gps default_config)\<lparr>gps_err_enable := 0\<rparr>) demo_env (nmea_block demo_rs demo_gs @ [])
      (int (length (nmea_block demo_rs demo_gs))) gps_state_init = Some s' \<and>
    fix_of ((gps default_config)\<lparr>gps_err_enable := 0\<rparr>) (2017, 9, 13) (8, 18, 36) 37.5 127.5 92 g \<and>
    cur_gps_data s' = g \<and> prev_gps_data s' = g \<and> flag_gps_fixed s'"
proof -
  let ?conf = "(gps default_config)\<lparr>gps_err_enable := 0\<rparr>"
  note eval = demo_rs_def demo_gs_def nmea_block_def str_def gps_parse_time_def gps_parse_valid_def
      gps_parse_date_def gps_parse_latitude_def gps_parse_longitude_def gps_parse_indicator_south_def
      gps_parse_indicator_west_def gps_parse_speed_def dig_def atof_def decimal_def digits_val_def read_sign_def
      exponent_def isdigit_def demo_numbers demo_speed Let_def
  have fields: "gps_parse_valid (fst (demo_rs ! 1)) = Some True" "gps_parse_time (fst (demo_rs ! 0)) = Some (8, 18, 36)"
    "gps_parse_date (fst (demo_rs ! 8)) = Some (2017, 9, 13)" "gps_parse_latitude (fst (demo_rs ! 2)) = Some 37.5"
    "gps_parse_longitude (fst (demo_rs ! 4)) = Some 127.5" "gps_parse_indicator_south (fst (demo_rs ! 3)) = Some False"
    "gps_parse_indicator_west (fst (demo_rs ! 5)) = Some False" "gps_parse_speed (fst (demo_rs ! 6)) = Some 92"
    "length (nmea_block demo_rs demo_gs) \<le> 2048"
    by (simp_all add: eval del: One_nat_def)
  have init: "g_skip_gps_when_error gps_state_init = 0" "emul_gps_lat gps_state_init = 0"
    "emul_gps_lon gps_state_init = 0" "emul_gps_speed gps_state_init = 0" by (simp_all add: gps_state_init_def)
  from gps_fix_committed [OF demo_good(1,3,2,4,5) fields(9) fields(1-8) _ init, of to_float ?conf demo_env "[]"]
  show ?thesis
    using check_gps_data_known(1) [of ?conf] by auto
qed














end
