(* ===== verification/Nettool.thy ===== *)
theory Nettool
  imports Validation
begin

text \<open>
  \<open>util/nettool.c\<close>: the table of host names that have been resolved, the look-up of a host, and the
  waits for a connection and for data. The resolver of the C library (\<open>gethostbyname_r\<close>) is a
  sequence of answers, one per attempt. The lock of the table is waited for two seconds and the table
  is used in any case, so each function is one step; another thread between the look-up and the adding of a
  name is not modelled. Names have less than the 256 bytes of the table, to which they are copied without
  a bound. Addresses are 32-bit words in network byte
  order on a little-endian machine, as the code compares them; names are C strings.
\<close>

datatype dns_answer = No_host | No_address | Address u32

record dns =
  g_hbn :: "(byte list \<times> u32) list"

definition HBN_MAX :: nat where "HBN_MAX = 10"
definition LOOPBACK :: u32 where "LOOPBACK = 16777343"
definition INADDR_NONE :: u32 where "INADDR_NONE = 0xFFFFFFFF"

text \<open>
  \<open>inet_addr\<close> of the C library on dotted quadruples: a number with a leading zero is octal, text
  behind white space is ignored. The forms with fewer dots do not reach it.
\<close>

definition base_val :: "nat \<Rightarrow> byte list \<Rightarrow> nat" where
  "base_val b ds = foldl (\<lambda>v d. b * v + (unat d - 48)) 0 ds"

definition inet_number :: "byte list \<Rightarrow> nat option" where
  "inet_number g =
     (if g = [] \<or> \<not> list_all isdigit g then None
      else if hd g = 48 then
        (if list_all (\<lambda>d. d < 56) g \<and> base_val 8 g \<le> 255 then Some (base_val 8 g) else None)
      else if base_val 10 g \<le> 255 then Some (base_val 10 g) else None)"

definition inet_addr :: "byte list \<Rightarrow> u32" where
  "inet_addr t =
     (case map inet_number (groups (takeWhile (\<lambda>c. c \<notin> {32, 9, 10, 11, 12, 13}) t)) of
        [Some a, Some b, Some c, Some d] \<Rightarrow> of_nat (a + 256 * b + 65536 * c + 16777216 * d)
      | _ \<Rightarrow> INADDR_NONE)"

subsection \<open>The table of host names\<close>

definition dns_init :: dns where "dns_init = \<lparr>g_hbn = []\<rparr>"

text \<open>The last entry with the name counts; 0 when there is none.\<close>

definition gethostbyname_local :: "byte list \<Rightarrow> dns \<Rightarrow> u32" where
  "gethostbyname_local host_name s =
     foldl (\<lambda>result (h, a). if h = host_name then a else result) 0 (g_hbn s)"

definition sethostbyname_local :: "byte list \<Rightarrow> u32 \<Rightarrow> dns \<Rightarrow> dns" where
  "sethostbyname_local host_name saddr s =
     (if length (g_hbn s) > 9 then s
      else if gethostbyname_local host_name s = 0 then s\<lparr>g_hbn := g_hbn s @ [(host_name, saddr)]\<rparr>
      else s)"

definition nettool_init_hostbyname_func :: "dns \<Rightarrow> dns" where
  "nettool_init_hostbyname_func s = s\<lparr>g_hbn := []\<rparr>"

text \<open>The attempts to resolve a name; the loopback address is an answer to be asked again.\<close>

fun resolve_loop :: "nat \<Rightarrow> (nat \<Rightarrow> dns_answer) \<Rightarrow> nat \<Rightarrow> u32 option" where
  "resolve_loop 0 answers i = None"
| "resolve_loop (Suc n_try) answers i =
     (case answers i of
        No_host \<Rightarrow> None
      | No_address \<Rightarrow> None
      | Address a \<Rightarrow> if a = LOOPBACK then resolve_loop n_try answers (Suc i) else Some a)"

definition nettool_get_host_name :: "(nat \<Rightarrow> dns_answer) \<Rightarrow> byte list option \<Rightarrow> dns \<Rightarrow> u32 \<times> dns" where
  "nettool_get_host_name answers pname s =
     (case pname of
        None \<Rightarrow> (0, s)
      | Some host_name \<Rightarrow>
          if validation_check_ip (host_name @ [0]) = Some DEFINES_MDS_OK then (inet_addr host_name, s)
          else if g_hbn s \<noteq> [] \<and> gethostbyname_local host_name s > 0
          then (gethostbyname_local host_name s, s)
          else
            (case resolve_loop 3 answers 0 of
               None \<Rightarrow> (0, s)
             | Some a \<Rightarrow> (a, sethostbyname_local host_name a s)))"

subsection \<open>Waiting for a connection and for data\<close>

text \<open>What the calls of \<open>nettool_connect_timeo\<close> report, in their order.\<close>

datatype connect_call = Connected | In_progress | Refused
datatype select_call = Sel_timed_out | Sel_ready | Sel_not_set

record connect_env =
  getfl_ok :: bool
  setfl_ok :: bool
  connected :: connect_call
  waited :: select_call
  getsockopt_ok :: bool
  so_error :: int

text \<open>The second component: whether the flags of the socket are those from before the call.\<close>

definition nettool_connect_timeo :: "connect_env \<Rightarrow> int \<times> bool" where
  "nettool_connect_timeo e =
     (if \<not> getfl_ok e then (-1, True)
      else if \<not> setfl_ok e then (-1, True)
      else
        (case connected e of
           Refused \<Rightarrow> (-1, True)
         | Connected \<Rightarrow> (1, True)
         | In_progress \<Rightarrow>
             (case waited e of
                Sel_timed_out \<Rightarrow> (-1, True)
              | Sel_not_set \<Rightarrow> (-1, True)
              | Sel_ready \<Rightarrow>
                  if \<not> getsockopt_ok e then (-1, True)
                  else if so_error e \<noteq> 0 then (-1, True) else (1, True))))"

subsection \<open>Lemmas\<close>

lemma local_append:
  "gethostbyname_local h \<lparr>g_hbn = es @ [(k, a)]\<rparr> = (if k = h then a else gethostbyname_local h \<lparr>g_hbn = es\<rparr>)"
  by (simp add: gethostbyname_local_def)

lemma local_absent: "h \<notin> fst ` set es \<Longrightarrow> gethostbyname_local h \<lparr>g_hbn = es\<rparr> = 0"
proof (induction es rule: rev_induct)
  case Nil
  then show ?case by (simp add: gethostbyname_local_def)
next
  case (snoc e es)
  obtain k a where "e = (k, a)" by fastforce
  with snoc show ?case by (auto simp: local_append)
qed

lemma local_mem:
  "gethostbyname_local h \<lparr>g_hbn = es\<rparr> \<noteq> 0 \<Longrightarrow> (h, gethostbyname_local h \<lparr>g_hbn = es\<rparr>) \<in> set es"
proof (induction es rule: rev_induct)
  case Nil
  then show ?case by (simp add: gethostbyname_local_def)
next
  case (snoc e es)
  obtain k a where "e = (k, a)" by fastforce
  with snoc show ?case by (auto simp: local_append split: if_splits)
qed

lemma local_present:
  "distinct (map fst es) \<Longrightarrow> (h, a) \<in> set es \<Longrightarrow> gethostbyname_local h \<lparr>g_hbn = es\<rparr> = a"
proof (induction es rule: rev_induct)
  case (snoc e es)
  obtain k b where e: "e = (k, b)" by fastforce
  show ?case
  proof (cases "k = h")
    case True
    then have "(h, a) \<notin> set es" using snoc.prems(1) by (force simp: e)
    with snoc.prems(2) True show ?thesis by (simp add: e local_append)
  next
    case False
    with snoc show ?thesis by (simp add: e local_append)
  qed
qed simp

lemma local_mem_state:
  "gethostbyname_local h s \<noteq> 0 \<Longrightarrow> (h, gethostbyname_local h s) \<in> set (g_hbn s)"
  using local_mem [of h "g_hbn s"] by (cases s) simp

lemma local_present_state:
  "distinct (map fst (g_hbn s)) \<Longrightarrow> (h, a) \<in> set (g_hbn s) \<Longrightarrow> gethostbyname_local h s = a"
  using local_present [of "g_hbn s" h a] by (cases s) simp

lemma resolve_loop_answer:
  "resolve_loop n answers i = Some a \<Longrightarrow> \<exists>j. answers j = Address a \<and> a \<noteq> LOOPBACK"
  by (induction n answers i rule: resolve_loop.induct) (auto split: dns_answer.splits if_splits)

text \<open>The table holds at most ten names, each once, with the addresses the resolver gave.\<close>

definition dns_wf :: "(byte list \<Rightarrow> u32) \<Rightarrow> dns \<Rightarrow> bool" where
  "dns_wf db s \<longleftrightarrow> length (g_hbn s) \<le> HBN_MAX \<and> distinct (map fst (g_hbn s)) \<and>
     (\<forall>(h, a) \<in> set (g_hbn s). a = db h \<and> a \<noteq> 0)"

text \<open>The resolver answers, if at all, with the address of the name.\<close>

definition answers_from :: "(byte list \<Rightarrow> u32) \<Rightarrow> byte list \<Rightarrow> (nat \<Rightarrow> dns_answer) \<Rightarrow> bool" where
  "answers_from db h answers \<longleftrightarrow>
     (\<forall>i. answers i = Address (db h) \<or> answers i = No_host \<or> answers i = No_address \<or>
          answers i = Address LOOPBACK)"

lemma dns_init_wf: "dns_wf db dns_init"
  by (simp add: dns_wf_def dns_init_def)

lemma set_wf:
  assumes "dns_wf db s" and "db h \<noteq> 0"
  shows "dns_wf db (sethostbyname_local h (db h) s)"
proof (cases "length (g_hbn s) > 9 \<or> gethostbyname_local h s \<noteq> 0")
  case True
  with assms(1) show ?thesis by (auto simp: sethostbyname_local_def)
next
  case False
  have "h \<notin> fst ` set (g_hbn s)"
  proof
    assume "h \<in> fst ` set (g_hbn s)"
    then obtain a where a: "(h, a) \<in> set (g_hbn s)" by force
    then have "a \<noteq> 0" and "distinct (map fst (g_hbn s))" using assms(1) by (auto simp: dns_wf_def)
    then show False using local_present_state [OF _ a] False by simp
  qed
  with False assms show ?thesis by (auto simp: sethostbyname_local_def dns_wf_def HBN_MAX_def)
qed

lemma get_host_name_wf:
  assumes "dns_wf db s" and "answers_from db h answers" and "db h \<noteq> 0"
    and "validation_check_ip (h @ [0]) \<noteq> Some DEFINES_MDS_OK"
  shows "dns_wf db (snd (nettool_get_host_name answers (Some h) s)) \<and>
    fst (nettool_get_host_name answers (Some h) s) \<in> {0, db h}"
proof (cases "g_hbn s \<noteq> [] \<and> gethostbyname_local h s > 0")
  case True
  then have "(h, gethostbyname_local h s) \<in> set (g_hbn s)"
    by (intro local_mem_state) (simp add: word_gt_0)
  then have "gethostbyname_local h s = db h" using assms(1) by (auto simp: dns_wf_def)
  then show ?thesis using True assms(1,4) by (simp add: nettool_get_host_name_def)
next
  case False
  show ?thesis
  proof (cases "resolve_loop 3 answers 0")
    case None
    then show ?thesis using False assms(1,4) by (auto simp: nettool_get_host_name_def)
  next
    case (Some a)
    then have "a = db h"
      using resolve_loop_answer [OF Some] assms(2) unfolding answers_from_def
      by (metis dns_answer.distinct(3,5) dns_answer.inject)
    then show ?thesis
      using False Some assms(4) set_wf [OF assms(1,3)] by (auto simp: nettool_get_host_name_def)
  qed
qed

text \<open>
  What the program does with the table: it asks for names, each with its own run of answers, and it
  clears the table when the network is connected again.
\<close>

datatype dns_op = Query "byte list" "nat \<Rightarrow> dns_answer" | Clear

fun dns_step :: "dns_op \<Rightarrow> dns \<Rightarrow> dns" where
  "dns_step (Query h answers) s = snd (nettool_get_host_name answers (Some h) s)"
| "dns_step Clear s = nettool_init_hostbyname_func s"

fun dns_op_ok :: "(byte list \<Rightarrow> u32) \<Rightarrow> dns_op \<Rightarrow> bool" where
  "dns_op_ok db (Query h answers) \<longleftrightarrow> answers_from db h answers \<and> db h \<noteq> 0"
| "dns_op_ok db Clear \<longleftrightarrow> True"

lemma dns_step_wf: "dns_wf db s \<Longrightarrow> dns_op_ok db op \<Longrightarrow> dns_wf db (dns_step op s)"
proof (cases op)
  case (Query h answers)
  assume "dns_wf db s" and "dns_op_ok db op"
  then show ?thesis
    using get_host_name_wf [of db s h answers]
    by (cases "validation_check_ip (h @ [0]) = Some DEFINES_MDS_OK")
       (auto simp: Query nettool_get_host_name_def)
qed (simp add: nettool_init_hostbyname_func_def dns_wf_def)

lemma dns_run_wf:
  "dns_wf db s \<Longrightarrow> list_all (dns_op_ok db) ops \<Longrightarrow> dns_wf db (fold dns_step ops s)"
  by (induction ops arbitrary: s) (simp_all add: dns_step_wf)

text \<open>
  C39: after any sequence of queries and clearings the table of host names has at most ten entries,
  no name twice, and only addresses the resolver gave for their names; and the next query for a
  name that is not a dotted quadruple is answered with 0 (not resolved) or with that name's own
  address, whether the answer comes from the table or from the resolver.
\<close>

theorem dns_cache_coherent:
  assumes "list_all (dns_op_ok db) ops" and "answers_from db h answers" and "db h \<noteq> 0"
    and "validation_check_ip (h @ [0]) \<noteq> Some DEFINES_MDS_OK"
  shows "dns_wf db (fold dns_step ops dns_init) \<and>
    fst (nettool_get_host_name answers (Some h) (fold dns_step ops dns_init)) \<in> {0, db h}"
  using dns_run_wf [OF dns_init_wf assms(1)] get_host_name_wf [OF _ assms(2-4)] by blast

definition db_example :: "byte list \<Rightarrow> u32" where
  "db_example h = (if h = [97, 98] then 5 else 9)"

lemma dns_cache_coherent_witness:
  "dns_wf db_example (fold dns_step [Query [97, 98] (\<lambda>_. Address 5), Clear, Query [97] (\<lambda>_. Address 9)] dns_init) \<and>
   fst (nettool_get_host_name (\<lambda>_. No_host) (Some [97]) (fold dns_step
     [Query [97, 98] (\<lambda>_. Address 5), Clear, Query [97] (\<lambda>_. Address 9)] dns_init)) \<in> {0, db_example [97]}"
  by (rule dns_cache_coherent) (simp_all add: db_example_def answers_from_def, code_simp)

text \<open>
  A name whose text the check of addresses accepts is not looked up: it is parsed as an address, and
  where the parser rejects it the broadcast address is the result.
\<close>

lemma accepted_text_is_not_resolved:
  "validation_check_ip (h @ [0]) = Some DEFINES_MDS_OK \<Longrightarrow>
   nettool_get_host_name answers (Some h) s = (inet_addr h, s)"
  by (simp add: nettool_get_host_name_def)

end
