(* ===== verification/NetTransfer.thy ===== *)
theory NetTransfer
  imports Nettool
begin

text \<open>
  \<open>util/transfer.c\<close>: one exchange with a server. A packet is sent over a new connection
  (\<open>transfer_packet\<close>), sent and answered by a block of known length
  (\<open>transfer_packet_recv\<close>), or answered by text up to an end mark
  (\<open>transfer_packet_recv_etx\<close>). The network is a record of what each call of the socket
  interface reports, by the number of the call; every exchange returns, with its status, how often
  it called, the bytes that reached the peer, and whether its socket is still open.
\<close>

record transferSetting =
  retry_count_connect :: int
  retry_count_send :: int
  retry_count_receive :: int
  timeout_secs :: int
  ts_ip :: "byte list"
  ts_port :: u16

text \<open>
  \<open>send_result i\<close> is what the \<open>i\<close>-th \<open>nettool_send_timedwait\<close> returns,
  \<open>recv_result i\<close> the bytes of the \<open>i\<close>-th \<open>nettool_recv_timedwait\<close>, empty when it
  reports 0 or a failure.
\<close>

record net_env =
  sock_fd :: int
  host_answers :: "nat \<Rightarrow> dns_answer"
  connect_result :: "nat \<Rightarrow> connect_env"
  send_result :: "nat \<Rightarrow> int"
  recv_result :: "nat \<Rightarrow> byte list"
  errno_end :: int

record exchange =
  x_err :: int
  x_connects :: nat
  x_sends :: nat
  x_recvs :: nat
  x_wire :: "byte list"
  x_rbuff :: "byte list"
  x_open :: bool
  x_dns :: dns

subsection \<open>The three loops\<close>

text \<open>
  The result of the loop of connections: the number of calls, the retry counter, and whether the
  connection stands. The counter is not reset before the packet is sent.
\<close>

function connect_loop :: "transferSetting \<Rightarrow> net_env \<Rightarrow> nat \<Rightarrow> int \<Rightarrow> nat \<times> int \<times> bool" where
  "connect_loop setting e i retry_cnt =
     (if fst (nettool_connect_timeo (connect_result e i)) < 0 then
        if retry_cnt > retry_count_connect setting then (Suc i, retry_cnt + 1, False)
        else connect_loop setting e (Suc i) (retry_cnt + 1)
      else (Suc i, retry_cnt, True))"
  by pat_completeness auto
termination
  by (relation "measure (\<lambda>(setting, e, i, r). nat (retry_count_connect setting + 1 - r))") auto

declare connect_loop.simps [simp del]

text \<open>
  \<open>SEND_AGAIN_DATA\<close>: the status, the number of calls and the bytes sent. A call that took only a
  part of the packet is followed by one with the whole packet.
\<close>

function send_loop :: "transferSetting \<Rightarrow> net_env \<Rightarrow> byte list \<Rightarrow> nat \<Rightarrow> int \<Rightarrow> byte list \<Rightarrow>
    int \<times> nat \<times> byte list" where
  "send_loop setting e buff i retry_cnt wire =
     (let bytecount = send_result e i in
      if bytecount \<le> 0 then
        if retry_cnt + 1 \<ge> retry_count_send setting then (-2, Suc i, wire)
        else send_loop setting e buff (Suc i) (retry_cnt + 1) wire
      else if bytecount \<noteq> int (length buff) then
        if retry_cnt + 1 \<ge> retry_count_send setting then (-3, Suc i, wire @ take (nat bytecount) buff)
        else send_loop setting e buff (Suc i) (retry_cnt + 1) (wire @ take (nat bytecount) buff)
      else (0, Suc i, wire @ buff))"
  by pat_completeness auto
termination
  by (relation "measure (\<lambda>(setting, e, buff, i, r, w). nat (retry_count_send setting - r))") auto

declare send_loop.simps [simp del]

text \<open>
  The loop that fills the answer of \<open>rbuff_len\<close> bytes; \<open>None\<close> when \<open>memcpy\<close> would be
  called with a negative length.
\<close>

function recv_loop :: "transferSetting \<Rightarrow> net_env \<Rightarrow> int \<Rightarrow> nat \<Rightarrow> int \<Rightarrow> byte list \<Rightarrow>
    (int \<times> nat \<times> byte list) option" where
  "recv_loop setting e rbuff_len i retry_cnt rbuff =
     (let got = recv_result e i; total = int (length rbuff) in
      if got \<noteq> [] then
        let bytecount = (if total + int (length got) > rbuff_len then rbuff_len - total
                         else int (length got)) in
        if bytecount < 0 then None
        else if total + bytecount = rbuff_len then Some (0, Suc i, rbuff @ take (nat bytecount) got)
        else recv_loop setting e rbuff_len (Suc i) retry_cnt (rbuff @ take (nat bytecount) got)
      else if retry_cnt > retry_count_receive setting then Some (-4, Suc i, rbuff)
      else recv_loop setting e rbuff_len (Suc i) (retry_cnt + 1) rbuff)"
  by pat_completeness auto
termination
  by (relation "measure (\<lambda>(setting, e, l, i, r, b).
        nat (l - int (length b)) + nat (retry_count_receive setting + 1 - r))")
     (auto simp: Let_def split: if_splits)

declare recv_loop.simps [simp del]

text \<open>
  \<open>strchr\<close> on the 128 bytes of \<open>recv_buf\<close>, cleared before each read: \<open>None\<close> when neither the
  byte nor a NUL is among them and the search leaves the buffer.
\<close>

definition RECV_BUF :: nat where "RECV_BUF = 128"

definition strchr_recv :: "byte list \<Rightarrow> byte \<Rightarrow> bool option" where
  "strchr_recv got c =
     (let buf = got @ replicate (RECV_BUF - length got) 0;
          s = takeWhile (\<lambda>x. x \<noteq> 0) buf in
      if c \<in> set s then Some True
      else if length s = length buf then None
      else Some (c = 0))"

datatype etx_result = Over_read | Etx_done int nat "byte list"

text \<open>
  The loop that reads to the end mark. It has no bound of its own once the buffer is full, so it is
  a partial function: \<open>None\<close> is the loop that does not end.
\<close>

partial_function (option) etx_loop :: "transferSetting \<Rightarrow> net_env \<Rightarrow> int \<Rightarrow> byte \<Rightarrow> nat \<Rightarrow> int \<Rightarrow> byte list \<Rightarrow>
    etx_result option" where
  "etx_loop setting e rbuff_len etx i retry_cnt rbuff =
     (let got = recv_result e i; total = int (length rbuff) in
      if got \<noteq> [] then
        let bytecount = (if total + int (length got) > rbuff_len then rbuff_len - total
                         else int (length got)) in
        if bytecount < 0 then Some Over_read
        else
          (let found = strchr_recv got etx in
           if found = None then Some Over_read
           else if found = Some True
           then Some (Etx_done 0 (Suc i) (rbuff @ take (nat bytecount) got))
           else etx_loop setting e rbuff_len etx (Suc i) retry_cnt (rbuff @ take (nat bytecount) got))
      else if retry_cnt > retry_count_receive setting then Some (Etx_done (-4) (Suc i) rbuff)
      else etx_loop setting e rbuff_len etx (Suc i) (retry_cnt + 1) rbuff)"

subsection \<open>The exchanges\<close>

text \<open>The socket is closed at the end, unless its number is 0 or \<open>errno\<close> is left at \<open>ENOTSOCK\<close>.\<close>

definition ENOTSOCK :: int where "ENOTSOCK = 88"

definition sock_left_open :: "net_env \<Rightarrow> bool" where
  "sock_left_open e \<longleftrightarrow> sock_fd e \<noteq> -1 \<and> \<not> (sock_fd e \<noteq> 0 \<and> errno_end e \<noteq> ENOTSOCK)"

definition exchange_failed :: "int \<Rightarrow> net_env \<Rightarrow> dns \<Rightarrow> exchange" where
  "exchange_failed err e s =
     \<lparr>x_err = err, x_connects = 0, x_sends = 0, x_recvs = 0, x_wire = [], x_rbuff = [],
      x_open = sock_left_open e, x_dns = s\<rparr>"

text \<open>
  The part the three exchanges share: the socket, the host, the connection and the packet. The
  flag tells whether the exchange goes on.
\<close>

definition connect_and_send :: "transferSetting \<Rightarrow> net_env \<Rightarrow> byte list \<Rightarrow> dns \<Rightarrow> exchange" where
  "connect_and_send setting e buff s =
     (if sock_fd e = -1 then exchange_failed (-1) e s
      else
        (let (s_addr, s) = nettool_get_host_name (host_answers e) (Some (ts_ip setting)) s in
         if s_addr = 0 then exchange_failed (-3) e s
         else
           (let (n, retry_cnt, up) = connect_loop setting e 0 0 in
            if \<not> up then (exchange_failed (-11) e s)\<lparr>x_connects := n\<rparr>
            else
              (let (err, m, wire) = send_loop setting e buff 0 retry_cnt [] in
               (exchange_failed err e s)\<lparr>x_connects := n, x_sends := m, x_wire := wire\<rparr>))))"

definition transfer_packet :: "transferSetting \<Rightarrow> net_env \<Rightarrow> byte list \<Rightarrow> dns \<Rightarrow> exchange" where
  "transfer_packet setting e buff s = connect_and_send setting e buff s"

definition transfer_packet_recv ::
    "transferSetting \<Rightarrow> net_env \<Rightarrow> byte list \<Rightarrow> int \<Rightarrow> dns \<Rightarrow> exchange option" where
  "transfer_packet_recv setting e tbuff rbuff_len s =
     (let x = connect_and_send setting e tbuff s in
      if x_err x \<noteq> 0 then Some x
      else
        (case recv_loop setting e rbuff_len 0 0 [] of
           None \<Rightarrow> None
         | Some (err, n, rbuff) \<Rightarrow> Some (x\<lparr>x_err := err, x_recvs := n, x_rbuff := rbuff\<rparr>)))"

text \<open>\<open>None\<close> when it does not return, \<open>Some None\<close> when it leaves its buffer.\<close>

definition transfer_packet_recv_etx ::
    "transferSetting \<Rightarrow> net_env \<Rightarrow> byte list \<Rightarrow> int \<Rightarrow> byte \<Rightarrow> dns \<Rightarrow> exchange option option" where
  "transfer_packet_recv_etx setting e tbuff rbuff_len etx s =
     (let x = connect_and_send setting e tbuff s in
      if x_err x \<noteq> 0 then Some (Some x)
      else
        (case etx_loop setting e rbuff_len etx 0 0 [] of
           None \<Rightarrow> None
         | Some Over_read \<Rightarrow> Some None
         | Some (Etx_done err n rbuff) \<Rightarrow>
             Some (Some (x\<lparr>x_err := err, x_recvs := n, x_rbuff := rbuff\<rparr>))))"

subsection \<open>The loop of connections\<close>

lemma connect_loop_bounds:
  "connect_loop setting e i r = (n, r', up) \<Longrightarrow>
   i < n \<and> n \<le> i + nat (retry_count_connect setting + 1 - r) + 1 \<and> r \<le> r' \<and>
   (up \<longleftrightarrow> fst (nettool_connect_timeo (connect_result e (n - 1))) \<ge> 0)"
proof (induction setting e i r rule: connect_loop.induct)
  case (1 setting e i r)
  show ?case
  proof (cases "fst (nettool_connect_timeo (connect_result e i)) < 0 \<and> r \<le> retry_count_connect setting")
    case True
    then have "connect_loop setting e (Suc i) (r + 1) = (n, r', up)"
      using "1.prems" by (subst (asm) connect_loop.simps) simp
    with "1.IH" True show ?thesis by auto
  next
    case False
    with "1.prems" show ?thesis by (subst (asm) connect_loop.simps) (auto split: if_splits)
  qed
qed

subsection \<open>The loop of sends\<close>

lemma send_loop_bounds:
  "send_loop setting e buff i r w = (err, n, w') \<Longrightarrow>
   i < n \<and> n \<le> i + nat (max 1 (retry_count_send setting - r)) \<and> err \<in> {0, -2, -3}"
proof (induction setting e buff i r w rule: send_loop.induct)
  case (1 setting e buff i r w)
  let ?b = "send_result e i"
  consider (more) "?b \<le> 0" "r + 1 < retry_count_send setting"
    | (part) "?b > 0" "?b \<noteq> int (length buff)" "r + 1 < retry_count_send setting"
    | (stop) "?b \<le> 0 \<and> r + 1 \<ge> retry_count_send setting \<or>
        ?b > 0 \<and> (?b = int (length buff) \<or> r + 1 \<ge> retry_count_send setting)"
    by linarith
  then show ?case
  proof cases
    case more
    then have "send_loop setting e buff (Suc i) (r + 1) w = (err, n, w')"
      using "1.prems" by (subst (asm) send_loop.simps) simp
    with "1.IH"(1) more show ?thesis by auto
  next
    case part
    then have "send_loop setting e buff (Suc i) (r + 1) (w @ take (nat ?b) buff) = (err, n, w')"
      using "1.prems" by (subst (asm) send_loop.simps) (simp add: Let_def)
    with "1.IH"(2) part show ?thesis by auto
  next
    case stop
    with "1.prems" show ?thesis
      by (subst (asm) send_loop.simps) (auto simp: Let_def split: if_splits)
  qed
qed

text \<open>What a successful loop put on the wire: prefixes of the packet, then the packet.\<close>

lemma send_loop_wire:
  "send_loop setting e buff i r w = (0, n, w') \<Longrightarrow>
   send_result e (n - 1) = int (length buff) \<and>
   w' = w @ concat (map (\<lambda>j. take (nat (send_result e j)) buff) [i..<n])"
proof (induction setting e buff i r w rule: send_loop.induct)
  case (1 setting e buff i r w)
  let ?b = "send_result e i"
  consider (more) "?b \<le> 0" "r + 1 < retry_count_send setting"
    | (part) "?b > 0" "?b \<noteq> int (length buff)" "r + 1 < retry_count_send setting"
    | (stop) "?b \<le> 0 \<and> r + 1 \<ge> retry_count_send setting \<or>
        ?b > 0 \<and> (?b = int (length buff) \<or> r + 1 \<ge> retry_count_send setting)"
    by linarith
  then show ?case
  proof cases
    case more
    then have *: "send_loop setting e buff (Suc i) (r + 1) w = (0, n, w')"
      using "1.prems" by (subst (asm) send_loop.simps) simp
    then have "i < n" using send_loop_bounds [OF *] by simp
    with "1.IH"(1) more * show ?thesis by (simp add: upt_conv_Cons)
  next
    case part
    then have *: "send_loop setting e buff (Suc i) (r + 1) (w @ take (nat ?b) buff) = (0, n, w')"
      using "1.prems" by (subst (asm) send_loop.simps) (simp add: Let_def)
    then have "i < n" using send_loop_bounds [OF *] by simp
    with "1.IH"(2) part * show ?thesis by (simp add: upt_conv_Cons)
  next
    case stop
    with "1.prems" show ?thesis
      by (subst (asm) send_loop.simps) (auto simp: Let_def split: if_splits)
  qed
qed

subsection \<open>The loop of the answer\<close>

lemma recv_loop_step:
  "recv_loop setting e l i r b =
     (let got = recv_result e i;
          n = min (int (length got)) (l - int (length b)) in
      if got = [] then
        (if r > retry_count_receive setting then Some (-4, Suc i, b)
         else recv_loop setting e l (Suc i) (r + 1) b)
      else if n < 0 then None
      else if int (length b) + n = l then Some (0, Suc i, b @ take (nat n) got)
      else recv_loop setting e l (Suc i) r (b @ take (nat n) got))"
  by (subst recv_loop.simps) (auto simp: Let_def min_def)

text \<open>
  With room left the loop stays inside the buffer, keeps exactly what the server sent so far, ends
  with the buffer full or with the failures used up, and makes a bounded number of calls.
\<close>

definition recv_post :: "transferSetting \<Rightarrow> net_env \<Rightarrow> int \<Rightarrow> nat \<Rightarrow> int \<Rightarrow> byte list \<Rightarrow> bool" where
  "recv_post setting e l i r b \<longleftrightarrow>
     (\<exists>err n b'. recv_loop setting e l i r b = Some (err, n, b') \<and> i < n \<and>
        b' = take (nat l) (b @ concat (map (recv_result e) [i..<n])) \<and>
        (err = 0 \<and> int (length b') = l \<or> err = -4) \<and>
        n \<le> i + 1 + nat (l - int (length b)) + nat (retry_count_receive setting + 1 - r))"

lemma recv_postI:
  assumes "recv_loop setting e l i r b = Some (err, n, b')" and "i < n"
    and "b' = take (nat l) (b @ concat (map (recv_result e) [i..<n]))"
    and "err = 0 \<and> int (length b') = l \<or> err = -4"
    and "n \<le> i + 1 + nat (l - int (length b)) + nat (retry_count_receive setting + 1 - r)"
  shows "recv_post setting e l i r b"
  using assms unfolding recv_post_def by blast

lemma recv_loop_result:
  assumes "int (length b) \<le> l" and "l \<ge> 0"
  shows "recv_post setting e l i r b"
  using assms
proof (induction setting e l i r b rule: recv_loop.induct)
  case (1 setting e l i r b)
  let ?g = "recv_result e i"
  let ?n = "min (int (length ?g)) (l - int (length b))"
  consider (fail) "?g = []" "r > retry_count_receive setting"
    | (again) "?g = []" "r \<le> retry_count_receive setting"
    | (full) "?g \<noteq> []" "int (length b) + ?n = l"
    | (more) "?g \<noteq> []" "int (length b) + ?n < l"
    by linarith
  then show ?case
  proof cases
    case fail
    then have "recv_loop setting e l i r b = Some (-4, Suc i, b)"
      by (subst recv_loop_step) (simp add: Let_def)
    then show ?thesis by (rule recv_postI) (use fail "1.prems" in simp_all)
  next
    case again
    have "recv_post setting e l (Suc i) (r + 1) b"
      by (rule "1.IH"(2)) (use again "1.prems" in auto)
    then obtain err n b' where
      *: "recv_loop setting e l (Suc i) (r + 1) b = Some (err, n, b')" "Suc i < n"
      "b' = take (nat l) (b @ concat (map (recv_result e) [Suc i..<n]))"
      "err = 0 \<and> int (length b') = l \<or> err = -4"
      "n \<le> Suc i + 1 + nat (l - int (length b)) + nat (retry_count_receive setting + 1 - (r + 1))"
      unfolding recv_post_def by blast
    have "recv_loop setting e l i r b = Some (err, n, b')"
      using again *(1) by (subst recv_loop_step) (simp add: Let_def)
    then show ?thesis
    proof (rule recv_postI)
      show "b' = take (nat l) (b @ concat (map (recv_result e) [i..<n]))"
        using *(2,3) again by (simp add: upt_conv_Cons)
      show "n \<le> i + 1 + nat (l - int (length b)) + nat (retry_count_receive setting + 1 - r)"
        using *(5) again by linarith
    qed (use *(2,4) in auto)
  next
    case full
    then have m: "length b \<le> nat l" "nat l - length b \<le> length ?g" "nat ?n = nat l - length b"
      using "1.prems" by linarith+
    have "recv_loop setting e l i r b = Some (0, Suc i, b @ take (nat ?n) ?g)"
      using full "1.prems" by (subst recv_loop_step) (auto simp: Let_def)
    then show ?thesis
    proof (rule recv_postI)
      show "b @ take (nat ?n) ?g = take (nat l) (b @ concat (map (recv_result e) [i..<Suc i]))"
        unfolding m(3) using m by simp
      show "0 = (0::int) \<and> int (length (b @ take (nat ?n) ?g)) = l \<or> 0 = (-4::int)"
        unfolding m(3) using m "1.prems" by simp
    qed simp_all
  next
    case more
    then have g: "?n = int (length ?g)" by linarith
    have g0: "int (length ?g) > 0" using more(1) by simp
    have l: "int (length (b @ ?g)) < l" using more(2) unfolding g by simp
    have "recv_post setting e l (Suc i) r (b @ take (nat ?n) ?g)"
      by (rule "1.IH"(1) [OF refl refl]) (use more g l "1.prems" in \<open>auto split: if_splits\<close>)
    then obtain err n b' where
      *: "recv_loop setting e l (Suc i) r (b @ ?g) = Some (err, n, b')" "Suc i < n"
      "b' = take (nat l) ((b @ ?g) @ concat (map (recv_result e) [Suc i..<n]))"
      "err = 0 \<and> int (length b') = l \<or> err = -4"
      "n \<le> Suc i + 1 + nat (l - int (length (b @ ?g))) + nat (retry_count_receive setting + 1 - r)"
      unfolding recv_post_def g by auto
    have "recv_loop setting e l i r b = Some (err, n, b')"
      using more(1) l *(1) g0 by (subst recv_loop_step, unfold Let_def g) simp
    then show ?thesis
    proof (rule recv_postI)
      show "b' = take (nat l) (b @ concat (map (recv_result e) [i..<n]))"
        using *(2,3) by (simp add: upt_conv_Cons)
      show "n \<le> i + 1 + nat (l - int (length b)) + nat (retry_count_receive setting + 1 - r)"
        using *(5) l g0 unfolding length_append of_nat_add by linarith
    qed (use *(2,4) in auto)
  qed
qed

subsection \<open>The whole exchange\<close>

definition host_addr :: "transferSetting \<Rightarrow> net_env \<Rightarrow> dns \<Rightarrow> u32" where
  "host_addr setting e s = fst (nettool_get_host_name (host_answers e) (Some (ts_ip setting)) s)"

text \<open>The four ways through the shared part.\<close>

lemma connect_and_send_cases:
  obtains (no_socket) "sock_fd e = -1" "connect_and_send setting e buff s = exchange_failed (-1) e s"
  | (no_host) s' where "sock_fd e \<noteq> -1" "host_addr setting e s = 0"
      "connect_and_send setting e buff s = exchange_failed (-3) e s'"
  | (no_connection) s' n r where "connect_loop setting e 0 0 = (n, r, False)"
      "connect_and_send setting e buff s = (exchange_failed (-11) e s')\<lparr>x_connects := n\<rparr>"
  | (up) s' n r err m wire where "sock_fd e \<noteq> -1" "host_addr setting e s \<noteq> 0"
      "connect_loop setting e 0 0 = (n, r, True)" "send_loop setting e buff 0 r [] = (err, m, wire)"
      "connect_and_send setting e buff s =
         (exchange_failed err e s')\<lparr>x_connects := n, x_sends := m, x_wire := wire\<rparr>"
proof -
  obtain a s' where h: "nettool_get_host_name (host_answers e) (Some (ts_ip setting)) s = (a, s')"
    by (metis surj_pair)
  obtain n r up where c: "connect_loop setting e 0 0 = (n, r, up)" by (metis surj_pair)
  obtain err m wire where w: "send_loop setting e buff 0 r [] = (err, m, wire)" by (metis surj_pair)
  consider "sock_fd e = -1" | "sock_fd e \<noteq> -1" "a = 0" | "sock_fd e \<noteq> -1" "a \<noteq> 0" "\<not> up"
    | "sock_fd e \<noteq> -1" "a \<noteq> 0" up by blast
  then show thesis
  proof cases
    case 1
    then show ?thesis by (intro no_socket) (simp_all add: connect_and_send_def)
  next
    case 2
    then show ?thesis by (intro no_host [of s']) (simp_all add: connect_and_send_def host_addr_def h)
  next
    case 3
    with c have "connect_loop setting e 0 0 = (n, r, False)" by simp
    then show ?thesis
      by (rule no_connection [of n r s']) (simp add: connect_and_send_def h c 3)
  next
    case 4
    show ?thesis
      by (rule up [of n r err m wire s']) (use 4 c w in \<open>simp_all add: connect_and_send_def host_addr_def h\<close>)
  qed
qed

lemma connect_and_send_bounds:
  "x_connects (connect_and_send setting e buff s) \<le> nat (retry_count_connect setting + 1) + 1 \<and>
   x_sends (connect_and_send setting e buff s) \<le> nat (max 1 (retry_count_send setting)) \<and>
   x_recvs (connect_and_send setting e buff s) = 0"
proof (rule connect_and_send_cases [of e setting buff s], goal_cases)
  case (3 s' n r)
  then show ?case using connect_loop_bounds [OF 3(1)] by (simp add: exchange_failed_def)
next
  case (4 s' n r err m wire)
  have "n \<le> nat (retry_count_connect setting + 1) + 1" and "0 \<le> r"
    using connect_loop_bounds [OF 4(3)] by auto
  moreover have "m \<le> nat (max 1 (retry_count_send setting))"
    using send_loop_bounds [OF 4(4)] \<open>0 \<le> r\<close> by auto
  ultimately show ?case by (simp add: 4(5) exchange_failed_def)
qed (simp_all add: exchange_failed_def)

text \<open>An exchange that succeeded has delivered the packet, after the parts of it that went before.\<close>

lemma connect_and_send_success:
  assumes "x_err (connect_and_send setting e buff s) = 0"
  shows "\<exists>n. x_sends (connect_and_send setting e buff s) = Suc n \<and>
    send_result e n = int (length buff) \<and>
    x_wire (connect_and_send setting e buff s) =
      concat (map (\<lambda>j. take (nat (send_result e j)) buff) [0..<n]) @ buff"
proof (rule connect_and_send_cases [of e setting buff s], goal_cases)
  case (4 s' n r err m wire)
  then have "err = 0" using assms by (simp add: exchange_failed_def)
  with 4(4) have *: "send_loop setting e buff 0 r [] = (0, m, wire)" by simp
  then have "0 < m" using send_loop_bounds by blast
  then obtain k where m: "m = Suc k" by (cases m) auto
  show ?case using send_loop_wire [OF *] by (simp add: 4(5) m exchange_failed_def)
qed (use assms in \<open>simp_all add: exchange_failed_def\<close>)

text \<open>
  C31: every exchange of \<open>transfer_packet_recv\<close> returns, whatever the network does: it opens at
  most \<open>retry_count_connect + 2\<close> connections, sends the packet at most \<open>retry_count_send\<close> times
  (once if that is not positive) and reads at most once per byte of the answer and
  \<open>retry_count_receive + 2\<close> times more; and it never writes outside the answer.
\<close>

theorem transfer_attempts_bounded:
  assumes "0 \<le> rbuff_len"
  shows "\<exists>x. transfer_packet_recv setting e tbuff rbuff_len s = Some x \<and>
    x_connects x \<le> nat (retry_count_connect setting + 1) + 1 \<and>
    x_sends x \<le> nat (max 1 (retry_count_send setting)) \<and>
    x_recvs x \<le> nat rbuff_len + nat (retry_count_receive setting + 1) + 1 \<and>
    length (x_rbuff x) \<le> nat rbuff_len"
proof -
  let ?x = "connect_and_send setting e tbuff s"
  have r: "x_rbuff ?x = []"
    by (rule connect_and_send_cases [of e setting tbuff s]) (simp_all add: exchange_failed_def)
  show ?thesis
  proof (cases "x_err ?x = 0")
    case False
    then show ?thesis
      using connect_and_send_bounds [of setting e tbuff s] r
      by (simp add: transfer_packet_recv_def)
  next
    case True
    have "recv_post setting e rbuff_len 0 0 []" using assms by (intro recv_loop_result) simp_all
    then obtain err n b where
      *: "recv_loop setting e rbuff_len 0 0 [] = Some (err, n, b)"
      "b = take (nat rbuff_len) (concat (map (recv_result e) [0..<n]))"
      "n \<le> 1 + nat rbuff_len + nat (retry_count_receive setting + 1)"
      unfolding recv_post_def by auto
    show ?thesis
      using connect_and_send_bounds [of setting e tbuff s] *(2,3) True
      by (simp add: transfer_packet_recv_def *(1))
  qed
qed

definition setting_example :: transferSetting where
  "setting_example = \<lparr>retry_count_connect = 2, retry_count_send = 3, retry_count_receive = 1,
     timeout_secs = 5, ts_ip = [97], ts_port = 80\<rparr>"

definition up_env :: connect_env where
  "up_env = \<lparr>getfl_ok = True, setfl_ok = True, connected = Connected, waited = Sel_ready,
     getsockopt_ok = True, so_error = 0\<rparr>"

definition net_example :: net_env where
  "net_example = \<lparr>sock_fd = 5, host_answers = (\<lambda>_. Address 5), connect_result = (\<lambda>_. up_env),
     send_result = (\<lambda>i. if i = 0 then 2 else 3),
     recv_result = (\<lambda>i. if i = 0 then [1] else if i = 2 then [2, 3] else []), errno_end = 0\<rparr>"

lemma transfer_attempts_bounded_witness:
  "\<exists>x. transfer_packet_recv setting_example net_example [7, 8, 9] 2 dns_init = Some x \<and>
    x_connects x \<le> nat (retry_count_connect setting_example + 1) + 1 \<and>
    x_sends x \<le> nat (max 1 (retry_count_send setting_example)) \<and>
    x_recvs x \<le> nat 2 + nat (retry_count_receive setting_example + 1) + 1 \<and>
    length (x_rbuff x) \<le> nat 2"
  by (rule transfer_attempts_bounded) simp

text \<open>
  C32: when \<open>transfer_packet_recv\<close> reports success, the peer has received the whole packet (after
  the parts of it that earlier calls had sent), and the answer holds the first \<open>rbuff_len\<close> bytes
  the peer sent, however it cut them into segments.
\<close>

theorem transfer_delivers:
  assumes "transfer_packet_recv setting e tbuff rbuff_len s = Some x" and "x_err x = 0"
    and "0 \<le> rbuff_len"
  shows "\<exists>n m. x_sends x = Suc n \<and> send_result e n = int (length tbuff) \<and>
    x_wire x = concat (map (\<lambda>j. take (nat (send_result e j)) tbuff) [0..<n]) @ tbuff \<and>
    x_rbuff x = take (nat rbuff_len) (concat (map (recv_result e) [0..<m])) \<and>
    int (length (x_rbuff x)) = rbuff_len"
proof (cases "x_err (connect_and_send setting e tbuff s) = 0")
  case False
  with assms(1,2) show ?thesis by (simp add: transfer_packet_recv_def)
next
  case True
  have "recv_post setting e rbuff_len 0 0 []" using assms by (intro recv_loop_result) simp_all
  then obtain err n b where
    *: "recv_loop setting e rbuff_len 0 0 [] = Some (err, n, b)"
    "b = take (nat rbuff_len) (concat (map (recv_result e) [0..<n]))"
    "err = 0 \<and> int (length b) = rbuff_len \<or> err = -4"
    unfolding recv_post_def by auto
  have x: "x = (connect_and_send setting e tbuff s)\<lparr>x_err := err, x_recvs := n, x_rbuff := b\<rparr>"
    using assms(1) True *(1) by (simp add: transfer_packet_recv_def)
  then have "err = 0" using assms(2) by simp
  then have b: "int (length b) = rbuff_len" using *(3) by simp
  obtain k where "x_sends x = Suc k" "send_result e k = int (length tbuff)"
    "x_wire x = concat (map (\<lambda>j. take (nat (send_result e j)) tbuff) [0..<k]) @ tbuff"
    using connect_and_send_success [OF True] x by auto
  then show ?thesis using b *(2) x by auto
qed


text \<open>The example, where the first send takes two of three bytes and the second read fails.\<close>

lemma net_example_run:
  "transfer_packet_recv setting_example net_example [7, 8, 9] 2 dns_init =
   Some \<lparr>x_err = 0, x_connects = 1, x_sends = 2, x_recvs = 3, x_wire = [7, 8, 7, 8, 9],
     x_rbuff = [1, 2], x_open = False, x_dns = \<lparr>g_hbn = [([97], 5)]\<rparr>\<rparr>"
proof -
  have "connect_loop setting_example net_example 0 0 = (1, 0, True)"
    by (subst connect_loop.simps)
       (simp add: setting_example_def net_example_def up_env_def nettool_connect_timeo_def)
  moreover have "nettool_get_host_name (\<lambda>_. Address 5) (Some [97]) dns_init =
      (5, \<lparr>g_hbn = [([97], 5)]\<rparr>)"
    by code_simp
  moreover have "send_loop setting_example net_example [7, 8, 9] 0 0 [] = (0, 2, [7, 8, 7, 8, 9])"
    by (simp add: send_loop.simps setting_example_def net_example_def)
  moreover have "recv_loop setting_example net_example 2 0 0 [] = Some (0, 3, [1, 2])"
    by (simp add: recv_loop.simps setting_example_def net_example_def)
  moreover have "host_answers net_example = (\<lambda>_. Address 5)" "ts_ip setting_example = [97]"
      "sock_fd net_example = 5" "errno_end net_example = 0"
    by (simp_all add: net_example_def setting_example_def)
  ultimately show ?thesis
    by (simp add: transfer_packet_recv_def connect_and_send_def exchange_failed_def
        sock_left_open_def ENOTSOCK_def)
qed

lemma transfer_delivers_witness:
  "\<exists>x. transfer_packet_recv setting_example net_example [7, 8, 9] 2 dns_init = Some x \<and>
   (\<exists>n m. x_sends x = Suc n \<and> send_result net_example n = int (length [7, 8, 9 :: byte]) \<and>
    x_wire x = concat (map (\<lambda>j. take (nat (send_result net_example j)) [7, 8, 9]) [0..<n]) @ [7, 8, 9] \<and>
    x_rbuff x = take (nat 2) (concat (map (recv_result net_example) [0..<m])) \<and>
    int (length (x_rbuff x)) = 2)"
  using transfer_delivers [OF net_example_run] net_example_run by fastforce

subsection \<open>A send that takes a part of the packet\<close>

lemma send_loop_full:
  "send_result e i = int (length buff) \<Longrightarrow> buff \<noteq> [] \<Longrightarrow>
   send_loop setting e buff i r w = (0, Suc i, w @ buff)"
  by (subst send_loop.simps) simp

lemma send_loop_part:
  "send_result e i = int k \<Longrightarrow> 0 < k \<Longrightarrow> k < length buff \<Longrightarrow> r + 1 < retry_count_send setting \<Longrightarrow>
   send_loop setting e buff i r w = send_loop setting e buff (Suc i) (r + 1) (w @ take k buff)"
  by (subst send_loop.simps) simp

lemma prefix_sent_twice:
  assumes "sock_fd e \<noteq> -1" and "host_addr setting e s \<noteq> 0"
    and "fst (nettool_connect_timeo (connect_result e 0)) \<ge> 0"
    and "send_result e 0 = int k" and "0 < k" and "k < length buff"
    and "send_result e 1 = int (length buff)" and "1 < retry_count_send setting"
  shows "x_err (transfer_packet setting e buff s) = 0 \<and>
    x_wire (transfer_packet setting e buff s) = take k buff @ buff"
proof -
  have "connect_loop setting e 0 0 = (1, 0, True)"
    using assms(3) by (subst connect_loop.simps) simp
  moreover have "send_loop setting e buff 0 0 [] = (0, 2, take k buff @ buff)"
    using assms(4-8) by (subst send_loop_part, simp_all, subst send_loop_full, auto)
  ultimately show ?thesis
    using assms(1,2)
    by (cases "nettool_get_host_name (host_answers e) (Some (ts_ip setting)) s")
       (simp add: transfer_packet_def connect_and_send_def host_addr_def exchange_failed_def)
qed

text \<open>
  When a send takes only a part of the packet, the exchange does not go on with the rest but
  sends the packet again from its start: with two more sends allowed, a part of \<open>k\<close> bytes followed
  by a whole send is reported as success, and the peer has received the first \<open>k\<close> bytes twice.
\<close>

theorem partial_send_repeats_prefix:
  assumes "sock_fd e \<noteq> -1" and "host_addr setting e s \<noteq> 0"
    and "fst (nettool_connect_timeo (connect_result e 0)) \<ge> 0"
    and "send_result e 0 = int k" and "0 < k" and "k < length buff"
    and "send_result e 1 = int (length buff)" and "1 < retry_count_send setting"
  shows "x_err (transfer_packet setting e buff s) = 0 \<and>
    x_wire (transfer_packet setting e buff s) = take k buff @ buff"
  using assms by (rule prefix_sent_twice)

lemma partial_send_repeats_prefix_witness:
  "x_err (transfer_packet setting_example net_example [7, 8, 9] dns_init) = 0 \<and>
   x_wire (transfer_packet setting_example net_example [7, 8, 9] dns_init) = take 2 [7, 8, 9] @ [7, 8, 9]"
proof -
  have "host_answers net_example = (\<lambda>_. Address 5)" "ts_ip setting_example = [97]"
    by (simp_all add: net_example_def setting_example_def)
  moreover have "fst (nettool_get_host_name (\<lambda>_. Address 5) (Some [97]) dns_init) \<noteq> 0"
    by code_simp
  ultimately have "host_addr setting_example net_example dns_init \<noteq> 0" by (simp add: host_addr_def)
  then show ?thesis
    by (intro partial_send_repeats_prefix)
       (simp_all add: setting_example_def net_example_def up_env_def nettool_connect_timeo_def)
qed

subsection \<open>The answer with an end mark\<close>


lemma etx_loop_chatter:
  "etx_loop setting e l etx i r b = Some res \<Longrightarrow> int (length b) \<le> l \<Longrightarrow>
   (\<And>j. i \<le> j \<Longrightarrow> recv_result e j \<noteq> [] \<and> strchr_recv (recv_result e j) etx = Some False) \<Longrightarrow> False"
proof (induction setting e l etx i r b res rule: etx_loop.raw_induct [rotated 1, consumes 1])
  case (1 etx_loop setting e l etx i r b res)
  let ?g = "recv_result e i"
  let ?n = "if int (length b) + int (length ?g) > l then l - int (length b) else int (length ?g)"
  have g: "?g \<noteq> []" "strchr_recv ?g etx = Some False" using "1"(4) by auto
  have n: "\<not> ?n < 0" "int (length (b @ take (nat ?n) ?g)) \<le> l" using "1"(3) by auto
  have "etx_loop setting e l etx (Suc i) r (b @ take (nat ?n) ?g) = Some res"
    using "1"(2) g n(1) by (simp add: Let_def split: if_splits)
  then show False by (rule "1"(1)) (use "1"(4) n(2) in auto)
qed

text \<open>
  \<open>transfer_packet_recv_etx\<close> has no bound on what it reads: while the peer keeps sending
  segments without the end mark (each with a NUL or of less than 128 bytes) the exchange does not
  return, although its buffer is full and the further bytes are dropped.
\<close>

theorem etx_exchange_unbounded:
  assumes "x_err (connect_and_send setting e tbuff s) = 0" and "0 \<le> rbuff_len"
    and "\<And>j. recv_result e j \<noteq> [] \<and> strchr_recv (recv_result e j) etx = Some False"
  shows "transfer_packet_recv_etx setting e tbuff rbuff_len etx s = None"
proof -
  have "etx_loop setting e rbuff_len etx 0 0 [] = None"
    using etx_loop_chatter [of setting e rbuff_len etx 0 0 "[]"] assms(2,3)
    by (cases "etx_loop setting e rbuff_len etx 0 0 []") auto
  then show ?thesis using assms(1) by (simp add: transfer_packet_recv_etx_def)
qed

lemma etx_exchange_unbounded_witness:
  "transfer_packet_recv_etx setting_example (net_example\<lparr>recv_result := \<lambda>_. [65, 66]\<rparr>) [7, 8, 9] 1 3
     dns_init = None"
proof (rule etx_exchange_unbounded)
  let ?e = "net_example\<lparr>recv_result := \<lambda>_. [65, 66]\<rparr>"
  have "host_answers net_example = (\<lambda>_. Address 5)" "ts_ip setting_example = [97]"
    by (simp_all add: net_example_def setting_example_def)
  moreover have "fst (nettool_get_host_name (\<lambda>_. Address 5) (Some [97]) dns_init) \<noteq> 0"
    by code_simp
  ultimately have "host_addr setting_example ?e dns_init \<noteq> 0" by (simp add: host_addr_def)
  then have "x_err (transfer_packet setting_example ?e [7, 8, 9] dns_init) = 0 \<and>
      x_wire (transfer_packet setting_example ?e [7, 8, 9] dns_init) = take 2 [7, 8, 9] @ [7, 8, 9]"
    by (intro prefix_sent_twice)
       (simp_all add: setting_example_def net_example_def up_env_def nettool_connect_timeo_def)
  then show "x_err (connect_and_send setting_example ?e [7, 8, 9] dns_init) = 0"
    by (simp add: transfer_packet_def)
qed (simp_all add: strchr_recv_def RECV_BUF_def)

lemma take_cut_append: "take n (take n xs @ ys) = take n (xs @ ys)"
  by (cases "n \<le> length xs") simp_all

text \<open>With the mark in a later segment the exchange returns what came before it, and the mark.\<close>

lemma etx_loop_mark:
  "strchr_recv (recv_result e k) etx = Some True \<Longrightarrow> recv_result e k \<noteq> [] \<Longrightarrow> i \<le> k \<Longrightarrow>
   (\<And>j. i \<le> j \<Longrightarrow> j < k \<Longrightarrow> recv_result e j \<noteq> [] \<and> strchr_recv (recv_result e j) etx = Some False) \<Longrightarrow>
   int (length b) \<le> l \<Longrightarrow>
   etx_loop setting e l etx i r b =
     Some (Etx_done 0 (Suc k) (take (nat l) (b @ concat (map (recv_result e) [i..<Suc k]))))"
proof (induction "k - i" arbitrary: i b)
  case 0
  have n: "nat (l - int (length b)) = nat l - length b" by linarith
  from 0 have "i = k" by simp
  with 0 show ?case
    by (subst etx_loop.simps) (auto simp: Let_def n)
next
  case (Suc d)
  let ?g = "recv_result e i"
  let ?n = "if int (length b) + int (length ?g) > l then l - int (length b) else int (length ?g)"
  have g: "?g \<noteq> []" "strchr_recv ?g etx = Some False" using Suc.hyps(2) Suc.prems(4) by auto
  have b: "b @ take (nat ?n) ?g = take (nat l) (b @ ?g)"
  proof -
    have "nat (l - int (length b)) = nat l - length b" by linarith
    then show ?thesis using Suc.prems(5) by auto
  qed
  have "etx_loop setting e l etx i r b =
      etx_loop setting e l etx (Suc i) r (b @ take (nat ?n) ?g)"
    using g Suc.prems(5) by (subst etx_loop.simps) (simp add: Let_def)
  also have "\<dots> = Some (Etx_done 0 (Suc k)
      (take (nat l) (take (nat l) (b @ ?g) @ concat (map (recv_result e) [Suc i..<Suc k]))))"
    unfolding b using Suc.hyps Suc.prems by (intro Suc.hyps(1)) auto
  also have "take (nat l) (take (nat l) (b @ ?g) @ concat (map (recv_result e) [Suc i..<Suc k])) =
      take (nat l) (b @ concat (map (recv_result e) [i..<Suc k]))"
    unfolding take_cut_append using Suc.hyps(2) by (simp add: upt_conv_Cons del: upt_Suc)
  finally show ?case .
qed

end
