(* ===== verification/ThreadGps.thy ===== *)
theory ThreadGps
  imports Gps Tools
begin

text \<open>
  \<open>base/thread-gps.c\<close>: the thread that reads the stream of the GPS daemon, cuts it into blocks that
  end with the line of a \<open>$GPGGA\<close> sentence, and hands each block to \<open>gps_parse\<close>. The stream buffer
  is the list of its 2048 bytes with \<open>pbufferin\<close> as an index. The daemon, the clock of each block
  and the state of the antenna are inputs; calls into the rest of the program are recorded in order.
  The debug markers \<open>wd_dbg\<close> and the texts of the logs are left out.
\<close>

definition GPS_MAX_BUFF_SIZE :: nat where "GPS_MAX_BUFF_SIZE = 2048"
definition MAX_UDP_GPSD_MAX_ERR_1_CNT :: int where "MAX_UDP_GPSD_MAX_ERR_1_CNT = 15"
definition MAX_UDP_GPSD_MAX_ERR_2_CNT :: int where "MAX_UDP_GPSD_MAX_ERR_2_CNT = 3"

datatype gps_act = Wd_alive | Logic_broken | Null_sms int | Delay_sms int | Led_good | Led_bad |
  Antenna gps_call | One_context | Reset_gpsd | Kill_gpsd

text \<open>The stream buffer, and whether the clearing of a broken buffer was logged.\<close>

record gps_stream =
  buffer :: "byte list"
  pbufferin :: nat
  read_size :: nat
  will_read_size :: int
  logic_broken :: nat

definition gps_stream_init :: gps_stream where
  "gps_stream_init = \<lparr>buffer = replicate GPS_MAX_BUFF_SIZE 0, pbufferin = 0, read_size = 0,
     will_read_size = int GPS_MAX_BUFF_SIZE - 1, logic_broken = 0\<rparr>"

text \<open>\<open>gps_init\<close>: the buffer is reset but not cleared, and the daemon is started.\<close>

definition gps_init :: "gps_stream \<Rightarrow> gpsst \<Rightarrow> int \<times> gps_stream \<times> gpsst" where
  "gps_init s c =
     (0, s\<lparr>pbufferin := 0, will_read_size := int GPS_MAX_BUFF_SIZE - 1\<rparr>, gps_on GPS_BOOT_WARM c)"

subsection \<open>Cutting the stream\<close>

text \<open>\<open>strstr\<close> on a buffer: the outer \<open>None\<close> is a search that finds no NUL.\<close>

fun strstr_from :: "nat \<Rightarrow> byte list \<Rightarrow> byte list \<Rightarrow> nat option option" where
  "strstr_from i [] pat = None"
| "strstr_from i (c # cs) pat =
     (if c = 0 then Some None
      else if take (length pat) (c # cs) = pat then Some (Some i)
      else strstr_from (Suc i) cs pat)"

text \<open>\<open>$GPGGA\<close>\<close>

definition GPGGA :: "byte list" where "GPGGA = [36, 71, 80, 71, 71, 65]"

text \<open>The end of the first block: the byte behind the first newline after the mark.\<close>

definition find_block :: "gps_stream \<Rightarrow> nat option option" where
  "find_block s =
     (case strstr_from 0 (buffer s) GPGGA of
        None \<Rightarrow> None
      | Some None \<Rightarrow> Some None
      | Some (Some d) \<Rightarrow>
          map_option (map_option (\<lambda>q. d + q + 1))
            (tools_strnchr (drop d (buffer s)) 10 (pbufferin s + read_size s - d)))"

text \<open>
  \<open>_splite_gps_context\<close>: the memory and size given to \<open>gps_parse\<close>, if there is a block, and the
  stream. \<open>gps_parse\<close> does not write to the buffer, so its call may follow the move.
\<close>

definition splite_gps_context :: "gps_stream \<Rightarrow> ((byte list \<times> nat) option \<times> gps_stream) option" where
  "splite_gps_context s =
     (let plastbyte = pbufferin s + read_size s in
      case find_block s of
        None \<Rightarrow> None
      | Some None \<Rightarrow>
          Some (None,
            if plastbyte \<ge> GPS_MAX_BUFF_SIZE - 1 then
              s\<lparr>buffer := replicate (GPS_MAX_BUFF_SIZE - 1) 0 @ drop (GPS_MAX_BUFF_SIZE - 1) (buffer s),
                pbufferin := 0, will_read_size := int GPS_MAX_BUFF_SIZE - 1,
                logic_broken := logic_broken s + 1\<rparr>
            else s\<lparr>pbufferin := plastbyte,
                   will_read_size := int GPS_MAX_BUFF_SIZE - 1 - int plastbyte\<rparr>)
      | Some (Some p) \<Rightarrow>
          Some (Some (buffer s, p),
            s\<lparr>buffer := take (plastbyte - p) (drop p (buffer s)) @
                replicate (GPS_MAX_BUFF_SIZE - 1 - (plastbyte - p)) 0 @
                drop (GPS_MAX_BUFF_SIZE - 1) (buffer s),
              read_size := 0, pbufferin := plastbyte - p,
              will_read_size := int GPS_MAX_BUFF_SIZE - 1 - int (plastbyte - p)\<rparr>))"

text \<open>
  \<open>mds_api_gpsd_get_nmea(pbufferin, GPS_MAX_BUFF_SIZE)\<close> and \<open>_check_null_data\<close>: the bytes are
  written behind the rest of the last read, and NULs among them become spaces. \<open>None\<close> when they do
  not fit; the size passed to the daemon's library is not \<open>will_read_size\<close>.
\<close>

definition read_nmea :: "byte list \<Rightarrow> gps_stream \<Rightarrow> (int \<times> gps_stream) option" where
  "read_nmea bs s =
     (if length bs > GPS_MAX_BUFF_SIZE \<or> pbufferin s + length bs > length (buffer s) then None
      else
        (let (nulls, cs) = null2space bs in
         Some (nulls,
           s\<lparr>buffer := take (pbufferin s) (buffer s) @ cs @ drop (pbufferin s + length bs) (buffer s),
             read_size := length bs\<rparr>)))"

lemma strnchr_from_bound: "strnchr_from i s c n = Some (Some q) \<Longrightarrow> i \<le> q \<and> q < i + n"
proof (induction i s c n rule: strnchr_from.induct)
  case (3 i c cs ch n)
  then show ?case by (fastforce split: if_splits)
qed simp_all

lemma find_block_bound: "find_block s = Some (Some p) \<Longrightarrow> 0 < p \<and> p \<le> pbufferin s + read_size s"
  by (auto simp: find_block_def tools_strnchr_def split: option.splits
      dest!: strnchr_from_bound)

lemma splite_decreases:
  "splite_gps_context s = Some (Some b, s') \<Longrightarrow> pbufferin s' + read_size s' < pbufferin s + read_size s"
  by (auto simp: splite_gps_context_def Let_def split: option.splits dest!: find_block_bound)

text \<open>The inner loop of the thread, with the work per block as a parameter.\<close>

function split_loop :: "(byte list \<Rightarrow> nat \<Rightarrow> 'a \<Rightarrow> 'a option) \<Rightarrow> gps_stream \<Rightarrow> 'a \<Rightarrow> (gps_stream \<times> 'a) option" where
  "split_loop h s a =
     (case splite_gps_context s of
        None \<Rightarrow> None
      | Some (None, s') \<Rightarrow> Some (s', a)
      | Some (Some (buf, n), s') \<Rightarrow>
          (case h buf n a of
             None \<Rightarrow> None
           | Some a' \<Rightarrow> split_loop h s' a'))"
  by pat_completeness auto
termination
  by (relation "measure (\<lambda>(h, s, a). pbufferin s + read_size s)") (auto dest!: splite_decreases)

declare split_loop.simps [simp del]

subsection \<open>The work per block\<close>

record gps_work =
  wgps :: gps_state
  antenna :: gps_ant
  time_gps_avail :: int
  is_send_sms :: int
  count_gps_abnormal :: int
  have_received_active :: bool
  n_block :: nat
  acts :: "gps_act list"

definition gps_acts :: "gps_act list \<Rightarrow> gps_work \<Rightarrow> gps_work" where
  "gps_acts xs w = w\<lparr>acts := acts w @ xs\<rparr>"

definition check_gps_delay_err :: "int \<Rightarrow> bool \<Rightarrow> gps_work \<Rightarrow> gps_work" where
  "check_gps_delay_err nowtime sms_noti w =
     (if nowtime - time_gps_avail w > 2 \<and> sms_noti \<and> nowtime > is_send_sms w
      then gps_acts [Delay_sms (nowtime - time_gps_avail w)] (w\<lparr>is_send_sms := nowtime + 300\<rparr>)
      else w)"

definition gps_led_notification :: "gps_work \<Rightarrow> gps_work" where
  "gps_led_notification w =
     (if gactive (gps_get_curr_data (wgps w)) = 1
      then gps_acts [Led_good] (w\<lparr>count_gps_abnormal := 0, have_received_active := True\<rparr>)
      else if have_received_active w then
        (let w' = w\<lparr>count_gps_abnormal := count_gps_abnormal w + 1\<rparr>
         in if count_gps_abnormal w' \<ge> 5 then gps_acts [Led_bad] w' else w')
      else w)"

text \<open>What is done with a block: the call of \<open>gps_parse\<close> and the rest of the inner loop.\<close>

definition one_context :: "(real \<Rightarrow> real) \<Rightarrow> configurationBase \<Rightarrow> (nat \<Rightarrow> gps_env) \<Rightarrow> (nat \<Rightarrow> bool) \<Rightarrow>
    byte list \<Rightarrow> nat \<Rightarrow> gps_work \<Rightarrow> gps_work option" where
  "one_context rnd conf envs ants buf n w =
     (let e = envs (n_block w) in
      case gps_parse rnd (gps conf) e buf (int n) (wgps w) of
        None \<Rightarrow> None
      | Some g \<Rightarrow>
          (let w1 = check_gps_delay_err (gps_ktime e) (turn_on_sms_enable (noti conf) \<noteq> 0)
                      (w\<lparr>wgps := g, n_block := n_block w + 1\<rparr>);
               w2 = (gps_led_notification w1)\<lparr>time_gps_avail := gps_ktime e\<rparr>
           in if g_skip_gps_when_error g > 0
              then Some (w2\<lparr>wgps := g\<lparr>g_skip_gps_when_error := g_skip_gps_when_error g - 1\<rparr>\<rparr>)
              else
                (let (cs, a) = gps_ant_chk (ants (n_block w)) (antenna w2)
                 in Some (gps_acts (map Antenna cs @ [One_context]) (w2\<lparr>antenna := a\<rparr>)))))"

subsection \<open>One pass of the thread\<close>

text \<open>
  \<open>sys\<close> are the calls outside the work per block. The counters are the static variables of the
  loop; \<open>h\<close> is the work per block and \<open>r\<close> what a reset of the daemon does to its state.
\<close>

record 'a gps_thread =
  stream :: gps_stream
  work :: 'a
  count_wd :: int
  udp_gpsd_err_cnt1 :: int
  udp_gpsd_err_cnt2 :: int
  udp_gpsd_err_chk_cnt1 :: int
  noti_null_triger :: bool
  sys :: "gps_act list"

definition gps_thread_init :: "'a \<Rightarrow> 'a gps_thread" where
  "gps_thread_init a = \<lparr>stream = gps_stream_init, work = a, count_wd = 0, udp_gpsd_err_cnt1 = 0,
     udp_gpsd_err_cnt2 = 0, udp_gpsd_err_chk_cnt1 = MAX_UDP_GPSD_MAX_ERR_1_CNT,
     noti_null_triger = False, sys = []\<rparr>"

definition gps_sys :: "gps_act list \<Rightarrow> 'a gps_thread \<Rightarrow> 'a gps_thread" where
  "gps_sys xs t = t\<lparr>sys := sys t @ xs\<rparr>"

definition gps_wd_pass :: "'a gps_thread \<Rightarrow> 'a gps_thread" where
  "gps_wd_pass t =
     (if count_wd t = 0 \<or> count_wd t \<ge> 30 then gps_sys [Wd_alive] (t\<lparr>count_wd := 1\<rparr>)
      else t\<lparr>count_wd := count_wd t + 1\<rparr>)"

definition gps_check_reads :: "('a \<Rightarrow> 'a) \<Rightarrow> 'a gps_thread \<Rightarrow> 'a gps_thread" where
  "gps_check_reads r t =
     (let t1 = (if udp_gpsd_err_cnt1 t > udp_gpsd_err_chk_cnt1 t
                then gps_sys [Reset_gpsd]
                  (t\<lparr>work := r (work t), udp_gpsd_err_cnt1 := 0,
                     udp_gpsd_err_cnt2 := udp_gpsd_err_cnt2 t + 1,
                     udp_gpsd_err_chk_cnt1 := MAX_UDP_GPSD_MAX_ERR_1_CNT\<rparr>)
                else t)
      in if udp_gpsd_err_cnt2 t1 > MAX_UDP_GPSD_MAX_ERR_2_CNT
         then gps_sys [Kill_gpsd]
           (t1\<lparr>udp_gpsd_err_cnt1 := 0, udp_gpsd_err_cnt2 := 0, udp_gpsd_err_chk_cnt1 := 60\<rparr>)
         else t1)"

definition gps_read_ok :: "bool \<Rightarrow> int \<Rightarrow> 'a gps_thread \<Rightarrow> 'a gps_thread" where
  "gps_read_ok sms nulls t =
     (let t1 = (if nulls > 0 \<and> \<not> noti_null_triger t \<and> sms
                then gps_sys [Null_sms nulls] (t\<lparr>noti_null_triger := True\<rparr>) else t)
      in t1\<lparr>udp_gpsd_err_cnt1 := 0, udp_gpsd_err_cnt2 := 0,
            udp_gpsd_err_chk_cnt1 := MAX_UDP_GPSD_MAX_ERR_1_CNT\<rparr>)"

text \<open>A pass with the bytes of one read of the daemon's library, none when the read failed.\<close>

definition gps_pass :: "(byte list \<Rightarrow> nat \<Rightarrow> 'a \<Rightarrow> 'a option) \<Rightarrow> ('a \<Rightarrow> 'a) \<Rightarrow> ('a \<Rightarrow> bool) \<Rightarrow> bool \<Rightarrow>
    byte list \<Rightarrow> 'a gps_thread \<Rightarrow> 'a gps_thread option" where
  "gps_pass h r off sms bs t =
     (if off (work t) then Some (gps_sys [Wd_alive] t)
      else
        (case read_nmea bs (stream t) of
           None \<Rightarrow> None
         | Some (nulls, s1) \<Rightarrow>
             (let t1 = gps_check_reads r (gps_wd_pass t) in
              if bs = [] then Some (t1\<lparr>udp_gpsd_err_cnt1 := udp_gpsd_err_cnt1 t1 + 1\<rparr>)
              else
                (let t2 = gps_read_ok sms nulls t1 in
                 case split_loop h s1 (work t2) of
                   None \<Rightarrow> None
                 | Some (s2, a) \<Rightarrow> Some (t2\<lparr>stream := s2, work := a\<rparr>)))))"

fun gps_passes :: "(byte list \<Rightarrow> nat \<Rightarrow> 'a \<Rightarrow> 'a option) \<Rightarrow> ('a \<Rightarrow> 'a) \<Rightarrow> ('a \<Rightarrow> bool) \<Rightarrow> bool \<Rightarrow>
    byte list list \<Rightarrow> 'a gps_thread \<Rightarrow> 'a gps_thread option" where
  "gps_passes h r off sms [] t = Some t"
| "gps_passes h r off sms (bs # cs) t =
     (case gps_pass h r off sms bs t of
        None \<Rightarrow> None
      | Some t' \<Rightarrow> gps_passes h r off sms cs t')"

text \<open>The thread of the program: blocks go to \<open>gps_parse\<close>, a reset to \<open>gps_reset\<close>.\<close>

definition thread_gps :: "(real \<Rightarrow> real) \<Rightarrow> configurationBase \<Rightarrow> (nat \<Rightarrow> gps_env) \<Rightarrow> (nat \<Rightarrow> bool) \<Rightarrow>
    byte list list \<Rightarrow> gps_work gps_thread \<Rightarrow> gps_work gps_thread option" where
  "thread_gps rnd conf envs ants =
     gps_passes (one_context rnd conf envs ants)
       (\<lambda>w. w\<lparr>wgps := (wgps w)\<lparr>checker := gps_reset GPS_BOOT_WARM (checker (wgps w))\<rparr>\<rparr>)
       (\<lambda>w. \<not> cur_gps_stat (checker (wgps w))) (turn_on_sms_enable (noti conf) \<noteq> 0)"

subsection \<open>The blocks of a stream\<close>

text \<open>The specification: the blocks of a text, and what is left of it.\<close>

fun find_gga :: "byte list \<Rightarrow> nat option" where
  "find_gga [] = None"
| "find_gga (c # cs) = (if take 6 (c # cs) = GPGGA then Some 0 else map_option Suc (find_gga cs))"

fun find_nl :: "byte list \<Rightarrow> nat option" where
  "find_nl [] = None"
| "find_nl (c # cs) = (if c = 10 then Some 0 else map_option Suc (find_nl cs))"

definition next_block :: "byte list \<Rightarrow> nat option" where
  "next_block xs =
     (case find_gga xs of
        None \<Rightarrow> None
      | Some d \<Rightarrow> map_option (\<lambda>q. d + q + 1) (find_nl (drop d xs)))"

lemma find_gga_bound: "find_gga xs = Some d \<Longrightarrow> d + 6 \<le> length xs"
proof (induction xs arbitrary: d)
  case (Cons c cs)
  show ?case
  proof (cases "take 6 (c # cs) = GPGGA")
    case True
    then have "length (take 6 (c # cs)) = 6" by (simp add: GPGGA_def)
    then show ?thesis using Cons.prems True by (simp split: if_splits)
  next
    case False
    then show ?thesis using Cons by (auto split: if_splits)
  qed
qed simp

lemma find_nl_bound: "find_nl xs = Some q \<Longrightarrow> q < length xs"
  by (induction xs arbitrary: q) (auto split: if_splits)

lemma next_block_bound: "next_block xs = Some p \<Longrightarrow> 0 < p \<and> p \<le> length xs"
  by (auto simp: next_block_def split: option.splits dest!: find_gga_bound find_nl_bound)

function blocks :: "byte list \<Rightarrow> byte list list \<times> byte list" where
  "blocks xs =
     (case next_block xs of
        None \<Rightarrow> ([], xs)
      | Some p \<Rightarrow> (let (bs, r) = blocks (drop p xs) in (take p xs # bs, r)))"
  by pat_completeness auto
termination by (relation "measure length") (auto dest!: next_block_bound)

declare blocks.simps [simp del]

text \<open>More text does not move a block that is already complete.\<close>

lemma find_gga_append: "find_gga xs = Some d \<Longrightarrow> find_gga (xs @ ys) = Some d"
proof (induction xs arbitrary: d)
  case (Cons c cs)
  have "6 \<le> length (c # cs)" using find_gga_bound [OF Cons.prems] by simp
  then have "take 6 ((c # cs) @ ys) = take 6 (c # cs)" by (simp only: take_append) simp
  then show ?case using Cons by (auto split: if_splits)
qed simp

lemma find_nl_append: "find_nl xs = Some q \<Longrightarrow> find_nl (xs @ ys) = Some q"
  by (induction xs arbitrary: q) (auto split: if_splits)

lemma next_block_append: "next_block xs = Some p \<Longrightarrow> next_block (xs @ ys) = Some p"
  by (auto simp: next_block_def find_gga_append find_nl_append split: option.splits
      dest: find_gga_bound)

lemma blocks_append:
  "blocks (xs @ ys) = (fst (blocks xs) @ fst (blocks (snd (blocks xs) @ ys)), snd (blocks (snd (blocks xs) @ ys)))"
proof (induction xs rule: blocks.induct)
  case (1 xs)
  show ?case
  proof (cases "next_block xs")
    case None
    then have "blocks xs = ([], xs)" by (subst blocks.simps) simp
    then show ?thesis by simp
  next
    case (Some p)
    have p: "p \<le> length xs" using next_block_bound [OF Some] by simp
    obtain bs r where b: "blocks (drop p xs) = (bs, r)" by fastforce
    then have x: "blocks xs = (take p xs # bs, r)" using Some by (subst blocks.simps) simp
    have "blocks (drop p xs @ ys) = (bs @ fst (blocks (r @ ys)), snd (blocks (r @ ys)))"
      using "1.IH" [OF Some] b by simp
    then have "blocks (xs @ ys) = (take p xs # bs @ fst (blocks (r @ ys)), snd (blocks (r @ ys)))"
      using next_block_append [OF Some, of ys] p by (subst blocks.simps) simp
    with x show ?thesis by simp
  qed
qed

lemma blocks_rest: "next_block (snd (blocks xs)) = None"
proof (induction xs rule: blocks.induct)
  case (1 xs)
  then show ?case
    by (cases "next_block xs") (auto simp: blocks.simps [of xs] split: prod.splits)
qed

subsection \<open>The searches of the code find the blocks\<close>

lemma zero_not_in_mark: "0 \<notin> set GPGGA"
  by (simp add: GPGGA_def)

lemma take_mark_zeros:
  "0 \<notin> set xs \<Longrightarrow> take 6 (xs @ 0 # zs) = GPGGA \<longleftrightarrow> take 6 xs = GPGGA"
proof (cases "6 \<le> length xs")
  case False
  assume "0 \<notin> set xs"
  have "take 6 xs \<noteq> GPGGA" using False by (auto simp: GPGGA_def dest: arg_cong [of _ _ length])
  moreover have "0 \<in> set (take 6 (xs @ 0 # zs))"
    using False by (auto simp: take_Cons' not_le)
  then have "take 6 (xs @ 0 # zs) \<noteq> GPGGA" by (metis zero_not_in_mark)
  ultimately show ?thesis by simp
qed simp

lemma strstr_find_gga:
  "0 \<notin> set xs \<Longrightarrow> strstr_from i (xs @ 0 # zs) GPGGA = Some (map_option (\<lambda>d. i + d) (find_gga xs))"
proof (induction xs arbitrary: i)
  case (Cons c cs)
  have "take 6 ((c # cs) @ 0 # zs) = GPGGA \<longleftrightarrow> take 6 (c # cs) = GPGGA"
    by (rule take_mark_zeros) (use Cons.prems in simp)
  moreover have "length GPGGA = 6" by (simp add: GPGGA_def)
  ultimately show ?case
    using Cons by (cases "find_gga cs") auto
qed (simp add: GPGGA_def)

lemma strnchr_find_nl:
  "strnchr_from i (xs @ zs) 10 (length xs) = Some (map_option (\<lambda>q. i + q) (find_nl xs))"
proof (induction xs arbitrary: i)
  case (Cons c cs)
  then show ?case by (cases "find_nl cs") auto
qed simp

text \<open>The stream holds the text \<open>xs\<close> behind which there are only NULs.\<close>

definition holds :: "byte list \<Rightarrow> gps_stream \<Rightarrow> bool" where
  "holds xs s \<longleftrightarrow>
     0 \<notin> set xs \<and> length xs < GPS_MAX_BUFF_SIZE \<and> pbufferin s + read_size s = length xs \<and>
     buffer s = xs @ replicate (GPS_MAX_BUFF_SIZE - length xs) 0"

lemma find_block_holds:
  assumes "holds xs s"
  shows "find_block s = Some (next_block xs)"
proof -
  obtain k where k: "GPS_MAX_BUFF_SIZE - length xs = Suc k"
    using assms by (cases "GPS_MAX_BUFF_SIZE - length xs") (auto simp: holds_def)
  have f: "strstr_from 0 (buffer s) GPGGA = Some (find_gga xs)"
    using assms strstr_find_gga [of xs 0 "replicate k 0"] by (simp add: holds_def k option.map_ident)
  show ?thesis
  proof (cases "find_gga xs")
    case None
    then show ?thesis by (simp add: find_block_def f next_block_def)
  next
    case (Some d)
    have d: "d \<le> length xs" using find_gga_bound [OF Some] by simp
    have "tools_strnchr (drop d (buffer s)) 10 (pbufferin s + read_size s - d) = Some (find_nl (drop d xs))"
      using assms d strnchr_find_nl [of 0 "drop d xs" "replicate (Suc k) 0"]
      by (simp add: holds_def k tools_strnchr_def option.map_ident)
    then show ?thesis by (simp add: find_block_def f next_block_def Some)
  qed
qed

lemma splite_none:
  assumes "holds xs s" and "next_block xs = None" and "length xs < GPS_MAX_BUFF_SIZE - 1"
  shows "splite_gps_context s =
    Some (None, s\<lparr>pbufferin := length xs, will_read_size := int GPS_MAX_BUFF_SIZE - 1 - int (length xs)\<rparr>)"
  using assms find_block_holds [OF assms(1)]
  by (simp add: splite_gps_context_def holds_def Let_def)

lemma splite_some:
  assumes "holds xs s" and "next_block xs = Some p"
  shows "\<exists>s'. splite_gps_context s = Some (Some (buffer s, p), s') \<and> holds (drop p xs) s'"
proof -
  have p: "0 < p" "p \<le> length xs" using next_block_bound [OF assms(2)] by auto
  have l: "length xs < GPS_MAX_BUFF_SIZE" "pbufferin s + read_size s = length xs"
    and b: "buffer s = xs @ replicate (GPS_MAX_BUFF_SIZE - length xs) 0" and z: "0 \<notin> set xs"
    using assms(1) by (auto simp: holds_def)
  have d: "drop (GPS_MAX_BUFF_SIZE - 1) (buffer s) = [0]"
    using l(1) by (simp add: b GPS_MAX_BUFF_SIZE_def)
  have n: "GPS_MAX_BUFF_SIZE - (length xs - p) = (GPS_MAX_BUFF_SIZE - 1 - (length xs - p)) + 1"
    using l(1) p by simp
  let ?s = "s\<lparr>buffer := take (length xs - p) (drop p (buffer s)) @
      replicate (GPS_MAX_BUFF_SIZE - 1 - (length xs - p)) 0 @ drop (GPS_MAX_BUFF_SIZE - 1) (buffer s),
      read_size := 0, pbufferin := length xs - p,
      will_read_size := int GPS_MAX_BUFF_SIZE - 1 - int (length xs - p)\<rparr>"
  have "buffer ?s = drop p xs @ replicate (GPS_MAX_BUFF_SIZE - (length xs - p)) 0"
    unfolding n replicate_add d using p by (simp add: b)
  moreover have "0 \<notin> set (drop p xs)" using z by (meson in_set_dropD)
  ultimately have "holds (drop p xs) ?s" using p l unfolding holds_def by simp
  moreover have "splite_gps_context s = Some (Some (buffer s, p), ?s)"
    unfolding splite_gps_context_def Let_def find_block_holds [OF assms(1)] assms(2) l(2) by simp
  ultimately show ?thesis by blast
qed

text \<open>The stream between two reads: the text \<open>xs\<close> is kept, \<open>read_size\<close> is stale.\<close>

definition waits :: "byte list \<Rightarrow> gps_stream \<Rightarrow> bool" where
  "waits xs s \<longleftrightarrow>
     0 \<notin> set xs \<and> length xs < GPS_MAX_BUFF_SIZE - 1 \<and> pbufferin s = length xs \<and>
     buffer s = xs @ replicate (GPS_MAX_BUFF_SIZE - length xs) 0"

lemma split_loop_blocks:
  assumes "holds xs s" and "\<And>buf n a. h buf n a = Some (g a (take n buf))"
    and "length (snd (blocks xs)) < GPS_MAX_BUFF_SIZE - 1"
  shows "\<exists>s'. split_loop h s a = Some (s', foldl g a (fst (blocks xs))) \<and> waits (snd (blocks xs)) s'"
  using assms(1,3)
proof (induction xs arbitrary: s a rule: blocks.induct)
  case (1 xs)
  show ?case
  proof (cases "next_block xs")
    case None
    then have b: "blocks xs = ([], xs)" by (subst blocks.simps) simp
    then have "length xs < GPS_MAX_BUFF_SIZE - 1" using "1.prems" by simp
    then show ?thesis
      using splite_none [OF "1.prems"(1) None] "1.prems"(1)
      by (subst split_loop.simps) (simp add: b waits_def holds_def)
  next
    case (Some p)
    have p: "p \<le> length xs" using next_block_bound [OF Some] by simp
    obtain s1 where s1: "splite_gps_context s = Some (Some (buffer s, p), s1)" "holds (drop p xs) s1"
      using splite_some [OF "1.prems"(1) Some] by blast
    obtain bs r where b: "blocks (drop p xs) = (bs, r)" by fastforce
    then have x: "blocks xs = (take p xs # bs, r)" using Some by (subst blocks.simps) simp
    have "h (buffer s) p a = Some (g a (take p xs))"
      using "1.prems"(1) p by (simp add: assms(2) holds_def)
    moreover obtain s2 where "split_loop h s1 (g a (take p xs)) = Some (s2, foldl g (g a (take p xs)) bs)"
      "waits r s2"
      using "1.IH" [OF Some s1(2)] "1.prems"(2) x b by (metis fst_conv snd_conv)
    ultimately show ?thesis
      using s1(1) by (subst split_loop.simps) (simp add: x)
  qed
qed

definition clean :: "byte list \<Rightarrow> byte list" where
  "clean = map (\<lambda>b. if b = 0 then 0x20 else b)"

lemma null2space_clean: "snd (null2space bs) = clean bs"
  by (induction bs) (auto simp: clean_def split: prod.splits)

lemma read_nmea_holds:
  assumes "waits xs s" and "length xs + length bs < GPS_MAX_BUFF_SIZE"
  shows "\<exists>nulls s'. read_nmea bs s = Some (nulls, s') \<and> holds (xs @ clean bs) s'"
proof -
  obtain nulls where n: "null2space bs = (nulls, clean bs)"
    by (metis null2space_clean prod.collapse)
  have "0 \<notin> set (clean bs)" and "length (clean bs) = length bs"
    by (auto simp: clean_def)
  then show ?thesis using assms by (auto simp: read_nmea_def waits_def holds_def n)
qed

subsection \<open>Blocks do not depend on the reads\<close>

text \<open>The reads \<open>cs\<close> behind the text \<open>r\<close> never bring more than the buffer has room for.\<close>

fun fits :: "byte list \<Rightarrow> byte list list \<Rightarrow> bool" where
  "fits r [] \<longleftrightarrow> True"
| "fits r (c # cs) \<longleftrightarrow>
     length r + length c < GPS_MAX_BUFF_SIZE \<and>
     length (snd (blocks (r @ clean c))) < GPS_MAX_BUFF_SIZE - 1 \<and>
     fits (snd (blocks (r @ clean c))) cs"

definition record_block :: "byte list \<Rightarrow> nat \<Rightarrow> byte list list \<Rightarrow> byte list list option" where
  "record_block buf n a = Some (a @ [take n buf])"

lemma gps_thread_frames [frames]:
  "stream (gps_wd_pass t) = stream t" "work (gps_wd_pass t) = work t"
  "stream (gps_check_reads r t) = stream t" "stream (gps_read_ok sms nulls t) = stream t"
  "work (gps_read_ok sms nulls t) = work t" "work (gps_check_reads (\<lambda>a. a) t) = work t"
  by (simp_all add: gps_wd_pass_def gps_check_reads_def gps_read_ok_def gps_sys_def Let_def)

lemma foldl_record: "foldl (\<lambda>a x. a @ [x]) a xs = a @ xs"
  by (induction xs arbitrary: a) simp_all

lemma gps_pass_blocks:
  assumes "waits r (stream t)" and "next_block r = None" and "length r + length c < GPS_MAX_BUFF_SIZE"
    and "length (snd (blocks (r @ clean c))) < GPS_MAX_BUFF_SIZE - 1"
  shows "\<exists>t'. gps_pass record_block (\<lambda>a. a) (\<lambda>_. False) sms c t = Some t' \<and>
    work t' = work t @ fst (blocks (r @ clean c)) \<and> waits (snd (blocks (r @ clean c))) (stream t')"
proof -
  obtain nulls s1 where s1: "read_nmea c (stream t) = Some (nulls, s1)" "holds (r @ clean c) s1"
    using read_nmea_holds [OF assms(1,3)] by blast
  show ?thesis
  proof (cases "c = []")
    case True
    have "blocks r = ([], r)" using assms(2) by (subst blocks.simps) simp
    with True s1(1) assms(1) show ?thesis by (simp add: gps_pass_def Let_def frames clean_def)
  next
    case False
    obtain s2 where "split_loop record_block s1 (work t) =
        Some (s2, foldl (\<lambda>a x. a @ [x]) (work t) (fst (blocks (r @ clean c))))"
      "waits (snd (blocks (r @ clean c))) s2"
      using split_loop_blocks [OF s1(2) _ assms(4), of record_block "\<lambda>a x. a @ [x]" "work t"]
      by (auto simp: record_block_def)
    with False s1(1) show ?thesis by (simp add: gps_pass_def Let_def frames foldl_record)
  qed
qed

lemma gps_passes_blocks:
  assumes "waits r (stream t)" and "next_block r = None" and "fits r cs"
  shows "\<exists>t'. gps_passes record_block (\<lambda>a. a) (\<lambda>_. False) sms cs t = Some t' \<and>
    work t' = work t @ fst (blocks (r @ clean (concat cs)))"
  using assms
proof (induction cs arbitrary: r t)
  case Nil
  then have "blocks r = ([], r)" by (subst blocks.simps) simp
  then show ?case by (simp add: clean_def)
next
  case (Cons c cs)
  let ?r = "snd (blocks (r @ clean c))"
  obtain t1 where t1: "gps_pass record_block (\<lambda>a. a) (\<lambda>_. False) sms c t = Some t1"
    "work t1 = work t @ fst (blocks (r @ clean c))" "waits ?r (stream t1)"
    using gps_pass_blocks [of r t c sms] Cons.prems by auto
  have n: "next_block ?r = None" by (rule blocks_rest)
  have fits_rest: "fits ?r cs" using Cons.prems(3) by simp
  obtain t2 where "gps_passes record_block (\<lambda>a. a) (\<lambda>_. False) sms cs t1 = Some t2"
    "work t2 = work t1 @ fst (blocks (?r @ clean (concat cs)))"
    using Cons.IH [OF t1(3) n fits_rest] by blast
  then show ?case
    using t1 blocks_append [of "r @ clean c" "clean (concat cs)"]
    by (simp add: clean_def)
qed

lemma waits_init: "waits [] gps_stream_init"
  by (simp add: waits_def gps_stream_init_def GPS_MAX_BUFF_SIZE_def)

text \<open>
  C25: however the daemon's stream is cut into reads that fit the buffer, failed reads among them,
  the blocks given to the parser are the blocks of the whole text (NULs read as spaces): each ends
  with the line of its first \<open>$GPGGA\<close>, none is lost, none is given twice.
\<close>

theorem gps_blocks_independent_of_reads:
  assumes "fits [] cs"
  shows "\<exists>t. gps_passes record_block (\<lambda>a. a) (\<lambda>_. False) sms cs (gps_thread_init []) = Some t \<and>
    work t = fst (blocks (clean (concat cs)))"
proof -
  have "waits [] (stream (gps_thread_init ([] :: byte list list)))"
    by (simp add: gps_thread_init_def waits_init)
  moreover have "next_block [] = None" by (simp add: next_block_def)
  ultimately show ?thesis
    using gps_passes_blocks [of "[]" "gps_thread_init []" cs sms] assms
    by (simp add: gps_thread_init_def)
qed

lemma gps_blocks_independent_of_reads_witness:
  "\<exists>t. gps_passes record_block (\<lambda>a. a) (\<lambda>_. False) True
     [[36, 71, 80], [], [71, 71, 65, 44, 0], [10, 36, 71, 80, 71, 71, 65, 10, 65]] (gps_thread_init []) = Some t \<and>
    work t = fst (blocks (clean (concat [[36, 71, 80], [], [71, 71, 65, 44, 0], [10, 36, 71, 80, 71, 71, 65, 10, 65]])))"
  by (rule gps_blocks_independent_of_reads)
     (simp add: clean_def blocks.simps next_block_def GPGGA_def GPS_MAX_BUFF_SIZE_def)

text \<open>
  The size given to the daemon's library ignores what is already in the buffer: after a read
  that completes no block, a read within that size can write beyond the end of the buffer.
\<close>

theorem gps_read_can_overflow:
  assumes "next_block (clean c) = None" and "c \<noteq> []" and "length c < GPS_MAX_BUFF_SIZE - 1"
    and "length c2 \<le> GPS_MAX_BUFF_SIZE" and "GPS_MAX_BUFF_SIZE < length c + length c2"
  shows "gps_passes record_block (\<lambda>a. a) (\<lambda>_. False) sms [c, c2] (gps_thread_init []) = None"
proof -
  have n: "next_block [] = None" by (simp add: next_block_def)
  have b: "blocks (clean c) = ([], clean c)" using assms(1) by (subst blocks.simps) simp
  have l: "length (clean c) = length c" by (simp add: clean_def)
  obtain t where t: "gps_pass record_block (\<lambda>a. a) (\<lambda>_. False) sms c (gps_thread_init []) = Some t"
    "waits (clean c) (stream t)"
    using gps_pass_blocks [of "[]" "gps_thread_init []" c sms] n b l assms(3)
    by (auto simp: gps_thread_init_def waits_init GPS_MAX_BUFF_SIZE_def)
  have "length (buffer (stream t)) = GPS_MAX_BUFF_SIZE" and "pbufferin (stream t) = length c"
    using t(2) l by (auto simp: waits_def)
  then have "read_nmea c2 (stream t) = None" using assms(5) by (simp add: read_nmea_def)
  then show ?thesis using t(1) by (simp add: gps_pass_def)
qed

lemma gps_read_can_overflow_witness:
  "gps_passes record_block (\<lambda>a. a) (\<lambda>_. False) True [[65], replicate 2048 66] (gps_thread_init []) = None"
  by (rule gps_read_can_overflow)
     (simp_all add: next_block_def clean_def GPGGA_def GPS_MAX_BUFF_SIZE_def)

subsection \<open>A silent daemon\<close>

definition gpsd_commands :: "'a gps_thread \<Rightarrow> gps_act list" where
  "gpsd_commands t = filter (\<lambda>a. a = Reset_gpsd \<or> a = Kill_gpsd) (sys t)"

lemma gps_passes_append:
  "gps_passes h r off sms (cs @ ds) t =
     (case gps_passes h r off sms cs t of None \<Rightarrow> None | Some t' \<Rightarrow> gps_passes h r off sms ds t')"
  by (induction cs arbitrary: t) (auto split: option.splits)

text \<open>What a failed read does to the counters: \<open>e1\<close>, \<open>e2\<close>, the limit \<open>c\<close> and the commands.\<close>

definition silent :: "int \<Rightarrow> int \<Rightarrow> int \<Rightarrow> gps_act list \<Rightarrow> 'a gps_thread \<Rightarrow> bool" where
  "silent e1 e2 c xs t \<longleftrightarrow> udp_gpsd_err_cnt1 t = e1 \<and> udp_gpsd_err_cnt2 t = e2 \<and>
     udp_gpsd_err_chk_cnt1 t = c \<and> gpsd_commands t = xs \<and>
     pbufferin (stream t) \<le> length (buffer (stream t))"

lemma failed_read:
  assumes "silent e1 e2 c xs t"
  shows "\<exists>t'. gps_pass h r (\<lambda>_. False) sms [] t = Some t' \<and>
    (if e1 \<le> c then (if e2 \<le> 3 then silent (e1 + 1) e2 c xs t' else silent 1 0 60 (xs @ [Kill_gpsd]) t')
     else if e2 + 1 \<le> 3 then silent 1 (e2 + 1) 15 (xs @ [Reset_gpsd]) t'
     else silent 1 0 60 (xs @ [Reset_gpsd, Kill_gpsd]) t')"
  using assms
  by (auto simp: silent_def gps_pass_def read_nmea_def gps_wd_pass_def gps_check_reads_def gps_sys_def
      gpsd_commands_def Let_def GPS_MAX_BUFF_SIZE_def MAX_UDP_GPSD_MAX_ERR_2_CNT_def
      MAX_UDP_GPSD_MAX_ERR_1_CNT_def)

lemma failed_reads_quiet:
  assumes "silent e1 e2 c xs t" and "e2 \<le> 3" and "e1 + int n \<le> c + 1"
  shows "\<exists>t'. gps_passes h r (\<lambda>_. False) sms (replicate n []) t = Some t' \<and> silent (e1 + int n) e2 c xs t'"
  using assms(1,3)
proof (induction n arbitrary: t e1)
  case (Suc n)
  obtain t1 where t1: "gps_pass h r (\<lambda>_. False) sms [] t = Some t1" "silent (e1 + 1) e2 c xs t1"
    using failed_read [OF Suc.prems(1), where h = h and r = r and sms = sms] assms(2) Suc.prems(2) by (auto split: if_splits)
  then obtain t2 where "gps_passes h r (\<lambda>_. False) sms (replicate n []) t1 = Some t2"
    "silent (e1 + 1 + int n) e2 c xs t2"
    using Suc.IH [OF t1(2)] Suc.prems(2) by auto
  then show ?case using t1(1) by (simp add: add.assoc)
qed simp

text \<open>From the first failed read after a reset to the next reset: fifteen quiet reads and one.\<close>

lemma failed_reads_reset:
  assumes "silent e1 e2 c xs t" and "e2 < 3" and "int n = c + 1 - e1"
  shows "\<exists>t'. gps_passes h r (\<lambda>_. False) sms (replicate (Suc n) []) t = Some t' \<and>
    silent 1 (e2 + 1) 15 (xs @ [Reset_gpsd]) t'"
proof -
  obtain t1 where t1: "gps_passes h r (\<lambda>_. False) sms (replicate n []) t = Some t1" "silent (e1 + int n) e2 c xs t1"
    using failed_reads_quiet [OF assms(1), where h = h and r = r and sms = sms and n = n] assms(2,3) by auto
  have "e1 + int n = c + 1" using assms(3) by simp
  then obtain t2 where "gps_pass h r (\<lambda>_. False) sms [] t1 = Some t2" "silent 1 (e2 + 1) 15 (xs @ [Reset_gpsd]) t2"
    using failed_read [OF t1(2), where h = h and r = r and sms = sms] assms(2) by auto
  then show ?thesis
    using t1(1) gps_passes_append [of h r "\<lambda>_. False" sms "replicate n []" "[[]]" t]
    by (simp add: replicate_append_same)
qed

lemma silent_mono: "silent e1 e2 c xs t \<Longrightarrow> gpsd_commands t = xs"
  by (simp add: silent_def)

text \<open>
  When the daemon stops answering, the thread does something about it: counted from the last
  good read, the 17th, 33rd and 49th failed read in a row reset the daemon, and the 65th resets it a
  fourth time and kills it; nothing is reset before the 17th or between.
\<close>

theorem silent_daemon_is_killed:
  assumes "silent 0 0 15 xs t"
  shows "\<exists>t16 t64 t65.
    gps_passes h r (\<lambda>_. False) sms (replicate 16 []) t = Some t16 \<and> gpsd_commands t16 = xs \<and>
    gps_passes h r (\<lambda>_. False) sms (replicate 64 []) t = Some t64 \<and>
      gpsd_commands t64 = xs @ [Reset_gpsd, Reset_gpsd, Reset_gpsd] \<and>
    gps_passes h r (\<lambda>_. False) sms (replicate 65 []) t = Some t65 \<and>
      gpsd_commands t65 = xs @ [Reset_gpsd, Reset_gpsd, Reset_gpsd, Reset_gpsd, Kill_gpsd]"
proof -
  let ?run = "gps_passes h r (\<lambda>_. False) sms"
  have run: "?run (replicate (m + n) []) t0 = (case ?run (replicate m []) t0 of None \<Rightarrow> None
      | Some t' \<Rightarrow> ?run (replicate n []) t')" for m n t0
    by (simp add: replicate_add gps_passes_append)
  obtain t16 where t16: "?run (replicate 16 []) t = Some t16" "silent 16 0 15 xs t16"
    using failed_reads_quiet [OF assms, where n = 16 and h = h and r = r and sms = sms] by auto
  obtain t17 where t17: "?run (replicate (Suc 16) []) t = Some t17" "silent 1 1 15 (xs @ [Reset_gpsd]) t17"
    using failed_reads_reset [OF assms, where n = 16 and h = h and r = r and sms = sms] by auto
  obtain t33 where t33: "?run (replicate (Suc 15) []) t17 = Some t33"
    "silent 1 2 15 (xs @ [Reset_gpsd, Reset_gpsd]) t33"
    using failed_reads_reset [OF t17(2), where n = 15 and h = h and r = r and sms = sms] by auto
  obtain t49 where t49: "?run (replicate (Suc 15) []) t33 = Some t49"
    "silent 1 3 15 (xs @ [Reset_gpsd, Reset_gpsd, Reset_gpsd]) t49"
    using failed_reads_reset [OF t33(2), where n = 15 and h = h and r = r and sms = sms] by auto
  obtain t64 where t64: "?run (replicate 15 []) t49 = Some t64"
    "silent 16 3 15 (xs @ [Reset_gpsd, Reset_gpsd, Reset_gpsd]) t64"
    using failed_reads_quiet [OF t49(2), where n = 15 and h = h and r = r and sms = sms] by auto
  obtain t65 where t65: "gps_pass h r (\<lambda>_. False) sms [] t64 = Some t65"
    "silent 1 0 60 (xs @ [Reset_gpsd, Reset_gpsd, Reset_gpsd, Reset_gpsd, Kill_gpsd]) t65"
    using failed_read [OF t64(2), where h = h and r = r and sms = sms] by auto
  have r64: "?run (replicate 64 []) t = Some t64"
    using run [of "Suc 16" 47 t] run [of "Suc 15" 31 t17] run [of "Suc 15" 15 t33] t17(1) t33(1) t49(1) t64(1)
    by simp
  moreover have "?run (replicate 65 []) t = Some t65"
    using run [of 64 1 t] r64 t65(1) by simp
  ultimately show ?thesis using t16 t64(2) t65(2) by (metis silent_mono)
qed

lemma silent_daemon_is_killed_witness:
  "\<exists>t16 t64 t65.
    gps_passes record_block (\<lambda>a. a) (\<lambda>_. False) True (replicate 16 []) (gps_thread_init []) = Some t16 \<and>
      gpsd_commands t16 = [] \<and>
    gps_passes record_block (\<lambda>a. a) (\<lambda>_. False) True (replicate 64 []) (gps_thread_init []) = Some t64 \<and>
      gpsd_commands t64 = [] @ [Reset_gpsd, Reset_gpsd, Reset_gpsd] \<and>
    gps_passes record_block (\<lambda>a. a) (\<lambda>_. False) True (replicate 65 []) (gps_thread_init []) = Some t65 \<and>
      gpsd_commands t65 = [] @ [Reset_gpsd, Reset_gpsd, Reset_gpsd, Reset_gpsd, Kill_gpsd]"
  by (rule silent_daemon_is_killed)
     (simp add: silent_def gps_thread_init_def gps_stream_init_def gpsd_commands_def
       MAX_UDP_GPSD_MAX_ERR_1_CNT_def)

end
