(* ===== verification/CText.thy ===== *)
theory CText
  imports Posix
begin

text \<open>
  Decimal numbers in C strings: what \<open>sprintf("%d")\<close> writes and \<open>atoi\<close> reads, and that the second
  undoes the first. \<open>atoi\<close> is applied to the characters before the NUL and to numbers an \<open>int\<close> can
  hold.
\<close>

subsection \<open>Writing and reading\<close>

function dec_digits :: "nat \<Rightarrow> byte list" where
  "dec_digits n = (if n < 10 then [of_nat (48 + n)] else dec_digits (n div 10) @ [of_nat (48 + n mod 10)])"
  by pat_completeness auto
termination by (relation "measure id") auto

declare dec_digits.simps [simp del]

definition sprintf_d :: "int \<Rightarrow> byte list" where
  "sprintf_d n = (if n < 0 then 45 # dec_digits (nat (- n)) else dec_digits (nat n))"

definition is_dec :: "byte \<Rightarrow> bool" where
  "is_dec c \<longleftrightarrow> 48 \<le> c \<and> c \<le> 57"

definition atoi :: "byte list \<Rightarrow> int" where
  "atoi t =
     (let t1 = dropWhile (\<lambda>c. c = 32 \<or> 9 \<le> c \<and> c \<le> 13) t;
          t2 = (if t1 \<noteq> [] \<and> hd t1 \<in> {43, 45} then tl t1 else t1);
          v = foldl (\<lambda>v d. 10 * v + (uint d - 48)) 0 (takeWhile is_dec t2)
      in if t1 \<noteq> [] \<and> hd t1 = 45 then - v else v)"

subsection \<open>Reading back what was written\<close>

lemma digit_byte:
  "d < 10 \<Longrightarrow> is_dec (of_nat (48 + d)) \<and> uint (of_nat (48 + d) :: byte) = int d + 48 \<and>
   (of_nat (48 + d) :: byte) \<notin> {43, 45, 32} \<and> \<not> (of_nat (48 + d) :: byte) \<le> 13"
proof -
  assume "d < 10"
  then have "d \<in> {0, 1, 2, 3, 4, 5, 6, 7, 8, 9}" by auto
  then show ?thesis by (auto simp: is_dec_def)
qed

lemma dec_digits_read:
  "list_all is_dec (dec_digits n) \<and> dec_digits n \<noteq> [] \<and> hd (dec_digits n) \<notin> {43, 45, 32} \<and>
   \<not> hd (dec_digits n) \<le> 13 \<and> foldl (\<lambda>v d. 10 * v + (uint d - 48)) 0 (dec_digits n) = int n"
proof (induction n rule: dec_digits.induct)
  case (1 n)
  show ?case
  proof (cases "n < 10")
    case True
    then show ?thesis using digit_byte [OF True] by (simp add: dec_digits.simps)
  next
    case False
    have "n mod 10 < 10" by simp
    note m = digit_byte [OF this] and IH = "1.IH" [OF False]
    have d: "dec_digits n = dec_digits (n div 10) @ [of_nat (48 + n mod 10)]"
      using False by (subst dec_digits.simps) simp
    have "10 * int (n div 10) + int (n mod 10) = int n"
      by (metis mult_div_mod_eq of_nat_add of_nat_mult of_nat_numeral)
    then show ?thesis unfolding d using m IH by (simp add: hd_append)
  qed
qed

lemma atoi_sprintf: "0 \<le> n \<Longrightarrow> atoi (sprintf_d n) = n"
proof -
  assume n: "0 \<le> n"
  let ?t = "dec_digits (nat n)"
  note r = dec_digits_read [of "nat n"]
  have dw: "dropWhile (\<lambda>c. c = 32 \<or> 9 \<le> c \<and> c \<le> 13) ?t = ?t"
    using r by (cases ?t) auto
  have tw: "takeWhile is_dec ?t = ?t" using r by (simp add: list_all_iff takeWhile_eq_all_conv)
  show ?thesis using n r by (simp add: atoi_def sprintf_d_def Let_def dw tw)
qed

text \<open>A number read from text in which digits stand first.\<close>

lemma atoi_digits:
  assumes "ds \<noteq> []" and "list_all is_dec ds" and "rest = [] \<or> \<not> is_dec (hd rest)"
  shows "atoi (ds @ rest) = foldl (\<lambda>v d. 10 * v + (uint d - 48)) 0 ds"
proof -
  obtain d ds' where ds: "ds = d # ds'" using assms(1) by (cases ds) auto
  with assms(2) have d: "48 \<le> d" "d \<le> 57" by (simp_all add: is_dec_def)
  then have nd: "\<not> d \<le> 13" "d \<noteq> 32" "d \<noteq> 43" "d \<noteq> 45"
    by (auto simp: word_le_nat_alt)
  have tw: "takeWhile is_dec (ds @ rest) = ds"
    using assms(2,3) by (cases rest) (auto simp: list_all_iff takeWhile_append)
  show ?thesis using ds nd tw by (simp add: atoi_def Let_def)
qed

end
