(* ===== verification/NetThread.thy ===== *)
theory NetThread
  imports Sender Watchdog Dmmgr CText
begin

text \<open>
  \<open>base/thread-network.c\<close> with its constants in \<open>base/thread.h\<close>: the thread waits for the network
  once per second and reboots the device after too many failures, counting the reboots in a file;
  then it drives the watchdog, the run-time check of the network, the alive message and the sending
  of packets. What a second or a pass meets (network interface, modem registration, clocks, the
  result of \<open>select\<close>, the device-management server) is a record. The build is the one without KT
  FOTA and with a network; the calls of the rest of the program are recorded in order.
\<close>

definition DEFAULT_NETWORK_FAIL_RESET_CNT_1 :: int where "DEFAULT_NETWORK_FAIL_RESET_CNT_1 = 60 * 10"
definition DEFAULT_NETWORK_FAIL_RESET_CNT_2 :: int where "DEFAULT_NETWORK_FAIL_RESET_CNT_2 = 60"
definition DEFAULT_NETWORK_FAIL_RESET_CNT_3 :: int where "DEFAULT_NETWORK_FAIL_RESET_CNT_3 = 4"
definition WARN_PIPE_ERROR_TIME :: int where "WARN_PIPE_ERROR_TIME = 1 * 3600"

datatype net_act = Utc_adjust | Save_bootstrap | Log_fail_count int | Network_on | Emergency_reset |
  Net_poweroff | Net_warn int | Select_exit | Select_log

datatype net_phase = Waiting | Running | Powered_off | Updating

record net_thread =
  phase :: net_phase
  wdog :: wd
  dm :: dmmgr
  snd_state :: sender
  warn_timeout_sec :: int
  warn_prev_send_time :: int
  max_network_fail_reset_cnt :: int
  saved_network_fail_cnt :: int
  first_network_conn_flag :: bool
  network_fail_cnt :: int
  run_cnt :: int
  runtime_fail_cnt :: int
  last_cycle :: int
  triger_empty :: bool
  triger2_empty :: bool
  fail_file :: "byte list option"
  fail_write :: "byte list \<Rightarrow> byte list option \<Rightarrow> byte list option"
  net_acts :: "net_act list"

definition net_does :: "net_act list \<Rightarrow> net_thread \<Rightarrow> net_thread" where
  "net_does xs s = s\<lparr>net_acts := net_acts s @ xs\<rparr>"

subsection \<open>The count of reboots\<close>

text \<open>
  \<open>mds_api_read_data\<close> and \<open>mds_api_write_data\<close> of the library read and replace the file; what a write
  makes of the file is the parameter \<open>fail_write\<close>, for its result is not looked at. The buffer of the
  count has room for every number.
\<close>

definition get_net_conn_fail_cnt :: "byte list option \<Rightarrow> int" where
  "get_net_conn_fail_cnt file =
     (case file of
        None \<Rightarrow> 0
      | Some t \<Rightarrow> if t = [] then 0 else atoi t)"

definition set_net_conn_fail_cnt :: "int \<Rightarrow> net_thread \<Rightarrow> net_thread" where
  "set_net_conn_fail_cnt cnt s = s\<lparr>fail_file := fail_write s (sprintf_d cnt) (fail_file s)\<rparr>"

subsection \<open>Registration and settings\<close>

text \<open>
  \<open>registered\<close>: the states of the modem that count as registered (an enumeration of the AT
  library). The second component is the static call counter. A failed query leaves the state at 0.
\<close>

definition chk_network_regi :: "(int \<Rightarrow> bool) \<Rightarrow> int \<Rightarrow> int option \<Rightarrow> int \<Rightarrow> bool \<times> int" where
  "chk_network_regi registered chk_interval stat run =
     (if run mod chk_interval \<noteq> 0 then (True, run + 1)
      else (registered (case stat of None \<Rightarrow> 0 | Some n \<Rightarrow> n), run + 1))"

definition thread_network_set_warn_timeout :: "int \<Rightarrow> net_thread \<Rightarrow> net_thread" where
  "thread_network_set_warn_timeout time s =
     s\<lparr>warn_timeout_sec := (if time = 0 then 0 else if time < 60 then 60 else time)\<rparr>"

definition set_max_network_fail_reset_cnt :: "int \<Rightarrow> net_thread \<Rightarrow> net_thread" where
  "set_max_network_fail_reset_cnt cnt s = s\<lparr>max_network_fail_reset_cnt := cnt\<rparr>"

text \<open>\<open>nettool_get_state() == OK && chk_network_regi(1) == OK\<close>\<close>

definition net_check :: "(int \<Rightarrow> bool) \<Rightarrow> bool \<Rightarrow> int option \<Rightarrow> net_thread \<Rightarrow> bool \<times> net_thread" where
  "net_check registered up stat s =
     (if \<not> up then (False, s)
      else
        (let (ok, run) = chk_network_regi registered 1 stat (run_cnt s)
         in (ok, s\<lparr>run_cnt := run\<rparr>)))"

text \<open>The reboot for want of a network; \<open>poweroff\<close> does not return.\<close>

definition net_reboot :: "net_thread \<Rightarrow> net_thread" where
  "net_reboot s =
     (let s1 = s\<lparr>saved_network_fail_cnt := saved_network_fail_cnt s + 1\<rparr>;
          s2 = set_net_conn_fail_cnt (saved_network_fail_cnt s1) s1
      in (net_does [Emergency_reset, Net_poweroff] s2)\<lparr>phase := Powered_off\<rparr>)"

subsection \<open>Waiting for the network\<close>

record net_sec =
  if_up :: bool
  netstat :: "int option"
  late_env :: "dmEventType \<Rightarrow> dm_env"
  update_env :: dm_env
  sec_ktime :: int

text \<open>The second in which the network is there: late events, the update request, the callback.\<close>

definition net_connect :: "configurationBase \<Rightarrow> net_sec \<Rightarrow> net_thread \<Rightarrow> net_thread" where
  "net_connect conf e s =
     (let s1 = net_does [Utc_adjust] s;
          (returned, d) = dmmgr_send_incomplete_event (webdm conf) (if_up e) (late_env e) (dm s1);
          s2 = s1\<lparr>dm := d\<rparr>
      in if \<not> returned then s2\<lparr>phase := Updating\<rparr>
         else
           (let (r, d2) = (if dmmgr_sended_key_on d = 0
                           then dmmgr_send (webdm conf) (update_env e) eEVENT_UPDATE None 0 d
                           else (Some DM_EV_RESP_OK, d));
                s3 = s2\<lparr>dm := d2\<rparr>
            in if r = None then s3\<lparr>phase := Updating\<rparr>
               else
                 (let s4 = (if bootstrap (common conf) = 1 then net_does [Save_bootstrap] s3 else s3);
                      s5 = (if saved_network_fail_cnt s4 > 0
                            then (set_net_conn_fail_cnt 0 (net_does [Log_fail_count (saved_network_fail_cnt s4)] s4))
                              \<lparr>saved_network_fail_cnt := 0\<rparr>
                            else s4)
                  in (net_does [Network_on] s5)
                       \<lparr>phase := Running, warn_prev_send_time := sec_ktime e,
                        first_network_conn_flag := True\<rparr>)))"

definition net_wait_second :: "(int \<Rightarrow> bool) \<Rightarrow> configurationBase \<Rightarrow> net_sec \<Rightarrow> net_thread \<Rightarrow> net_thread" where
  "net_wait_second registered conf e s =
     (if phase s \<noteq> Waiting then s
      else
        (let (ok, s0) = net_check registered (if_up e) (netstat e) s in
         if ok then net_connect conf e s0
         else
           (let s1 = s0\<lparr>network_fail_cnt := network_fail_cnt s0 + 1\<rparr> in
            if max_network_fail_reset_cnt s1 > 0 then
              (let s2 = (if saved_network_fail_cnt s1 < 8
                         then s1\<lparr>max_network_fail_reset_cnt := DEFAULT_NETWORK_FAIL_RESET_CNT_2\<rparr> else s1)
               in if network_fail_cnt s2 > max_network_fail_reset_cnt s2 then net_reboot s2 else s2)
            else s1)))"

text \<open>The start of the thread in a process: the count is read from the file.\<close>

definition net_boot :: "int \<Rightarrow> wd \<Rightarrow> dmmgr \<Rightarrow> sender \<Rightarrow>
    (byte list \<Rightarrow> byte list option \<Rightarrow> byte list option) \<Rightarrow> byte list option \<Rightarrow> net_thread" where
  "net_boot max_cnt w d snd0 wr file =
     \<lparr>phase = Waiting, wdog = w, dm = d, snd_state = snd0, warn_timeout_sec = WARN_PIPE_ERROR_TIME,
      warn_prev_send_time = 0, max_network_fail_reset_cnt = max_cnt,
      saved_network_fail_cnt = get_net_conn_fail_cnt file, first_network_conn_flag = False,
      network_fail_cnt = 0, run_cnt = 0, runtime_fail_cnt = 0, last_cycle = 0, triger_empty = False,
      triger2_empty = False, fail_file = file, fail_write = wr, net_acts = []\<rparr>"

definition net_wait :: "(int \<Rightarrow> bool) \<Rightarrow> configurationBase \<Rightarrow> net_sec list \<Rightarrow> net_thread \<Rightarrow> net_thread" where
  "net_wait registered conf es s = fold (net_wait_second registered conf) es s"

subsection \<open>Running\<close>

definition chk_runtime_network_chk :: "(int \<Rightarrow> bool) \<Rightarrow> int \<Rightarrow> bool \<Rightarrow> int option \<Rightarrow> net_thread \<Rightarrow> net_thread" where
  "chk_runtime_network_chk registered cur_time up stat s =
     (if \<not> first_network_conn_flag s then s\<lparr>runtime_fail_cnt := 0\<rparr>
      else if cur_time = 0 then s
      else if last_cycle s = 0 then s\<lparr>last_cycle := cur_time\<rparr>
      else if cur_time < last_cycle s then s\<lparr>last_cycle := cur_time\<rparr>
      else if cur_time - last_cycle s < 30 then s
      else
        (let (ok, s1) = net_check registered up stat (s\<lparr>last_cycle := cur_time\<rparr>) in
         if ok then s1\<lparr>runtime_fail_cnt := 0\<rparr>
         else
           (let s2 = s1\<lparr>runtime_fail_cnt := runtime_fail_cnt s1 + 1\<rparr> in
            if max_network_fail_reset_cnt s2 > 0 \<and>
               runtime_fail_cnt s2 \<ge> DEFAULT_NETWORK_FAIL_RESET_CNT_3
            then net_reboot s2 else s2)))"

text \<open>\<open>ready\<close> is the result of \<open>select\<close>, \<open>send_ret\<close> that of the model's \<open>send_packet\<close>.\<close>

record net_pass_in =
  wall :: int
  ktime :: int
  pass_up :: bool
  pass_netstat :: "int option"
  alive_env :: dm_env
  wd_status :: "(string \<times> dm_env) option"
  ready :: int
  eintr :: bool
  send_ret :: int

definition net_select :: "net_pass_in \<Rightarrow> net_thread \<Rightarrow> net_thread option" where
  "net_select i s =
     (if ready i < 0 then Some (net_does [if eintr i then Select_log else Select_exit] s)
      else if ready i > 0 then
        map_option (\<lambda>(r, d). s\<lparr>warn_prev_send_time := ktime i, snd_state := d\<rparr>)
          (sender_network_process ePIPE_1 True (send_ret i) (snd_state s))
      else
        (let s1 = s\<lparr>triger_empty := True\<rparr> in
         if warn_timeout_sec s1 = 0 then Some s1
         else if ktime i = 0 then Some s1
         else if ktime i - warn_prev_send_time s1 \<ge> warn_timeout_sec s1
         then Some ((net_does [Net_warn (warn_timeout_sec s1)] s1)\<lparr>warn_prev_send_time := ktime i\<rparr>)
         else Some s1))"

definition net_pass :: "(int \<Rightarrow> bool) \<Rightarrow> configurationBase \<Rightarrow> net_pass_in \<Rightarrow> net_thread \<Rightarrow> net_thread option" where
  "net_pass registered conf i s =
     (if phase s \<noteq> Running then Some s
      else
        (let s1 = s\<lparr>wdog := watchdog_process (ktime i) (snd (watchdog_set_cur_ktime eWdNet1 (ktime i) (wdog s)))\<rparr>
         in if wd_poweroff (wdog s1) then Some (s1\<lparr>phase := Powered_off\<rparr>)
            else
              (let s2 = chk_runtime_network_chk registered (wall i) (pass_up i) (pass_netstat i) s1
               in if phase s2 = Powered_off then Some s2
                  else
                    (let (r, d) = dmmgr_alive_send (webdm conf) (ktime i) (alive_env i) (wd_status i) (dm s2)
                     in if r = None then Some (s2\<lparr>dm := d, phase := Updating\<rparr>)
                        else net_select i (s2\<lparr>dm := d\<rparr>)))))"

text \<open>The second network thread, which only drives the watchdog and the second pipe.\<close>

definition net2_pass :: "net_pass_in \<Rightarrow> net_thread \<Rightarrow> net_thread option" where
  "net2_pass i s =
     (let s1 = s\<lparr>wdog := watchdog_process (ktime i) (snd (watchdog_set_cur_ktime eWdNet2 (ktime i) (wdog s)))\<rparr>
      in if wd_poweroff (wdog s1) then Some (s1\<lparr>phase := Powered_off\<rparr>)
         else if ready i < 0 then Some (if eintr i then s1 else net_does [Select_exit] s1)
         else if ready i > 0 then
           map_option (\<lambda>(r, d). s1\<lparr>snd_state := d\<rparr>)
             (sender_network_process ePIPE_2 True (send_ret i) (snd_state s1))
         else Some (s1\<lparr>triger2_empty := True\<rparr>))"

subsection \<open>The count is read back\<close>

lemma fail_cnt_roundtrip: "0 \<le> n \<Longrightarrow> get_net_conn_fail_cnt (Some (sprintf_d n)) = n"
proof -
  assume "0 \<le> n"
  moreover have "sprintf_d n \<noteq> []" using dec_digits_read [of "nat n"] \<open>0 \<le> n\<close> by (simp add: sprintf_d_def)
  ultimately show ?thesis
    by (simp add: get_net_conn_fail_cnt_def atoi_sprintf)
qed

subsection \<open>An outage at the start\<close>

definition sec_down :: "(int \<Rightarrow> bool) \<Rightarrow> net_sec \<Rightarrow> bool" where
  "sec_down registered e \<longleftrightarrow>
     \<not> if_up e \<or> \<not> registered (case netstat e of None \<Rightarrow> 0 | Some n \<Rightarrow> n)"

text \<open>What the seconds without a network change, and how many of them a process waits for.\<close>

definition out_for :: "int \<Rightarrow> int \<Rightarrow> int \<Rightarrow> (byte list \<Rightarrow> byte list option \<Rightarrow> byte list option) \<Rightarrow>
    byte list option \<Rightarrow> net_thread \<Rightarrow> bool" where
  "out_for n k mx wr file s \<longleftrightarrow> fail_write s = wr \<and> phase s = Waiting \<and> network_fail_cnt s = n \<and>
     saved_network_fail_cnt s = k \<and> fail_file s = file \<and> max_network_fail_reset_cnt s > 0 \<and>
     (k < 8 \<or> max_network_fail_reset_cnt s = mx)"

definition outage_limit :: "int \<Rightarrow> int \<Rightarrow> int" where
  "outage_limit k mx = (if k < 8 then DEFAULT_NETWORK_FAIL_RESET_CNT_2 else mx)"

lemma net_check_down:
  "sec_down registered e \<Longrightarrow> \<exists>r. net_check registered (if_up e) (netstat e) s = (False, s\<lparr>run_cnt := r\<rparr>)"
  by (cases "if_up e") (auto simp: sec_down_def net_check_def chk_network_regi_def intro: exI [of _ "run_cnt s"])

lemma net_second_down:
  assumes "out_for n k mx wr file s" and "sec_down registered e"
  shows "if n + 1 > outage_limit k mx
    then phase (net_wait_second registered conf e s) = Powered_off \<and>
      fail_file (net_wait_second registered conf e s) = wr (sprintf_d (k + 1)) file \<and>
      net_acts (net_wait_second registered conf e s) = net_acts s @ [Emergency_reset, Net_poweroff]
    else out_for (n + 1) k mx wr file (net_wait_second registered conf e s) \<and>
      net_acts (net_wait_second registered conf e s) = net_acts s"
proof -
  obtain r where r: "net_check registered (if_up e) (netstat e) s = (False, s\<lparr>run_cnt := r\<rparr>)"
    using net_check_down [OF assms(2)] by blast
  show ?thesis
    using assms(1)
    by (cases "k < 8")
       (auto simp: net_wait_second_def r out_for_def outage_limit_def net_reboot_def net_does_def Let_def
        set_net_conn_fail_cnt_def DEFAULT_NETWORK_FAIL_RESET_CNT_2_def)
qed

lemma net_wait_off: "phase s \<noteq> Waiting \<Longrightarrow> fold (net_wait_second registered conf) es s = s"
  by (induction es) (simp_all add: net_wait_second_def)

lemma net_wait_down:
  assumes "out_for n k mx wr file s" and "list_all (sec_down registered) es" and "n \<le> outage_limit k mx"
  shows "if n + int (length es) > outage_limit k mx
    then phase (net_wait registered conf es s) = Powered_off \<and>
      fail_file (net_wait registered conf es s) = wr (sprintf_d (k + 1)) file \<and>
      net_acts (net_wait registered conf es s) = net_acts s @ [Emergency_reset, Net_poweroff]
    else out_for (n + int (length es)) k mx wr file (net_wait registered conf es s) \<and>
      net_acts (net_wait registered conf es s) = net_acts s"
  using assms
proof (induction es arbitrary: n s)
  case Nil
  then show ?case by (simp add: net_wait_def)
next
  case (Cons e es)
  let ?s = "net_wait_second registered conf e s"
  have step: "net_wait registered conf (e # es) s = net_wait registered conf es ?s"
    by (simp add: net_wait_def)
  have e: "sec_down registered e" using Cons.prems(2) by simp
  show ?case
  proof (cases "n + 1 > outage_limit k mx")
    case True
    then have p: "phase ?s = Powered_off"
      and q: "fail_file ?s = wr (sprintf_d (k + 1)) file"
        "net_acts ?s = net_acts s @ [Emergency_reset, Net_poweroff]"
      using net_second_down [OF Cons.prems(1) e, of conf] by auto
    have "net_wait registered conf es ?s = ?s" by (simp add: net_wait_def net_wait_off p)
    then show ?thesis using True p q unfolding step by simp
  next
    case False
    then have o: "out_for (n + 1) k mx wr file ?s" and a: "net_acts ?s = net_acts s"
      using net_second_down [OF Cons.prems(1) e, of conf] by auto
    have "n + 1 \<le> outage_limit k mx" using False by simp
    moreover have "list_all (sec_down registered) es" using Cons.prems(2) by simp
    moreover have "n + 1 + int (length es) = n + int (length (e # es))" by simp
    ultimately show ?thesis using Cons.IH [OF o] a unfolding step by metis
  qed
qed

lemma network_outage_reboots_aux:
  assumes "list_all (sec_down registered) es" and "0 < mx" and "0 \<le> get_net_conn_fail_cnt file"
  shows "let k = get_net_conn_fail_cnt file;
             s = net_wait registered conf es (net_boot mx w d snd0 wr file)
    in phase s = (if int (length es) > outage_limit k mx then Powered_off else Waiting) \<and>
       fail_file s = (if int (length es) > outage_limit k mx then wr (sprintf_d (k + 1)) file else file) \<and>
       net_acts s = (if int (length es) > outage_limit k mx then [Emergency_reset, Net_poweroff] else [])"
proof -
  have "out_for 0 (get_net_conn_fail_cnt file) mx wr file (net_boot mx w d snd0 wr file)"
    using assms(2) by (simp add: out_for_def net_boot_def)
  moreover have "0 \<le> outage_limit (get_net_conn_fail_cnt file) mx"
    using assms(2) by (simp add: outage_limit_def DEFAULT_NETWORK_FAIL_RESET_CNT_2_def)
  ultimately show ?thesis
    using net_wait_down [OF _ assms(1), where n = 0 and k = "get_net_conn_fail_cnt file" and mx = mx and
        s = "net_boot mx w d snd0 wr file" and conf = conf] assms(3)
    by (auto simp: Let_def out_for_def net_boot_def split: if_splits)
qed

text \<open>
  C29: a device that finds no network waits exactly \<open>outage_limit\<close> seconds and reboots in the next
  one: 60 while fewer than eight reboots are on file, the limit set by the program from then on. The
  reboot writes the increased count to the file, whatever the library makes of the write; when the write
  takes effect, the next process reads the count increased by one. Without the reboot the file is
  not touched.
\<close>

theorem network_outage_reboots:
  assumes "list_all (sec_down registered) es" and "0 < mx" and "0 \<le> get_net_conn_fail_cnt file"
  shows "let k = get_net_conn_fail_cnt file;
             s = net_wait registered conf es (net_boot mx w d snd0 wr file)
    in phase s = (if int (length es) > outage_limit k mx then Powered_off else Waiting) \<and>
       fail_file s = (if int (length es) > outage_limit k mx then wr (sprintf_d (k + 1)) file else file) \<and>
       get_net_conn_fail_cnt (Some (sprintf_d (k + 1))) = k + 1 \<and>
       net_acts s = (if int (length es) > outage_limit k mx then [Emergency_reset, Net_poweroff] else [])"
  using network_outage_reboots_aux [OF assms, of conf w d snd0 wr] fail_cnt_roundtrip [of "get_net_conn_fail_cnt file + 1"]
    assms(3) by (simp add: Let_def)

definition env_example :: dm_env where
  "env_example = \<lparr>net_up = False, lock_ok = True, answer = DM_EV_RESP_OK, dm_ktime = 0\<rparr>"

definition sec_example :: net_sec where
  "sec_example = \<lparr>if_up = True, netstat = None, late_env = (\<lambda>_. env_example),
     update_env = env_example, sec_ktime = 0\<rparr>"

lemma network_outage_reboots_witness:
  "let k = get_net_conn_fail_cnt None;
       s = net_wait (\<lambda>n. n = 1) default_config (replicate 61 sec_example)
             (net_boot 600 wd_init dmmgr_start sender_start (\<lambda>c f. Some c) None)
   in phase s = (if int (length (replicate 61 sec_example)) > outage_limit k 600 then Powered_off else Waiting) \<and>
      fail_file s = (if int (length (replicate 61 sec_example)) > outage_limit k 600
                     then (\<lambda>c f. Some c) (sprintf_d (k + 1)) (None :: byte list option) else None) \<and>
      get_net_conn_fail_cnt (Some (sprintf_d (k + 1))) = k + 1 \<and>
      net_acts s = (if int (length (replicate 61 sec_example)) > outage_limit k 600
                    then [Emergency_reset, Net_poweroff] else [])"
  by (rule network_outage_reboots)
     (simp_all add: list_all_iff sec_down_def sec_example_def get_net_conn_fail_cnt_def)

text \<open>The processes of an outage, one after the other: each reboot is counted.\<close>

lemma outage_boots:
  assumes "list_all (sec_down registered) es" and "0 < mx" and "int (length es) > max mx 60"
  shows "get_net_conn_fail_cnt
    (((\<lambda>file. fail_file (net_wait registered conf es (net_boot mx w d snd0 (\<lambda>c f. Some c) file))) ^^ n) None) = int n"
proof (induction n)
  case 0
  then show ?case by (simp add: get_net_conn_fail_cnt_def)
next
  case (Suc n)
  define f0 where "f0 = ((\<lambda>file. fail_file (net_wait registered conf es (net_boot mx w d snd0 (\<lambda>c f. Some c) file))) ^^ n) None"
  have "int (length es) > outage_limit (int n) mx"
    using assms(3) by (simp add: outage_limit_def DEFAULT_NETWORK_FAIL_RESET_CNT_2_def)
  moreover have "get_net_conn_fail_cnt f0 = int n" using Suc by (simp add: f0_def)
  ultimately show ?case
    using network_outage_reboots_aux [OF assms(1,2), of f0 conf w d snd0 "\<lambda>c f. Some c"] fail_cnt_roundtrip [of "int n + 1"]
    unfolding f0_def by (simp add: Let_def)
qed

subsection \<open>An outage while running\<close>

lemma runtime_check_down:
  assumes "first_network_conn_flag s" and "max_network_fail_reset_cnt s > 0" and "0 < last_cycle s"
    and "last_cycle s + 30 \<le> t" and "\<not> up \<or> \<not> registered (case stat of None \<Rightarrow> 0 | Some n \<Rightarrow> n)"
  shows "if runtime_fail_cnt s + 1 \<ge> 4
    then phase (chk_runtime_network_chk registered t up stat s) = Powered_off
    else (let s' = chk_runtime_network_chk registered t up stat s
          in phase s' = phase s \<and> first_network_conn_flag s' \<and> max_network_fail_reset_cnt s' > 0 \<and>
             last_cycle s' = t \<and> runtime_fail_cnt s' = runtime_fail_cnt s + 1)"
  using assms
  by (cases up) (auto simp: chk_runtime_network_chk_def net_check_def chk_network_regi_def net_reboot_def
      net_does_def Let_def set_net_conn_fail_cnt_def
      DEFAULT_NETWORK_FAIL_RESET_CNT_3_def)

text \<open>
  Once the network has been there, the fourth failed check in a row reboots the device: four
  checks at least thirty seconds apart that all find no network end with the power off, the first
  three do not. A check that comes earlier than thirty seconds after the last one is not made.
\<close>

theorem runtime_outage_reboots:
  assumes "phase s = Running" and "first_network_conn_flag s" and "max_network_fail_reset_cnt s > 0"
    and "runtime_fail_cnt s = 0" and "0 < last_cycle s" and "last_cycle s + 30 \<le> t1"
    and "t1 + 30 \<le> t2" and "t2 + 30 \<le> t3" and "t3 + 30 \<le> t4" and "\<not> registered 0"
  shows "let chk = \<lambda>t. chk_runtime_network_chk registered t True None
    in phase (chk t3 (chk t2 (chk t1 s))) = Running \<and>
       phase (chk t4 (chk t3 (chk t2 (chk t1 s)))) = Powered_off \<and>
       chk (t1 + 29) (chk t1 s) = chk t1 s"
proof -
  let ?chk = "\<lambda>t. chk_runtime_network_chk registered t True None"
  let ?s1 = "?chk t1 s" let ?s2 = "?chk t2 ?s1" let ?s3 = "?chk t3 ?s2"
  have down: "\<not> True \<or> \<not> registered (case None of None \<Rightarrow> 0 | Some n \<Rightarrow> n)" using assms(10) by simp
  have 1: "phase ?s1 = Running \<and> first_network_conn_flag ?s1 \<and> max_network_fail_reset_cnt ?s1 > 0 \<and>
      last_cycle ?s1 = t1 \<and> runtime_fail_cnt ?s1 = 1"
    using runtime_check_down [of s t1 True registered None] assms by (simp add: Let_def)
  have 2: "phase ?s2 = Running \<and> first_network_conn_flag ?s2 \<and> max_network_fail_reset_cnt ?s2 > 0 \<and>
      last_cycle ?s2 = t2 \<and> runtime_fail_cnt ?s2 = 2"
    using runtime_check_down [of ?s1 t2 True registered None] 1 assms(5-10) by (simp add: Let_def)
  have 3: "phase ?s3 = Running \<and> first_network_conn_flag ?s3 \<and> max_network_fail_reset_cnt ?s3 > 0 \<and>
      last_cycle ?s3 = t3 \<and> runtime_fail_cnt ?s3 = 3"
    using runtime_check_down [of ?s2 t3 True registered None] 2 assms(5-10) by (simp add: Let_def)
  have "phase (?chk t4 ?s3) = Powered_off"
    using runtime_check_down [of ?s3 t4 True registered None] 3 assms(5-10) by (simp add: Let_def)
  moreover have "?chk (t1 + 29) ?s1 = ?s1"
    using 1 assms(5,6) by (simp add: chk_runtime_network_chk_def)
  ultimately show ?thesis using 3 by (simp add: Let_def)
qed

definition running_example :: net_thread where
  "running_example = (net_boot 600 wd_init dmmgr_start sender_start (\<lambda>c f. Some c) None)
     \<lparr>phase := Running, first_network_conn_flag := True, last_cycle := 1000\<rparr>"

lemma runtime_outage_reboots_witness:
  "let chk = \<lambda>t. chk_runtime_network_chk (\<lambda>n. n = 1) t True None
   in phase (chk 1090 (chk 1060 (chk 1030 running_example))) = Running \<and>
      phase (chk 1120 (chk 1090 (chk 1060 (chk 1030 running_example)))) = Powered_off \<and>
      chk (1030 + 29) (chk 1030 running_example) = chk 1030 running_example"
  by (rule runtime_outage_reboots) (simp_all add: running_example_def net_boot_def)

end
