(* ===== verification/BaseMain.thy ===== *)
theory BaseMain
  imports ErrorMgr Config Watchdog
begin

text \<open>
  \<open>base/main.c\<close> and \<open>base/thread.c\<close>: the checks of the hardware before the start, the configuration
  with its fall-backs, the start of the threads under the watchdog, the texts that arrive over the
  modem, and the end of the program, which acts on what the error manager decided. Readings of the
  lines, results of thread calls and the modem library are inputs; \<open>poweroff\<close> does not return.
\<close>

subsection \<open>Before the start\<close>

text \<open>
  \<open>_gpio_check\<close>: up to ten tries, the \<open>i\<close>-th with the readings of the ignition and the power line;
  the result tells whether the device is powered off.
\<close>

fun gpio_loop :: "nat \<Rightarrow> (nat \<Rightarrow> int) \<Rightarrow> (nat \<Rightarrow> int) \<Rightarrow> nat \<Rightarrow> bool" where
  "gpio_loop 0 ign pwr i = True"
| "gpio_loop (Suc n_try) ign pwr i =
     (if ign i \<ge> 0 \<and> pwr i \<ge> 0 then False else gpio_loop n_try ign pwr (Suc i))"

definition gpio_check :: "(nat \<Rightarrow> int) \<Rightarrow> (nat \<Rightarrow> int) \<Rightarrow> bool" where
  "gpio_check ign pwr = gpio_loop 10 ign pwr 0"

text \<open>\<open>_power_check\<close>, with the readings of the power source (0 external, 1 battery).\<close>

definition POWER_DC :: int where "POWER_DC = 0"
definition POWER_BAT :: int where "POWER_BAT = 1"

fun power_loop :: "nat \<Rightarrow> (nat \<Rightarrow> int) \<Rightarrow> nat \<Rightarrow> int \<Rightarrow> int" where
  "power_loop 0 src i res = res"
| "power_loop (Suc n_try) src i res =
     (if src i = POWER_DC then src i else power_loop n_try src (Suc i) (src i))"

definition power_check :: "configurationBase \<Rightarrow> (nat \<Rightarrow> int) \<Rightarrow> bool" where
  "power_check conf src =
     (if bootstrap (common conf) = 1 then False
      else if initial_turnoff (common conf) = 0 then False
      else power_loop 30 src 0 0 = POWER_BAT)"

text \<open>
  One loop of \<open>_get_essential_data_blocking\<close>: the counter after \<open>while(count_error++ < MAX)\<close>, from
  the results of the queries, and whether the failure is reported.
\<close>

definition MAX_TRY_GET_IMEI :: int where "MAX_TRY_GET_IMEI = 5"

function query_loop :: "(int \<Rightarrow> bool) \<Rightarrow> int \<Rightarrow> int" where
  "query_loop query_ok count_error =
     (if count_error < MAX_TRY_GET_IMEI then
        (if query_ok count_error then count_error + 1 else query_loop query_ok (count_error + 1))
      else count_error + 1)"
  by pat_completeness auto
termination by (relation "measure (\<lambda>(q, c). nat (MAX_TRY_GET_IMEI - c))") auto

declare query_loop.simps [simp del]

definition essential_query_fails :: "(int \<Rightarrow> bool) \<Rightarrow> bool" where
  "essential_query_fails query_ok \<longleftrightarrow> query_loop query_ok 0 \<ge> MAX_TRY_GET_IMEI"

subsection \<open>Configuration and threads\<close>

text \<open>The base configuration of the program: what the file gives, or the default and a log entry.\<close>

definition main_config :: "(byte list \<Rightarrow> int) \<Rightarrow> bool \<Rightarrow> (nat \<Rightarrow> dict option) \<Rightarrow> byte list \<Rightarrow> int \<Rightarrow>
    configurationBase \<Rightarrow> err \<Rightarrow> configurationBase \<times> err" where
  "main_config getint present loads stamp ktime c s =
     (let (ok, c') = load_config_base getint present loads c
      in if ok then (c', s)
         else (default_config, error_critical eERROR_LOG (str ''load_config_base Error'') stamp ktime s))"

text \<open>
  The loop that creates the threads up to the end of the table: each failure is a critical error,
  after which the loop goes on. \<open>ktimes\<close> is the clock after each creation.
\<close>

definition main_watchdog :: "int \<Rightarrow> wd \<Rightarrow> wd" where
  "main_watchdog ktime w = watchdog_process ktime (snd (watchdog_set_cur_ktime eWdMain ktime w))"

fun create_threads :: "byte list \<Rightarrow> (bool \<times> int) list \<Rightarrow> wd \<times> err \<Rightarrow> wd \<times> err" where
  "create_threads stamp [] ws = ws"
| "create_threads stamp ((created, ktime) # ts) (w, s) =
     create_threads stamp ts
       (main_watchdog ktime w,
        if created then s else error_critical eERROR_EXIT (str ''pthread_create Error'') stamp ktime s)"

text \<open>The part of \<open>main\<close> from the first watchdog report to the callback of the main loop.\<close>

definition main_start :: "byte list \<Rightarrow> int \<Rightarrow> (bool \<times> int) list \<Rightarrow> bool option \<Rightarrow> wd \<times> err \<Rightarrow> wd \<times> err" where
  "main_start stamp ktime ts model_thread ws =
     (let (w, s) = create_threads stamp ts (main_watchdog ktime (fst ws), snd ws);
          s1 = (if model_thread = Some False
                then error_critical eERROR_EXIT (str ''pthread_create Error'') stamp ktime s else s)
      in (snd (watchdog_set_init_ktime eWdMain w), s1))"

subsection \<open>Texts of the modem\<close>

text \<open>
  A text that begins with \<open>[web\<close> (in any case) loses everything up to the first \<open>]\<close> behind it. Texts
  are C strings without their NUL.
\<close>

definition to_lower :: "byte \<Rightarrow> byte" where
  "to_lower c = (if 65 \<le> c \<and> c \<le> 90 then c + 32 else c)"

definition strip_web :: "byte list \<Rightarrow> byte list" where
  "strip_web t =
     (if t \<noteq> [] \<and> hd t = 91 \<and> map to_lower (take 3 (tl t)) = [119, 101, 98] then
        (let r = dropWhile (\<lambda>c. c \<noteq> 93) (drop 4 t)
         in if r = [] then t else tl r)
      else t)"

text \<open>
  \<open>mds_api_remove_cr\<close> of the library returns a length and the text; without a text nothing is
  handed to the model.
\<close>

definition gtrack_at_noti_proc :: "(byte list \<Rightarrow> nat \<Rightarrow> int \<times> byte list) \<Rightarrow> byte list \<Rightarrow> byte list option" where
  "gtrack_at_noti_proc remove_cr buf =
     (let (len, t) = remove_cr buf 512 in if len \<le> 0 then None else Some (strip_web t))"

definition gtrack_at_sms_proc :: "(byte list \<Rightarrow> nat \<Rightarrow> int \<times> byte list) \<Rightarrow> byte list \<Rightarrow> byte list \<Rightarrow>
    byte list \<Rightarrow> (byte list \<times> byte list \<times> byte list) option" where
  "gtrack_at_sms_proc remove_cr phone_num recv_time msg =
     (let (len, t) = remove_cr msg 128
      in if len \<le> 0 then None else Some (recv_time, phone_num, strip_web t))"

subsection \<open>The end of the program\<close>

text \<open>
  How \<open>_deinit_resource\<close> ends: the process ends and its monitor may start it again, the device is
  powered off, or the process ends with the state not understood. In the final state the program
  blinks until the ignition is off: \<open>Blinking\<close> when the readings end before.
\<close>

datatype ending = Restarted | Rebooted | Final_off nat | Blinking | Abnormal

fun final_loop :: "bool list \<Rightarrow> nat \<Rightarrow> ending" where
  "final_loop [] n = Blinking"
| "final_loop (ign_off # is) n = (if ign_off then Final_off (Suc n) else final_loop is (Suc n))"

text \<open>A join that fails is logged; \<open>joins\<close> are the results for the threads of the table.\<close>

definition join_threads :: "byte list \<Rightarrow> int \<Rightarrow> bool list \<Rightarrow> err \<Rightarrow> err" where
  "join_threads stamp ktime joins s =
     foldl (\<lambda>s ok. if ok then s else error_critical eERROR_LOG (str ''pthread_join Error'') stamp ktime s)
       s joins"

definition deinit_resource :: "byte list \<Rightarrow> int \<Rightarrow> bool list \<Rightarrow> bool list \<Rightarrow> err \<Rightarrow> ending \<times> err" where
  "deinit_resource stamp ktime joins ignition_off s =
     (let s1 = join_threads stamp ktime joins s
      in case gError_state s1 of
           eERROR_EXIT \<Rightarrow> (Restarted, error_rm_no_mon s1)
         | eERROR_REBOOT \<Rightarrow> (Rebooted, s1)
         | eERROR_FINAL \<Rightarrow> (final_loop ignition_off 0, s1)
         | _ \<Rightarrow> (Abnormal, s1))"

subsection \<open>Lemmas\<close>

lemma gpio_loop_off: "gpio_loop n ign pwr i \<longleftrightarrow> (\<forall>j. i \<le> j \<and> j < i + n \<longrightarrow> ign j < 0 \<or> pwr j < 0)"
proof (induction n arbitrary: i)
  case (Suc n)
  have "(\<forall>j. i \<le> j \<and> j < i + Suc n \<longrightarrow> ign j < 0 \<or> pwr j < 0) \<longleftrightarrow>
      (ign i < 0 \<or> pwr i < 0) \<and> (\<forall>j. Suc i \<le> j \<and> j < Suc i + n \<longrightarrow> ign j < 0 \<or> pwr j < 0)"
    by (metis Suc_le_eq add_Suc_right add_Suc_shift le_add1 le_eq_less_or_eq less_Suc_eq_le less_add_Suc1)
  then show ?case using Suc [of "Suc i"] by auto
qed simp

lemma gpio_check_off: "gpio_check ign pwr \<longleftrightarrow> (\<forall>j < 10. ign j < 0 \<or> pwr j < 0)"
  by (simp add: gpio_check_def gpio_loop_off)

text \<open>A success at the fifth query is reported like a failure, a success before is not.\<close>

lemma query_loop_skip:
  "\<not> query_ok c \<Longrightarrow> c < 5 \<Longrightarrow> query_loop query_ok c = query_loop query_ok (c + 1)"
  by (subst query_loop.simps) (simp add: MAX_TRY_GET_IMEI_def)

lemma essential_fifth_success_fails:
  "\<lbrakk>\<not> query_ok 0; \<not> query_ok 1; \<not> query_ok 2; \<not> query_ok 3; query_ok 4\<rbrakk> \<Longrightarrow> essential_query_fails query_ok"
  by (simp add: essential_query_fails_def query_loop_skip) (simp add: query_loop.simps MAX_TRY_GET_IMEI_def)

lemma join_ok: "list_all id joins \<Longrightarrow> join_threads stamp ktime joins s = s"
  by (induction joins) (simp_all add: join_threads_def)

text \<open>The state and the marker for the monitor after an error and after a log entry.\<close>

lemma log_state: "gError_state (error_critical eERROR_LOG msg stamp ktime s) = eERROR_LOG"
  "no_mon (error_critical eERROR_LOG msg stamp ktime s) = no_mon s"
  by (simp_all add: error_critical_def escalate_def Let_def split: prod.splits)

lemma decision_marks:
  "gError_state (error_critical level msg stamp ktime s) \<in> {eERROR_EXIT, eERROR_REBOOT, eERROR_FINAL} \<Longrightarrow>
   no_mon (error_critical level msg stamp ktime s) \<and> threads_exit (error_critical level msg stamp ktime s)"
  by (auto simp: error_critical_def error_make_no_mon_def Let_def split: prod.splits errorType.splits if_splits)

lemma decision_taken:
  "level \<in> {eERROR_EXIT, eERROR_REBOOT} \<Longrightarrow>
   gError_state (error_critical level msg stamp ktime s) \<in> {eERROR_EXIT, eERROR_REBOOT, eERROR_FINAL}"
  by (auto simp: error_critical_def error_make_no_mon_def escalate_def escalate_reboot_def Let_def
      split: prod.splits if_splits)

lemma final_loop_not_abnormal: "final_loop is n \<noteq> Abnormal"
  by (induction "is" n rule: final_loop.induct) simp_all

lemma ending_of_decision:
  "list_all id joins \<Longrightarrow> gError_state s \<in> {eERROR_EXIT, eERROR_REBOOT, eERROR_FINAL} \<Longrightarrow>
   fst (deinit_resource stamp ktime joins ign s) \<noteq> Abnormal"
  by (auto simp: deinit_resource_def join_ok final_loop_not_abnormal)

text \<open>
  After a critical error the program ends as the error manager decided: it is restarted, rebooted
  or stopped. But a single log entry made while it shuts down erases the decision: the process then
  ends without a reboot, and with the marker still set that keeps the monitor from restarting it.
\<close>

theorem late_log_erases_decision:
  assumes "level \<in> {eERROR_EXIT, eERROR_REBOOT}" and "list_all id joins"
  shows "let s1 = error_critical level msg stamp ktime s;
             s2 = error_critical eERROR_LOG msg2 stamp2 ktime2 s1
    in fst (deinit_resource stamp ktime joins ign s1) \<noteq> Abnormal \<and>
       fst (deinit_resource stamp ktime joins ign s2) = Abnormal \<and>
       no_mon (snd (deinit_resource stamp ktime joins ign s2))"
  using decision_taken [OF assms(1), of msg stamp ktime s] decision_marks [of level msg stamp ktime s]
    ending_of_decision [OF assms(2)]
  by (simp add: Let_def deinit_resource_def join_ok [OF assms(2)] log_state)

definition err_start :: err where
  "err_start = \<lparr>eos = error_reset_datafile \<lparr>files = Map.empty, script = []\<rparr>,
     gError_state = eERROR_NONE, was_checked = False, no_mon = False, threads_exit = False,
     err_led = False\<rparr>"

lemma late_log_erases_decision_witness:
  "let s1 = error_critical eERROR_REBOOT (str ''a'') (str ''0'') 700 err_start;
       s2 = error_critical eERROR_LOG (str ''b'') (str ''1'') 701 s1
   in fst (deinit_resource (str ''0'') 700 [True, True] [] s1) \<noteq> Abnormal \<and>
      fst (deinit_resource (str ''0'') 700 [True, True] [] s2) = Abnormal \<and>
      no_mon (snd (deinit_resource (str ''0'') 700 [True, True] [] s2))"
  by (rule late_log_erases_decision) simp_all

text \<open>The mark is removed up to its bracket; a text without it is handed on as it is.\<close>

lemma strip_web_mark:
  "map to_lower w = [119, 101, 98] \<Longrightarrow> 93 \<notin> set u \<Longrightarrow> strip_web (91 # w @ u @ 93 # t) = t"
proof -
  assume w: "map to_lower w = [119, 101, 98]" and u: "93 \<notin> set u"
  then have l: "length w = 3" by (metis length_map list.size(3,4) numeral_3_eq_3 One_nat_def add.commute plus_1_eq_Suc)
  have "dropWhile (\<lambda>c. c \<noteq> 93) (u @ 93 # t) = 93 # t"
    using u by (subst dropWhile_append2) auto
  then show ?thesis using w l by (simp add: strip_web_def)
qed

lemma strip_web_plain: "t = [] \<or> hd t \<noteq> 91 \<Longrightarrow> strip_web t = t"
  by (auto simp: strip_web_def)

end
