(* ===== verification/Hdlc.thy ===== *)
theory Hdlc
  imports Checksum
begin

text \<open>
  \<open>ext/protocol/mdt800/hdlc_async.c\<close>: the byte stuffing that frames every MDT800 record. A record
  is followed by the flag \<open>0x7E\<close>; inside it the bytes \<open>0x7E\<close> and \<open>0x7D\<close> travel as \<open>0x7D\<close> and
  the byte with bit 5 inverted. The source buffer is the memory from the pointer to its end, so a
  read past its end is \<open>None\<close>; the result is what the function has written at its destination.
\<close>

definition HDLC_FLAG :: byte where "HDLC_FLAG = 0x7e"
definition HDLC_ESCAPE :: byte where "HDLC_ESCAPE = 0x7d"

definition crc8 :: "byte \<Rightarrow> byte list \<Rightarrow> nat \<Rightarrow> byte option" where
  "crc8 crc buf len = map_option (foldl (XOR) crc) (read_mem buf len)"

definition stuff_byte :: "byte \<Rightarrow> byte list" where
  "stuff_byte b = (if b = 0x7e \<or> b = 0x7d then [0x7d, b XOR 0x20] else [b])"

fun hdlc_async_encode :: "byte list \<Rightarrow> nat \<Rightarrow> byte list option" where
  "hdlc_async_encode src 0 = Some []"
| "hdlc_async_encode [] (Suc len) = None"
| "hdlc_async_encode (b # src) (Suc len) = map_option (\<lambda>d. stuff_byte b @ d) (hdlc_async_encode src len)"

fun hdlc_async_decode :: "byte list \<Rightarrow> nat \<Rightarrow> byte list option" where
  "hdlc_async_decode src 0 = Some []"
| "hdlc_async_decode [] (Suc len) = None"
| "hdlc_async_decode (b # src) (Suc len) =
     (if b = 0x7e then Some []
      else if b = 0x7d then
        (case src of
           [] \<Rightarrow> None
         | c # src1 \<Rightarrow> map_option ((#) (c XOR 0x20)) (hdlc_async_decode src1 len))
      else map_option ((#) b) (hdlc_async_decode src len))"

subsection \<open>The encoder\<close>

definition stuffed :: "byte list \<Rightarrow> byte list" where
  "stuffed xs = concat (map stuff_byte xs)"

lemma stuffed_simps [simp]:
  "stuffed [] = []"
  "stuffed (x # xs) = stuff_byte x @ stuffed xs"
  "stuffed (xs @ ys) = stuffed xs @ stuffed ys"
  by (simp_all add: stuffed_def)

lemma hdlc_encode_prefix: "hdlc_async_encode (xs @ rest) (length xs) = Some (stuffed xs)"
  by (induction xs) simp_all

lemma hdlc_encode_exact [simp]: "hdlc_async_encode xs (length xs) = Some (stuffed xs)"
  using hdlc_encode_prefix [of xs "[]"] by simp

lemma hdlc_encode_None: "hdlc_async_encode xs n = None \<longleftrightarrow> length xs < n"
  by (induction xs n rule: hdlc_async_encode.induct) auto

definition plain :: "byte \<Rightarrow> bool" where
  "plain b \<longleftrightarrow> b \<noteq> 0x7e \<and> b \<noteq> 0x7d"

lemma stuff_byte_plain [simp]: "plain b \<Longrightarrow> stuff_byte b = [b]"
  by (simp add: stuff_byte_def plain_def)

lemma stuffed_plain [simp]: "list_all plain xs \<Longrightarrow> stuffed xs = xs"
  by (induction xs) simp_all

lemma length_stuff_byte: "length (stuff_byte b) = (if plain b then 1 else 2)"
  by (simp add: stuff_byte_def plain_def)

lemma length_stuffed: "length (stuffed xs) = length xs + length (filter (\<lambda>b. \<not> plain b) xs)"
  by (induction xs) (simp_all add: length_stuff_byte)

lemma length_stuffed_le: "length (stuffed xs) \<le> 2 * length xs"
  using length_filter_le [of "\<lambda>b. \<not> plain b" xs] by (simp add: length_stuffed)

lemma stuffed_no_flag: "0x7e \<notin> set (stuffed xs)"
  by (induction xs) (auto simp: stuff_byte_def)

subsection \<open>The decoder\<close>

lemma hdlc_decode_stuffed:
  "hdlc_async_decode (stuffed xs @ rest) (length xs + n) =
     map_option ((@) xs) (hdlc_async_decode rest n)"
proof (induction xs)
  case Nil
  then show ?case by (simp add: option.map_ident)
next
  case (Cons x xs)
  show ?case
    by (simp add: Cons stuff_byte_def option.map_comp comp_def xor.assoc)
qed

lemma hdlc_decode_flag [simp]: "hdlc_async_decode (0x7e # rest) n = Some []"
  by (cases n) simp_all

text \<open>
  What the encoder writes, followed by the flag, is decoded to the original bytes, whatever
  follows the flag and for every length from the number of the original bytes on; and the encoded
  bytes contain no flag, so a receiver can cut the stream of records at the flags.
\<close>

theorem hdlc_round_trip:
  "\<exists>d. hdlc_async_encode xs (length xs) = Some d \<and> 0x7e \<notin> set d \<and> length d \<le> 2 * length xs \<and>
     hdlc_async_decode (d @ 0x7e # rest) (length xs + n) = Some xs"
  by (simp add: stuffed_no_flag length_stuffed_le hdlc_decode_stuffed)

text \<open>
  Without the flag the decoder reads one byte beyond its source for every escape in it: the
  counter goes down once for each byte that is written, not for each that is read.
\<close>

lemma hdlc_decode_past_end: "hdlc_async_decode [] n = None \<longleftrightarrow> 0 < n"
  by (cases n) simp_all

theorem hdlc_decode_reads_past_end:
  assumes "\<not> list_all plain xs"
  shows "hdlc_async_decode (stuffed xs) (length (stuffed xs)) = None"
proof -
  have "\<exists>b\<in>set xs. \<not> plain b" using assms by (simp add: list_all_iff)
  then have "filter (\<lambda>b. \<not> plain b) xs \<noteq> []" by (simp add: filter_empty_conv)
  then obtain n where "length (filter (\<lambda>b. \<not> plain b) xs) = Suc n"
    by (metis length_greater_0_conv gr0_implies_Suc)
  then show ?thesis
    using hdlc_decode_stuffed [of xs "[]" "Suc n"] by (simp add: length_stuffed)
qed

end
