(* ===== verification/Therm.thy ===== *)
theory Therm
  imports CText
begin

text \<open>
  \<open>board/thermometer.c\<close> and \<open>base/thermtool.c\<close>: the thermometer on a serial line sends frames of 10,
  12, 18 or 42 bytes between \<open>>\<close> and \<open><\<close>, in which every channel is a sign and three digits or a word
  such as \<open>OPEN\<close>. The parser is modelled byte by byte (\<open>char\<close> is unsigned on the targets). What the
  line delivers is an input: \<open>None\<close> for a time-out of \<open>select\<close>, otherwise the bytes of the one
  \<open>read\<close>, none when it fails. The build is the one with \<open>USE_TYPE_UT1\<close> and \<open>ALWAYS_READ_THERM\<close>.
\<close>

datatype therm_status = eOK | eOPEN | eSHORT | eUNUSED | eNOK
datatype device_type = eUnknown | eUT1 | eUT2 | eUT3

record temp_local =
  t_data :: int
  t_status :: therm_status
  t_alarm :: byte

record therm_data =
  channel :: int
  temper :: "temp_local list"

definition zero_temp :: temp_local where
  "zero_temp = \<lparr>t_data = 0, t_status = eOK, t_alarm = 0\<rparr>"

definition zero_therm :: therm_data where
  "zero_therm = \<lparr>channel = 0, temper = replicate 4 zero_temp\<rparr>"

subsection \<open>One channel\<close>

text \<open>The status a group of four bytes announces; \<open>None\<close> for a damaged word.\<close>

definition word_is :: "byte list \<Rightarrow> string list \<Rightarrow> bool" where
  "word_is g ws = list_ex (\<lambda>w. g = str w) ws"

definition sign_status :: "byte list \<Rightarrow> therm_status option" where
  "sign_status g =
     (let sign = g ! 0 in
      if sign = 0 \<or> sign = 1 \<or> sign = 48 \<or> sign = 49 then Some eOK
      else if sign = 57 then (if word_is g [''9999''] then Some eNOK else None)
      else if sign = 79 then (if word_is g [''OOOO'', ''OPEN''] then Some eOPEN else None)
      else if sign = 83 then (if word_is g [''SSSS'', ''SHRT''] then Some eSHORT else None)
      else if sign = 88 then (if word_is g [''XXXX''] then Some eUNUSED else None)
      else if sign = 78 then (if word_is g [''NOUS''] then Some eUNUSED else None)
      else Some eUNUSED)"

definition signed_value :: "byte \<Rightarrow> int \<Rightarrow> int" where
  "signed_value sign v = (if sign = 49 \<or> sign = 1 then - v else v)"

definition parse_one_temper :: "byte list \<Rightarrow> temp_local \<Rightarrow> int \<times> temp_local" where
  "parse_one_temper g t =
     (case sign_status g of
        None \<Rightarrow> (-1, t)
      | Some st \<Rightarrow>
          (let t1 = t\<lparr>t_status := st\<rparr> in
           if st \<noteq> eOK then (0, t1)
           else if g ! 1 \<le> 9 then
             (let v = uint (g ! 1) * 100 + uint (g ! 2) * 10 + uint (g ! 3); t2 = t1\<lparr>t_data := v\<rparr> in
              if uint (g ! 1) * 100 + uint (g ! 2) * 10 > 500 then (-1, t2)
              else (0, t2\<lparr>t_data := signed_value (g ! 0) v\<rparr>))
           else if 48 \<le> g ! 1 \<and> g ! 1 \<le> 57 then
             (0, t1\<lparr>t_data := signed_value (g ! 0) (atoi (drop 1 g))\<rparr>)
           else (-1, t1)))"

subsection \<open>One frame\<close>

definition temper_group :: "byte list \<Rightarrow> nat \<Rightarrow> nat \<Rightarrow> byte list" where
  "temper_group buf off i = take 4 (drop (off + 4 * i) buf)"

text \<open>The loop over \<open>n\<close> channels that begin at \<open>off\<close>; one damaged channel fails the frame.\<close>

definition parse_groups :: "byte list \<Rightarrow> nat \<Rightarrow> nat \<Rightarrow> temp_local list \<Rightarrow> int \<times> temp_local list" where
  "parse_groups buf off n ts =
     foldl (\<lambda>(res, ts) i.
         case parse_one_temper (temper_group buf off i) (ts ! i) of
           (r, t) \<Rightarrow> (if r = -1 then -1 else res, ts[i := t]))
       (0, ts) [0..<n]"

definition set_status :: "nat \<Rightarrow> therm_status \<Rightarrow> temp_local list \<Rightarrow> temp_local list" where
  "set_status i st ts = ts[i := (ts ! i)\<lparr>t_status := st\<rparr>]"

definition set_alarm :: "nat \<Rightarrow> byte \<Rightarrow> temp_local list \<Rightarrow> temp_local list" where
  "set_alarm i a ts = ts[i := (ts ! i)\<lparr>t_alarm := a\<rparr>]"

definition two_channels :: "temp_local list \<Rightarrow> therm_data" where
  "two_channels ts = \<lparr>channel = 2, temper = set_status 3 eNOK (set_status 2 eNOK ts)\<rparr>"

definition framed :: "byte list \<Rightarrow> bool" where
  "framed buf \<longleftrightarrow> hd buf = 62 \<and> last buf = 60"

text \<open>
  The frame is \<open>buf\<close> with its length. For 42 bytes and an unknown type the code uses a loop counter
  it has not set: \<open>None\<close>.
\<close>

definition parse_temper :: "device_type \<Rightarrow> byte list \<Rightarrow> therm_data \<Rightarrow> (int \<times> therm_data) option" where
  "parse_temper msg_type buf therm =
     (if length buf = 10 then
        if \<not> framed buf then Some (-1, therm)
        else (case parse_groups buf 1 2 (temper therm) of (res, ts) \<Rightarrow> Some (res, two_channels ts))
      else if length buf = 12 then
        if \<not> framed buf then Some (-1, therm)
        else
          (case parse_groups buf 1 2 (temper therm) of
             (res, ts) \<Rightarrow> Some (res, two_channels (set_alarm 1 (buf ! 10) (set_alarm 0 (buf ! 9) ts))))
      else if length buf = 18 then
        if \<not> framed buf then Some (-1, therm)
        else (case parse_groups buf 1 4 (temper therm) of (res, ts) \<Rightarrow> Some (res, \<lparr>channel = 4, temper = ts\<rparr>))
      else if length buf = 42 then
        if msg_type = eUT1 \<or> msg_type = eUT3 then
          if \<not> framed buf then Some (-1, therm)
          else (case parse_groups buf 27 2 (temper therm) of (res, ts) \<Rightarrow> Some (res, two_channels ts))
        else None
      else Some (-1, therm))"

subsection \<open>Reading the device\<close>

record therm =
  g_thermdata :: therm_data
  is_getting_therm :: bool
  therm_fault :: int
  therm_time_sense :: int
  prev_time_sense :: int
  flag_success_once :: bool
  therm_device :: "byte list"

definition THERM_DEFAULT_TIME_SENSE :: int where "THERM_DEFAULT_TIME_SENSE = 180"

definition therm_init :: therm where
  "therm_init = \<lparr>g_thermdata = zero_therm, is_getting_therm = False, therm_fault = 0,
     therm_time_sense = THERM_DEFAULT_TIME_SENSE, prev_time_sense = 0, flag_success_once = False,
     therm_device = str ''/dev/ttyHSL2''\<rparr>"

definition set_therm_device :: "byte list \<Rightarrow> int \<Rightarrow> therm \<Rightarrow> int \<times> therm" where
  "set_therm_device dev len_dev s =
     (if len_dev \<ge> 64 then (-1, s) else (0, s\<lparr>therm_device := snprintf 63 dev\<rparr>))"

text \<open>The type of the device is fixed to \<open>eUT1\<close> in this build.\<close>

definition get_therm :: "byte list option \<Rightarrow> therm_data \<Rightarrow> int \<times> therm_data" where
  "get_therm line t =
     (case line of
        None \<Rightarrow> (-1, t)
      | Some buf \<Rightarrow>
          (case parse_temper eUT1 buf t of
             None \<Rightarrow> (-1, t)
           | Some (r, t1) \<Rightarrow> (if r = -1 then -1 else 0, t1)))"

text \<open>The second line is read only when the first fails after an earlier success.\<close>

definition get_tempature :: "byte list option \<Rightarrow> byte list option \<Rightarrow> therm \<Rightarrow> int \<times> therm_data \<times> therm" where
  "get_tempature line1 line2 s =
     (case get_therm line1 zero_therm of
        (r1, t1) \<Rightarrow>
          if r1 < 0 then
            if flag_success_once s then
              (case get_therm line2 t1 of
                 (r2, t2) \<Rightarrow> if r2 < 0 then (-1, t2, s) else (0, t2, s\<lparr>flag_success_once := True\<rparr>))
            else (-1, t1, s)
          else (0, t1, s\<lparr>flag_success_once := True\<rparr>))"

subsection \<open>The current reading\<close>

definition therm_get_curr_data :: "therm \<Rightarrow> therm_data option" where
  "therm_get_curr_data s = (if is_getting_therm s then Some (g_thermdata s) else None)"

definition therm_set_curr_data :: "therm_data \<Rightarrow> therm \<Rightarrow> therm" where
  "therm_set_curr_data d s = s\<lparr>g_thermdata := d\<rparr>"

definition therm_is_timing_sense :: "int \<Rightarrow> therm \<Rightarrow> int \<times> therm" where
  "therm_is_timing_sense cur_time s =
     (if cur_time \<le> 0 then (-1, s)
      else if prev_time_sense s = 0 then (1, s\<lparr>prev_time_sense := cur_time\<rparr>)
      else if cur_time - prev_time_sense s \<ge> therm_time_sense s then (1, s\<lparr>prev_time_sense := cur_time\<rparr>)
      else (0, s))"

definition therm_sense :: "int \<Rightarrow> byte list option \<Rightarrow> byte list option \<Rightarrow> therm \<Rightarrow> int \<times> therm" where
  "therm_sense cur_time line1 line2 s =
     (case therm_is_timing_sense cur_time s of
        (due, s1) \<Rightarrow>
          if due \<noteq> 1 then (0, s1)
          else
            (case get_tempature line1 line2 s1 of
               (r, d, s2) \<Rightarrow>
                 if r < 0 then (-1, s2\<lparr>is_getting_therm := False\<rparr>)
                 else (0, (therm_set_curr_data d (s2\<lparr>therm_fault := 0\<rparr>))\<lparr>is_getting_therm := True\<rparr>)))"

definition therm_clear_fault :: "therm \<Rightarrow> therm" where
  "therm_clear_fault s = s\<lparr>therm_fault := 0\<rparr>"

definition therm_set_sense_cycle :: "int \<Rightarrow> therm \<Rightarrow> therm" where
  "therm_set_sense_cycle val s = s\<lparr>therm_time_sense := val\<rparr>"

definition therm_set_dev :: "byte list \<Rightarrow> int \<Rightarrow> therm \<Rightarrow> int \<times> therm" where
  "therm_set_dev dev len_dev s = set_therm_device dev len_dev s"

subsection \<open>What an accepted frame means\<close>

definition good_temp :: "temp_local \<Rightarrow> bool" where
  "good_temp t \<longleftrightarrow> (t_status t = eOK \<longrightarrow> \<bar>t_data t\<bar> \<le> 999)"

definition good_therm :: "therm_data \<Rightarrow> bool" where
  "good_therm d \<longleftrightarrow> channel d \<in> {2, 4} \<and> length (temper d) = 4 \<and> list_all good_temp (temper d)"

lemma dec_value: "is_dec d \<Longrightarrow> 0 \<le> uint d - 48 \<and> uint d - 48 \<le> 9"
  by (simp add: is_dec_def word_le_def)

lemma atoi_three: "is_dec b \<Longrightarrow> \<bar>atoi [b, c, d]\<bar> \<le> 999"
proof -
  assume b: "is_dec b"
  consider "\<not> is_dec c" | "is_dec c" "\<not> is_dec d" | "is_dec c" "is_dec d" by blast
  then show ?thesis
  proof cases
    case 1
    then show ?thesis using atoi_digits [of "[b]" "[c, d]"] b dec_value [OF b] by simp
  next
    case 2
    then show ?thesis
      using atoi_digits [of "[b, c]" "[d]"] b dec_value [OF b] dec_value [of c] by simp
  next
    case 3
    then show ?thesis
      using atoi_digits [of "[b, c, d]" "[]"] b dec_value [OF b] dec_value [of c] dec_value [of d]
      by simp
  qed
qed

lemma list4: "length g = 4 \<Longrightarrow> g = [g ! 0, g ! 1, g ! 2, g ! 3]"
  by (rule nth_equalityI) (auto simp: less_Suc_eq numeral_nat)

lemma uint_byte_le: "uint (b::byte) \<le> 255"
  using uint_bounded [of b] by simp

lemma abs_signed_value: "\<bar>signed_value sign v\<bar> = \<bar>v\<bar>"
  by (simp add: signed_value_def)

lemma parse_one_good:
  assumes "length g = 4" and "parse_one_temper g t = (r, t')" and "r \<noteq> -1"
  shows "good_temp t'"
proof (cases "sign_status g")
  case None
  then show ?thesis using assms by (simp add: parse_one_temper_def)
next
  case (Some st)
  show ?thesis
  proof (cases "st = eOK")
    case False
    then show ?thesis using assms(2) Some by (auto simp: parse_one_temper_def good_temp_def)
  next
    case OK: True
    show ?thesis
    proof (cases "g ! 1 \<le> 9")
      case True
      let ?v = "uint (g ! 1) * 100 + uint (g ! 2) * 10 + uint (g ! 3)"
      have v: "\<bar>?v\<bar> \<le> 999" if "\<not> uint (g ! 1) * 100 + uint (g ! 2) * 10 > 500"
        using that uint_byte_le [of "g ! 3"] uint_ge_0 [of "g ! 1"] uint_ge_0 [of "g ! 2"]
          uint_ge_0 [of "g ! 3"] by linarith
      have "t_data t' = signed_value (g ! 0) ?v" "\<bar>?v\<bar> \<le> 999"
        using assms(2,3) Some OK True v
        by (auto simp: parse_one_temper_def Let_def simp del: uint_ge_0 split: if_splits)
      then show ?thesis by (simp add: good_temp_def abs_signed_value del: abs_of_nonneg)
    next
      case False
      have "drop 1 g = [g ! 1, g ! 2, g ! 3]" using list4 [OF assms(1)]
        by (metis One_nat_def drop0 drop_Suc_Cons)
      then show ?thesis
        using assms(2,3) Some OK False atoi_three [of "g ! 1" "g ! 2" "g ! 3"]
        by (auto simp: parse_one_temper_def good_temp_def Let_def signed_value_def is_dec_def
            split: if_splits)
    qed
  qed
qed

lemma parse_groups_good:
  assumes "off + 4 * n \<le> length buf" and "n \<le> length ts"
    and "parse_groups buf off n ts = (res, ts')"
  shows "length ts' = length ts \<and> (res \<noteq> -1 \<longrightarrow> res = 0 \<and> (\<forall>i<n. good_temp (ts' ! i)))"
  using assms
proof (induction n arbitrary: res ts')
  case 0
  then show ?case by (simp add: parse_groups_def)
next
  case (Suc n)
  obtain r0 ts0 where p: "parse_groups buf off n ts = (r0, ts0)" by fastforce
  from Suc.IH [OF _ _ p] Suc.prems
  have l: "length ts0 = length ts" and i: "r0 \<noteq> -1 \<longrightarrow> r0 = 0 \<and> (\<forall>i<n. good_temp (ts0 ! i))" by auto
  obtain r t where q: "parse_one_temper (temper_group buf off n) (ts0 ! n) = (r, t)" by fastforce
  have g: "length (temper_group buf off n) = 4" using Suc.prems(1) by (simp add: temper_group_def)
  have e: "res = (if r = -1 then -1 else r0)" "ts' = ts0[n := t]"
    using Suc.prems(3) p q by (simp_all add: parse_groups_def)
  from e i parse_one_good [OF g q] Suc.prems(2) l show ?case
    by (auto simp: nth_list_update less_Suc_eq)
qed

lemma set_length [simp]:
  "length (set_status i st ts) = length ts" "length (set_alarm i a ts) = length ts"
  by (simp_all add: set_status_def set_alarm_def)

lemma set_alarm_good:
  "i < length ts \<Longrightarrow> good_temp (set_alarm i a ts ! j) = good_temp (ts ! j)"
  by (simp add: set_alarm_def nth_list_update good_temp_def)

lemma all_below_4: "(\<forall>i<4::nat. P i) \<longleftrightarrow> P 0 \<and> P 1 \<and> P 2 \<and> P 3"
  by (auto simp: numeral_nat less_Suc_eq)

lemma two_channels_good:
  "length ts = 4 \<Longrightarrow> \<forall>i<2. good_temp (ts ! i) \<Longrightarrow> good_therm (two_channels ts)"
  by (simp add: two_channels_def good_therm_def set_status_def list_all_length all_below_4
      nth_list_update good_temp_def numeral_2_eq_2 less_Suc_eq)

lemma length_two_channels [simp]: "length (temper (two_channels ts)) = length ts"
  by (simp add: two_channels_def)

lemma four_channels_good:
  "length ts = 4 \<Longrightarrow> \<forall>i<4. good_temp (ts ! i) \<Longrightarrow> good_therm \<lparr>channel = 4, temper = ts\<rparr>"
  by (simp add: good_therm_def list_all_length)

lemma parse_temper_good:
  assumes "parse_temper msg_type buf t = Some (res, d)" and "length (temper t) = 4"
  shows "length (temper d) = 4 \<and> (res \<noteq> -1 \<longrightarrow> res = 0 \<and> good_therm d)"
proof -
  note pg = parse_groups_good [of _ _ buf "temper t"]
  have 2: "\<forall>i<2. P i" if "P 0" "P (Suc 0)" for P :: "nat \<Rightarrow> bool"
    using that by (auto simp: numeral_2_eq_2 less_Suc_eq)
  show ?thesis
    using assms pg [of 1 2] pg [of 1 4] pg [of 27 2]
    by (auto simp: parse_temper_def set_alarm_good two_channels_good four_channels_good
        split: if_splits prod.splits)
qed

subsection \<open>Frames of readable numbers\<close>

definition temp_text :: "int \<Rightarrow> byte list" where
  "temp_text v =
     (let n = nat \<bar>v\<bar>
      in [if v < 0 then 49 else 48, of_nat (48 + n div 100), of_nat (48 + n div 10 mod 10), of_nat (48 + n mod 10)])"

definition temp_frame :: "int list \<Rightarrow> byte list" where
  "temp_frame vs = 62 # concat (map temp_text vs) @ [60]"

lemma parse_temp_text:
  assumes "\<bar>v\<bar> \<le> 999"
  shows "parse_one_temper (temp_text v) t = (0, t\<lparr>t_status := eOK, t_data := v\<rparr>)"
proof -
  define n where "n = nat \<bar>v\<bar>"
  define a b c where abc: "a = n div 100" "b = n div 10 mod 10" "c = n mod 10"
  have l: "a < 10" "b < 10" "c < 10" using assms by (simp_all add: abc n_def)
  have "n div 100 = n div 10 div 10" by (simp add: div_mult2_eq [symmetric])
  then have n: "100 * a + 10 * b + c = n"
    unfolding abc using mult_div_mod_eq [of 10 n] mult_div_mod_eq [of 10 "n div 10"] by linarith
  let ?d = "\<lambda>k. of_nat (48 + k) :: byte"
  let ?g = "[if v < 0 then 49 else 48, ?d a, ?d b, ?d c]"
  have g: "temp_text v = ?g" by (simp add: temp_text_def Let_def abc n_def)
  note d = digit_byte [OF l(1)] digit_byte [OF l(2)] digit_byte [OF l(3)]
  have "atoi [?d a, ?d b, ?d c] = int n"
    using atoi_digits [of "[?d a, ?d b, ?d c]" "[]"] d n by simp
  moreover have "\<not> ?d a \<le> 9" "48 \<le> ?d a" "?d a \<le> 57"
    using d(1) by (auto simp: is_dec_def word_le_nat_alt)
  moreover have "sign_status ?g = Some eOK" by (simp add: sign_status_def)
  moreover have "signed_value (?g ! 0) (int n) = v" by (simp add: signed_value_def n_def)
  ultimately show ?thesis unfolding g by (simp add: parse_one_temper_def)
qed

lemma length_temp_text [simp]: "length (temp_text v) = 4"
  by (simp add: temp_text_def Let_def)

lemma temp_texts_group:
  "i < length vs \<Longrightarrow> take 4 (drop (4 * i) (concat (map temp_text vs) @ rest)) = temp_text (vs ! i)"
proof (induction vs arbitrary: i)
  case (Cons v vs)
  show ?case
  proof (cases i)
    case (Suc j)
    have "drop (4 * Suc j) (temp_text v @ ys) = drop (4 * j) ys" for ys by simp
    with Suc Cons show ?thesis by (simp del: drop_append take_append)
  qed simp
qed simp

lemma temp_group: "i < length vs \<Longrightarrow> temper_group (temp_frame vs) (Suc 0) i = temp_text (vs ! i)"
  using temp_texts_group [of i vs "[60]"] by (simp add: temper_group_def temp_frame_def)

lemma framed_temp_frame [simp]: "framed (temp_frame vs)"
  by (simp add: framed_def temp_frame_def)

lemma length_temp_frame [simp]: "length (temp_frame vs) = 4 * length vs + 2"
  by (induction vs) (simp_all add: temp_frame_def)

lemma parse_groups_frame:
  assumes "n \<le> length vs" and "\<forall>v\<in>set vs. \<bar>v\<bar> \<le> 999"
  shows "parse_groups (temp_frame vs) 1 n ts =
    (0, foldl (\<lambda>ts i. ts[i := (ts ! i)\<lparr>t_status := eOK, t_data := vs ! i\<rparr>]) ts [0..<n])"
  using assms
proof (induction n)
  case 0
  then show ?case by (simp add: parse_groups_def)
next
  case (Suc n)
  let ?f = "\<lambda>ts i. ts[i := (ts ! i)\<lparr>t_status := eOK, t_data := vs ! i\<rparr>]"
  have n: "\<bar>vs ! n\<bar> \<le> 999" and g: "temper_group (temp_frame vs) 1 n = temp_text (vs ! n)"
    using Suc.prems by (simp_all add: temp_group)
  have "parse_groups (temp_frame vs) 1 n ts = (0, foldl ?f ts [0..<n])" using Suc by simp
  then show ?case using parse_temp_text [OF n] g by (simp add: parse_groups_def)
qed

text \<open>
  A frame of two or four numbers between -999 and 999 is read back as exactly those numbers,
  with every channel marked as valid and the number of channels it has.
\<close>

theorem therm_frame_read:
  assumes "length vs = 2 \<or> length vs = 4" and "\<forall>v\<in>set vs. \<bar>v\<bar> \<le> 999"
  shows "\<exists>d. parse_temper msg_type (temp_frame vs) zero_therm = Some (0, d) \<and>
    channel d = int (length vs) \<and> map t_data (take (length vs) (temper d)) = vs \<and>
    map t_status (temper d) = replicate (length vs) eOK @ replicate (4 - length vs) eNOK"
  using assms(1)
proof
  assume "length vs = 2"
  then obtain a b where "vs = [a, b]" by (auto simp: length_Suc_conv numeral_2_eq_2)
  then show ?thesis using parse_groups_frame [OF _ assms(2), of 2]
    by (auto simp: parse_temper_def two_channels_def set_status_def zero_therm_def zero_temp_def
        upt_rec numeral_nat)
next
  assume "length vs = 4"
  then obtain a b c d where "vs = [a, b, c, d]" by (auto simp: length_Suc_conv numeral_nat)
  then show ?thesis using parse_groups_frame [OF _ assms(2), of 4]
    by (auto simp: parse_temper_def zero_therm_def zero_temp_def upt_rec numeral_nat)
qed

lemma therm_frame_read_witness:
  "\<exists>d. parse_temper eUT1 (temp_frame [215, -18]) zero_therm = Some (0, d) \<and>
    channel d = int (length [215, -18::int]) \<and> map t_data (take (length [215, -18::int]) (temper d)) = [215, -18] \<and>
    map t_status (temper d) = replicate (length [215, -18::int]) eOK @ replicate (4 - length [215, -18::int]) eNOK"
  by (rule therm_frame_read) simp_all

subsection \<open>What the rest of the program sees\<close>

datatype therm_op = Sense int "byte list option" "byte list option" | Clear_fault | Set_cycle int
  | Set_dev "byte list" int

fun therm_step :: "therm_op \<Rightarrow> therm \<Rightarrow> therm" where
  "therm_step (Sense t l1 l2) s = snd (therm_sense t l1 l2 s)"
| "therm_step Clear_fault s = therm_clear_fault s"
| "therm_step (Set_cycle val) s = therm_set_sense_cycle val s"
| "therm_step (Set_dev dev n) s = snd (therm_set_dev dev n s)"

definition therm_inv :: "therm \<Rightarrow> bool" where
  "therm_inv s \<longleftrightarrow> (\<forall>d. therm_get_curr_data s = Some d \<longrightarrow> good_therm d)"

lemma get_therm_good:
  "get_therm line t = (r, d) \<Longrightarrow> length (temper t) = 4 \<Longrightarrow>
   length (temper d) = 4 \<and> (0 \<le> r \<longrightarrow> good_therm d)"
  using parse_temper_good [of eUT1 _ t]
  by (fastforce simp: get_therm_def split: option.splits prod.splits if_splits)

lemma get_tempature_good:
  assumes "get_tempature l1 l2 s = (r, d, s')" and "0 \<le> r"
  shows "good_therm d"
proof -
  have z: "length (temper zero_therm) = 4" by (simp add: zero_therm_def)
  obtain r1 d1 where 1: "get_therm l1 zero_therm = (r1, d1)" by fastforce
  obtain r2 d2 where 2: "get_therm l2 d1 = (r2, d2)" by fastforce
  from get_therm_good [OF 1 z] get_therm_good [OF 2] assms 1 2 show ?thesis
    by (auto simp: get_tempature_def split: if_splits)
qed

lemma therm_step_inv:
  assumes "therm_inv s"
  shows "therm_inv (therm_step op s)"
proof (cases op)
  case (Sense t l1 l2)
  obtain b s1 where b: "therm_is_timing_sense t s = (b, s1)" by fastforce
  obtain r d s2 where g: "get_tempature l1 l2 s1 = (r, d, s2)" using prod_cases3 by blast
  have "therm_get_curr_data s1 = therm_get_curr_data s"
    using b by (auto simp: therm_is_timing_sense_def therm_get_curr_data_def split: if_splits)
  with assms Sense b g get_tempature_good [OF g] show ?thesis
    by (auto simp: therm_sense_def therm_inv_def therm_get_curr_data_def therm_set_curr_data_def)
qed (use assms in \<open>simp_all add: therm_inv_def therm_get_curr_data_def therm_clear_fault_def
    therm_set_sense_cycle_def therm_set_dev_def set_therm_device_def\<close>)

text \<open>
  C16: whatever bytes the serial line delivers, a reading the rest of the program gets has two or four
  channels in a table of four, and every channel marked as valid is between -999 and 999.
\<close>

theorem therm_reading_plausible:
  assumes "therm_get_curr_data (foldl (\<lambda>s op. therm_step op s) therm_init ops) = Some d"
  shows "channel d \<in> {2, 4} \<and> length (temper d) = 4 \<and>
    list_all (\<lambda>t. t_status t = eOK \<longrightarrow> \<bar>t_data t\<bar> \<le> 999) (temper d)"
proof -
  have "therm_inv therm_init" by (simp add: therm_inv_def therm_get_curr_data_def therm_init_def)
  then have "therm_inv (foldl (\<lambda>s op. therm_step op s) therm_init ops)"
    by (rule foldl_invariant) (rule therm_step_inv)
  with assms have "good_therm d" by (simp add: therm_inv_def)
  then show ?thesis by (simp add: good_therm_def good_temp_def [abs_def])
qed

lemma therm_reading_plausible_witness:
  "\<exists>d. therm_get_curr_data (foldl (\<lambda>s op. therm_step op s) therm_init
      [Sense 7 (Some (temp_frame [215, -18])) None]) = Some d \<and>
    channel d \<in> {2, 4} \<and> length (temper d) = 4"
proof -
  obtain d where d: "parse_temper eUT1 (temp_frame [215, -18]) zero_therm = Some (0, d)"
    using parse_groups_frame [of 2 "[215, -18]"] by (simp add: parse_temper_def)
  have "therm_get_curr_data (foldl (\<lambda>s op. therm_step op s) therm_init
      [Sense 7 (Some (temp_frame [215, -18])) None]) = Some d"
    using d by (simp add: therm_sense_def therm_is_timing_sense_def get_tempature_def get_therm_def
        therm_init_def therm_get_curr_data_def therm_set_curr_data_def)
  with therm_reading_plausible [OF this] show ?thesis by blast
qed

text \<open>
  The limit on the name of the device is one too high: a name of 63 characters is accepted and
  stored without its last one.
\<close>

lemma long_device_name_truncated:
  "length dev = 63 \<Longrightarrow> set_therm_device dev 63 s = (0, s\<lparr>therm_device := butlast dev\<rparr>)"
  by (simp add: set_therm_device_def snprintf_def butlast_conv_take)

end
