(* ===== verification/MdtConfig.thy ===== *)
theory MdtConfig
  imports Config CText
begin

text \<open>
  \<open>model/gtrace/config.c\<close>: the settings of the customer program. \<open>load_config_model\<close> reads the
  model file, \<open>load_config_user\<close> the user's file after replacing it by the original one when it is
  missing, damaged, of another model or older. The ini files are the dictionaries they parse to, in
  a world that says of every call of \<open>iniparser_load\<close> and \<open>tools_cp\<close> whether it succeeds.
\<close>

record mdt_conf =
  report_ip :: "byte list"
  report_port :: int
  collect_interval_keyon :: int
  collect_interval_keyoff :: int
  report_interval_keyon :: int
  report_interval_keyoff :: int
  tempature_enable :: int
  tempature_device :: "byte list"
  tempature_cycle :: int
  tcp_connect_retry_count :: int
  tcp_send_retry_count :: int
  tcp_receive_timeout_secs :: int
  dist_filter_enable :: int
  dist_filter_value :: int
  sat_filter_enable :: int
  sat_filter_value :: int
  hdop_filter_enable :: int
  hdop_filter_value :: int
  speed_filter_enable :: int
  speed_filter_value :: int
  model_name :: "byte list"

record ini_world =
  ini_files :: "string \<Rightarrow> dict option"
  ini_works :: "bool list"

definition CONFIG_FILE_PATH :: string where "CONFIG_FILE_PATH = ''/system/mds/system/bin/config.ini''"
definition CONFIG_USER_FILE_PATH :: string where "CONFIG_USER_FILE_PATH = ''/data/mds/data/user.ini''"
definition CONFIG_USER_ORG_FILE_PATH :: string where "CONFIG_USER_ORG_FILE_PATH = ''/system/mds/system/bin/user.ini''"

text \<open>Every call consumes one outcome; when none is left it succeeds.\<close>

definition next_works :: "ini_world \<Rightarrow> bool \<times> ini_world" where
  "next_works w =
     (case ini_works w of [] \<Rightarrow> (True, w) | b # bs \<Rightarrow> (b, w\<lparr>ini_works := bs\<rparr>))"

definition ini_load :: "string \<Rightarrow> ini_world \<Rightarrow> dict option \<times> ini_world" where
  "ini_load path w = (case next_works w of (b, w1) \<Rightarrow> (if b then ini_files w1 path else None, w1))"

definition ini_cp :: "string \<Rightarrow> string \<Rightarrow> ini_world \<Rightarrow> bool \<times> ini_world" where
  "ini_cp src dst w =
     (case next_works w of
        (b, w1) \<Rightarrow>
          if b \<and> ini_files w1 src \<noteq> None then (True, w1\<lparr>ini_files := (ini_files w1)(dst := ini_files w1 src)\<rparr>)
          else (False, w1))"

subsection \<open>Reading a list of keys\<close>

text \<open>
  The loop \<open>while (++ntry <= INI_RETRY_CNT)\<close> with the attempts left: the flag is
  \<open>ntry <= INI_RETRY_CNT\<close> after it.
\<close>

fun ini_attempts :: "(byte list \<Rightarrow> int) \<Rightarrow> 'c entry list \<Rightarrow> string \<Rightarrow> nat \<Rightarrow> 'c \<Rightarrow> ini_world \<Rightarrow>
    bool \<times> 'c \<times> ini_world" where
  "ini_attempts getint es path 0 c w = (False, c, w)"
| "ini_attempts getint es path (Suc n) c w =
     (case ini_load path w of
        (None, w1) \<Rightarrow> ini_attempts getint es path n c w1
      | (Some d, w1) \<Rightarrow>
          (case load_entries getint d es c of
             (True, c1) \<Rightarrow> (True, c1, w1)
           | (False, c1) \<Rightarrow> ini_attempts getint es path n c1 w1))"

definition model_entries :: "mdt_conf entry list" where
  "model_entries =
    [EInt ''model:tempature_enable'' (\<lambda>v c. c\<lparr>tempature_enable := v\<rparr>),
     EStr ''model:tempature_device'' 64 (\<lambda>v c. c\<lparr>tempature_device := v\<rparr>),
     EInt ''model:tempature_cycle'' (\<lambda>v c. c\<lparr>tempature_cycle := v\<rparr>),
     EInt ''dist_gps_filter:enable'' (\<lambda>v c. c\<lparr>dist_filter_enable := v\<rparr>),
     EInt ''dist_gps_filter:value'' (\<lambda>v c. c\<lparr>dist_filter_value := v\<rparr>),
     EInt ''sat_gps_filter:enable'' (\<lambda>v c. c\<lparr>sat_filter_enable := v\<rparr>),
     EInt ''sat_gps_filter:value'' (\<lambda>v c. c\<lparr>sat_filter_value := v\<rparr>),
     EInt ''hdop_gps_filter:enable'' (\<lambda>v c. c\<lparr>hdop_filter_enable := v\<rparr>),
     EInt ''hdop_gps_filter:value'' (\<lambda>v c. c\<lparr>hdop_filter_value := v\<rparr>),
     EInt ''speed_gps_filter:enable'' (\<lambda>v c. c\<lparr>speed_filter_enable := v\<rparr>),
     EInt ''speed_gps_filter:value'' (\<lambda>v c. c\<lparr>speed_filter_value := v\<rparr>)]"

definition user_entries :: "mdt_conf entry list" where
  "user_entries =
    [EStr ''user:report_ip'' 40 (\<lambda>v c. c\<lparr>report_ip := v\<rparr>),
     EInt ''user:report_port'' (\<lambda>v c. c\<lparr>report_port := v\<rparr>),
     EInt ''user:collect_interval_keyon'' (\<lambda>v c. c\<lparr>collect_interval_keyon := v\<rparr>),
     EInt ''user:collect_interval_keyoff'' (\<lambda>v c. c\<lparr>collect_interval_keyoff := v\<rparr>),
     EInt ''user:report_interval_keyon'' (\<lambda>v c. c\<lparr>report_interval_keyon := v\<rparr>),
     EInt ''user:report_interval_keyoff'' (\<lambda>v c. c\<lparr>report_interval_keyoff := v\<rparr>),
     EStr ''user:model_name'' 11 (\<lambda>v c. c\<lparr>model_name := v\<rparr>)]"

record stamp =
  stamp_name :: "byte list"
  stamp_date :: int

definition stamp_entries :: "stamp entry list" where
  "stamp_entries =
    [EStr ''user:model_name'' 16 (\<lambda>v c. c\<lparr>stamp_name := v\<rparr>),
     EInt ''user:date'' (\<lambda>v c. c\<lparr>stamp_date := v\<rparr>)]"

definition no_stamp :: stamp where
  "no_stamp = \<lparr>stamp_name = replicate 16 0, stamp_date = 0\<rparr>"

subsection \<open>Loading\<close>

text \<open>\<open>present\<close> is the result of waiting for the file.\<close>

definition load_config_model :: "(byte list \<Rightarrow> int) \<Rightarrow> bool \<Rightarrow> mdt_conf \<Rightarrow> ini_world \<Rightarrow>
    bool \<times> mdt_conf \<times> ini_world" where
  "load_config_model getint present c w =
     (if \<not> present then (False, c, w)
      else ini_attempts getint model_entries CONFIG_FILE_PATH INI_RETRY_CNT c w)"

definition use_original :: "bool \<Rightarrow> stamp \<Rightarrow> stamp \<Rightarrow> bool" where
  "use_original user_read org_s cur \<longleftrightarrow> \<not> user_read \<or>
     takeWhile (\<lambda>b. b \<noteq> 0) (stamp_name org_s) \<noteq> takeWhile (\<lambda>b. b \<noteq> 0) (stamp_name cur) \<or>
     stamp_date cur < stamp_date org_s"

definition load_config_user :: "(byte list \<Rightarrow> int) \<Rightarrow> bool \<Rightarrow> mdt_conf \<Rightarrow> ini_world \<Rightarrow>
    bool \<times> mdt_conf \<times> ini_world" where
  "load_config_user getint present c w =
     (let (ok, w) = (if \<not> present then ini_cp CONFIG_USER_ORG_FILE_PATH CONFIG_USER_FILE_PATH w
                     else (True, w)) in
      if \<not> ok then (False, c, w)
      else
        (let (org_ok, org_s, w) = ini_attempts getint stamp_entries CONFIG_USER_ORG_FILE_PATH INI_RETRY_CNT no_stamp w in
         if \<not> org_ok then (False, c, w)
         else
           (let (cur_ok, cur, w) = ini_attempts getint stamp_entries CONFIG_USER_FILE_PATH INI_RETRY_CNT no_stamp w;
                (ok, w) = (if use_original cur_ok org_s cur
                           then ini_cp CONFIG_USER_ORG_FILE_PATH CONFIG_USER_FILE_PATH w else (True, w)) in
            if \<not> ok then (False, c, w)
            else ini_attempts getint user_entries CONFIG_USER_FILE_PATH INI_RETRY_CNT c w)))"

definition load_config_model_default :: "mdt_conf \<Rightarrow> mdt_conf" where
  "load_config_model_default c =
     c\<lparr>tempature_enable := 1, tempature_device := pad0 64 (str ''/dev/ttyHSL2''), tempature_cycle := 180,
       dist_filter_enable := 1, dist_filter_value := 50, sat_filter_enable := 0, sat_filter_value := 5,
       hdop_filter_enable := 0, hdop_filter_value := 5, speed_filter_enable := 1, speed_filter_value := 200\<rparr>"

definition load_config_user_default :: "mdt_conf \<Rightarrow> mdt_conf" where
  "load_config_user_default c =
     c\<lparr>report_ip := pad0 40 (str ''219.254.35.130''), report_port := 34369,
       collect_interval_keyon := 60, report_interval_keyon := 60,
       collect_interval_keyoff := 3600, report_interval_keyoff := 3600,
       model_name := pad0 11 (str ''hnrt'')\<rparr>"

subsection \<open>The two intervals\<close>

text \<open>\<open>get_collection_interval\<close> and \<open>get_report_interval\<close> of \<open>mdt800/gps_utill.c\<close>.\<close>

definition get_collection_interval :: "bool \<Rightarrow> mdt_conf \<Rightarrow> int" where
  "get_collection_interval ign_off conf =
     (if ign_off then collect_interval_keyoff conf else collect_interval_keyon conf)"

definition get_report_interval :: "bool \<Rightarrow> mdt_conf \<Rightarrow> int" where
  "get_report_interval ign_off conf =
     (if ign_off then report_interval_keyoff conf else report_interval_keyon conf)"

text \<open>\<open>model/gtrace/validation.c\<close>; \<open>None\<close> is the division by an interval of zero.\<close>

definition validation_model_report_interval :: "u32 \<Rightarrow> u32 \<Rightarrow> int option" where
  "validation_model_report_interval period_interval send_interval =
     (if period_interval = 0 then None
      else if send_interval div period_interval \<ge> 1 \<and> send_interval mod period_interval = 0 \<and>
        period_interval \<le> 65000 \<and> send_interval \<le> 65000 then Some 0 else Some (-1))"

subsection \<open>Which file the user's settings come from\<close>

lemma load_entries_ok_any:
  "fst (load_entries getint d es c) = fst (load_entries getint d es c2)"
proof (induction es arbitrary: c c2)
  case (Cons e es)
  have n: "load_entry getint d e c = None \<longleftrightarrow> load_entry getint d e c2 = None"
    by (cases e) (auto simp: load_entry_def)
  show ?case
  proof (cases "load_entry getint d e c")
    case (Some a)
    with n obtain b where "load_entry getint d e c2 = Some b" by fastforce
    with Some Cons [of a b] show ?thesis by simp
  qed (use n in simp)
qed simp

lemma ini_load_healthy [simp]: "ini_works w = [] \<Longrightarrow> ini_load path w = (ini_files w path, w)"
  by (simp add: ini_load_def next_works_def)

lemma ini_attempts_ok:
  assumes "ini_works w = []" and "ini_files w path = Some d" and "load_entries getint d es c = (True, c')"
  shows "ini_attempts getint es path INI_RETRY_CNT c w = (True, c', w)"
  using assms by (simp add: INI_RETRY_CNT_def numeral_nat)

lemma ini_attempts_missing:
  assumes "ini_works w = []" and "ini_files w path = None"
  shows "ini_attempts getint es path n c w = (False, c, w)"
  using assms by (induction n) simp_all

lemma ini_attempts_incomplete:
  assumes "ini_works w = []" and "ini_files w path = Some d"
    and "\<not> fst (load_entries getint d es c0)"
  shows "\<exists>c'. ini_attempts getint es path n c w = (False, c', w)"
proof (induction n arbitrary: c)
  case (Suc n)
  have "\<not> fst (load_entries getint d es c)" using assms(3) load_entries_ok_any by metis
  then obtain c1 where "load_entries getint d es c = (False, c1)" by (metis (full_types) prod.collapse)
  with Suc assms show ?case by simp
qed simp

definition stamp_of :: "(byte list \<Rightarrow> int) \<Rightarrow> dict \<Rightarrow> stamp option" where
  "stamp_of getint d =
     (case load_entries getint d stamp_entries no_stamp of (True, s) \<Rightarrow> Some s | (False, _) \<Rightarrow> None)"

text \<open>The file the settings must come from: the user's, unless the original replaces it.\<close>

definition chosen_file :: "(byte list \<Rightarrow> int) \<Rightarrow> dict \<Rightarrow> stamp \<Rightarrow> dict option \<Rightarrow> dict" where
  "chosen_file getint org so u =
     (case u of
        None \<Rightarrow> org
      | Some d \<Rightarrow>
          (case stamp_of getint d of None \<Rightarrow> org | Some su \<Rightarrow> if use_original True so su then org else d))"

lemma stamp_attempts:
  assumes "ini_works w = []" and "ini_files w path = Some d"
  shows "\<exists>s. ini_attempts getint stamp_entries path INI_RETRY_CNT no_stamp w = (stamp_of getint d \<noteq> None, s, w) \<and>
    (\<forall>su. stamp_of getint d = Some su \<longrightarrow> s = su)"
proof (cases "load_entries getint d stamp_entries no_stamp")
  case (Pair b s)
  show ?thesis
  proof (cases b)
    case True
    then show ?thesis using ini_attempts_ok [OF assms] Pair by (simp add: stamp_of_def)
  next
    case False
    with Pair ini_attempts_incomplete [OF assms, of getint stamp_entries no_stamp INI_RETRY_CNT no_stamp]
    show ?thesis by (auto simp: stamp_of_def)
  qed
qed

lemma stage_two:
  assumes "ini_works w = []" and "ini_files w CONFIG_USER_ORG_FILE_PATH = Some org"
  shows "\<exists>ok cur. ini_attempts getint stamp_entries CONFIG_USER_FILE_PATH INI_RETRY_CNT no_stamp w = (ok, cur, w) \<and>
    (if use_original ok so cur then Some org else ini_files w CONFIG_USER_FILE_PATH) =
      Some (chosen_file getint org so (ini_files w CONFIG_USER_FILE_PATH))"
proof (cases "ini_files w CONFIG_USER_FILE_PATH")
  case None
  then show ?thesis using ini_attempts_missing [OF assms(1) None]
    by (intro exI [of _ False] exI [of _ no_stamp]) (simp add: chosen_file_def use_original_def)
next
  case (Some d)
  from stamp_attempts [OF assms(1) Some, of getint] obtain s where
    s: "ini_attempts getint stamp_entries CONFIG_USER_FILE_PATH INI_RETRY_CNT no_stamp w = (stamp_of getint d \<noteq> None, s, w)"
    and "\<forall>su. stamp_of getint d = Some su \<longrightarrow> s = su" by blast
  then have "(if use_original (stamp_of getint d \<noteq> None) so s then org else d) = chosen_file getint org so (Some d)"
    by (cases "stamp_of getint d") (simp_all add: chosen_file_def use_original_def)
  with s Some show ?thesis
    by (intro exI [of _ "stamp_of getint d \<noteq> None"] exI [of _ s]) (simp split: if_splits)
qed

lemma load_config_user_chosen:
  assumes w: "ini_works w = []" "ini_files w CONFIG_USER_ORG_FILE_PATH = Some org"
    and so: "stamp_of getint org = Some so"
    and u: "u = (if present then ini_files w CONFIG_USER_FILE_PATH else Some org)"
  shows "\<exists>w'. ini_works w' = [] \<and> ini_files w' = (ini_files w)(CONFIG_USER_FILE_PATH := Some (chosen_file getint org so u)) \<and>
    load_config_user getint present c w = ini_attempts getint user_entries CONFIG_USER_FILE_PATH INI_RETRY_CNT c w'"
proof -
  define w1 where "w1 = (if present then w
    else w\<lparr>ini_files := (ini_files w)(CONFIG_USER_FILE_PATH := Some org)\<rparr>)"
  have ne: "CONFIG_USER_ORG_FILE_PATH \<noteq> CONFIG_USER_FILE_PATH"
    by (simp add: CONFIG_USER_ORG_FILE_PATH_def CONFIG_USER_FILE_PATH_def)
  have w1: "ini_works w1 = []" "ini_files w1 CONFIG_USER_ORG_FILE_PATH = Some org"
    "ini_files w1 CONFIG_USER_FILE_PATH = u"
    "(ini_files w1)(CONFIG_USER_FILE_PATH := x) = (ini_files w)(CONFIG_USER_FILE_PATH := x)" for x
    using w u ne by (simp_all add: w1_def)
  have first: "(if \<not> present then ini_cp CONFIG_USER_ORG_FILE_PATH CONFIG_USER_FILE_PATH w else (True, w)) = (True, w1)"
    using w by (simp add: w1_def ini_cp_def next_works_def)
  obtain s where s: "ini_attempts getint stamp_entries CONFIG_USER_ORG_FILE_PATH INI_RETRY_CNT no_stamp w1 = (True, so, w1)"
    using stamp_attempts [OF w1(1,2), of getint] so by auto
  obtain ok cur where c: "ini_attempts getint stamp_entries CONFIG_USER_FILE_PATH INI_RETRY_CNT no_stamp w1 = (ok, cur, w1)"
    "(if use_original ok so cur then Some org else u) = Some (chosen_file getint org so u)"
    using stage_two [OF w1(1,2), of getint so] w1(3) by auto
  show ?thesis
  proof (cases "use_original ok so cur")
    case True
    then have "chosen_file getint org so u = org" using c(2) by simp
    then show ?thesis using True first s c(1) w1
      by (intro exI [of _ "w1\<lparr>ini_files := (ini_files w1)(CONFIG_USER_FILE_PATH := Some org)\<rparr>"])
        (simp add: load_config_user_def Let_def ini_cp_def next_works_def)
  next
    case False
    then have "u = Some (chosen_file getint org so u)" using c(2) by simp
    with w1 have "ini_files w1 = (ini_files w)(CONFIG_USER_FILE_PATH := Some (chosen_file getint org so u))"
      by (metis fun_upd_triv)
    then show ?thesis using False first s c(1) w1(1)
      by (intro exI [of _ w1]) (simp add: load_config_user_def)
  qed
qed

text \<open>
  When every library call works and the original file carries its model name and date, the
  settings come from the user's file exactly when that file is readable, of the same model and not
  older, and from the original otherwise, which then also replaces the user's file; the load fails
  exactly when the file it comes to lacks a key.
\<close>

theorem user_settings_source:
  assumes "ini_works w = []" and "ini_files w CONFIG_USER_ORG_FILE_PATH = Some org"
    and "stamp_of getint org = Some so"
    and "d = chosen_file getint org so (if present then ini_files w CONFIG_USER_FILE_PATH else Some org)"
  shows "\<exists>c' w'. load_config_user getint present c w = (fst (load_entries getint d user_entries c), c', w') \<and>
    ini_files w' = (ini_files w)(CONFIG_USER_FILE_PATH := Some d) \<and>
    (fst (load_entries getint d user_entries c) \<longrightarrow> c' = snd (load_entries getint d user_entries c))"
proof -
  from load_config_user_chosen [OF assms(1-3) refl, of present c] assms(4)
  obtain w' where w': "ini_works w' = []" "ini_files w' = (ini_files w)(CONFIG_USER_FILE_PATH := Some d)"
    "load_config_user getint present c w = ini_attempts getint user_entries CONFIG_USER_FILE_PATH INI_RETRY_CNT c w'"
    by blast
  then have u: "ini_files w' CONFIG_USER_FILE_PATH = Some d" by simp
  show ?thesis
  proof (cases "load_entries getint d user_entries c")
    case (Pair b c')
    show ?thesis
    proof (cases b)
      case True
      with Pair ini_attempts_ok [OF w'(1) u, of getint user_entries c c'] w' show ?thesis by simp
    next
      case False
      with Pair ini_attempts_incomplete [OF w'(1) u, of getint user_entries c INI_RETRY_CNT c] w'
      show ?thesis by auto
    qed
  qed
qed

definition org_example :: dict where
  "org_example = [''user:model_name'' \<mapsto> str ''gtrs'', ''user:date'' \<mapsto> str ''170905'',
     ''user:report_ip'' \<mapsto> str ''211.115.67.22'', ''user:report_port'' \<mapsto> str ''5100'',
     ''user:collect_interval_keyon'' \<mapsto> str ''60'', ''user:collect_interval_keyoff'' \<mapsto> str ''3600'',
     ''user:report_interval_keyon'' \<mapsto> str ''60'', ''user:report_interval_keyoff'' \<mapsto> str ''3600'']"

definition ini_world_example :: ini_world where
  "ini_world_example = \<lparr>ini_files = [CONFIG_USER_ORG_FILE_PATH \<mapsto> org_example,
     CONFIG_USER_FILE_PATH \<mapsto> org_example(''user:date'' \<mapsto> str ''160101'', ''user:report_port'' \<mapsto> str ''9'')],
     ini_works = []\<rparr>"

lemma user_settings_source_witness:
  "\<exists>so ok c' w'. load_config_user atoi True (load_config_user_default undefined) ini_world_example = (ok, c', w') \<and>
    ini_files w' = (ini_files ini_world_example)(CONFIG_USER_FILE_PATH :=
      Some (chosen_file atoi org_example so (ini_files ini_world_example CONFIG_USER_FILE_PATH)))"
proof -
  have "stamp_of atoi org_example \<noteq> None"
    by (simp add: stamp_of_def stamp_entries_def org_example_def load_entry_def get_value_ini_int_def
        get_value_ini_str_def INI_INVALID_KEY_INT_def atoi_def str_def is_dec_def Let_def)
  then obtain so where so: "stamp_of atoi org_example = Some so" by blast
  have "ini_works ini_world_example = []"
    "ini_files ini_world_example CONFIG_USER_ORG_FILE_PATH = Some org_example"
    by (simp_all add: ini_world_example_def CONFIG_USER_ORG_FILE_PATH_def CONFIG_USER_FILE_PATH_def)
  from user_settings_source [OF this so refl, of True "load_config_user_default undefined"]
  obtain c' w' where "load_config_user atoi True (load_config_user_default undefined) ini_world_example =
      (fst (load_entries atoi (chosen_file atoi org_example so (ini_files ini_world_example CONFIG_USER_FILE_PATH))
        user_entries (load_config_user_default undefined)), c', w')"
    "ini_files w' = (ini_files ini_world_example)(CONFIG_USER_FILE_PATH :=
      Some (chosen_file atoi org_example so (ini_files ini_world_example CONFIG_USER_FILE_PATH)))"
    by (simp only: if_True) blast
  then show ?thesis by blast
qed

text \<open>
  Nothing checks the intervals that come from a file; the check of an interval that comes in a
  message divides by it before it looks at it.
\<close>

lemma interval_check_divides_by_zero: "validation_model_report_interval 0 send = None"
  by (simp add: validation_model_report_interval_def)

lemma interval_check_ok:
  assumes "validation_model_report_interval p s = Some 0"
  shows "0 < p \<and> p \<le> s \<and> uint p dvd uint s \<and> s \<le> 65000"
proof -
  from assms have p: "p \<noteq> 0" and d: "1 \<le> s div p" and m: "s mod p = 0" and s: "s \<le> 65000"
    by (auto simp: validation_model_report_interval_def split: if_splits)
  have "\<not> s < p"
  proof
    assume "s < p"
    then have "s div p = 0" by (simp add: word_less_nat_alt word_arith_nat_div unat_div)
    with d show False by simp
  qed
  moreover have "uint s mod uint p = 0" using m by (metis uint_mod unsigned_0)
  ultimately show ?thesis using p s by (auto simp: word_gt_0 dvd_eq_mod_eq_0)
qed

end
