(* ===== verification/MdtPacket.thy ===== *)
theory MdtPacket
  imports Hdlc Therm MdtConfig GpsData NetTransfer CritData
begin

text \<open>
  \<open>ext/protocol/mdt800/packet.c\<close> and \<open>model/gtrace/netcom.c\<close>: the record of 53 bytes that reports
  one position, and the packets the sender gets. A record travels with its XOR checksum (two bytes,
  the second 0), stuffed by theory Hdlc and closed by the flag; the packed structure is little-endian.
  The queue of records \<open>gps_buffer_list\<close> is the list of its records: theory UtilList shows that the
  linked list behaves as one. What the library, the sensors and the odometer report are arguments.
\<close>

definition MAX_DEV_ID_LED :: nat where "MAX_DEV_ID_LED = 15"
definition MDT800_PROTOCOL_ID :: byte where "MDT800_PROTOCOL_ID = 0x11"
definition MDT800_MESSAGE_TYPE :: byte where "MDT800_MESSAGE_TYPE = 0x64"
definition MDT800_MESSAGE_TYPE2 :: byte where "MDT800_MESSAGE_TYPE2 = 0x81"
definition MDT800_PACKET_END_FLAG :: byte where "MDT800_PACKET_END_FLAG = 0x7e"
definition LIMIT_TRANSFER_PACKET_COUNT :: nat where "LIMIT_TRANSFER_PACKET_COUNT = 360"
definition MILEAGE_NOT_INIT :: int where "MILEAGE_NOT_INIT = -1"

definition eCYCLE_REPORT_EVC :: int where "eCYCLE_REPORT_EVC = 5"
definition eMAX_EVENT_CODE :: int where "eMAX_EVENT_CODE = 39"

subsection \<open>The record\<close>

record packet_date =
  d_year :: u16
  d_mon :: byte
  d_day :: byte
  d_hour :: byte
  d_min :: byte
  d_sec :: byte

record lotte_packet =
  msg_id :: byte
  msg_type :: byte
  dev_id :: "byte list"
  evcode :: byte
  pdate :: packet_date
  p_gps_status :: byte
  p_latitude :: u32
  p_longitude :: u32
  p_gps_dir :: byte
  p_speed :: u16
  vehicle_odo :: u32
  temp1 :: u16
  temp2 :: u16
  temp3 :: u16
  report_cycle_time :: u16
  gpio_status :: byte
  dev_power :: byte
  create_cycle_time :: u16

definition LOTTE_PACKET_SIZE :: nat where "LOTTE_PACKET_SIZE = 53"

definition date_bytes :: "packet_date \<Rightarrow> byte list" where
  "date_bytes d = le16 (d_year d) @ [d_mon d, d_day d, d_hour d, d_min d, d_sec d]"

definition packet_bytes :: "lotte_packet \<Rightarrow> byte list" where
  "packet_bytes p =
     [msg_id p, msg_type p] @ dev_id p @ [evcode p] @ date_bytes (pdate p) @ [p_gps_status p] @
     le32 (p_latitude p) @ le32 (p_longitude p) @ [p_gps_dir p] @ le16 (p_speed p) @
     le32 (vehicle_odo p) @ le16 (temp1 p) @ le16 (temp2 p) @ le16 (temp3 p) @
     le16 (report_cycle_time p) @ [gpio_status p, dev_power p] @ le16 (create_cycle_time p)"

text \<open>The structure that lies over 53 bytes of memory.\<close>

definition read_packet :: "byte list \<Rightarrow> lotte_packet" where
  "read_packet b =
     \<lparr>msg_id = b ! 0, msg_type = b ! 1, dev_id = take 15 (drop 2 b), evcode = b ! 17,
      pdate = \<lparr>d_year = get16 18 b, d_mon = b ! 20, d_day = b ! 21, d_hour = b ! 22, d_min = b ! 23,
               d_sec = b ! 24\<rparr>,
      p_gps_status = b ! 25, p_latitude = get32 26 b, p_longitude = get32 30 b, p_gps_dir = b ! 34,
      p_speed = get16 35 b, vehicle_odo = get32 37 b, temp1 = get16 41 b, temp2 = get16 43 b,
      temp3 = get16 45 b, report_cycle_time = get16 47 b, gpio_status = b ! 49, dev_power = b ! 50,
      create_cycle_time = get16 51 b\<rparr>"

subsection \<open>Filling the record\<close>

text \<open>\<open>RoundOff (x, 0)\<close> of \<open>gps_utill.c\<close>.\<close>

definition RoundOff0 :: "real \<Rightarrow> int" where
  "RoundOff0 x = \<lfloor>x + 1 / 2\<rfloor>"

definition convert_angle_mdt :: "real \<Rightarrow> byte" where
  "convert_angle_mdt azimuth =
     (let bearing = RoundOff0 azimuth in
      if bearing = 0 then 0
      else if bearing > 0 \<and> bearing < 90 then 1
      else if bearing = 90 then 2
      else if bearing > 90 \<and> bearing < 180 then 3
      else if bearing = 180 then 4
      else if bearing > 180 \<and> bearing < 270 then 5
      else if bearing = 270 then 6
      else if bearing > 270 \<and> bearing \<le> 360 then 7
      else 0xff)"

definition temper_value :: "temp_local \<Rightarrow> int" where
  "temper_value t =
     (case t_status t of eOK \<Rightarrow> t_data t | eOPEN \<Rightarrow> -3333 | eSHORT \<Rightarrow> -4444 | eUNUSED \<Rightarrow> -5555 | eNOK \<Rightarrow> -5555)"

definition set_temp :: "nat \<Rightarrow> u16 \<Rightarrow> lotte_packet \<Rightarrow> lotte_packet" where
  "set_temp i v p =
     (if i = 0 then p\<lparr>temp1 := v\<rparr> else if i = 1 then p\<lparr>temp2 := v\<rparr> else if i = 2 then p\<lparr>temp3 := v\<rparr> else p)"

text \<open>\<open>None\<close> when the channels go past the table of the sensor.\<close>

definition fill_temps :: "therm_data option \<Rightarrow> lotte_packet \<Rightarrow> lotte_packet option" where
  "fill_temps th p =
     (case th of
        None \<Rightarrow> Some p
      | Some t \<Rightarrow>
          if channel t > int (length (temper t)) then None
          else Some (foldl (\<lambda>p i. set_temp i (word_of_int (temper_value (temper t ! i))) p) p [0..<nat (channel t)]))"

text \<open>What the record takes from outside: number, odometer, sensor, power and configuration.\<close>

record report_env =
  r_phonenum :: "byte list"
  r_server_mileage :: int
  r_gps_mileage :: int
  r_therm :: "therm_data option"
  r_power_source :: int
  r_ign_off :: bool
  r_ign_coll :: bool
  r_conf :: mdt_conf

definition odo_value :: "report_env \<Rightarrow> u32" where
  "odo_value e =
     (if r_server_mileage e = MILEAGE_NOT_INIT then 0
      else word_of_int (r_server_mileage e + r_gps_mileage e))"

text \<open>
  \<open>None\<close> when the number leaves no room for the NUL in the 15 bytes it is read into, or by the sensor's
  table. The two intervals read the ignition once each.
\<close>

definition create_report_data :: "int \<Rightarrow> report_env \<Rightarrow> gpsData \<Rightarrow> lotte_packet option" where
  "create_report_data ev_code e g =
     (if length (r_phonenum e) \<ge> MAX_DEV_ID_LED then None
      else fill_temps (r_therm e)
        \<lparr>msg_id = MDT800_PROTOCOL_ID, msg_type = MDT800_MESSAGE_TYPE,
         dev_id = r_phonenum e @ replicate (MAX_DEV_ID_LED - length (r_phonenum e)) 0x20,
         evcode = word_of_int ev_code,
         pdate = \<lparr>d_year = gyear g, d_mon = gmon g, d_day = gday g, d_hour = ghour g, d_min = gmin g,
                  d_sec = gsec g\<rparr>,
         p_gps_status = (if gactive g = 1 then 1 else 2),
         p_latitude = word_of_int (to_int (glat g * 10000000)),
         p_longitude = word_of_int (to_int (glon g * 10000000)),
         p_gps_dir = convert_angle_mdt (gangle g), p_speed = word_of_int (gspeed g),
         vehicle_odo = odo_value e,
         temp1 = word_of_int (-5555), temp2 = word_of_int (-5555), temp3 = word_of_int (-5555),
         report_cycle_time = word_of_int (get_report_interval (r_ign_off e) (r_conf e)),
         gpio_status = 0, dev_power = word_of_int (r_power_source e),
         create_cycle_time = word_of_int (get_collection_interval (r_ign_coll e) (r_conf e))\<rparr>)"

subsection \<open>The record with text\<close>

text \<open>
  The record of type 2 carries a text of at most 100 bytes instead of the temperatures. The version is
  printed with a limit of two bytes into the three bytes of its field, which is cleared before.
\<close>

record lotte_packet2 =
  head2 :: "byte list"
  version2 :: "byte list"
  record_leng :: byte
  record2 :: "byte list"

definition head2_bytes :: "lotte_packet \<Rightarrow> byte list" where
  "head2_bytes p =
     [msg_id p, MDT800_MESSAGE_TYPE2] @ dev_id p @ [evcode p] @ date_bytes (pdate p) @ [p_gps_status p] @
     le32 (p_latitude p) @ le32 (p_longitude p) @ [p_gps_dir p] @ le16 (p_speed p) @
     le32 (vehicle_odo p) @ le16 (report_cycle_time p) @ [gpio_status p, dev_power p] @
     le16 (create_cycle_time p)"

definition create_report2_data :: "int \<Rightarrow> report_env \<Rightarrow> gpsData \<Rightarrow> byte list \<Rightarrow> byte list \<Rightarrow> nat \<Rightarrow>
    (nat \<times> lotte_packet2) option" where
  "create_report2_data ev_code e g ver text rec_len =
     (let n = rec_len mod 101 in
      if 0 \<notin> set text \<and> length text < n then None
      else
        map_option (\<lambda>p. (51 + n,
            \<lparr>head2 = head2_bytes p,
             version2 = pad0 3 (snprintf 2 [ver ! 1, ver ! 2, ver ! 3]),
             record_leng = of_nat n,
             record2 = pad0 n (takeWhile (\<lambda>c. c \<noteq> 0) text)\<rparr>))
          (create_report_data ev_code (e\<lparr>r_therm := None\<rparr>) g))"

definition packet2_bytes :: "lotte_packet2 \<Rightarrow> byte list" where
  "packet2_bytes p = head2 p @ version2 p @ [record_leng p] @ record2 p"

subsection \<open>Packets for the sender\<close>

text \<open>\<open>create_report_divert_buffer\<close>: the size of the buffer for \<open>num\<close> records.\<close>

definition divert_size :: "nat \<Rightarrow> nat" where
  "divert_size num = LOTTE_PACKET_SIZE * 2 * num"

definition is_available_report_divert_buffer :: "nat \<Rightarrow> bool" where
  "is_available_report_divert_buffer cnt \<longleftrightarrow> \<not> cnt \<ge> LIMIT_TRANSFER_PACKET_COUNT - 5"

text \<open>A record, its checksum and the flag as they are put into the buffer.\<close>

definition record_bytes :: "lotte_packet \<Rightarrow> byte list option" where
  "record_bytes p =
     (case crc8 0 (packet_bytes p) LOTTE_PACKET_SIZE of
        None \<Rightarrow> None
      | Some c \<Rightarrow>
          (case hdlc_async_encode (packet_bytes p) LOTTE_PACKET_SIZE of
             None \<Rightarrow> None
           | Some d \<Rightarrow>
               (case hdlc_async_encode (le16 (ucast c)) 2 of
                  None \<Rightarrow> None
                | Some d2 \<Rightarrow> Some (d @ d2 @ [MDT800_PACKET_END_FLAG]))))"

definition FEATURE_DONT_USE_MERGED_PACKET :: bool where "FEATURE_DONT_USE_MERGED_PACKET = True"

text \<open>
  The loop of \<open>make_period_packet\<close> with the number of records still wanted: what the buffer holds
  and the records left in the queue.
\<close>

fun period_loop :: "nat \<Rightarrow> lotte_packet list \<Rightarrow> byte list \<Rightarrow> (byte list \<times> lotte_packet list) option" where
  "period_loop 0 q buf = Some (buf, q)"
| "period_loop (Suc n) [] buf = Some (buf, [])"
| "period_loop (Suc n) (p # q) buf =
     (case record_bytes p of
        None \<Rightarrow> None
      | Some r \<Rightarrow> if FEATURE_DONT_USE_MERGED_PACKET then Some (buf @ r, q) else period_loop n q (buf @ r))"

text \<open>
  \<open>malloc_ok\<close> is the outcome of the allocation. The packet is its bytes and the length the caller
  gets, an \<open>unsigned short\<close>. \<open>None\<close> when the bytes go past the buffer.
\<close>

definition make_period_packet :: "bool \<Rightarrow> lotte_packet list \<Rightarrow>
    (int \<times> (byte list \<times> u16) option \<times> lotte_packet list) option" where
  "make_period_packet malloc_ok q =
     (if q = [] then Some (-1, None, q)
      else
        (let list_count = (if length q > LIMIT_TRANSFER_PACKET_COUNT then LIMIT_TRANSFER_PACKET_COUNT
                           else length q) in
         if \<not> malloc_ok then Some (-1, None, q)
         else
           (case period_loop list_count q [] of
              None \<Rightarrow> None
            | Some (buf, q1) \<Rightarrow>
                if length buf > divert_size list_count then None
                else if buf = [] then Some (-1, None, q1)
                else Some (0, Some (buf, of_nat (length buf)), q1))))"

definition make_event_packet :: "bool \<Rightarrow> int \<Rightarrow> report_env \<Rightarrow> gpsData \<Rightarrow>
    (int \<times> (byte list \<times> u16) option) option" where
  "make_event_packet malloc_ok eventCode e g =
     (if \<not> malloc_ok then Some (-1, None)
      else
        (case create_report_data eventCode e g of
           None \<Rightarrow> None
         | Some p \<Rightarrow>
             (case record_bytes p of
                None \<Rightarrow> None
              | Some buf \<Rightarrow>
                  if length buf > divert_size 1 then None else Some (0, Some (buf, of_nat (length buf))))))"

definition mdt_make_packet :: "int \<Rightarrow> bool \<Rightarrow> report_env \<Rightarrow> gpsData \<Rightarrow> lotte_packet list \<Rightarrow>
    (int \<times> (byte list \<times> u16) option \<times> lotte_packet list) option" where
  "mdt_make_packet op malloc_ok e g q =
     (if op = eCYCLE_REPORT_EVC then make_period_packet malloc_ok q
      else if op > 0 \<and> op < eMAX_EVENT_CODE then
        map_option (\<lambda>(r, b). (r, b, q)) (make_event_packet malloc_ok op e g)
      else Some (-1, None, q))"

subsection \<open>Sending\<close>

definition PACKET_RETRY_COUNT :: nat where "PACKET_RETRY_COUNT = 5"

definition setting_network_param :: "mdt_conf \<Rightarrow> transferSetting" where
  "setting_network_param conf =
     \<lparr>retry_count_connect = 3, retry_count_send = 3, retry_count_receive = 3, timeout_secs = 30,
      ts_ip = take 40 (takeWhile (\<lambda>c. c \<noteq> 0) (report_ip conf)), ts_port = word_of_int (report_port conf)\<rparr>"

text \<open>
  The loop \<open>while (retry-- > 0)\<close>: the last status, the value of \<open>retry\<close> behind the loop, and what
  each exchange put on the wire. \<open>envs i\<close> is the network during exchange \<open>i\<close>.
\<close>

fun send_attempts :: "transferSetting \<Rightarrow> (nat \<Rightarrow> net_env) \<Rightarrow> byte list \<Rightarrow> nat \<Rightarrow> nat \<Rightarrow> int \<Rightarrow>
    byte list list \<Rightarrow> dns \<Rightarrow> int \<times> int \<times> byte list list \<times> dns" where
  "send_attempts setting envs pkt 0 i res wires d = (res, -1, wires, d)"
| "send_attempts setting envs pkt (Suc retry) i res wires d =
     (let x = transfer_packet setting (envs i) pkt d in
      if x_err x = 0 then (0, int retry, wires @ [x_wire x], x_dns x)
      else send_attempts setting envs pkt retry (Suc i) (x_err x) (wires @ [x_wire x]) (x_dns x))"

definition mdt_send_packet_inner :: "transferSetting \<Rightarrow> (nat \<Rightarrow> net_env) \<Rightarrow> byte list \<Rightarrow> dns \<Rightarrow>
    int \<times> byte list list \<times> dns" where
  "mdt_send_packet_inner setting envs pkt d =
     (case send_attempts setting envs pkt PACKET_RETRY_COUNT 0 0 [] d of
        (res, retry, wires, d1) \<Rightarrow> if retry \<le> 0 then (-1, wires, d1) else (res, wires, d1))"

definition mdt_send_packet :: "mdt_conf \<Rightarrow> (nat \<Rightarrow> net_env) \<Rightarrow> byte list \<Rightarrow> dns \<Rightarrow>
    int \<times> byte list list \<times> dns" where
  "mdt_send_packet conf envs pkt d =
     (case mdt_send_packet_inner (setting_network_param conf) envs pkt d of
        (ret, wires, d1) \<Rightarrow> if ret < 0 then (-1, wires, d1) else (0, wires, d1))"

subsection \<open>The layout\<close>

definition packet_ok :: "lotte_packet \<Rightarrow> bool" where
  "packet_ok p \<longleftrightarrow> length (dev_id p) = MAX_DEV_ID_LED"

lemma le32_length [simp]: "length (le32 w) = 4"
  by (simp add: le32_def)

lemma length_packet_bytes [simp]: "packet_ok p \<Longrightarrow> length (packet_bytes p) = LOTTE_PACKET_SIZE"
  by (simp add: packet_bytes_def date_bytes_def packet_ok_def MAX_DEV_ID_LED_def LOTTE_PACKET_SIZE_def)

lemma list15: "length (xs :: byte list) = 15 \<Longrightarrow>
  \<exists>a b c d e f g h i j k l m n q. xs = [a, b, c, d, e, f, g, h, i, j, k, l, m, n, q]"
  by (auto simp: length_Suc_conv numeral_eq_Suc)

lemma read_packet_bytes [simp]:
  assumes "packet_ok p"
  shows "read_packet (packet_bytes p @ rest) = p"
proof -
  from assms obtain a b c d e f g h i j k l m n q where
    "dev_id p = [a, b, c, d, e, f, g, h, i, j, k, l, m, n, q]"
    using list15 [of "dev_id p"] by (auto simp: packet_ok_def MAX_DEV_ID_LED_def)
  moreover have "of_le32 [ucast w, ucast (drop_bit 8 w), ucast (drop_bit 16 w), ucast (drop_bit 24 w)] = w" for w :: u32
    using of_le32 [of w] by (simp add: le32_def)
  moreover have "of_le16 [ucast w, ucast (drop_bit 8 w)] = w" for w :: u16
    using of_le16 [of w] by (simp add: le16_def)
  ultimately show ?thesis
    by (cases p; cases "pdate p")
      (simp add: read_packet_def packet_bytes_def date_bytes_def le16_def le32_def get16_def get32_def)
qed

text \<open>Due north is reported as direction 7, north-west, when it is given as 360 degrees.\<close>

lemma north_is_north_west: "convert_angle_mdt 0 = 0" "convert_angle_mdt 360 = 7"
  by (simp_all add: convert_angle_mdt_def RoundOff0_def Let_def)

subsection \<open>What the server reads\<close>

definition xor_sum :: "byte list \<Rightarrow> byte" where
  "xor_sum xs = foldl (XOR) 0 xs"

lemma record_bytes_eq:
  "packet_ok p \<Longrightarrow> record_bytes p =
     Some (stuffed (packet_bytes p @ [xor_sum (packet_bytes p), 0]) @ [0x7e])"
proof -
  assume "packet_ok p"
  note l = length_packet_bytes [OF this, symmetric]
  have "ucast (drop_bit 8 (ucast (c::byte) :: u16)) = (0::byte)" for c
    by (rule bit_word_eqI) (auto simp: bit_simps dest: bit_imp_le_length)
  moreover have "ucast (ucast (c::byte) :: u16) = c" for c by (rule bit_word_eqI) (auto simp: bit_simps)
  ultimately have "le16 (ucast c) = [c, 0]" for c :: byte by (simp add: le16_def)
  then show ?thesis
    unfolding l record_bytes_def crc8_def xor_sum_def MDT800_PACKET_END_FLAG_def
    using hdlc_encode_exact [of "[foldl (XOR) 0 (packet_bytes p), 0]"]
    by (simp add: l numeral_2_eq_2)
qed

text \<open>
  A server that cuts the stream at the flags: each record with the outcome of its checksum, for \<open>n\<close>
  records.
\<close>

fun read_stream :: "nat \<Rightarrow> byte list \<Rightarrow> (lotte_packet \<times> bool) list" where
  "read_stream 0 s = []"
| "read_stream (Suc n) s =
     (case hdlc_async_decode s (length s) of
        None \<Rightarrow> []
      | Some d \<Rightarrow> (read_packet d, take 1 (drop LOTTE_PACKET_SIZE d) = [xor_sum (take LOTTE_PACKET_SIZE d)])
          # read_stream n (tl (dropWhile (\<lambda>b. b \<noteq> 0x7e) s)))"

lemma dropWhile_stuffed [simp]: "dropWhile (\<lambda>b. b \<noteq> 0x7e) (stuffed xs @ 0x7e # rest) = 0x7e # rest"
  using stuffed_no_flag [of xs] by (induction "stuffed xs") (auto simp: dropWhile_append)

lemma read_stream_record:
  assumes "packet_ok p" and "record_bytes p = Some b"
  shows "read_stream (Suc n) (b @ rest) = (p, True) # read_stream n rest"
proof -
  let ?x = "packet_bytes p @ [xor_sum (packet_bytes p), 0]"
  have b: "b @ rest = stuffed ?x @ 0x7e # rest" using record_bytes_eq [OF assms(1)] assms(2) by simp
  have "length ?x \<le> length (b @ rest)" unfolding b using length_stuffed [of ?x] by simp
  then obtain m where m: "length (b @ rest) = length ?x + m" by (metis le_iff_add)
  have "hdlc_async_decode (b @ rest) (length (b @ rest)) = Some ?x"
    unfolding m unfolding b hdlc_decode_stuffed by simp
  moreover have "tl (dropWhile (\<lambda>c. c \<noteq> 0x7e) (b @ rest)) = rest" unfolding b by (subst dropWhile_stuffed) simp
  ultimately show ?thesis using length_packet_bytes [OF assms(1)] assms(1)
    by (simp add: read_packet_bytes del: append_assoc)
qed

text \<open>Every call of \<open>make_period_packet\<close> takes the oldest record of the queue.\<close>

lemma make_period_one:
  assumes "packet_ok p" and "record_bytes p = Some b" and "length b \<le> divert_size 1"
  shows "make_period_packet True (p # q) = Some (0, Some (b, of_nat (length b)), q)"
proof -
  define n where "n = (if length (p # q) > LIMIT_TRANSFER_PACKET_COUNT then LIMIT_TRANSFER_PACKET_COUNT else length (p # q))"
  obtain k where k: "n = Suc k" by (cases n) (auto simp: n_def LIMIT_TRANSFER_PACKET_COUNT_def split: if_splits)
  have "b \<noteq> []" using record_bytes_eq [OF assms(1)] assms(2) by auto
  moreover have "length b \<le> divert_size n" using assms(3) k by (simp add: divert_size_def)
  ultimately show ?thesis
    using assms(2) unfolding make_period_packet_def n_def [symmetric] k
    by (simp add: FEATURE_DONT_USE_MERGED_PACKET_def)
qed

fun send_periods :: "nat \<Rightarrow> lotte_packet list \<Rightarrow> byte list option" where
  "send_periods 0 q = Some []"
| "send_periods (Suc n) q =
     (case make_period_packet True q of
        Some (r, Some (b, len), q1) \<Rightarrow> if r = 0 then map_option ((@) b) (send_periods n q1) else None
      | _ \<Rightarrow> None)"

subsection \<open>The size of a record\<close>

definition number_ok :: "byte list \<Rightarrow> bool" where
  "number_ok ph \<longleftrightarrow> length ph < MAX_DEV_ID_LED \<and> list_all is_dec ph"

lemma plain_dec [simp]: "is_dec b \<Longrightarrow> plain b"
  by (auto simp: is_dec_def plain_def word_le_def)

definition created :: "lotte_packet \<Rightarrow> bool" where
  "created p \<longleftrightarrow> packet_ok p \<and> list_all plain (dev_id p) \<and> plain (msg_id p) \<and> plain (msg_type p) \<and>
     plain (evcode p) \<and> plain (p_gps_status p) \<and> plain (p_gps_dir p) \<and> plain (gpio_status p)"

lemma record_length:
  assumes "created p" and "record_bytes p = Some b"
  shows "length b \<le> 89"
proof -
  have c: "packet_ok p" "list_all plain (dev_id p)" using assms(1) by (simp_all add: created_def)
  define bad where "bad = length \<circ> filter (\<lambda>x. \<not> plain x)"
  have bad: "bad (xs @ ys) = bad xs + bad ys" "bad xs \<le> length xs" "bad [] = 0"
    "bad (x # xs) = bad xs + (if plain x then 0 else 1)" for x xs ys
    by (simp_all add: bad_def length_filter_le)
  have d: "bad (dev_id p) = 0" using c(2) by (simp add: bad_def filter_empty_conv list_all_iff)
  have z: "plain 0" by (simp add: plain_def)
  define x1 x2 where x: "x1 = (if plain (dev_power p) then 0 else 1::nat)"
    "x2 = (if plain (xor_sum (packet_bytes p)) then 0 else 1::nat)"
  have dl: "length (date_bytes (pdate p)) = 7" by (simp add: date_bytes_def)
  have "bad (packet_bytes p) = bad (date_bytes (pdate p)) + bad (le32 (p_latitude p)) +
      bad (le32 (p_longitude p)) + bad (le16 (p_speed p)) + bad (le32 (vehicle_odo p)) +
      bad (le16 (temp1 p)) + bad (le16 (temp2 p)) + bad (le16 (temp3 p)) +
      bad (le16 (report_cycle_time p)) + bad (le16 (create_cycle_time p)) + x1"
    using assms(1) d by (simp add: packet_bytes_def bad created_def x)
  moreover have "bad (packet_bytes p @ [xor_sum (packet_bytes p), 0]) = bad (packet_bytes p) + x2"
    using z by (simp add: bad x)
  moreover have "x1 \<le> 1" "x2 \<le> 1" by (simp_all add: x)
  ultimately have "bad (packet_bytes p @ [xor_sum (packet_bytes p), 0]) \<le> 33"
    using dl bad(2) [of "date_bytes (pdate p)"] bad(2) [of "le32 (p_latitude p)"]
      bad(2) [of "le32 (p_longitude p)"] bad(2) [of "le16 (p_speed p)"] bad(2) [of "le32 (vehicle_odo p)"]
      bad(2) [of "le16 (temp1 p)"] bad(2) [of "le16 (temp2 p)"] bad(2) [of "le16 (temp3 p)"]
      bad(2) [of "le16 (report_cycle_time p)"] bad(2) [of "le16 (create_cycle_time p)"]
    by simp
  moreover have "length b = length (stuffed (packet_bytes p @ [xor_sum (packet_bytes p), 0])) + 1"
    using record_bytes_eq [OF c(1)] assms(2) by (simp del: stuffed_simps)
  ultimately show ?thesis
    using length_stuffed [of "packet_bytes p @ [xor_sum (packet_bytes p), 0]"] length_packet_bytes [OF c(1)]
    by (simp add: bad_def LOTTE_PACKET_SIZE_def del: stuffed_simps filter_append)
qed

lemma RoundOff_dir: "convert_angle_mdt a \<in> {0, 1, 2, 3, 4, 5, 6, 7, 0xff}"
  by (simp add: convert_angle_mdt_def Let_def)

lemma set_temp_created: "created p \<Longrightarrow> created (set_temp i v p)"
  by (simp add: created_def packet_ok_def set_temp_def)

lemma fill_temps_created:
  assumes "fill_temps th p = Some p'" and "created p"
  shows "created p'"
proof (cases th)
  case None
  then show ?thesis using assms by (simp add: fill_temps_def)
next
  case (Some t)
  let ?f = "\<lambda>p i. set_temp i (word_of_int (temper_value (temper t ! i))) p"
  have "created (foldl ?f p [0..<nat (channel t)])"
    using assms(2) by (rule foldl_invariant) (rule set_temp_created)
  with assms(1) Some show ?thesis by (simp add: fill_temps_def split: if_splits)
qed

lemma plain_consts: "plain 0x11" "plain 0x64" "plain 0" "plain 1" "plain 2" "plain 0x20"
  by (simp_all add: plain_def)

lemma plain_event: "0 < ev \<Longrightarrow> ev < eMAX_EVENT_CODE \<Longrightarrow> plain (word_of_int ev)"
proof -
  assume "0 < ev" and l: "ev < eMAX_EVENT_CODE"
  then have "uint (word_of_int ev :: byte) = ev" by (simp add: eMAX_EVENT_CODE_def uint_word_of_int)
  with l show ?thesis by (auto simp: plain_def eMAX_EVENT_CODE_def)
qed

lemma plain_angle: "plain (convert_angle_mdt a)"
  using RoundOff_dir [of a] by (auto simp: plain_def)

lemma create_report_fill:
  assumes "create_report_data ev e g = Some p"
  shows "\<exists>p0. fill_temps (r_therm e) p0 = Some p \<and> msg_id p0 = 0x11 \<and> msg_type p0 = 0x64 \<and>
    evcode p0 = word_of_int ev \<and> gpio_status p0 = 0 \<and> p_gps_dir p0 = convert_angle_mdt (gangle g) \<and>
    p_gps_status p0 = (if gactive g = 1 then 1 else 2) \<and>
    dev_id p0 = r_phonenum e @ replicate (MAX_DEV_ID_LED - length (r_phonenum e)) 0x20"
proof -
  from assms obtain p0 where "fill_temps (r_therm e) p0 = Some p" and "p0 =
        \<lparr>msg_id = MDT800_PROTOCOL_ID, msg_type = MDT800_MESSAGE_TYPE,
         dev_id = r_phonenum e @ replicate (MAX_DEV_ID_LED - length (r_phonenum e)) 0x20,
         evcode = word_of_int ev,
         pdate = \<lparr>d_year = gyear g, d_mon = gmon g, d_day = gday g, d_hour = ghour g, d_min = gmin g,
                  d_sec = gsec g\<rparr>,
         p_gps_status = (if gactive g = 1 then 1 else 2),
         p_latitude = word_of_int (to_int (glat g * 10000000)),
         p_longitude = word_of_int (to_int (glon g * 10000000)),
         p_gps_dir = convert_angle_mdt (gangle g), p_speed = word_of_int (gspeed g),
         vehicle_odo = odo_value e,
         temp1 = word_of_int (-5555), temp2 = word_of_int (-5555), temp3 = word_of_int (-5555),
         report_cycle_time = word_of_int (get_report_interval (r_ign_off e) (r_conf e)),
         gpio_status = 0, dev_power = word_of_int (r_power_source e),
         create_cycle_time = word_of_int (get_collection_interval (r_ign_coll e) (r_conf e))\<rparr>"
    unfolding create_report_data_def by (metis option.distinct(1))
  then show ?thesis by (intro exI [of _ p0]) (simp add: MDT800_PROTOCOL_ID_def MDT800_MESSAGE_TYPE_def)
qed

lemma create_report_created:
  assumes "create_report_data ev e g = Some p" and n: "number_ok (r_phonenum e)" and "0 < ev" and "ev < eMAX_EVENT_CODE"
  shows "created p"
proof -
  from create_report_fill [OF assms(1)] obtain p0 where f: "fill_temps (r_therm e) p0 = Some p"
    and p0: "msg_id p0 = 0x11" "msg_type p0 = 0x64" "evcode p0 = word_of_int ev" "gpio_status p0 = 0"
    "p_gps_dir p0 = convert_angle_mdt (gangle g)" "p_gps_status p0 = (if gactive g = 1 then 1 else 2)"
    "dev_id p0 = r_phonenum e @ replicate (MAX_DEV_ID_LED - length (r_phonenum e)) 0x20" by blast
  have "list_all plain (dev_id p0)"
    using n plain_consts(6) unfolding p0(7) number_ok_def list_all_append by (auto simp: list_all_iff)
  moreover have "length (dev_id p0) = MAX_DEV_ID_LED" using n p0(7) by (simp add: number_ok_def)
  moreover have "plain (p_gps_status p0)" using plain_consts(4,5) p0(6) by simp
  ultimately have "created p0"
    unfolding created_def packet_ok_def p0(1-5)
    using plain_consts(1-3) plain_event [OF assms(3,4)] plain_angle by blast
  with f show ?thesis by (rule fill_temps_created)
qed

lemma created_record:
  assumes "created p"
  shows "\<exists>b. record_bytes p = Some b \<and> length b \<le> 89 \<and> length b \<le> divert_size 1"
  using assms record_bytes_eq [of p] record_length [OF assms]
  by (auto simp: created_def divert_size_def LOTTE_PACKET_SIZE_def)

text \<open>The record as the program creates it: a valid event code and a number of digits.\<close>

definition from_program :: "lotte_packet \<Rightarrow> bool" where
  "from_program p \<longleftrightarrow> (\<exists>ev e g. 0 < ev \<and> ev < eMAX_EVENT_CODE \<and> number_ok (r_phonenum e) \<and>
     create_report_data ev e g = Some p)"

lemma from_program_created: "from_program p \<Longrightarrow> created p"
  by (auto simp: from_program_def intro: create_report_created)

text \<open>
  C3: the packets made from the queue, one record each, never exceed their buffer, and the bytes they
  put on the line are read back, record by record and in the order of the queue, as exactly the queued
  records with matching checksums.
\<close>

theorem mdt_stream_read:
  assumes "\<forall>p\<in>set q. from_program p" and "n \<le> length q"
  shows "\<exists>s. send_periods n q = Some s \<and> length s \<le> 89 * n \<and>
    read_stream n s = map (\<lambda>p. (p, True)) (take n q)"
  using assms
proof (induction n arbitrary: q)
  case (Suc n)
  then obtain p q' where q: "q = p # q'" by (cases q) auto
  from Suc.prems(1) q have c: "created p" by (simp add: from_program_created)
  then obtain b where b: "record_bytes p = Some b" "length b \<le> 89" "length b \<le> divert_size 1"
    using created_record by blast
  have ok: "packet_ok p" using c by (simp add: created_def)
  from Suc.IH [of q'] Suc.prems q obtain s where
    s: "send_periods n q' = Some s" "length s \<le> 89 * n" "read_stream n s = map (\<lambda>p. (p, True)) (take n q')"
    by auto
  show ?case
    using s b(2) q make_period_one [OF ok b(1,3), of q'] read_stream_record [OF ok b(1), of n s] by simp
qed simp

definition phone_example :: "byte list" where "phone_example = str ''01220000000''"

definition env_example :: report_env where
  "env_example = \<lparr>r_phonenum = phone_example, r_server_mileage = 1000, r_gps_mileage = 25, r_therm = None,
     r_power_source = 0, r_ign_off = False, r_ign_coll = False, r_conf = load_config_user_default undefined\<rparr>"

lemma env_example_created: "\<exists>p. create_report_data 5 env_example zero_gps = Some p \<and> from_program p"
proof -
  have n: "number_ok (r_phonenum env_example)"
    by (simp add: number_ok_def env_example_def phone_example_def str_def MAX_DEV_ID_LED_def is_dec_def)
  then obtain p where "create_report_data 5 env_example zero_gps = Some p"
    by (auto simp: create_report_data_def number_ok_def fill_temps_def env_example_def)
  moreover have "(0::int) < 5 \<and> 5 < eMAX_EVENT_CODE" by (simp add: eMAX_EVENT_CODE_def)
  ultimately show ?thesis using n unfolding from_program_def by blast
qed

lemma mdt_stream_read_witness:
  "\<exists>p s. create_report_data 5 env_example zero_gps = Some p \<and> send_periods 2 [p, p] = Some s \<and>
    length s \<le> 89 * 2 \<and> read_stream 2 s = map (\<lambda>p. (p, True)) (take 2 [p, p])"
proof -
  obtain p where "create_report_data 5 env_example zero_gps = Some p" "from_program p"
    using env_example_created by blast
  with mdt_stream_read [of "[p, p]" 2] show ?thesis by auto
qed

subsection \<open>The verdict of the sender\<close>

text \<open>The first \<open>n\<close> exchanges of a packet if none of them ended the loop.\<close>

fun exchanges :: "transferSetting \<Rightarrow> (nat \<Rightarrow> net_env) \<Rightarrow> byte list \<Rightarrow> nat \<Rightarrow> nat \<Rightarrow> dns \<Rightarrow> exchange list" where
  "exchanges setting envs pkt 0 i d = []"
| "exchanges setting envs pkt (Suc n) i d =
     (let x = transfer_packet setting (envs i) pkt d in x # exchanges setting envs pkt n (Suc i) (x_dns x))"

lemma send_attempts_result:
  assumes "send_attempts setting envs pkt n i res wires d = (res', retry, wires', d')"
  shows "let xs = exchanges setting envs pkt n i d; ys = takeWhile (\<lambda>x. x_err x \<noteq> 0) xs in
    (if length ys < n then res' = 0 \<and> retry = int (n - Suc (length ys)) \<and> wires' = wires @ map x_wire (take (Suc (length ys)) xs)
     else retry = -1 \<and> wires' = wires @ map x_wire xs)"
  using assms
proof (induction n arbitrary: i res wires d)
  case (Suc n)
  let ?x = "transfer_packet setting (envs i) pkt d"
  show ?case
  proof (cases "x_err ?x = 0")
    case True
    then show ?thesis using Suc.prems by (auto simp: Let_def)
  next
    case False
    then have "send_attempts setting envs pkt n (Suc i) (x_err ?x) (wires @ [x_wire ?x]) (x_dns ?x) = (res', retry, wires', d')"
      using Suc.prems by (simp add: Let_def)
    from Suc.IH [OF this] False show ?thesis by (simp add: Let_def split: if_splits)
  qed
qed simp

lemma length_exchanges [simp]: "length (exchanges setting envs pkt n i d) = n"
  by (induction n arbitrary: i d) (simp_all add: Let_def)

lemma takeWhile_none: "length (takeWhile P xs) < length xs \<longleftrightarrow> (\<exists>x\<in>set xs. \<not> P x)"
  by (induction xs) auto

lemma length_takeWhile_take: "length (takeWhile P (take n xs)) = min n (length (takeWhile P xs))"
proof (induction xs arbitrary: n)
  case (Cons x xs)
  then show ?case by (cases n) auto
qed simp

lemma exchange_delivers: "x_err (transfer_packet setting e pkt d) = 0 \<Longrightarrow> \<exists>w. x_wire (transfer_packet setting e pkt d) = w @ pkt"
  using connect_and_send_success [of setting e pkt d] by (auto simp: transfer_packet_def)

lemma exchanges_deliver: "x \<in> set (exchanges setting envs pkt n i d) \<Longrightarrow> x_err x = 0 \<Longrightarrow> \<exists>w. x_wire x = w @ pkt"
  by (induction n arbitrary: i d) (auto simp: Let_def exchange_delivers)

text \<open>
  C5: a packet is reported as sent exactly when one of the first four exchanges delivers it. When they
  all fail there is a fifth, but its success does not count: the server has the whole packet and the
  sender keeps it for another round.
\<close>

theorem send_packet_verdict:
  assumes "mdt_send_packet conf envs pkt d = (ret, wires, d')"
    and "xs = exchanges (setting_network_param conf) envs pkt PACKET_RETRY_COUNT 0 d"
  shows "(ret = 0 \<longleftrightarrow> (\<exists>x\<in>set (take 4 xs). x_err x = 0)) \<and>
    (ret \<noteq> 0 \<longrightarrow> ret = -1 \<and> wires = map x_wire xs \<and> (x_err (xs ! 4) = 0 \<longrightarrow> (\<exists>w. wires ! 4 = w @ pkt)))"
proof -
  let ?s = "setting_network_param conf"
  let ?n = "length (takeWhile (\<lambda>x. x_err x \<noteq> 0) xs)"
  obtain res retry wires1 d1 where a: "send_attempts ?s envs pkt PACKET_RETRY_COUNT 0 0 [] d = (res, retry, wires1, d1)"
    using prod_cases4 by blast
  have l: "length xs = 5" using assms(2) by (simp add: PACKET_RETRY_COUNT_def)
  from send_attempts_result [OF a] have r:
    "if ?n < 5 then res = 0 \<and> retry = int (5 - Suc ?n) \<and> wires1 = map x_wire (take (Suc ?n) xs)
     else retry = -1 \<and> wires1 = map x_wire xs"
    by (simp add: assms(2) PACKET_RETRY_COUNT_def Let_def)
  have v: "ret = (if retry \<le> 0 \<or> res < 0 then -1 else 0)" "wires = wires1"
    using assms(1) a by (auto simp: mdt_send_packet_def mdt_send_packet_inner_def split: if_splits)
  have t: "?n < 4 \<longleftrightarrow> (\<exists>x\<in>set (take 4 xs). x_err x = 0)"
  proof -
    have "length (takeWhile (\<lambda>x. x_err x \<noteq> 0) (take 4 xs)) = min 4 ?n"
      by (rule length_takeWhile_take)
    then show ?thesis using takeWhile_none [of "\<lambda>x. x_err x \<noteq> 0" "take 4 xs"] l by auto
  qed
  have z: "ret = 0 \<longleftrightarrow> ?n < 4" using r v(1) by (auto split: if_splits)
  have "wires = map x_wire xs" if "\<not> ?n < 4"
    using r that v(2) l by (auto split: if_splits)
  moreover have "\<exists>w. x_wire (xs ! 4) = w @ pkt" if "x_err (xs ! 4) = 0"
    using exchanges_deliver [of "xs ! 4"] l that assms(2) by (metis lessI nth_mem numeral_nat(3) eval_nat_numeral(3))
  ultimately show ?thesis using z t v(1) l by auto
qed

definition conf_example :: mdt_conf where
  "conf_example = (load_config_user_default undefined)\<lparr>report_ip := [97, 0]\<rparr>"

definition four_fail :: "nat \<Rightarrow> net_env" where
  "four_fail i = (if i < 4 then net_example\<lparr>sock_fd := -1\<rparr> else net_example)"

lemma fifth_exchange:
  "x_err (transfer_packet (setting_network_param conf_example) net_example [7, 8, 9] dns_init) = 0"
proof -
  let ?s = "setting_network_param conf_example"
  have ip: "ts_ip ?s = [97]" "retry_count_send ?s = 3"
    by (simp_all add: setting_network_param_def conf_example_def)
  have "connect_loop ?s net_example 0 0 = (1, 0, True)"
    by (subst connect_loop.simps) (simp add: net_example_def up_env_def nettool_connect_timeo_def)
  moreover have "nettool_get_host_name (\<lambda>_. Address 5) (Some [97]) dns_init = (5, \<lparr>g_hbn = [([97], 5)]\<rparr>)"
    by code_simp
  moreover have "send_loop ?s net_example [7, 8, 9] 0 0 [] = (0, 2, [7, 8, 7, 8, 9])"
    by (simp add: send_loop.simps ip net_example_def)
  moreover have "host_answers net_example = (\<lambda>_. Address 5)" "sock_fd net_example = 5" by (simp_all add: net_example_def)
  ultimately show ?thesis by (simp add: transfer_packet_def connect_and_send_def exchange_failed_def ip)
qed

lemma send_packet_verdict_witness:
  "\<exists>ret wires d' w. mdt_send_packet conf_example four_fail [7, 8, 9] dns_init = (ret, wires, d') \<and>
    ret = -1 \<and> wires ! 4 = w @ [7, 8, 9]"
proof -
  let ?xs = "exchanges (setting_network_param conf_example) four_fail [7, 8, 9] PACKET_RETRY_COUNT 0 dns_init"
  obtain ret wires d' where m: "mdt_send_packet conf_example four_fail [7, 8, 9] dns_init = (ret, wires, d')"
    using prod_cases3 by blast
  have f: "transfer_packet s (net_example\<lparr>sock_fd := -1\<rparr>) p d = exchange_failed (-1) (net_example\<lparr>sock_fd := -1\<rparr>) d" for s p d
    by (simp add: transfer_packet_def connect_and_send_def)
  have "\<forall>x\<in>set (take 4 ?xs). x_err x = -1" "x_err (?xs ! 4) = 0"
    using fifth_exchange
    by (simp_all add: PACKET_RETRY_COUNT_def numeral_eq_Suc four_fail_def f Let_def exchange_failed_def)
  with send_packet_verdict [OF m refl] m show ?thesis by fastforce
qed

text \<open>
  The version of the record with text is the first of the three characters the code prints.
\<close>

lemma version_truncated:
  "create_report2_data ev e g ver text n = Some (k, p) \<Longrightarrow> version2 p = [ver ! 1, 0, 0]"
proof -
  have "pad0 3 (snprintf 2 [a, b, c]) = [a, 0, 0]" for a b c
    by (simp add: pad0_def snprintf_def numeral_eq_Suc)
  then show "create_report2_data ev e g ver text n = Some (k, p) \<Longrightarrow> version2 p = [ver ! 1, 0, 0]"
    unfolding create_report2_data_def Let_def map_option_case
    by (auto split: if_splits option.splits)
qed

end
