(* ===== verification/MdtFence.thy ===== *)
theory MdtFence
  imports GpsData Storage
begin

text \<open>
  \<open>ext/protocol/mdt800/geofence.c\<close>: two circular fences that the server sets by message. Each has its
  own copy of the code; after an event a fence is silent for 30 readings. \<open>enc\<close> and \<open>unpack\<close> are the
  representation of the table in its file, distances those of theory Distance with the rounding
  \<open>rnd\<close>, a coordinate of 0 standing for an unknown one. The build is the one without \<open>CORP_ABBR_NISSO\<close>.
\<close>

definition GEO_FENCE_STATUS_FILE :: string where
  "GEO_FENCE_STATUS_FILE = ''/data/mds/data/mdt800_geo_fence.dat''"
definition WAIT_TIME_UNTIL_NEXT_MDT_EVENT :: int where "WAIT_TIME_UNTIL_NEXT_MDT_EVENT = 30"

datatype mdt_setup = eFENCE_SETUP_UNKOWN | eFENCE_SETUP_ENTRY | eFENCE_SETUP_EXIT | eFENCE_SETUP_ENTRY_EXIT
datatype mdt_fence_status = eFENCE_STATUS_UNKOWN | eFENCE_STATUS_IN | eFENCE_STATUS_OUT | eFENCE_STATUS_IGNORE
datatype mdt_notification = eFENCE_NONE_NOTIFICATION | eFENCE_IN_NOTIFICATION | eFENCE_OUT_NOTIFICATION

record mdt_fence =
  f_enable :: bool
  f_latitude :: real
  f_longitude :: real
  f_range :: int
  cur_fence_status :: mdt_fence_status
  f_setup :: mdt_setup

record mdt_geo =
  fence0 :: mdt_fence
  fence1 :: mdt_fence
  geo_fence0_wait_count :: int
  geo_fence1_wait_count :: int

subsection \<open>Tables\<close>

definition default_fence :: mdt_fence where
  "default_fence = \<lparr>f_enable = False, f_latitude = 0, f_longitude = 0, f_range = 0,
     cur_fence_status = eFENCE_STATUS_UNKOWN, f_setup = eFENCE_SETUP_UNKOWN\<rparr>"

definition default_geo_fence :: "mdt_geo \<Rightarrow> mdt_geo" where
  "default_geo_fence s = s\<lparr>fence0 := default_fence, fence1 := default_fence\<rparr>"

definition save_fences :: "(mdt_fence \<times> mdt_fence \<Rightarrow> byte list) \<Rightarrow> mdt_geo \<Rightarrow> os \<Rightarrow> int \<times> os" where
  "save_fences enc s os = storage_save_file GEO_FENCE_STATUS_FILE (enc (fence0 s, fence1 s)) os"

definition mdt_init_geo_fence :: "(mdt_fence \<times> mdt_fence \<Rightarrow> byte list) \<Rightarrow>
    (byte list \<Rightarrow> mdt_fence \<times> mdt_fence) \<Rightarrow> mdt_geo \<Rightarrow> os \<Rightarrow> int \<times> mdt_geo \<times> os" where
  "mdt_init_geo_fence enc unpack s os =
     (case storage_load_file GEO_FENCE_STATUS_FILE (enc (fence0 s, fence1 s)) os of
        (ret, d, os1) \<Rightarrow>
          (let s1 = s\<lparr>fence0 := fst (unpack d), fence1 := snd (unpack d)\<rparr> in
           if ret \<noteq> 0 then
             (let s2 = default_geo_fence s1 in (0, s2, snd (save_fences enc s2 os1)))
           else (0, s1, os1)))"

definition set_geo_fence0 :: "(mdt_fence \<times> mdt_fence \<Rightarrow> byte list) \<Rightarrow> mdt_fence \<Rightarrow> mdt_geo \<Rightarrow> os \<Rightarrow>
    int \<times> mdt_geo \<times> os" where
  "set_geo_fence0 enc data s os =
     (let s1 = s\<lparr>fence0 := data\<rparr>; (ret, os1) = save_fences enc s1 os in (ret, s1, os1))"

definition set_geo_fence1 :: "(mdt_fence \<times> mdt_fence \<Rightarrow> byte list) \<Rightarrow> mdt_fence \<Rightarrow> mdt_geo \<Rightarrow> os \<Rightarrow>
    int \<times> mdt_geo \<times> os" where
  "set_geo_fence1 enc data s os =
     (let s1 = s\<lparr>fence1 := data\<rparr>; (ret, os1) = save_fences enc s1 os in (ret, s1, os1))"

definition get_geo_fence0_enable :: "mdt_geo \<Rightarrow> bool" where
  "get_geo_fence0_enable s = f_enable (fence0 s)"

definition get_geo_fence1_enable :: "mdt_geo \<Rightarrow> bool" where
  "get_geo_fence1_enable s = f_enable (fence1 s)"

subsection \<open>One fence\<close>

text \<open>\<open>get_distance_meter\<close> of \<open>gps_utill.c\<close>.\<close>

definition get_distance_meter :: "(real \<Rightarrow> real) \<Rightarrow> real \<Rightarrow> real \<Rightarrow> real \<Rightarrow> real \<Rightarrow> real" where
  "get_distance_meter rnd tlat1 tlat2 tlon1 tlon2 =
     (if tlat1 = 0 \<or> tlat2 = 0 \<or> tlon1 = 0 \<or> tlon2 = 0 then -1.1
      else get_distance_m rnd tlat1 tlat2 tlon1 tlon2)"

definition mdt_check_fence_data :: "int \<Rightarrow> int \<Rightarrow> int \<Rightarrow> mdt_notification" where
  "mdt_check_fence_data d entry_range exit_range =
     (if d \<le> entry_range then eFENCE_IN_NOTIFICATION
      else if d > exit_range then eFENCE_OUT_NOTIFICATION else eFENCE_NONE_NOTIFICATION)"

text \<open>A notification compared with and stored as a status: the two enumerations share their values.\<close>

definition as_status :: "mdt_notification \<Rightarrow> mdt_fence_status" where
  "as_status n = (case n of eFENCE_NONE_NOTIFICATION \<Rightarrow> eFENCE_STATUS_UNKOWN
     | eFENCE_IN_NOTIFICATION \<Rightarrow> eFENCE_STATUS_IN | eFENCE_OUT_NOTIFICATION \<Rightarrow> eFENCE_STATUS_OUT)"

definition mdt_get_notification :: "(real \<Rightarrow> real) \<Rightarrow> mdt_fence \<Rightarrow> gpsData \<Rightarrow> mdt_notification \<times> mdt_fence" where
  "mdt_get_notification rnd f g =
     (let dist_diff = to_int (get_distance_meter rnd (f_latitude f) (glat g) (f_longitude f) (glon g)) in
      if dist_diff < 0 then (eFENCE_NONE_NOTIFICATION, f)
      else
        (let result = (if f_setup f = eFENCE_SETUP_UNKOWN then eFENCE_NONE_NOTIFICATION
                       else mdt_check_fence_data dist_diff (f_range f) (f_range f)) in
         if result \<noteq> eFENCE_NONE_NOTIFICATION \<and> as_status result \<noteq> cur_fence_status f
         then (result, f\<lparr>cur_fence_status := as_status result\<rparr>)
         else (eFENCE_NONE_NOTIFICATION, f)))"

text \<open>
  What both copies do with their fence and their counter; the flag says that the table is saved.
\<close>

definition fence_reading :: "(real \<Rightarrow> real) \<Rightarrow> gpsData \<Rightarrow> mdt_fence \<Rightarrow> int \<Rightarrow>
    mdt_notification \<times> mdt_fence \<times> int \<times> bool" where
  "fence_reading rnd g f w =
     (if w > 0 then (eFENCE_NONE_NOTIFICATION, f, w - 1, False)
      else
        (case mdt_get_notification rnd f g of
           (result, f1) \<Rightarrow>
             if result = eFENCE_NONE_NOTIFICATION then (eFENCE_NONE_NOTIFICATION, f1, w - 1, False)
             else if f_setup f1 = eFENCE_SETUP_UNKOWN then (eFENCE_NONE_NOTIFICATION, f1, w - 1, False)
             else if f_setup f1 = eFENCE_SETUP_ENTRY \<and> result \<noteq> eFENCE_IN_NOTIFICATION
             then (eFENCE_NONE_NOTIFICATION, f1, w - 1, False)
             else if f_setup f1 = eFENCE_SETUP_EXIT \<and> result \<noteq> eFENCE_OUT_NOTIFICATION
             then (eFENCE_NONE_NOTIFICATION, f1, w - 1, False)
             else (result, f1, WAIT_TIME_UNTIL_NEXT_MDT_EVENT, True)))"

definition get_geofence0_notification :: "(real \<Rightarrow> real) \<Rightarrow> (mdt_fence \<times> mdt_fence \<Rightarrow> byte list) \<Rightarrow>
    gpsData \<Rightarrow> mdt_geo \<times> os \<Rightarrow> mdt_notification \<times> mdt_geo \<times> os" where
  "get_geofence0_notification rnd enc g s_os =
     (case fence_reading rnd g (fence0 (fst s_os)) (geo_fence0_wait_count (fst s_os)) of
        (result, f, w, save) \<Rightarrow>
          (let s1 = (fst s_os)\<lparr>fence0 := f, geo_fence0_wait_count := w\<rparr> in
           if save then (result, snd (set_geo_fence0 enc f s1 (snd s_os))) else (result, s1, snd s_os)))"

definition get_geofence1_notification :: "(real \<Rightarrow> real) \<Rightarrow> (mdt_fence \<times> mdt_fence \<Rightarrow> byte list) \<Rightarrow>
    gpsData \<Rightarrow> mdt_geo \<times> os \<Rightarrow> mdt_notification \<times> mdt_geo \<times> os" where
  "get_geofence1_notification rnd enc g s_os =
     (case fence_reading rnd g (fence1 (fst s_os)) (geo_fence1_wait_count (fst s_os)) of
        (result, f, w, save) \<Rightarrow>
          (let s1 = (fst s_os)\<lparr>fence1 := f, geo_fence1_wait_count := w\<rparr> in
           if save then (result, snd (set_geo_fence1 enc f s1 (snd s_os))) else (result, s1, snd s_os)))"

subsection \<open>The contract of a fence\<close>

text \<open>The answers of a machine to a sequence of inputs.\<close>

fun answers :: "('g \<Rightarrow> 's \<Rightarrow> 'r \<times> 's) \<Rightarrow> 's \<Rightarrow> 'g list \<Rightarrow> 'r list" where
  "answers notify s [] = []"
| "answers notify s (g # gs) = (case notify g s of (r, s1) \<Rightarrow> r # answers notify s1 gs)"

definition events :: "mdt_notification list \<Rightarrow> mdt_notification list" where
  "events rs = filter (\<lambda>r. r \<noteq> eFENCE_NONE_NOTIFICATION) rs"

lemma events_simps [simp]:
  "events [] = []"
  "events (r # rs) = (if r = eFENCE_NONE_NOTIFICATION then events rs else r # events rs)"
  by (simp_all add: events_def)

text \<open>
  What the rest of the program may rely on: while the counter is positive nothing is reported and it
  goes down by one; an event sets it to 30.
\<close>

locale fence =
  fixes notify :: "gpsData \<Rightarrow> 's \<Rightarrow> mdt_notification \<times> 's"
    and wait :: "'s \<Rightarrow> int"
  assumes silent: "wait s > 0 \<Longrightarrow> notify g s = (r, s') \<Longrightarrow> r = eFENCE_NONE_NOTIFICATION \<and> wait s' = wait s - 1"
    and rings: "notify g s = (r, s') \<Longrightarrow> r \<noteq> eFENCE_NONE_NOTIFICATION \<Longrightarrow> wait s' = 30"
begin

lemma hold_off: "i < length gs \<Longrightarrow> int i < wait s \<Longrightarrow> answers notify s gs ! i = eFENCE_NONE_NOTIFICATION"
proof (induction gs arbitrary: s i)
  case (Cons g gs)
  obtain r s' where n: "notify g s = (r, s')" by fastforce
  from silent [OF _ n] Cons.prems have "r = eFENCE_NONE_NOTIFICATION" "wait s' = wait s - 1" by auto
  with n Cons.IH [of "i - 1" s'] Cons.prems show ?case by (cases i) auto
qed simp

lemma spaced:
  "i < j \<Longrightarrow> j < length gs \<Longrightarrow> answers notify s gs ! i \<noteq> eFENCE_NONE_NOTIFICATION \<Longrightarrow>
   answers notify s gs ! j \<noteq> eFENCE_NONE_NOTIFICATION \<Longrightarrow> i + 30 < j"
proof (induction gs arbitrary: s i j)
  case (Cons g gs)
  obtain r s' where n: "notify g s = (r, s')" by fastforce
  from Cons.prems obtain j' where j: "j = Suc j'" by (cases j) auto
  show ?case
  proof (cases i)
    case 0
    with n Cons.prems have "wait s' = 30" using rings by auto
    with hold_off [of j' gs s'] Cons.prems n j 0 show ?thesis by (cases "j' < 30") auto
  next
    case (Suc i')
    with Cons.IH [of i' j' s'] Cons.prems n j show ?thesis by simp
  qed
qed simp

end

text \<open>A fence that reports in both directions also keeps its status with what it reports.\<close>

locale both_ways = fence +
  fixes status :: "'s \<Rightarrow> mdt_fence_status" and ok :: "'s \<Rightarrow> bool"
  assumes stays: "ok s \<Longrightarrow> notify g s = (r, s') \<Longrightarrow> ok s'"
    and quiet: "ok s \<Longrightarrow> notify g s = (eFENCE_NONE_NOTIFICATION, s') \<Longrightarrow> status s' = status s"
    and changes: "ok s \<Longrightarrow> notify g s = (r, s') \<Longrightarrow> r \<noteq> eFENCE_NONE_NOTIFICATION \<Longrightarrow>
      status s \<noteq> as_status r \<and> status s' = as_status r"
begin

lemma alternate:
  "ok s \<Longrightarrow> (\<forall>e es. events (answers notify s gs) = e # es \<longrightarrow> as_status e \<noteq> status s) \<and>
   distinct_adj (events (answers notify s gs))"
proof (induction gs arbitrary: s)
  case (Cons g gs)
  obtain r s' where n: "notify g s = (r, s')" by fastforce
  note IH = Cons.IH [OF stays [OF Cons.prems n]]
  show ?case
  proof (cases "r = eFENCE_NONE_NOTIFICATION")
    case True
    with n IH quiet [OF Cons.prems] show ?thesis by auto
  next
    case False
    with changes [OF Cons.prems n] n IH show ?thesis
      by (cases "events (answers notify s' gs)") auto
  qed
qed simp

end

subsection \<open>Both fences honour it\<close>

lemma fence_reading_laws:
  assumes "fence_reading rnd g f w = (r, f', w', save)"
  shows "w > 0 \<Longrightarrow> r = eFENCE_NONE_NOTIFICATION \<and> w' = w - 1 \<and> f' = f"
    and "r \<noteq> eFENCE_NONE_NOTIFICATION \<Longrightarrow> w \<le> 0 \<and> w' = 30"
    and "f_setup f' = f_setup f"
    and "r \<noteq> eFENCE_NONE_NOTIFICATION \<Longrightarrow> cur_fence_status f \<noteq> as_status r \<and> cur_fence_status f' = as_status r"
    and "f_setup f = eFENCE_SETUP_ENTRY_EXIT \<Longrightarrow> r = eFENCE_NONE_NOTIFICATION \<Longrightarrow> cur_fence_status f' = cur_fence_status f"
  using assms
  by (auto simp: fence_reading_def mdt_get_notification_def Let_def WAIT_TIME_UNTIL_NEXT_MDT_EVENT_def
      split: if_splits)

lemma save_again0 [simp]: "fst (snd (set_geo_fence0 enc (fence0 s) s os)) = s"
  by (simp add: set_geo_fence0_def Let_def split: prod.splits)

lemma save_again1 [simp]: "fst (snd (set_geo_fence1 enc (fence1 s) s os)) = s"
  by (simp add: set_geo_fence1_def Let_def split: prod.splits)

lemma notification0:
  assumes "get_geofence0_notification rnd enc g s = (r, s')"
  shows "\<exists>f w save. fence_reading rnd g (fence0 (fst s)) (geo_fence0_wait_count (fst s)) = (r, f, w, save) \<and>
    fst s' = (fst s)\<lparr>fence0 := f, geo_fence0_wait_count := w\<rparr>"
  using assms save_again0 [of enc "(fst s)\<lparr>fence0 := f, geo_fence0_wait_count := w\<rparr>" "snd s" for f w]
  by (auto simp: get_geofence0_notification_def Let_def split: prod.splits if_splits)

lemma notification1:
  assumes "get_geofence1_notification rnd enc g s = (r, s')"
  shows "\<exists>f w save. fence_reading rnd g (fence1 (fst s)) (geo_fence1_wait_count (fst s)) = (r, f, w, save) \<and>
    fst s' = (fst s)\<lparr>fence1 := f, geo_fence1_wait_count := w\<rparr>"
  using assms save_again1 [of enc "(fst s)\<lparr>fence1 := f, geo_fence1_wait_count := w\<rparr>" "snd s" for f w]
  by (auto simp: get_geofence1_notification_def Let_def split: prod.splits if_splits)

interpretation fence0: both_ways "get_geofence0_notification rnd enc" "\<lambda>s. geo_fence0_wait_count (fst s)"
    "\<lambda>s. cur_fence_status (fence0 (fst s))" "\<lambda>s. f_setup (fence0 (fst s)) = eFENCE_SETUP_ENTRY_EXIT"
  by unfold_locales (auto dest!: notification0 dest: fence_reading_laws)

interpretation fence1: both_ways "get_geofence1_notification rnd enc" "\<lambda>s. geo_fence1_wait_count (fst s)"
    "\<lambda>s. cur_fence_status (fence1 (fst s))" "\<lambda>s. f_setup (fence1 (fst s)) = eFENCE_SETUP_ENTRY_EXIT"
  by unfold_locales (auto dest!: notification1 dest: fence_reading_laws)

subsection \<open>When a fence reports\<close>

text \<open>
  An event is a change of the side on which the terminal is known to be, in a direction the fence
  reports, after the time of silence.
\<close>

definition meters :: "(real \<Rightarrow> real) \<Rightarrow> mdt_fence \<Rightarrow> gpsData \<Rightarrow> int" where
  "meters rnd f g = to_int (get_distance_meter rnd (f_latitude f) (glat g) (f_longitude f) (glon g))"

lemma fence_reports_entry:
  "fst (fence_reading rnd g f w) = eFENCE_IN_NOTIFICATION \<longleftrightarrow>
   w \<le> 0 \<and> 0 \<le> meters rnd f g \<and> meters rnd f g \<le> f_range f \<and> cur_fence_status f \<noteq> eFENCE_STATUS_IN \<and>
   f_setup f \<in> {eFENCE_SETUP_ENTRY, eFENCE_SETUP_ENTRY_EXIT}"
  by (cases "f_setup f"; cases "cur_fence_status f")
    (auto simp: fence_reading_def mdt_get_notification_def meters_def mdt_check_fence_data_def
      as_status_def Let_def)

lemma fence_reports_exit:
  "fst (fence_reading rnd g f w) = eFENCE_OUT_NOTIFICATION \<longleftrightarrow>
   w \<le> 0 \<and> 0 \<le> meters rnd f g \<and> f_range f < meters rnd f g \<and> cur_fence_status f \<noteq> eFENCE_STATUS_OUT \<and>
   f_setup f \<in> {eFENCE_SETUP_EXIT, eFENCE_SETUP_ENTRY_EXIT}"
  by (cases "f_setup f"; cases "cur_fence_status f")
    (auto simp: fence_reading_def mdt_get_notification_def meters_def mdt_check_fence_data_def
      as_status_def Let_def)

text \<open>After each event the next \<open>n\<close> answers are silent.\<close>

fun silent_after :: "nat \<Rightarrow> mdt_notification list \<Rightarrow> bool" where
  "silent_after n [] \<longleftrightarrow> True"
| "silent_after n (r # rs) \<longleftrightarrow>
     (r = eFENCE_NONE_NOTIFICATION \<or> list_all (\<lambda>x. x = eFENCE_NONE_NOTIFICATION) (take n rs)) \<and>
     silent_after n rs"

lemma length_answers [simp]: "length (answers notify s gs) = length gs"
  by (induction gs arbitrary: s) (auto split: prod.splits)

lemma silent_afterI:
  "(\<And>i j. i < j \<Longrightarrow> j < length rs \<Longrightarrow> rs ! i \<noteq> eFENCE_NONE_NOTIFICATION \<Longrightarrow>
      rs ! j \<noteq> eFENCE_NONE_NOTIFICATION \<Longrightarrow> i + n < j) \<Longrightarrow> silent_after n rs"
proof (induction rs)
  case (Cons r rs)
  have "silent_after n rs"
  proof (rule Cons.IH)
    fix i j
    assume "i < j" "j < length rs" "rs ! i \<noteq> eFENCE_NONE_NOTIFICATION" "rs ! j \<noteq> eFENCE_NONE_NOTIFICATION"
    then show "i + n < j" using Cons.prems [of "Suc i" "Suc j"] by simp
  qed
  moreover have "rs ! j = eFENCE_NONE_NOTIFICATION" if "r \<noteq> eFENCE_NONE_NOTIFICATION" "j < length rs" "j < n" for j
    using Cons.prems [of 0 "Suc j"] that by auto
  ultimately show ?case by (auto simp: list_all_length)
qed simp

text \<open>
  C14: whatever positions come in, each of the two fences is silent for 30 readings after an event, and
  a fence that reports entry and exit reports them in turn.
\<close>

theorem mdt_fence_events:
  "silent_after 30 (answers (get_geofence0_notification rnd enc) s gs) \<and>
   silent_after 30 (answers (get_geofence1_notification rnd enc) s gs) \<and>
   (f_setup (fence0 (fst s)) = eFENCE_SETUP_ENTRY_EXIT \<longrightarrow>
      distinct_adj (events (answers (get_geofence0_notification rnd enc) s gs))) \<and>
   (f_setup (fence1 (fst s)) = eFENCE_SETUP_ENTRY_EXIT \<longrightarrow>
      distinct_adj (events (answers (get_geofence1_notification rnd enc) s gs)))"
proof (intro conjI impI)
  show "silent_after 30 (answers (get_geofence0_notification rnd enc) s gs)"
    by (rule silent_afterI) (use fence0.spaced in auto)
  show "silent_after 30 (answers (get_geofence1_notification rnd enc) s gs)"
    by (rule silent_afterI) (use fence1.spaced in auto)
qed (use fence0.alternate [of s] fence1.alternate [of s] in blast)+

definition fence_example :: "mdt_geo \<times> os" where
  "fence_example =
     (\<lparr>fence0 = \<lparr>f_enable = True, f_latitude = 37, f_longitude = 127, f_range = 100,
         cur_fence_status = eFENCE_STATUS_OUT, f_setup = eFENCE_SETUP_ENTRY_EXIT\<rparr>,
       fence1 = default_fence, geo_fence0_wait_count = 0, geo_fence1_wait_count = 0\<rparr>,
      \<lparr>files = (\<lambda>_. None), script = []\<rparr>)"

definition home :: gpsData where "home = zero_gps\<lparr>glat := 37, glon := 127\<rparr>"

lemma mdt_fence_events_witness:
  "hd (events (answers (get_geofence0_notification (\<lambda>x. x) (\<lambda>_. [])) fence_example [home, home])) =
     eFENCE_IN_NOTIFICATION \<and>
   distinct_adj (events (answers (get_geofence0_notification (\<lambda>x. x) (\<lambda>_. [])) fence_example [home, home]))"
proof -
  have "fst (fence_reading (\<lambda>x. x) home (fence0 (fst fence_example)) 0) = eFENCE_IN_NOTIFICATION"
    unfolding fence_reports_entry
    by (simp add: fence_example_def home_def zero_gps_def meters_def get_distance_meter_def get_distance_m_def)
  then obtain s' where "get_geofence0_notification (\<lambda>x. x) (\<lambda>_. []) home fence_example = (eFENCE_IN_NOTIFICATION, s')"
    using notification0 [of "\<lambda>x. x" "\<lambda>_. []" home fence_example]
    by (cases "get_geofence0_notification (\<lambda>x. x) (\<lambda>_. []) home fence_example")
      (fastforce simp: fence_example_def)
  moreover have "f_setup (fence0 (fst fence_example)) = eFENCE_SETUP_ENTRY_EXIT" by (simp add: fence_example_def)
  ultimately show ?thesis
    using mdt_fence_events [of "\<lambda>x. x" "\<lambda>_. []" fence_example "[home, home]"] by simp
qed

end
