(* ===== verification/MdtGps.thy ===== *)
theory MdtGps
  imports MdtFence MdtConfig
begin

text \<open>
  \<open>ext/protocol/mdt800/gpsmng.c\<close> and \<open>gps_filter.c\<close>: which readings of the GPS are believed, which of
  them are reported, and the odometer they drive. The state is the structure \<open>lgm\<close>, the static
  variables of \<open>_record_last_fixed_gps_data\<close>, the fences, the events put into the second pipe and
  the values handed to the critical data. The build defines \<open>FEATURE_INVALID_GPS_COPY_ZERO\<close> and not
  \<open>FEATURE_KEYOFF_SEND_GPS_DATA\<close>. Times and products of times fit an \<open>int\<close>.
\<close>

definition GPS_INIT_MAX_WAITING_TIME :: int where "GPS_INIT_MAX_WAITING_TIME = 120"
definition MILEAGE_INTERVAL :: int where "MILEAGE_INTERVAL = 10"

datatype gps_condition = eUNKNOWN_GPS_DATA | eSKIP_NO_INITIAL_GPS | eSKIP_NO_COLLECTION_TIME
  | eSKIP_DISTANCE_FILTER | eSKIP_TRUST_SATLITES_FILTER | eSKIP_TRUST_HDOP_FILTER
  | eSKIP_TRUST_SPEED_FILTER | eUSE_GPS_DATA

record lotte_gps_manager =
  first_gps_active :: bool
  gps_initial_count :: int
  server_mileage :: int
  gps_mileage :: real
  fixed_gpsdata :: gpsData
  last_gpsdata :: gpsData
  reported_gpsdata :: gpsData
  last_mileage_time :: int
  move_detect :: bool
  leg_lat :: real
  leg_lon :: real
  leg_count :: int
  lgm_geo :: "mdt_geo \<times> os"
  lgm_sent :: "int list"
  odo_written :: "int list"

text \<open>What a step takes from outside.\<close>

record gps_env =
  g_rnd :: "real \<Rightarrow> real"
  g_enc :: "mdt_fence \<times> mdt_fence \<Rightarrow> byte list"
  g_conf :: mdt_conf
  g_ign_off :: bool
  g_ign_coll :: bool

definition lgm_init :: "mdt_geo \<times> os \<Rightarrow> lotte_gps_manager" where
  "lgm_init geo =
     \<lparr>first_gps_active = False, gps_initial_count = GPS_INIT_MAX_WAITING_TIME, server_mileage = 0,
      gps_mileage = 0, fixed_gpsdata = zero_gps, last_gpsdata = zero_gps, reported_gpsdata = zero_gps,
      last_mileage_time = 0, move_detect = False, leg_lat = 0, leg_lon = 0, leg_count = 0,
      lgm_geo = geo, lgm_sent = [], odo_written = []\<rparr>"

definition init_gps_manager :: "lotte_gps_manager \<Rightarrow> lotte_gps_manager" where
  "init_gps_manager s =
     s\<lparr>first_gps_active := False, gps_initial_count := GPS_INIT_MAX_WAITING_TIME,
       fixed_gpsdata := (fixed_gpsdata s)\<lparr>gactive := 0\<rparr>\<rparr>"

definition iscollection_gps_time :: "gps_env \<Rightarrow> gpsData \<Rightarrow> lotte_gps_manager \<Rightarrow> bool" where
  "iscollection_gps_time e g s \<longleftrightarrow> first_gps_active s \<and>
     gutc_sec g - gutc_sec (reported_gpsdata s) \<ge> get_collection_interval (g_ign_coll e) (g_conf e)"

definition record_last_gps_data :: "gpsData \<Rightarrow> lotte_gps_manager \<Rightarrow> lotte_gps_manager" where
  "record_last_gps_data g s = s\<lparr>last_gpsdata := g\<rparr>"

definition record_reported_gps_data :: "gpsData \<Rightarrow> lotte_gps_manager \<Rightarrow> lotte_gps_manager" where
  "record_reported_gps_data g s = s\<lparr>reported_gpsdata := g\<rparr>"

subsection \<open>The odometer\<close>

text \<open>
  The leg from the last place that was counted; the flag tells that the function returns without
  recording the position.
\<close>

definition count_leg :: "(real \<Rightarrow> real) \<Rightarrow> gpsData \<Rightarrow> lotte_gps_manager \<Rightarrow> bool \<times> lotte_gps_manager" where
  "count_leg rnd g s =
     (if \<not> move_detect s then (False, s)
      else
        (let tmp_dist = get_distance_meter rnd (leg_lat s) (glat g) (leg_lon s) (glon g) in
         if tmp_dist < 0 then (True, s)
         else
           (let m = gps_mileage s + tmp_dist in
            (False, s\<lparr>move_detect := False, gps_mileage := m,
               odo_written := odo_written s @ [to_int (of_int (server_mileage s) + m)],
               leg_lat := glat g, leg_lon := glon g\<rparr>))))"

definition leg_tick :: "gps_env \<Rightarrow> lotte_gps_manager \<Rightarrow> lotte_gps_manager" where
  "leg_tick e s = (if \<not> g_ign_off e then s\<lparr>leg_count := leg_count s + 1\<rparr> else s)"

definition leg_start :: "lotte_gps_manager \<Rightarrow> lotte_gps_manager" where
  "leg_start s =
     (if leg_lat s = 0 \<or> leg_lon s = 0
      then s\<lparr>leg_lat := glat (fixed_gpsdata s), leg_lon := glon (fixed_gpsdata s)\<rparr> else s)"

definition leg_move :: "gpsData \<Rightarrow> lotte_gps_manager \<Rightarrow> lotte_gps_manager" where
  "leg_move g s = (if gspeed g \<noteq> 0 then s\<lparr>move_detect := True\<rparr> else s)"

definition drive_leg :: "gps_env \<Rightarrow> gpsData \<Rightarrow> lotte_gps_manager \<Rightarrow> bool \<times> lotte_gps_manager" where
  "drive_leg e g s =
     (if g_ign_off e then (False, s)
      else
        (let s1 = leg_move g s in
         if gutc_sec g - last_mileage_time s1 \<ge> MILEAGE_INTERVAL \<or> leg_count s1 \<ge> MILEAGE_INTERVAL
         then count_leg (g_rnd e) g (s1\<lparr>leg_count := 0, last_mileage_time := gutc_sec g\<rparr>)
         else (False, s1)))"

definition record_last_fixed_gps_data :: "gps_env \<Rightarrow> gpsData \<Rightarrow> lotte_gps_manager \<Rightarrow> lotte_gps_manager" where
  "record_last_fixed_gps_data e g s =
     (let s1 = leg_tick e s in
      case (if gactive (fixed_gpsdata s1) \<noteq> 0 then drive_leg e g (leg_start s1) else (False, s1)) of
        (stop, s2) \<Rightarrow> if stop then s2 else s2\<lparr>fixed_gpsdata := g\<rparr>)"

definition get_server_mileage :: "lotte_gps_manager \<Rightarrow> int" where
  "get_server_mileage s = server_mileage s"

definition get_gps_mileage :: "lotte_gps_manager \<Rightarrow> int" where
  "get_gps_mileage s = to_int (gps_mileage s)"

definition set_server_mileage :: "int \<Rightarrow> lotte_gps_manager \<Rightarrow> lotte_gps_manager" where
  "set_server_mileage m s = s\<lparr>server_mileage := m\<rparr>"

definition set_gps_mileage :: "int \<Rightarrow> lotte_gps_manager \<Rightarrow> lotte_gps_manager" where
  "set_gps_mileage m s = s\<lparr>gps_mileage := of_int m\<rparr>"

subsection \<open>Fences\<close>

definition eGEO_FENCE_NUM0_ENTRY_EVT :: int where "eGEO_FENCE_NUM0_ENTRY_EVT = 34"
definition eGEO_FENCE_NUM0_EXIT_EVT :: int where "eGEO_FENCE_NUM0_EXIT_EVT = 35"
definition eGEO_FENCE_NUM1_ENTRY_EVT :: int where "eGEO_FENCE_NUM1_ENTRY_EVT = 36"
definition eGEO_FENCE_NUM1_EXIT_EVT :: int where "eGEO_FENCE_NUM1_EXIT_EVT = 37"

definition fence_events :: "mdt_notification \<Rightarrow> int \<Rightarrow> int \<Rightarrow> int list" where
  "fence_events n entry_evt exit_evt =
     (case n of eFENCE_IN_NOTIFICATION \<Rightarrow> [entry_evt] | eFENCE_OUT_NOTIFICATION \<Rightarrow> [exit_evt]
      | eFENCE_NONE_NOTIFICATION \<Rightarrow> [])"

definition check_geofence :: "gps_env \<Rightarrow> gpsData \<Rightarrow> lotte_gps_manager \<Rightarrow> lotte_gps_manager" where
  "check_geofence e g s =
     (let (ev0, geo0) =
            (if get_geo_fence0_enable (fst (lgm_geo s)) then
               (case get_geofence0_notification (g_rnd e) (g_enc e) g (lgm_geo s) of
                  (n, geo) \<Rightarrow> (fence_events n eGEO_FENCE_NUM0_ENTRY_EVT eGEO_FENCE_NUM0_EXIT_EVT, geo))
             else ([], lgm_geo s));
          (ev1, geo1) =
            (if get_geo_fence1_enable (fst geo0) then
               (case get_geofence1_notification (g_rnd e) (g_enc e) g geo0 of
                  (n, geo) \<Rightarrow> (fence_events n eGEO_FENCE_NUM1_ENTRY_EVT eGEO_FENCE_NUM1_EXIT_EVT, geo))
             else ([], geo0))
      in s\<lparr>lgm_geo := geo1, lgm_sent := lgm_sent s @ ev0 @ ev1\<rparr>)"

subsection \<open>Filters\<close>

definition distance_filter :: "(real \<Rightarrow> real) \<Rightarrow> gpsData \<Rightarrow> gpsData \<Rightarrow> int \<Rightarrow> bool" where
  "distance_filter rnd cur prev val \<longleftrightarrow> gactive prev \<noteq> 0 \<and>
     to_int (get_distance_meter rnd (glat cur) (glat prev) (glon cur) (glon prev)) >
       val * (gutc_sec cur - gutc_sec prev)"

definition trust_satlites_filter :: "gpsData \<Rightarrow> int \<Rightarrow> bool" where
  "trust_satlites_filter cur val \<longleftrightarrow> uint (gsatellite cur) < val"

definition trust_HDOP_filter :: "gpsData \<Rightarrow> int \<Rightarrow> bool" where
  "trust_HDOP_filter cur val \<longleftrightarrow> ghdop cur > of_int val"

definition trust_speed_filter :: "gpsData \<Rightarrow> int \<Rightarrow> bool" where
  "trust_speed_filter cur val \<longleftrightarrow> gspeed cur > val"

definition gps_filter :: "gps_env \<Rightarrow> gpsData \<Rightarrow> lotte_gps_manager \<Rightarrow> gps_condition" where
  "gps_filter e g s =
     (let c = g_conf e; ret = eUSE_GPS_DATA;
          ret = (if dist_filter_enable c \<noteq> 0 \<and> distance_filter (g_rnd e) g (last_gpsdata s) (dist_filter_value c)
                 then eSKIP_DISTANCE_FILTER else ret);
          ret = (if sat_filter_enable c \<noteq> 0 \<and> trust_satlites_filter g (sat_filter_value c)
                 then eSKIP_TRUST_SATLITES_FILTER else ret);
          ret = (if hdop_filter_enable c \<noteq> 0 \<and> trust_HDOP_filter g (hdop_filter_value c)
                 then eSKIP_TRUST_HDOP_FILTER else ret);
          ret = (if speed_filter_enable c \<noteq> 0 \<and> trust_speed_filter g (speed_filter_value c)
                 then eSKIP_TRUST_SPEED_FILTER else ret)
      in ret)"

subsection \<open>A reading\<close>

definition recovery_gps_data :: "gpsData \<Rightarrow> gpsData" where
  "recovery_gps_data g = g\<lparr>glat := 0, glon := 0\<rparr>"

definition fix_gps_pos_in_key_off :: "gps_env \<Rightarrow> gpsData \<Rightarrow> lotte_gps_manager \<Rightarrow> gpsData" where
  "fix_gps_pos_in_key_off e g s =
     (if gactive (fixed_gpsdata s) \<noteq> 0 \<and> g_ign_off e then
        g\<lparr>glat := glat (fixed_gpsdata s), glon := glon (fixed_gpsdata s), gspeed := 0,
          gangle := gangle (fixed_gpsdata s)\<rparr>
      else g)"

definition inactive_gps_process :: "gps_env \<Rightarrow> gpsData \<Rightarrow> lotte_gps_manager \<Rightarrow>
    gps_condition \<times> gpsData \<times> lotte_gps_manager" where
  "inactive_gps_process e cur s =
     (let (ret, cur1, s1) =
        (if \<not> first_gps_active s then
           if gps_initial_count s \<le> 0 then (eUSE_GPS_DATA, cur, s\<lparr>first_gps_active := True\<rparr>)
           else (eSKIP_NO_INITIAL_GPS, cur, s\<lparr>gps_initial_count := gps_initial_count s - 1\<rparr>)
         else (eUSE_GPS_DATA, recovery_gps_data cur, s)) in
      if ret = eUSE_GPS_DATA then
        (let s2 = record_last_gps_data cur1 s1 in
         if \<not> iscollection_gps_time e cur1 s2 then (eSKIP_NO_COLLECTION_TIME, cur1, s2)
         else (ret, cur1, record_reported_gps_data cur1 s2))
      else (ret, zero_gps, s1))"

definition active_gps_process :: "gps_env \<Rightarrow> gpsData \<Rightarrow> lotte_gps_manager \<Rightarrow>
    gps_condition \<times> gpsData \<times> lotte_gps_manager" where
  "active_gps_process e cur s =
     (let cur1 = fix_gps_pos_in_key_off e cur s;
          ret = gps_filter e cur1 s;
          s1 = record_last_gps_data cur1 s;
          s2 = (if ret = eUSE_GPS_DATA then
                  check_geofence e cur1 (record_last_fixed_gps_data e cur1 (s1\<lparr>first_gps_active := True\<rparr>))
                else s1) in
      if \<not> iscollection_gps_time e cur1 s2 then (eSKIP_NO_COLLECTION_TIME, zero_gps, s2)
      else
        (let cur2 = (if ret \<noteq> eUSE_GPS_DATA then recovery_gps_data cur1 else cur1)
         in (ret, cur2, record_reported_gps_data cur2 s2)))"

text \<open>
  The switch over the kind of reading in \<open>gps_parse_one_context_callback\<close>.
\<close>

definition gps_reading :: "gps_env \<Rightarrow> gpsData \<Rightarrow> lotte_gps_manager \<Rightarrow>
    gps_condition \<times> gpsData \<times> lotte_gps_manager" where
  "gps_reading e g s =
     (if gactive g = 0 then inactive_gps_process e g s
      else if gactive g = 1 then active_gps_process e g s
      else (eUNKNOWN_GPS_DATA, zero_gps, s))"

subsection \<open>What the operations leave alone\<close>

lemma leg_frames [simp]:
  "reported_gpsdata (leg_tick e s) = reported_gpsdata s" "reported_gpsdata (leg_start s) = reported_gpsdata s"
  "reported_gpsdata (leg_move g s) = reported_gpsdata s"
  "first_gps_active (leg_tick e s) = first_gps_active s" "first_gps_active (leg_start s) = first_gps_active s"
  "first_gps_active (leg_move g s) = first_gps_active s"
  "server_mileage (leg_tick e s) = server_mileage s" "server_mileage (leg_start s) = server_mileage s"
  "server_mileage (leg_move g s) = server_mileage s"
  "last_gpsdata (leg_tick e s) = last_gpsdata s" "last_gpsdata (leg_start s) = last_gpsdata s"
  "last_gpsdata (leg_move g s) = last_gpsdata s"
  "gps_mileage (leg_tick e s) = gps_mileage s" "gps_mileage (leg_start s) = gps_mileage s"
  "gps_mileage (leg_move g s) = gps_mileage s"
  "odo_written (leg_tick e s) = odo_written s" "odo_written (leg_start s) = odo_written s"
  "odo_written (leg_move g s) = odo_written s"
  by (simp_all add: leg_tick_def leg_start_def leg_move_def)

definition same_rest :: "lotte_gps_manager \<Rightarrow> lotte_gps_manager \<Rightarrow> bool" where
  "same_rest s s' \<longleftrightarrow> reported_gpsdata s' = reported_gpsdata s \<and> first_gps_active s' = first_gps_active s \<and>
     server_mileage s' = server_mileage s \<and> last_gpsdata s' = last_gpsdata s"

lemma count_leg_rest: "count_leg rnd g s = (b, s') \<Longrightarrow> same_rest s s'"
  by (auto simp: count_leg_def same_rest_def Let_def split: if_splits)

lemma drive_leg_rest: "drive_leg e g s = (b, s') \<Longrightarrow> same_rest s s'"
  using count_leg_rest [of "g_rnd e" g "(leg_move g s)\<lparr>leg_count := 0, last_mileage_time := gutc_sec g\<rparr>" b s']
  by (auto simp: drive_leg_def same_rest_def Let_def split: if_splits)

lemma record_fixed_rest: "same_rest s (record_last_fixed_gps_data e g s)"
  using drive_leg_rest [of e g "leg_start (leg_tick e s)"]
  by (cases "drive_leg e g (leg_start (leg_tick e s))")
    (auto simp: record_last_fixed_gps_data_def same_rest_def Let_def)

lemma record_fixed_frame [simp]:
  "reported_gpsdata (record_last_fixed_gps_data e g s) = reported_gpsdata s"
  "first_gps_active (record_last_fixed_gps_data e g s) = first_gps_active s"
  "server_mileage (record_last_fixed_gps_data e g s) = server_mileage s"
  "last_gpsdata (record_last_fixed_gps_data e g s) = last_gpsdata s"
  using record_fixed_rest [of s e g] by (simp_all add: same_rest_def)

lemma check_geofence_frame [simp]:
  "reported_gpsdata (check_geofence e g s) = reported_gpsdata s"
  "first_gps_active (check_geofence e g s) = first_gps_active s"
  "server_mileage (check_geofence e g s) = server_mileage s"
  "gps_mileage (check_geofence e g s) = gps_mileage s"
  "odo_written (check_geofence e g s) = odo_written s"
  "last_gpsdata (check_geofence e g s) = last_gpsdata s"
  by (simp_all add: check_geofence_def Let_def split: prod.splits)

lemma fix_pos_time [simp]: "gutc_sec (fix_gps_pos_in_key_off e g s) = gutc_sec g"
  by (simp add: fix_gps_pos_in_key_off_def)

lemma recovery_time [simp]: "gutc_sec (recovery_gps_data g) = gutc_sec g"
  by (simp add: recovery_gps_data_def)

lemmas record_defs = record_last_gps_data_def record_reported_gps_data_def

subsection \<open>The spacing of reports\<close>

definition interval_of :: "gps_env \<Rightarrow> int" where
  "interval_of e = get_collection_interval (g_ign_coll e) (g_conf e)"

lemma gps_reading_report:
  assumes "gps_reading e g s = (r, d, s')" and "r = eUSE_GPS_DATA"
  shows "gutc_sec (reported_gpsdata s) + interval_of e \<le> gutc_sec g \<and> gutc_sec (reported_gpsdata s') = gutc_sec g"
  using assms
  by (auto simp: gps_reading_def inactive_gps_process_def active_gps_process_def Let_def record_defs
      iscollection_gps_time_def interval_of_def split: if_splits)

lemma gps_reading_forward:
  assumes "gps_reading e g s = (r, d, s')" and "0 \<le> interval_of e"
  shows "gutc_sec (reported_gpsdata s) \<le> gutc_sec (reported_gpsdata s')"
  using assms
  by (auto simp: gps_reading_def inactive_gps_process_def active_gps_process_def Let_def record_defs
      iscollection_gps_time_def interval_of_def split: if_splits)

text \<open>The reports of a sequence of readings: the time of each and the interval in force.\<close>

fun reports :: "(gps_env \<times> gpsData) list \<Rightarrow> lotte_gps_manager \<Rightarrow> (int \<times> int) list" where
  "reports [] s = []"
| "reports ((e, g) # rs) s =
     (case gps_reading e g s of
        (r, d, s1) \<Rightarrow> (if r = eUSE_GPS_DATA then [(gutc_sec g, interval_of e)] else []) @ reports rs s1)"

fun apart :: "int \<Rightarrow> (int \<times> int) list \<Rightarrow> bool" where
  "apart t0 [] \<longleftrightarrow> True"
| "apart t0 ((t, i) # rs) \<longleftrightarrow> t0 + i \<le> t \<and> apart t rs"

lemma apart_earlier: "apart t0 rs \<Longrightarrow> t1 \<le> t0 \<Longrightarrow> apart t1 rs"
  by (cases rs) auto

text \<open>
  C13: however the readings come in, and even when the clock of the receiver goes back, two reports in
  a row are at least the collection interval in force apart.
\<close>

theorem mdt_reports_apart:
  assumes "\<forall>(e, g) \<in> set rs. 0 \<le> interval_of e"
  shows "apart (gutc_sec (reported_gpsdata s)) (reports rs s)"
  using assms
proof (induction rs arbitrary: s)
  case (Cons x rs)
  obtain e g where x: "x = (e, g)" by (cases x)
  obtain r d s1 where g: "gps_reading e g s = (r, d, s1)" using prod_cases3 by blast
  have IH: "apart (gutc_sec (reported_gpsdata s1)) (reports rs s1)" using Cons by simp
  show ?case
  proof (cases "r = eUSE_GPS_DATA")
    case True
    with gps_reading_report [OF g] IH show ?thesis by (simp add: x g)
  next
    case False
    have "gutc_sec (reported_gpsdata s) \<le> gutc_sec (reported_gpsdata s1)"
      using gps_reading_forward [OF g] Cons.prems x by simp
    with apart_earlier [OF IH] False show ?thesis by (simp add: x g)
  qed
qed simp

subsection \<open>A refused reading takes the place of a report\<close>

text \<open>
  A reading that a filter refuses at the time of a report moves the time of the last report
  although nothing is reported: every reading until a full interval later is skipped.
\<close>

theorem refused_reading_takes_slot:
  assumes "gactive g = 1" and "gps_filter e (fix_gps_pos_in_key_off e g s) s \<noteq> eUSE_GPS_DATA"
    and "iscollection_gps_time e g s"
    and "gps_reading e g s = (r, d, s1)"
    and "gutc_sec g2 < gutc_sec g + interval_of e2" and "gps_reading e2 g2 s1 = (r2, d2, s2)"
  shows "r \<noteq> eUSE_GPS_DATA \<and> r2 \<noteq> eUSE_GPS_DATA"
proof -
  have t: "r \<noteq> eUSE_GPS_DATA \<and> gutc_sec (reported_gpsdata s1) = gutc_sec g"
    using assms(1-4) by (auto simp: gps_reading_def active_gps_process_def Let_def record_defs
        iscollection_gps_time_def split: if_splits)
  then show ?thesis using gps_reading_report [OF assms(6)] assms(5) by auto
qed

definition gps_conf_example :: mdt_conf where
  "gps_conf_example = load_config_model_default (load_config_user_default undefined)"

definition gps_env_example :: gps_env where
  "gps_env_example = \<lparr>g_rnd = (\<lambda>x. x), g_enc = (\<lambda>_. []), g_conf = gps_conf_example, g_ign_off = False, g_ign_coll = False\<rparr>"

definition fast_reading :: gpsData where
  "fast_reading = home\<lparr>gactive := 1, gutc_sec := 1000, gspeed := 201\<rparr>"

lemma interval_example [simp]: "interval_of gps_env_example = 60"
  by (simp add: interval_of_def get_collection_interval_def gps_env_example_def gps_conf_example_def
      load_config_model_default_def load_config_user_default_def)

lemma mdt_reports_apart_witness:
  "apart 0 (reports [(gps_env_example, home\<lparr>gutc_sec := 100\<rparr>), (gps_env_example, home\<lparr>gutc_sec := 170\<rparr>)]
     ((lgm_init fence_example)\<lparr>first_gps_active := True\<rparr>)) \<and>
   reports [(gps_env_example, home\<lparr>gutc_sec := 100\<rparr>), (gps_env_example, home\<lparr>gutc_sec := 170\<rparr>)]
     ((lgm_init fence_example)\<lparr>first_gps_active := True\<rparr>) = [(100, 60), (170, 60)]"
proof
  let ?s = "(lgm_init fence_example)\<lparr>first_gps_active := True\<rparr>"
  let ?rs = "[(gps_env_example, home\<lparr>gutc_sec := 100\<rparr>), (gps_env_example, home\<lparr>gutc_sec := 170\<rparr>)]"
  have "gutc_sec (reported_gpsdata ?s) = 0" by (simp add: lgm_init_def zero_gps_def)
  with mdt_reports_apart [of ?rs ?s] show "apart 0 (reports ?rs ?s)" by simp
  show "reports ?rs ?s = [(100, 60), (170, 60)]"
    by (simp add: gps_reading_def home_def zero_gps_def lgm_init_def inactive_gps_process_def Let_def
        iscollection_gps_time_def record_defs recovery_gps_data_def interval_of_def [symmetric])
qed

lemma refused_reading_takes_slot_witness:
  "\<exists>r d s1 r2 d2 s2. gps_reading gps_env_example fast_reading ((lgm_init fence_example)\<lparr>first_gps_active := True\<rparr>) = (r, d, s1) \<and>
    gps_reading gps_env_example (fast_reading\<lparr>gutc_sec := 1059, gspeed := 80\<rparr>) s1 = (r2, d2, s2) \<and>
    r \<noteq> eUSE_GPS_DATA \<and> r2 \<noteq> eUSE_GPS_DATA"
proof -
  let ?s = "(lgm_init fence_example)\<lparr>first_gps_active := True\<rparr>"
  let ?g2 = "fast_reading\<lparr>gutc_sec := 1059, gspeed := 80\<rparr>"
  obtain r d s1 where 1: "gps_reading gps_env_example fast_reading ?s = (r, d, s1)" using prod_cases3 by blast
  obtain r2 d2 s2 where 2: "gps_reading gps_env_example ?g2 s1 = (r2, d2, s2)" using prod_cases3 by blast
  have "r \<noteq> eUSE_GPS_DATA \<and> r2 \<noteq> eUSE_GPS_DATA"
  proof (rule refused_reading_takes_slot [OF _ _ _ 1 _ 2])
    show "gactive fast_reading = 1" by (simp add: fast_reading_def)
    show "gps_filter gps_env_example (fix_gps_pos_in_key_off gps_env_example fast_reading ?s) ?s \<noteq> eUSE_GPS_DATA"
      by (simp add: gps_filter_def fix_gps_pos_in_key_off_def gps_env_example_def gps_conf_example_def
          load_config_model_default_def trust_speed_filter_def fast_reading_def Let_def)
    show "iscollection_gps_time gps_env_example fast_reading ?s"
      by (simp add: iscollection_gps_time_def interval_of_def [symmetric] fast_reading_def lgm_init_def zero_gps_def)
    show "gutc_sec ?g2 < gutc_sec fast_reading + interval_of gps_env_example" by (simp add: fast_reading_def)
  qed
  with 1 2 show ?thesis by blast
qed

subsection \<open>The odometer in the critical data\<close>

lemma to_int_mono: "x \<le> y \<Longrightarrow> to_int x \<le> to_int y"
proof -
  assume xy: "x \<le> y"
  consider "0 \<le> x" | "x < 0" "0 \<le> y" | "y < 0" by linarith
  then show ?thesis
  proof cases
    case 1
    with xy show ?thesis by (simp add: to_int_def floor_mono)
  next
    case 2
    have "\<lceil>x\<rceil> \<le> 0" "0 \<le> \<lfloor>y\<rfloor>" using 2 by (simp_all add: ceiling_le_iff le_floor_iff)
    then have "\<lceil>x\<rceil> \<le> \<lfloor>y\<rfloor>" by linarith
    with 2 show ?thesis by (simp add: to_int_def)
  next
    case 3
    with xy show ?thesis by (simp add: to_int_def ceiling_mono)
  qed
qed

definition odo_inv :: "int \<Rightarrow> lotte_gps_manager \<Rightarrow> bool" where
  "odo_inv c s \<longleftrightarrow> server_mileage s = c \<and> 0 \<le> gps_mileage s \<and> sorted (c # odo_written s) \<and>
     last (c # odo_written s) = to_int (of_int c + gps_mileage s)"

lemma sorted_le_last: "sorted zs \<Longrightarrow> z \<in> set zs \<Longrightarrow> (z::int) \<le> last zs"
  by (induction zs) (auto split: if_splits)

lemma sorted_snoc_last: "sorted zs \<Longrightarrow> zs \<noteq> [] \<Longrightarrow> last zs \<le> (y::int) \<Longrightarrow> sorted (zs @ [y])"
  using sorted_le_last [of zs] by (auto simp: sorted_append intro: order_trans)

lemma odo_add:
  assumes "odo_inv c s" and "0 \<le> d" and "server_mileage s' = server_mileage s"
    and "gps_mileage s' = gps_mileage s + d"
    and "odo_written s' = odo_written s @ [to_int (of_int (server_mileage s) + (gps_mileage s + d))]"
  shows "odo_inv c s'"
proof -
  let ?zs = "c # odo_written s" and ?y = "to_int (of_int c + (gps_mileage s + d))"
  have i: "server_mileage s = c" "0 \<le> gps_mileage s" "sorted ?zs" "last ?zs = to_int (of_int c + gps_mileage s)"
    using assms(1) unfolding odo_inv_def by blast+
  then have "last ?zs \<le> ?y" using assms(2) by (metis to_int_mono add_left_mono le_add_same_cancel1)
  from sorted_snoc_last [OF i(3) _ this] have "sorted (?zs @ [?y])" by blast
  moreover have "c # odo_written s' = ?zs @ [?y]" using assms(5) i(1) by simp
  ultimately show ?thesis using assms(2-4) i(1,2) unfolding odo_inv_def
    by (simp only: last_snoc) simp
qed

lemma odo_same:
  "odo_inv c s \<Longrightarrow> server_mileage s' = server_mileage s \<Longrightarrow> gps_mileage s' = gps_mileage s \<Longrightarrow>
   odo_written s' = odo_written s \<Longrightarrow> odo_inv c s'"
  by (simp add: odo_inv_def)

lemma count_leg_odo:
  assumes "odo_inv c s" and "count_leg rnd g s = (b, s')"
  shows "odo_inv c s'"
proof (cases "s' = s")
  case False
  let ?d = "get_distance_meter rnd (leg_lat s) (glat g) (leg_lon s) (glon g)"
  from False assms(2) have "0 \<le> ?d"
    "s' = s\<lparr>move_detect := False, gps_mileage := gps_mileage s + ?d,
       odo_written := odo_written s @ [to_int (of_int (server_mileage s) + (gps_mileage s + ?d))],
       leg_lat := glat g, leg_lon := glon g\<rparr>"
    by (auto simp: count_leg_def Let_def split: if_splits)
  with odo_add [OF assms(1), of ?d s'] show ?thesis by simp
qed (use assms in simp)

lemma record_fixed_odo:
  assumes "odo_inv c s"
  shows "odo_inv c (record_last_fixed_gps_data e g s)"
proof -
  let ?s1 = "leg_start (leg_tick e s)"
  obtain b s2 where d: "drive_leg e g ?s1 = (b, s2)" by fastforce
  have "odo_inv c ((leg_move g ?s1)\<lparr>leg_count := 0, last_mileage_time := gutc_sec g\<rparr>)"
    "odo_inv c (leg_move g ?s1)" "odo_inv c ?s1" "odo_inv c (leg_tick e s)"
    by (rule odo_same [OF assms]; simp)+
  with d have "odo_inv c s2"
    by (auto simp: drive_leg_def Let_def dest: count_leg_odo split: if_splits)
  with d \<open>odo_inv c (leg_tick e s)\<close> show ?thesis
    by (auto simp: record_last_fixed_gps_data_def Let_def intro: odo_same)
qed

lemma gps_reading_odo:
  assumes "odo_inv c s"
  shows "odo_inv c (snd (snd (gps_reading e g s)))"
proof -
  have i: "odo_inv c (record_last_gps_data g1 s)" "odo_inv c ((record_last_gps_data g1 s)\<lparr>first_gps_active := True\<rparr>)"
    "odo_inv c (s\<lparr>first_gps_active := True\<rparr>)" "odo_inv c (s\<lparr>gps_initial_count := n\<rparr>)" for g1 n
    by (rule odo_same [OF assms]; simp add: record_defs)+
  have k: "odo_inv c (check_geofence e g1 (record_last_fixed_gps_data e g1 s1))" if "odo_inv c s1" for g1 s1
    by (rule odo_same [OF record_fixed_odo [OF that]]) simp_all
  have r: "odo_inv c (record_reported_gps_data g1 s1)" "odo_inv c (record_last_gps_data g1 s1)" if "odo_inv c s1" for g1 s1
    by (rule odo_same [OF that]; simp add: record_defs)+
  show ?thesis
    using assms i k r
    by (auto simp: gps_reading_def inactive_gps_process_def active_gps_process_def Let_def)
qed

datatype gps_op = Reading gps_env gpsData | Manager_init

fun gps_op_step :: "lotte_gps_manager \<Rightarrow> gps_op \<Rightarrow> lotte_gps_manager" where
  "gps_op_step s (Reading e g) = snd (snd (gps_reading e g s))"
| "gps_op_step s Manager_init = init_gps_manager s"

lemma gps_op_odo: "odo_inv c s \<Longrightarrow> odo_inv c (gps_op_step s op)"
  by (cases op) (auto simp: gps_reading_odo init_gps_manager_def intro: odo_same)

text \<open>
  C15: from the mileage the server has set, the values written to the critical data never go down, and
  the last one is always the current odometer in whole metres: the server's mileage and the legs
  counted since.
\<close>

theorem mdt_odometer_recorded:
  assumes "s = foldl gps_op_step (set_server_mileage c (lgm_init geo)) ops"
  shows "sorted (c # odo_written s) \<and> 0 \<le> gps_mileage s \<and>
    last (c # odo_written s) = to_int (of_int (get_server_mileage s) + gps_mileage s)"
proof -
  have "odo_inv c (set_server_mileage c (lgm_init geo))"
    by (simp add: odo_inv_def set_server_mileage_def lgm_init_def)
  then have "odo_inv c s" unfolding assms by (rule foldl_invariant) (rule gps_op_odo)
  then show ?thesis unfolding odo_inv_def get_server_mileage_def by blast
qed

lemma mdt_odometer_recorded_witness:
  "let s = foldl gps_op_step (set_server_mileage 5000 (lgm_init fence_example))
       [Reading gps_env_example fast_reading, Manager_init, Reading gps_env_example (fast_reading\<lparr>gspeed := 80\<rparr>)]
   in sorted (5000 # odo_written s) \<and> last (5000 # odo_written s) = to_int (of_int (get_server_mileage s) + gps_mileage s)"
  unfolding Let_def using mdt_odometer_recorded [OF refl, of 5000 fence_example] by blast

text \<open>With the key off nothing is counted, wherever the terminal is.\<close>

lemma key_off_counts_nothing:
  "g_ign_off e \<Longrightarrow> gps_mileage (record_last_fixed_gps_data e g s) = gps_mileage s"
  by (simp add: record_last_fixed_gps_data_def drive_leg_def Let_def)

text \<open>
  The distance filter looks at the previous reading even when that one was refused: a jump costs one
  reading.
\<close>

lemma distance_filter_recovers:
  assumes "\<not> g_ign_off e" and "gactive g1 = 1" and "gps_reading e g1 s = (r, d, s1)"
    and "to_int (get_distance_meter (g_rnd e) (glat g2) (glat g1) (glon g2) (glon g1)) \<le>
      dist_filter_value (g_conf e) * (gutc_sec g2 - gutc_sec g1)"
  shows "gps_filter e g2 s1 \<noteq> eSKIP_DISTANCE_FILTER"
proof -
  have f: "fix_gps_pos_in_key_off e g1 s = g1" using assms(1) by (simp add: fix_gps_pos_in_key_off_def)
  have l: "last_gpsdata (record_reported_gps_data x s0) = last_gpsdata s0" for x s0 by (simp add: record_defs)
  have "last_gpsdata s1 = g1"
    using assms(2,3) f l
    by (auto simp: gps_reading_def active_gps_process_def Let_def record_last_gps_data_def split: if_splits)
  then have "\<not> distance_filter (g_rnd e) g2 (last_gpsdata s1) (dist_filter_value (g_conf e))"
    using assms(4) by (simp add: distance_filter_def)
  then show ?thesis by (auto simp: gps_filter_def Let_def)
qed

end
