(* ===== verification/MdtMileage.thy ===== *)
theory MdtMileage
  imports CritData
begin

text \<open>
  \<open>ext/protocol/mdt800/file_mileage.c\<close>: the odometer is kept twice, in a file of theory Storage and
  in the critical data of theory CritData. Loading takes the larger of the two; the comparison is one
  of unsigned numbers, since the critical data holds an \<open>unsigned int\<close>.
\<close>

definition MILEAGE_FILE :: string where "MILEAGE_FILE = ''/data/mds/data/mdt800_gtrs_mileage.dat''"

definition default_mileage_data :: u32 where "default_mileage_data = 0"

definition load_mileage_file :: "'w mds_api \<Rightarrow> os \<Rightarrow> 'w crit \<Rightarrow> int \<times> os \<times> 'w crit" where
  "load_mileage_file api os c =
     (case storage_load_file MILEAGE_FILE (replicate 4 0) os of
        (ret, d, os1) \<Rightarrow>
          (let (data, os2) =
                 (if ret \<noteq> 0 then
                    (default_mileage_data, snd (storage_save_file MILEAGE_FILE (le32 default_mileage_data) os1))
                  else (of_le32 d, os1));
               crit_mileage = crit_get_data_mileage c;
               data = (if data < crit_mileage then crit_mileage else data);
               c1 = (if data > crit_mileage then snd (crit_set_data_mileage_write api data c) else c)
           in (sint data, os2, c1)))"

definition save_mileage_file :: "'w mds_api \<Rightarrow> int \<Rightarrow> os \<Rightarrow> 'w crit \<Rightarrow> int \<times> os \<times> 'w crit" where
  "save_mileage_file api m os c =
     (case storage_save_file MILEAGE_FILE (le32 (word_of_int m)) os of
        (ret, os1) \<Rightarrow> (ret, os1, snd (crit_set_data_mileage_write api (word_of_int m) c)))"

subsection \<open>The two copies\<close>

definition full_block :: "'w crit \<Rightarrow> bool" where
  "full_block c \<longleftrightarrow> length (critical_data c) = MAX_CRITICAL_DATA"

lemma store_data: "critical_data (snd (crit_store api s)) = critical_data s"
  by (simp add: crit_store_def split: prod.splits)

lemma write_data_mileage:
  "full_block s \<Longrightarrow> crit_get_data_mileage (snd (crit_write_data api s)) = crit_get_data_mileage s"
  by (simp add: crit_write_data_def Let_def crit_get_data_mileage_def store_data get_put_other
      full_block_def crit_offsets split: if_splits)

text \<open>The block in memory has the new mileage whether or not it could be written.\<close>

lemma set_mileage_holds:
  assumes "full_block c"
  shows "crit_get_data_mileage (snd (crit_set_data_mileage_write api v c)) = v"
proof -
  obtain r s1 where s: "crit_set_data_mileage api v c = (r, s1)" by fastforce
  have d: "critical_data s1 = put32 OFF_MILEAGE v (critical_data c)"
    using s store_data [of api "c\<lparr>critical_data := put32 OFF_MILEAGE v (critical_data c)\<rparr>"]
    by (simp add: crit_set_data_mileage_def)
  have l: "crit_get_data_mileage s1 = v" "full_block s1"
    using assms d by (simp_all add: crit_get_data_mileage_def full_block_def crit_offsets crit_sizes)
  show ?thesis
    using s l write_data_mileage [OF l(2), of api]
    by (auto simp: crit_set_data_mileage_write_def split: prod.splits)
qed

lemma length_le32 [simp]: "length (le32 w) = 4"
  by (simp add: le32_def)

lemma load_saved:
  assumes "healthy os" and "files os MILEAGE_FILE = Some (image (le32 w))"
  shows "storage_load_file MILEAGE_FILE (replicate 4 0) os = (0, le32 w, os)"
  using storage_load_healthy [OF assms, of "replicate 4 0"] valid_image [of "le32 w"]
  by (simp add: image_def)

lemma save_file:
  assumes "healthy os" and "save_mileage_file api m os c = (r, os1, c1)"
  shows "healthy os1 \<and> files os1 MILEAGE_FILE = Some (image (le32 (word_of_int m))) \<and>
    c1 = snd (crit_set_data_mileage_write api (word_of_int m) c)"
  using assms by (auto simp: save_mileage_file_def storage_save_healthy)

text \<open>
  A saved mileage is loaded again after a restart, also when one of its two copies is gone: when
  the file and its backup are missing, and when the critical data has fallen back to a smaller value,
  which the load then repairs.
\<close>

theorem mdt_mileage_survives:
  assumes "healthy os" and "full_block c" and "0 \<le> m" and "m < 2 ^ 31"
    and "save_mileage_file api m os c = (r, os1, c1)"
    and "healthy os2" and "files os2 MILEAGE_FILE = None" and "files os2 (bak MILEAGE_FILE) = None"
    and "full_block c2" and "crit_get_data_mileage c2 \<le> word_of_int m"
  shows "load_mileage_file api os1 c1 = (m, os1, c1) \<and>
    fst (load_mileage_file api os2 c1) = m \<and>
    fst (load_mileage_file api os1 c2) = m \<and>
    crit_get_data_mileage (snd (snd (load_mileage_file api os1 c2))) = word_of_int m"
proof -
  let ?w = "word_of_int m :: u32"
  have m: "sint ?w = m" using assms(3,4) by (simp add: sint_word_ariths(8) signed_take_bit_int_eq_self sint_sbintrunc')
  from save_file [OF assms(1,5)] set_mileage_holds [OF assms(2), of api ?w]
  have os1: "healthy os1" "files os1 MILEAGE_FILE = Some (image (le32 ?w))" and c1: "crit_get_data_mileage c1 = ?w"
    by simp_all
  note l = load_saved [OF os1]
  have 1: "load_mileage_file api os1 c1 = (m, os1, c1)"
    using l c1 m by (simp add: load_mileage_file_def Let_def)
  have "storage_load_file MILEAGE_FILE (replicate 4 0) os2 = (- ERR_FILE_NOT_EXIST, replicate 4 0, os2)"
    using storage_load_absent [OF assms(6-8)] .
  then have 2: "fst (load_mileage_file api os2 c1) = m"
    using c1 m by (auto simp: load_mileage_file_def Let_def storage_errors default_mileage_data_def word_gt_0)
  have 3: "fst (load_mileage_file api os1 c2) = m \<and>
    crit_get_data_mileage (snd (snd (load_mileage_file api os1 c2))) = ?w"
    using l m assms(9,10) set_mileage_holds [OF assms(9), of api ?w]
    by (auto simp: load_mileage_file_def Let_def)
  from 1 2 3 show ?thesis by blast
qed

definition empty_os :: os where "empty_os = \<lparr>files = Map.empty, script = []\<rparr>"

definition empty_crit :: "os crit" where
  "empty_crit = \<lparr>critical_data = zero_block, cw = empty_os\<rparr>"

lemma mdt_mileage_survives_witness:
  "\<exists>r os1 c1. save_mileage_file tools_api 123456 empty_os empty_crit = (r, os1, c1) \<and>
    load_mileage_file tools_api os1 c1 = (123456, os1, c1) \<and>
    fst (load_mileage_file tools_api empty_os c1) = 123456 \<and>
    fst (load_mileage_file tools_api os1 empty_crit) = 123456"
proof -
  obtain r os1 c1 where s: "save_mileage_file tools_api 123456 empty_os empty_crit = (r, os1, c1)"
    using prod_cases3 by blast
  have h: "healthy empty_os" "files empty_os MILEAGE_FILE = None" "files empty_os (bak MILEAGE_FILE) = None"
    by (simp_all add: empty_os_def healthy_def)
  have c: "full_block empty_crit" by (simp add: full_block_def empty_crit_def zero_block_def)
  have z: "crit_get_data_mileage empty_crit = 0"
    by (simp add: crit_get_data_mileage_def empty_crit_def zero_block_def get32_def crit_offsets crit_sizes of_le32_def)
  have "crit_get_data_mileage empty_crit \<le> word_of_int 123456" unfolding z by simp
  from mdt_mileage_survives [OF h(1) c _ _ s h c this] s show ?thesis by auto
qed

text \<open>
  The comparison is unsigned: a file with a negative mileage, which a message can set, beats every
  other value and is copied to the critical data.
\<close>

lemma negative_mileage_wins:
  assumes "healthy os" and "full_block c" and "save_mileage_file api m os c = (r, os1, c1)"
    and "- (2 ^ 31) \<le> m" and "m < 0" and "crit_get_data_mileage c2 < word_of_int m"
  shows "fst (load_mileage_file api os1 c2) = m"
proof -
  have m: "sint (word_of_int m :: u32) = m" using assms(4,5) by (simp add: signed_take_bit_int_eq_self sint_sbintrunc')
  from save_file [OF assms(1,3)] have "healthy os1" "files os1 MILEAGE_FILE = Some (image (le32 (word_of_int m)))"
    by simp_all
  note l = load_saved [OF this]
  have "\<not> word_of_int m < crit_get_data_mileage c2" using assms(6) by simp
  then show ?thesis using l m assms(6) by (simp add: load_mileage_file_def Let_def)
qed

end
