(* ===== verification/MdtSms.thy ===== *)
theory MdtSms
  imports MdtGps MdtMileage NetThread CFloat
begin

text \<open>
  \<open>ext/protocol/mdt800/sms.c\<close>: the commands the server sends by message. A message loses its spaces,
  is cut into arguments at \<open>:\<close> and \<open>,\<close> and is given to the handler its number names. Every string of
  the code is a place in the 80 bytes of \<open>sms_buf\<close>; an argument is the rest of the text from its
  place, read up to the next comma, which the code has replaced by a NUL. \<open>None\<close> is undefined
  behaviour: a text or a table of arguments that overflows, or a division by zero. The library
  \<open>save_config_user\<close> goes through is the one of theory Config; \<open>devel_send_sms_noti\<close> only reports.
  The build is the one of \<open>model/gtrace\<close> (\<open>SERVER_ABBR_GTRS\<close>), without the commands that restart the
  GPS daemon.
\<close>

definition SMS_PW_SETIP :: "byte list" where "SMS_PW_SETIP = str ''mdt800ip''"
definition SMS_PW_RESET :: "byte list" where "SMS_PW_RESET = str ''m2m%flemgkwk*2006''"
definition SMS_CMD_RESPONSE_NEED :: int where "SMS_CMD_RESPONSE_NEED = 1"

definition eIP_SETUP_EVC :: int where "eIP_SETUP_EVC = 1"
definition eREPORT_CYCLE_SETUP_EVT :: int where "eREPORT_CYCLE_SETUP_EVT = 2"
definition eODO_SETUP_EVC :: int where "eODO_SETUP_EVC = 3"
definition eMDT_STATUS_EVC :: int where "eMDT_STATUS_EVC = 4"
definition eREPORT_CYCLE_NUM2_SETUP_EVT :: int where "eREPORT_CYCLE_NUM2_SETUP_EVT = 32"
definition eGEO_FENCE_SETUP :: int where "eGEO_FENCE_SETUP = 33"

record mdt =
  md_conf :: mdt_conf
  md_ini :: "dict option"
  md_lgm :: lotte_gps_manager
  md_crit :: "os crit"
  md_net :: net_thread
  md_sent :: "int list"
  md_off :: bool

text \<open>What the handlers take from outside.\<close>

record sms_env =
  e_rnd :: "real \<Rightarrow> real"
  e_enc :: "mdt_fence \<times> mdt_fence \<Rightarrow> byte list"
  e_ini_set :: "dict \<Rightarrow> string \<Rightarrow> byte list \<Rightarrow> dict option"
  e_present :: bool
  e_org :: "dict option option"
  e_api :: "os mds_api"
  e_cur_gps :: gpsData

subsection \<open>Arguments\<close>

fun places :: "byte list \<Rightarrow> byte list list" where
  "places [] = []"
| "places (c # cs) = (if c = 58 \<or> c = 44 then cs # places cs else places cs)"

definition cut :: "byte list \<Rightarrow> byte list" where
  "cut t = takeWhile (\<lambda>c. c \<noteq> 44) t"

text \<open>The string \<open>&argv[i][k]\<close>.\<close>

definition sms_arg :: "byte list list \<Rightarrow> nat \<Rightarrow> nat \<Rightarrow> byte list" where
  "sms_arg argv i k = cut (drop k (argv ! i))"

definition char_at :: "byte list \<Rightarrow> nat \<Rightarrow> byte" where
  "char_at t k = (if k < length (cut t) then t ! k else 0)"

subsection \<open>Settings\<close>

definition sms_save :: "sms_env \<Rightarrow> string \<Rightarrow> byte list \<Rightarrow> mdt \<Rightarrow> int \<times> mdt" where
  "sms_save e name msg s =
     (case save_config_user (e_ini_set e) (e_present e) (e_org e) name msg (md_ini s) of
        (r, file) \<Rightarrow> (r, s\<lparr>md_ini := file\<rparr>))"

text \<open>Saving one key after the other until one fails.\<close>

fun sms_saves :: "sms_env \<Rightarrow> (string \<times> byte list) list \<Rightarrow> mdt \<Rightarrow> bool \<times> mdt" where
  "sms_saves e [] s = (True, s)"
| "sms_saves e ((name, msg) # kvs) s =
     (case sms_save e name msg s of (r, s1) \<Rightarrow> if r < 0 then (False, s1) else sms_saves e kvs s1)"

definition sms_event :: "byte list \<Rightarrow> int \<Rightarrow> mdt \<Rightarrow> mdt" where
  "sms_event response ev s = (if atoi response = SMS_CMD_RESPONSE_NEED then s\<lparr>md_sent := md_sent s @ [ev]\<rparr> else s)"

definition set_server :: "byte list \<Rightarrow> byte list \<Rightarrow> mdt \<Rightarrow> mdt" where
  "set_server ip port s = s\<lparr>md_conf := (md_conf s)\<lparr>report_ip := pad0 40 ip, report_port := atoi port\<rparr>\<rparr>"

definition server_ip_set_gtrace :: "sms_env \<Rightarrow> nat \<Rightarrow> byte list list \<Rightarrow> mdt \<Rightarrow> int \<times> mdt" where
  "server_ip_set_gtrace e argc argv s =
     (if argc \<noteq> 2 then (-1, s)
      else
        (let ip = sms_arg argv 1 0; port = sms_arg argv 2 0;
             (ok, s1) = sms_saves e [(''user:report_ip'', ip), (''user:report_port'', port)] (set_server ip port s)
         in if ok then (0, s1) else (-1, s1)))"

definition server_ip_set :: "sms_env \<Rightarrow> nat \<Rightarrow> byte list list \<Rightarrow> mdt \<Rightarrow> int \<times> mdt" where
  "server_ip_set e argc argv s =
     (if argc \<noteq> 4 then (-1, s)
      else
        (let passrd = sms_arg argv 1 0; ip = sms_arg argv 2 0; port = sms_arg argv 3 0; response = sms_arg argv 4 0 in
         if take 8 passrd \<noteq> SMS_PW_SETIP then (-1, s)
         else
           (let (ok, s1) = sms_saves e [(''user:report_ip'', ip), (''user:report_port'', port)] (set_server ip port s)
            in if ok then (0, sms_event response eIP_SETUP_EVC s1) else (-1, s1))))"

definition warn_timeout :: "mdt \<Rightarrow> mdt" where
  "warn_timeout s =
     s\<lparr>md_net := thread_network_set_warn_timeout
        (max (report_interval_keyon (md_conf s)) (report_interval_keyoff (md_conf s)) * 2) (md_net s)\<rparr>"

definition rpt_cycle_keyon :: "sms_env \<Rightarrow> nat \<Rightarrow> byte list list \<Rightarrow> mdt \<Rightarrow> (int \<times> mdt) option" where
  "rpt_cycle_keyon e argc argv s =
     (if argc \<noteq> 3 then Some (-1, s)
      else
        (let rep = sms_arg argv 1 0; col = sms_arg argv 2 0; response = sms_arg argv 3 0;
             report_interval = word_of_int (atoi rep) :: u32; collect_interval = word_of_int (atoi col) :: u32 in
         if collect_interval > report_interval then Some (-1, s)
         else
           (case validation_model_report_interval collect_interval report_interval of
              None \<Rightarrow> None
            | Some v \<Rightarrow>
                if v < 0 then Some (-1, s)
                else
                  (let s1 = warn_timeout (s\<lparr>md_conf := (md_conf s)\<lparr>report_interval_keyon := sint report_interval,
                              collect_interval_keyon := sint collect_interval\<rparr>\<rparr>);
                       (ok, s2) = sms_saves e [(''user:report_interval_keyon'', rep), (''user:collect_interval_keyon'', col)] s1
                   in if ok then Some (0, sms_event response eREPORT_CYCLE_SETUP_EVT s2) else Some (-1, s2)))))"

text \<open>
  The common part of the two commands that set all four intervals: the check and the settings.
\<close>

definition set_intervals :: "sms_env \<Rightarrow> byte list \<Rightarrow> byte list \<Rightarrow> byte list \<Rightarrow> byte list \<Rightarrow> mdt \<Rightarrow>
    (int \<times> mdt) option" where
  "set_intervals e rep_on col_on rep_off col_off s =
     (let r_on = word_of_int (atoi rep_on) :: u32; c_on = word_of_int (atoi col_on) :: u32;
          r_off = word_of_int (atoi rep_off) :: u32; c_off = word_of_int (atoi col_off) :: u32 in
      if c_on > r_on then Some (-1, s)
      else if c_off > r_off then Some (-1, s)
      else
        (case validation_model_report_interval c_on r_on of
           None \<Rightarrow> None
         | Some v \<Rightarrow>
             if v < 0 then Some (-1, s)
             else
               (case validation_model_report_interval c_off r_off of
                  None \<Rightarrow> None
                | Some v2 \<Rightarrow>
                    if v2 < 0 then Some (-1, s)
                    else
                      (let s1 = warn_timeout (s\<lparr>md_conf := (md_conf s)\<lparr>report_interval_keyon := sint r_on,
                                  collect_interval_keyon := sint c_on, report_interval_keyoff := sint r_off,
                                  collect_interval_keyoff := sint c_off\<rparr>\<rparr>);
                           (ok, s2) = sms_saves e
                             [(''user:collect_interval_keyon'', col_on), (''user:report_interval_keyon'', rep_on),
                              (''user:collect_interval_keyoff'', col_off), (''user:report_interval_keyoff'', rep_off)] s1
                       in Some (if ok then 0 else -1, s2)))))"

definition rpt_cycle2_gtrace :: "sms_env \<Rightarrow> nat \<Rightarrow> byte list list \<Rightarrow> mdt \<Rightarrow> (int \<times> mdt) option" where
  "rpt_cycle2_gtrace e argc argv s =
     (if argc \<noteq> 2 then Some (-1, s)
      else set_intervals e (sms_arg argv 1 0) (sms_arg argv 2 0) (sms_arg argv 1 0) (sms_arg argv 2 0) s)"

definition rpt_cycle2 :: "sms_env \<Rightarrow> nat \<Rightarrow> byte list list \<Rightarrow> mdt \<Rightarrow> (int \<times> mdt) option" where
  "rpt_cycle2 e argc argv s =
     (if argc \<noteq> 5 then Some (-1, s)
      else
        (case set_intervals e (sms_arg argv 1 0) (sms_arg argv 2 0) (sms_arg argv 3 0) (sms_arg argv 4 0) s of
           None \<Rightarrow> None
         | Some (r, s1) \<Rightarrow>
             if r < 0 then Some (-1, s1)
             else Some (0, sms_event (sms_arg argv 5 0) eREPORT_CYCLE_NUM2_SETUP_EVT s1)))"

subsection \<open>Odometer, status and reset\<close>

definition sms_save_mileage :: "sms_env \<Rightarrow> int \<Rightarrow> mdt \<Rightarrow> mdt" where
  "sms_save_mileage e m s =
     (let (geo, os) = lgm_geo (md_lgm s); (r, os1, c1) = save_mileage_file (e_api e) m os (md_crit s)
      in s\<lparr>md_lgm := (md_lgm s)\<lparr>lgm_geo := (geo, os1)\<rparr>, md_crit := c1\<rparr>)"

definition mileage_set :: "sms_env \<Rightarrow> nat \<Rightarrow> byte list list \<Rightarrow> mdt \<Rightarrow> int \<times> mdt" where
  "mileage_set e argc argv s =
     (if argc \<noteq> 2 then (-1, s)
      else
        (let d = atoi (sms_arg argv 1 0);
             s1 = s\<lparr>md_lgm := set_gps_mileage 0 (set_server_mileage d (md_lgm s))\<rparr>
         in (0, sms_event (sms_arg argv 2 0) eODO_SETUP_EVC (sms_save_mileage e d s1))))"

definition mdt_status :: "nat \<Rightarrow> byte list list \<Rightarrow> mdt \<Rightarrow> int \<times> mdt" where
  "mdt_status argc argv s =
     (if argc \<noteq> 1 then (-1, s) else (0, sms_event (sms_arg argv 1 0) eMDT_STATUS_EVC s))"

definition gpio_mode :: "mdt \<Rightarrow> int \<times> mdt" where "gpio_mode s = (0, s)"
definition gpio_output :: "mdt \<Rightarrow> int \<times> mdt" where "gpio_output s = (0, s)"

text \<open>\<open>poweroff\<close> does not return; the flag says that it was called.\<close>

definition mdt_reset :: "sms_env \<Rightarrow> nat \<Rightarrow> byte list list \<Rightarrow> mdt \<Rightarrow> int \<times> mdt" where
  "mdt_reset e argc argv s =
     (if argc \<noteq> 2 then (-1, s)
      else if SMS_PW_RESET \<noteq> sms_arg argv 1 0 then (-1, s)
      else (0, (sms_save_mileage e (get_server_mileage (md_lgm s) + get_gps_mileage (md_lgm s)) s)\<lparr>md_off := True\<rparr>))"

subsection \<open>Fences\<close>

text \<open>\<open>atof\<close> on digits with a decimal point.\<close>

definition atof :: "byte list \<Rightarrow> real" where
  "atof t =
     (let whole = takeWhile is_dec t; rest = dropWhile is_dec t;
          frac = (if rest \<noteq> [] \<and> hd rest = 46 then takeWhile is_dec (tl rest) else []);
          number = (\<lambda>ds. foldl (\<lambda>v d. 10 * v + (uint d - 48)) 0 ds)
      in to_double (of_int (number whole) + of_int (number frac) / 10 ^ length frac))"

definition lat_nmea2float :: "byte list \<Rightarrow> real option" where
  "lat_nmea2float buf =
     (if length buf < 9 then None
      else Some (to_float (to_double (of_int ((uint (buf ! 0) - 48) * 10 + (uint (buf ! 1) - 48)) +
             to_double (atof (drop 2 buf) / 60)))))"

definition lon_nmea2float :: "byte list \<Rightarrow> real option" where
  "lon_nmea2float buf =
     (if length buf < 10 then None
      else Some (to_float (to_double (of_int ((uint (buf ! 0) - 48) * 100 + (uint (buf ! 1) - 48) * 10 + (uint (buf ! 2) - 48)) +
             to_double (atof (drop 3 buf) / 60)))))"

definition fence_dist :: "sms_env \<Rightarrow> real \<Rightarrow> real \<Rightarrow> mdt \<Rightarrow> int" where
  "fence_dist e sms_lat sms_lon s =
     (let m = md_lgm s;
          g = (if \<not> first_gps_active m \<or> gactive (fixed_gpsdata m) = 0 then e_cur_gps e else fixed_gpsdata m)
      in to_int (get_distance_meter (e_rnd e) (glat g) sms_lat (glon g) sms_lon))"

definition new_fence :: "int \<Rightarrow> real \<Rightarrow> real \<Rightarrow> int \<Rightarrow> int \<Rightarrow> mdt_fence" where
  "new_fence fence_cond sms_lat sms_lon frange d =
     \<lparr>f_enable = True, f_latitude = sms_lat, f_longitude = sms_lon, f_range = frange,
      cur_fence_status = (if d < 0 then eFENCE_STATUS_OUT else if d < frange then eFENCE_STATUS_IN else eFENCE_STATUS_OUT),
      f_setup = (if fence_cond = 0 then eFENCE_SETUP_ENTRY else if fence_cond = 1 then eFENCE_SETUP_EXIT
                 else eFENCE_SETUP_ENTRY_EXIT)\<rparr>"

text \<open>
  The switch over the address: the case of fence 1 has no \<open>break\<close> and falls into the default, which
  sets the status to -1.
\<close>

definition store_fence :: "sms_env \<Rightarrow> int \<Rightarrow> mdt_fence \<Rightarrow> mdt \<Rightarrow> int \<times> mdt" where
  "store_fence e fence_address f s =
     (let (geo, os) = lgm_geo (md_lgm s) in
      if fence_address = 0 then
        (case set_geo_fence0 (e_enc e) f geo os of
           (ret, geo1, os1) \<Rightarrow> (ret, s\<lparr>md_lgm := (md_lgm s)\<lparr>lgm_geo := (geo1, os1)\<rparr>\<rparr>))
      else if fence_address = 1 then
        (case set_geo_fence1 (e_enc e) f geo os of
           (ret, geo1, os1) \<Rightarrow> (-1, s\<lparr>md_lgm := (md_lgm s)\<lparr>lgm_geo := (geo1, os1)\<rparr>\<rparr>))
      else (-1, s))"

definition apply_fence :: "sms_env \<Rightarrow> int \<Rightarrow> mdt_fence \<Rightarrow> byte list \<Rightarrow> mdt \<Rightarrow> int \<times> mdt" where
  "apply_fence e fence_address f response s =
     (case store_fence e fence_address f s of
        (ret, s1) \<Rightarrow> if ret < 0 then (-1, s1) else (0, sms_event response eGEO_FENCE_SETUP s1))"

definition fence_set :: "sms_env \<Rightarrow> nat \<Rightarrow> byte list list \<Rightarrow> mdt \<Rightarrow> int \<times> mdt" where
  "fence_set e argc argv s =
     (if argc \<noteq> 6 then (-1, s)
      else
        (let fence_address = atoi (sms_arg argv 1 0); fence_cond = atoi (sms_arg argv 2 0) in
         if fence_address \<notin> {0, 1} then (-1, s)
         else if fence_cond \<notin> {0, 1, 2} then (-1, s)
         else
           (case lat_nmea2float (sms_arg argv 3 1) of
              None \<Rightarrow> (-1, s)
            | Some sms_lat \<Rightarrow>
                (case lon_nmea2float (sms_arg argv 4 1) of
                   None \<Rightarrow> (-1, s)
                 | Some sms_lon \<Rightarrow>
                     (let frange = atoi (sms_arg argv 5 0);
                          f = new_fence fence_cond sms_lat sms_lon frange (fence_dist e sms_lat sms_lon s)
                      in apply_fence e fence_address f (sms_arg argv 6 0) s)))))"

subsection \<open>A message\<close>

definition mdt_command :: "sms_env \<Rightarrow> int \<Rightarrow> nat \<Rightarrow> byte list list \<Rightarrow> mdt \<Rightarrow> (int \<times> mdt) option" where
  "mdt_command e sms_cmd argc argv s =
     (if sms_cmd = 1 then Some (server_ip_set e argc argv s)
      else if sms_cmd = 2 then rpt_cycle_keyon e argc argv s
      else if sms_cmd = 3 then Some (mileage_set e argc argv s)
      else if sms_cmd = 4 then Some (mdt_status argc argv s)
      else if sms_cmd = 5 then Some (gpio_mode s)
      else if sms_cmd = 6 then Some (gpio_output s)
      else if sms_cmd = 10 then Some (0, snd (mdt_reset e argc argv s))
      else if sms_cmd = 11 then map_option (\<lambda>(r, s1). (0, s1)) (rpt_cycle2 e argc argv s)
      else if sms_cmd = 12 then Some (fence_set e argc argv s)
      else Some (-1, s))"

text \<open>
  The text without its spaces must leave room for its NUL in the 80 bytes of the buffer, and the
  arguments must fit a table of 32.
\<close>

definition parse_model_sms :: "sms_env \<Rightarrow> byte list \<Rightarrow> mdt \<Rightarrow> (int \<times> mdt) option" where
  "parse_model_sms e sms s =
     (let base = filter (\<lambda>c. c \<noteq> 32) sms; argv = base # places base; argc = length argv - 1 in
      if length base \<ge> 80 \<or> length argv > 32 then None
      else if char_at base 0 = 38 \<and> char_at base 1 = 67 then
        (if char_at base 2 = 49 then Some (0, snd (server_ip_set_gtrace e argc argv s))
         else if char_at base 2 = 50 then map_option (\<lambda>(r, s1). (0, s1)) (rpt_cycle2_gtrace e argc argv s)
         else Some (0, s))
      else mdt_command e (atoi (48 # cut (tl base))) argc argv s)"

subsection \<open>What the handlers leave alone\<close>

lemma sms_save_frame: "sms_save e name msg s = (r, s1) \<Longrightarrow> md_conf s1 = md_conf s \<and> md_off s1 = md_off s \<and> md_lgm s1 = md_lgm s"
  by (auto simp: sms_save_def split: prod.splits)

lemma sms_saves_frame: "sms_saves e kvs s = (b, s1) \<Longrightarrow> md_conf s1 = md_conf s \<and> md_off s1 = md_off s \<and> md_lgm s1 = md_lgm s"
proof (induction kvs arbitrary: s)
  case (Cons kv kvs)
  obtain n m r s2 where k: "kv = (n, m)" "sms_save e n m s = (r, s2)" by (metis surj_pair)
  with sms_save_frame [OF k(2)] Cons show ?case by (auto split: if_splits)
qed simp

declare sms_saves.simps [simp del]

lemma small_frames [simp]:
  "md_conf (sms_event t ev s) = md_conf s" "md_off (sms_event t ev s) = md_off s" "md_lgm (sms_event t ev s) = md_lgm s"
  "md_conf (warn_timeout s) = md_conf s" "md_off (warn_timeout s) = md_off s"
  "md_off (set_server ip port s) = md_off s"
  "md_conf (sms_save_mileage e m s) = md_conf s" "md_off (sms_save_mileage e m s) = md_off s"
  by (simp_all add: sms_event_def warn_timeout_def set_server_def sms_save_mileage_def Let_def split: prod.splits)

lemma store_fence_frame: "store_fence e a f s = (r, s1) \<Longrightarrow> md_conf s1 = md_conf s \<and> md_off s1 = md_off s"
  by (auto simp: store_fence_def Let_def split: prod.splits if_splits)

lemma apply_fence_frame [simp]:
  "md_conf (snd (apply_fence e a f t s)) = md_conf s" "md_off (snd (apply_fence e a f t s)) = md_off s"
  by (auto simp: apply_fence_def split: prod.splits dest: store_fence_frame)

lemma fence_set_frame [simp]:
  "md_conf (snd (fence_set e argc argv s)) = md_conf s" "md_off (snd (fence_set e argc argv s)) = md_off s"
  by (simp_all add: fence_set_def Let_def split: option.split)

text \<open>A property every handler keeps is kept by every message.\<close>

lemma mdt_command_keeps:
  assumes "mdt_command e cmd argc argv s = Some (r, s')" and "P s"
    and "P (snd (server_ip_set e argc argv s))"
    and "\<And>r1 s1. rpt_cycle_keyon e argc argv s = Some (r1, s1) \<Longrightarrow> P s1"
    and "P (snd (mileage_set e argc argv s))" and "P (snd (mdt_status argc argv s))"
    and "P (snd (mdt_reset e argc argv s))"
    and "\<And>r1 s1. rpt_cycle2 e argc argv s = Some (r1, s1) \<Longrightarrow> P s1"
    and "P (snd (fence_set e argc argv s))"
  shows "P s'"
proof -
  note c = assms(1) [unfolded mdt_command_def gpio_mode_def gpio_output_def]
  show ?thesis using c assms(2-) by (auto split: if_splits)
qed

subsection \<open>The intervals stay valid\<close>

definition interval_pair_ok :: "int \<Rightarrow> int \<Rightarrow> bool" where
  "interval_pair_ok c r \<longleftrightarrow> 0 < c \<and> c \<le> r \<and> c dvd r \<and> r \<le> 65000"

definition intervals_ok :: "mdt_conf \<Rightarrow> bool" where
  "intervals_ok conf \<longleftrightarrow> interval_pair_ok (collect_interval_keyon conf) (report_interval_keyon conf) \<and>
     interval_pair_ok (collect_interval_keyoff conf) (report_interval_keyoff conf)"

lemma sint_small: "w \<le> (65000 :: u32) \<Longrightarrow> sint w = uint w"
  using signed_take_bit_int_eq_self [of 31 "uint w"] uint_ge_0 [of w]
  by (simp add: word_le_def sint_uint)

lemma checked_pair:
  assumes "validation_model_report_interval c r = Some v" and "\<not> v < 0"
  shows "interval_pair_ok (sint c) (sint r)"
proof -
  have "v = 0" using assms by (auto simp: validation_model_report_interval_def split: if_splits)
  with interval_check_ok [of c r] assms(1) have k: "0 < c" "c \<le> r" "uint c dvd uint r" "r \<le> 65000" by simp_all
  have "sint c = uint c" "sint r = uint r" using k by (auto intro: sint_small order_trans)
  then show ?thesis using k by (simp add: interval_pair_ok_def word_le_def word_less_def)
qed

abbreviation ok_conf :: "mdt \<Rightarrow> bool" where
  "ok_conf s \<equiv> intervals_ok (md_conf s)"

lemma set_server_ok [simp]: "ok_conf (set_server ip port s) = ok_conf s"
  by (simp add: set_server_def intervals_ok_def)

lemma sms_saves_conf [simp]: "md_conf (snd (sms_saves e kvs s)) = md_conf s" "md_off (snd (sms_saves e kvs s)) = md_off s"
  by (cases "sms_saves e kvs s"; auto dest: sms_saves_frame)+

lemma ip_set_ok [simp]:
  "ok_conf (snd (server_ip_set e argc argv s)) = ok_conf s"
  "ok_conf (snd (server_ip_set_gtrace e argc argv s)) = ok_conf s"
  by (simp_all add: server_ip_set_def server_ip_set_gtrace_def Let_def case_prod_unfold)

lemma rpt_keyon_ok:
  assumes "rpt_cycle_keyon e argc argv s = Some (r, s')" and "ok_conf s"
  shows "ok_conf s'"
proof -
  let ?r = "word_of_int (atoi (sms_arg argv 1 0)) :: u32" and ?c = "word_of_int (atoi (sms_arg argv 2 0)) :: u32"
  let ?s1 = "warn_timeout (s\<lparr>md_conf := (md_conf s)\<lparr>report_interval_keyon := sint ?r, collect_interval_keyon := sint ?c\<rparr>\<rparr>)"
  let ?kvs = "[(''user:report_interval_keyon'', sms_arg argv 1 0), (''user:collect_interval_keyon'', sms_arg argv 2 0)]"
  consider (same) "s' = s" | (set) v where "validation_model_report_interval ?c ?r = Some v" "\<not> v < 0"
      "md_conf s' = md_conf (snd (sms_saves e ?kvs ?s1))"
    using assms(1) unfolding rpt_cycle_keyon_def Let_def case_prod_unfold
    by (auto split: if_splits option.splits)
  then show ?thesis
  proof cases
    case set
    from checked_pair [OF set(1,2)] show ?thesis using assms(2) set(3) by (simp add: intervals_ok_def)
  qed (use assms(2) in simp)
qed

lemma set_intervals_ok:
  assumes "set_intervals e a b c d s = Some (r, s')" and "ok_conf s"
  shows "ok_conf s'"
proof -
  let ?w = "\<lambda>t. word_of_int (atoi t) :: u32"
  let ?s1 = "warn_timeout (s\<lparr>md_conf := (md_conf s)\<lparr>report_interval_keyon := sint (?w a),
     collect_interval_keyon := sint (?w b), report_interval_keyoff := sint (?w c), collect_interval_keyoff := sint (?w d)\<rparr>\<rparr>)"
  let ?kvs = "[(''user:collect_interval_keyon'', b), (''user:report_interval_keyon'', a),
     (''user:collect_interval_keyoff'', d), (''user:report_interval_keyoff'', c)]"
  consider (same) "s' = s" | (set) v v2 where "validation_model_report_interval (?w b) (?w a) = Some v" "\<not> v < 0"
      "validation_model_report_interval (?w d) (?w c) = Some v2" "\<not> v2 < 0"
      "md_conf s' = md_conf (snd (sms_saves e ?kvs ?s1))"
    using assms(1) unfolding set_intervals_def Let_def case_prod_unfold
    by (auto split: if_splits option.splits)
  then show ?thesis
  proof cases
    case set
    from checked_pair [OF set(1,2)] checked_pair [OF set(3,4)] show ?thesis
      using set(5) by (simp add: intervals_ok_def)
  qed (use assms(2) in simp)
qed

lemma mdt_command_ok:
  assumes "mdt_command e cmd argc argv s = Some (r, s')" and "ok_conf s"
  shows "ok_conf s'"
proof -
  have 1: "ok_conf (snd (mileage_set e argc argv s))" "ok_conf (snd (mdt_status argc argv s))"
    "ok_conf (snd (mdt_reset e argc argv s))" "ok_conf (snd (server_ip_set e argc argv s))"
    "ok_conf (snd (fence_set e argc argv s))"
    using assms(2) by (simp_all add: mileage_set_def mdt_status_def mdt_reset_def Let_def)
  have 2: "ok_conf s1" if "rpt_cycle2 e argc argv s = Some (r1, s1)" for r1 s1
    using that set_intervals_ok [OF _ assms(2)] assms(2)
    by (auto simp: rpt_cycle2_def Let_def split: if_splits option.splits)
  show ?thesis
    by (rule mdt_command_keeps [OF assms(1), of ok_conf]) (use assms(2) 1 2 rpt_keyon_ok in auto)
qed

text \<open>The handling of a sequence of messages.\<close>

fun sms_run :: "sms_env \<Rightarrow> byte list list \<Rightarrow> mdt \<Rightarrow> mdt option" where
  "sms_run e [] s = Some s"
| "sms_run e (t # ts) s = (case parse_model_sms e t s of None \<Rightarrow> None | Some (r, s1) \<Rightarrow> sms_run e ts s1)"

lemma parse_keeps_intervals:
  assumes "parse_model_sms e t s = Some (r, s')" and "ok_conf s"
  shows "ok_conf s'"
proof -
  let ?b = "filter (\<lambda>c. c \<noteq> 32) t"
  let ?argv = "?b # places ?b"
  have "ok_conf s1" if "rpt_cycle2_gtrace e argc argv s = Some (r1, s1)" for argc argv r1 s1
    using that set_intervals_ok [OF _ assms(2)] assms(2) by (auto simp: rpt_cycle2_gtrace_def split: if_splits)
  moreover have "ok_conf (snd (server_ip_set_gtrace e argc argv s))" for argc argv using assms(2) by simp
  ultimately show ?thesis
    using assms mdt_command_ok [OF _ assms(2)]
    unfolding parse_model_sms_def Let_def by (fastforce split: if_splits)
qed

lemma run_keeps_intervals: "sms_run e ts s = Some s' \<Longrightarrow> ok_conf s \<Longrightarrow> ok_conf s'"
proof (induction ts arbitrary: s)
  case (Cons t ts)
  then obtain r s1 where p: "parse_model_sms e t s = Some (r, s1)" "sms_run e ts s1 = Some s'"
    by (auto split: option.splits)
  from Cons.IH [OF p(2) parse_keeps_intervals [OF p(1) Cons.prems(2)]] show ?case .
qed simp

text \<open>
  C4: whatever messages are handled, valid intervals stay valid: each collection interval is positive
  and divides its report interval, which is at most 65000 seconds.
\<close>

theorem sms_keeps_intervals:
  assumes "intervals_ok (md_conf s)" and "sms_run e ts s = Some s'"
  shows "intervals_ok (md_conf s')"
  using run_keeps_intervals [OF assms(2)] assms(1) .

subsection \<open>An interval of zero\<close>

text \<open>Only what the evaluation of a text needs.\<close>

lemmas text_eval = str_def cut_def sms_arg_def char_at_def atoi_def is_dec_def Let_def

text \<open>
  A message that sets a collection interval of zero makes the program divide by zero: the check
  of the two intervals divides before it looks at them. No password is asked for.
\<close>

theorem sms_zero_interval_crashes:
  "parse_model_sms e (str ''#2:60,0,1'') s = None \<and> parse_model_sms e (str ''&C2:60,0'') s = None"
  by (simp add: parse_model_sms_def mdt_command_def rpt_cycle_keyon_def rpt_cycle2_gtrace_def
      set_intervals_def validation_model_report_interval_def text_eval)

definition sms_env_example :: sms_env where
  "sms_env_example = \<lparr>e_rnd = (\<lambda>x. x), e_enc = (\<lambda>_. []), e_ini_set = (\<lambda>d n m. Some (d(n \<mapsto> m))),
     e_present = True, e_org = None, e_api = tools_api, e_cur_gps = home\<rparr>"

definition mdt_example :: mdt where
  "mdt_example = \<lparr>md_conf = gps_conf_example, md_ini = Some org_example, md_lgm = lgm_init fence_example,
     md_crit = empty_crit, md_net = running_example, md_sent = [], md_off = False\<rparr>"

lemma mdt_example_intervals: "intervals_ok (md_conf mdt_example)"
  by (simp add: mdt_example_def gps_conf_example_def load_config_model_default_def load_config_user_default_def
      intervals_ok_def interval_pair_ok_def)

lemma sms_keeps_intervals_witness:
  "\<exists>s'. sms_run sms_env_example [str ''#2:60,20,1'', str ''#4:1''] mdt_example = Some s' \<and>
    intervals_ok (md_conf s') \<and> collect_interval_keyon (md_conf s') = 20"
proof -
  have "\<exists>r s1. parse_model_sms sms_env_example (str ''#2:60,20,1'') mdt_example = Some (r, s1) \<and>
      collect_interval_keyon (md_conf s1) = 20"
    by (simp add: parse_model_sms_def mdt_command_def rpt_cycle_keyon_def validation_model_report_interval_def
        text_eval case_prod_unfold)
  then obtain r s1 where 1: "parse_model_sms sms_env_example (str ''#2:60,20,1'') mdt_example = Some (r, s1)"
    "collect_interval_keyon (md_conf s1) = 20" by blast
  have "\<exists>r s2. parse_model_sms sms_env_example (str ''#4:1'') s1 = Some (r, s2) \<and> md_conf s2 = md_conf s1"
    by (simp add: parse_model_sms_def mdt_command_def mdt_status_def text_eval)
  then obtain r2 s2 where 2: "parse_model_sms sms_env_example (str ''#4:1'') s1 = Some (r2, s2)" "md_conf s2 = md_conf s1"
    by blast
  from 1 2 have "sms_run sms_env_example [str ''#2:60,20,1'', str ''#4:1''] mdt_example = Some s2" by simp
  with sms_keeps_intervals [OF mdt_example_intervals this] 1 2 show ?thesis by auto
qed

subsection \<open>The second fence\<close>

text \<open>
  A valid message for the second fence sets that fence and reports failure: no answer is sent to
  the server, even when one is asked for.
\<close>

theorem second_fence_reported_failed:
  assumes "argc = 6" and "atoi (sms_arg argv 1 0) = 1" and "atoi (sms_arg argv 2 0) \<in> {0, 1, 2}"
    and "lat_nmea2float (sms_arg argv 3 1) = Some la" and "lon_nmea2float (sms_arg argv 4 1) = Some lo"
  shows "\<exists>s'. fence_set e argc argv s = (-1, s') \<and> md_sent s' = md_sent s \<and>
    fence1 (fst (lgm_geo (md_lgm s'))) =
      new_fence (atoi (sms_arg argv 2 0)) la lo (atoi (sms_arg argv 5 0)) (fence_dist e la lo s)"
proof -
  have st: "\<exists>s'. apply_fence e 1 f t s = (-1, s') \<and> md_sent s' = md_sent s \<and>
      fence1 (fst (lgm_geo (md_lgm s'))) = f" for f t
    by (simp add: apply_fence_def store_fence_def set_geo_fence1_def Let_def case_prod_unfold)
  show ?thesis
    using assms st by (simp add: fence_set_def Let_def)
qed

definition fence_argv :: "byte list list" where
  "fence_argv = (let b = str ''#12:1,2,N3730.0000,E12700.0000,500,1'' in b # places b)"

lemma second_fence_reported_failed_witness:
  "\<exists>la lo s'. fence_set sms_env_example 6 fence_argv mdt_example = (-1, s') \<and> md_sent s' = md_sent mdt_example \<and>
    fence1 (fst (lgm_geo (md_lgm s'))) =
      new_fence (atoi (sms_arg fence_argv 2 0)) la lo (atoi (sms_arg fence_argv 5 0)) (fence_dist sms_env_example la lo mdt_example)"
proof -
  have "atoi (sms_arg fence_argv 1 0) = 1" "atoi (sms_arg fence_argv 2 0) \<in> {0, 1, 2}"
    "lat_nmea2float (sms_arg fence_argv 3 1) \<noteq> None" "lon_nmea2float (sms_arg fence_argv 4 1) \<noteq> None"
    by (simp_all add: fence_argv_def text_eval lat_nmea2float_def lon_nmea2float_def)
  with second_fence_reported_failed [OF refl, of fence_argv] show ?thesis by blast
qed

subsection \<open>Passwords\<close>

text \<open>
  Only a message with the password as its first argument powers the device off.
\<close>

theorem sms_reset_needs_password:
  assumes "parse_model_sms e t s = Some (r, s')" and "\<not> md_off s" and "md_off s'"
  shows "let b = filter (\<lambda>c. c \<noteq> 32) t in sms_arg (b # places b) 1 0 = SMS_PW_RESET"
proof -
  have fr: "md_off (snd (server_ip_set e argc argv s)) = md_off s" "md_off (snd (server_ip_set_gtrace e argc argv s)) = md_off s"
    "md_off (snd (mileage_set e argc argv s)) = md_off s" "md_off (snd (mdt_status argc argv s)) = md_off s" for argc argv
    by (simp_all add: server_ip_set_def server_ip_set_gtrace_def mileage_set_def mdt_status_def Let_def case_prod_unfold)
  have ks: "md_off s1 = md_off s" if "rpt_cycle_keyon e argc argv s = Some (r1, s1)" for argc argv r1 s1
    using that by (auto simp: rpt_cycle_keyon_def Let_def case_prod_unfold split: if_splits option.splits)
  have si: "md_off s1 = md_off s" if "set_intervals e a b c d s = Some (r1, s1)" for a b c d r1 s1
    using that by (auto simp: set_intervals_def Let_def case_prod_unfold split: if_splits option.splits)
  have r2: "md_off s1 = md_off s" if "rpt_cycle2 e argc argv s = Some (r1, s1)" for argc argv r1 s1
    using that si by (auto simp: rpt_cycle2_def Let_def split: if_splits option.splits)
  have r3: "md_off s1 = md_off s" if "rpt_cycle2_gtrace e argc argv s = Some (r1, s1)" for argc argv r1 s1
    using that si by (auto simp: rpt_cycle2_gtrace_def split: if_splits)
  have rs: "\<not> md_off (snd (mdt_reset e argc argv s))" if "SMS_PW_RESET \<noteq> sms_arg argv 1 0" for argc argv
    using that assms(2) by (simp add: mdt_reset_def)
  have cm: "\<not> md_off s1" if c: "mdt_command e cmd argc argv s = Some (r1, s1)" and "SMS_PW_RESET \<noteq> sms_arg argv 1 0" for cmd argc argv r1 s1
    by (rule mdt_command_keeps [OF c, of "\<lambda>s. \<not> md_off s"])
      (use assms(2) fr ks r2 rs [OF that(2)] in auto)
  show ?thesis
  proof (rule ccontr)
    let ?b = "filter (\<lambda>c. c \<noteq> 32) t"
    assume "\<not> ?thesis"
    then have n: "SMS_PW_RESET \<noteq> sms_arg (?b # places ?b) 1 0" by (auto simp: Let_def)
    note p = assms(1) [unfolded parse_model_sms_def Let_def]
    show False using p cm [OF _ n] fr r3 assms(2,3) by (auto split: if_splits)
  qed
qed

lemma sms_reset_needs_password_witness:
  "\<exists>r s'. parse_model_sms sms_env_example (str ''#10:m2m%flemgkwk*2006,0'') mdt_example = Some (r, s') \<and> md_off s' \<and>
    (let b = filter (\<lambda>c. c \<noteq> 32) (str ''#10:m2m%flemgkwk*2006,0'') in sms_arg (b # places b) 1 0 = SMS_PW_RESET)"
proof -
  have "\<exists>r s'. parse_model_sms sms_env_example (str ''#10:m2m%flemgkwk*2006,0'') mdt_example = Some (r, s') \<and> md_off s'"
    by (simp add: parse_model_sms_def mdt_command_def mdt_reset_def SMS_PW_RESET_def text_eval)
  then obtain r s' where p: "parse_model_sms sms_env_example (str ''#10:m2m%flemgkwk*2006,0'') mdt_example = Some (r, s')" "md_off s'"
    by blast
  have "\<not> md_off mdt_example" by (simp add: mdt_example_def)
  from sms_reset_needs_password [OF p(1) this p(2)] p show ?thesis by blast
qed

text \<open>
  The command of this customer that changes the server asks for no password.
\<close>

lemma server_change_without_password:
  "\<exists>s'. parse_model_sms e (str ''&C1:9.9.9.9,80'') s = Some (0, s') \<and>
    report_ip (md_conf s') = pad0 40 (str ''9.9.9.9'') \<and> report_port (md_conf s') = 80"
proof -
  have "\<exists>s'. parse_model_sms e (str ''&C1:9.9.9.9,80'') s = Some (0, s') \<and>
    md_conf s' = md_conf (set_server (str ''9.9.9.9'') (str ''80'') s)"
    by (simp add: parse_model_sms_def server_ip_set_gtrace_def text_eval case_prod_unfold)
  then show ?thesis by (auto simp: set_server_def text_eval)
qed

end
