(* ===== verification/Gtrace.thy ===== *)
theory Gtrace
  imports MdtSms MdtPacket GpsCheck Watchdog
begin

text \<open>
  \<open>model/gtrace/callback.c\<close> and \<open>data-list.c\<close>: the customer program on top of the MDT800 protocol. The
  base program calls it once per reading of the GPS, on the events of the ignition, the power and the
  network, and for its main loop. Records wait in \<open>gps_buffer_list\<close> until the main loop makes packets
  of them; what reaches the second pipe is \<open>md_sent\<close>, the packets of the first are \<open>gt_pipe1\<close>. Clocks,
  sensors and the outcomes of allocations are inputs. The messages to the log and the debug server are
  left out, as is the wait for the pipes before the power goes off.
\<close>

definition BASE_UTC_VALUE :: int where "BASE_UTC_VALUE = 1451893906"
definition JUMP_UP_TIME_VALUE :: int where "JUMP_UP_TIME_VALUE = 60 * 60 * 60"
definition eIGN_ON_EVT :: int where "eIGN_ON_EVT = 26"
definition eIGN_OFF_EVT :: int where "eIGN_OFF_EVT = 27"
definition ePOWER_SOURCE_CHANGE_EVT :: int where "ePOWER_SOURCE_CHANGE_EVT = 6"

record gtrace =
  gt_mdt :: mdt
  gt_queue :: "lotte_packet list"
  gt_pipe1 :: "byte list list"
  gps_check_cnt :: int
  gps_check_cnt_variable :: int
  gps_resets :: nat
  is_run_ignition_off :: bool
  prev_gps_active_time :: int
  system_on_time :: int
  gt_therm :: therm
  gt_valid :: gpsst
  gt_wd :: wd

text \<open>
  What the callbacks take from outside; the ignition is read again for the interval of the collection and
  for the two intervals of the record.
\<close>

record gt_env =
  t_sms :: sms_env
  t_phone :: "byte list"
  t_power :: int
  t_ign_off :: bool
  t_ign_coll :: bool
  t_ign_report :: bool
  t_ign_report_coll :: bool
  t_gps_enc :: "gpsData \<Rightarrow> byte list"
  t_gps_conf :: configGPS

definition lgm_of :: "gtrace \<Rightarrow> lotte_gps_manager" where
  "lgm_of s = md_lgm (gt_mdt s)"

definition set_lgm :: "lotte_gps_manager \<Rightarrow> gtrace \<Rightarrow> gtrace" where
  "set_lgm m s = s\<lparr>gt_mdt := (gt_mdt s)\<lparr>md_lgm := m\<rparr>\<rparr>"

definition env_for_gps :: "gt_env \<Rightarrow> gtrace \<Rightarrow> gps_env" where
  "env_for_gps e s = \<lparr>g_rnd = e_rnd (t_sms e), g_enc = e_enc (t_sms e), g_conf = md_conf (gt_mdt s),
     g_ign_off = t_ign_off e, g_ign_coll = t_ign_coll e\<rparr>"

definition env_for_report :: "gt_env \<Rightarrow> gtrace \<Rightarrow> report_env" where
  "env_for_report e s =
     \<lparr>r_phonenum = t_phone e, r_server_mileage = get_server_mileage (lgm_of s),
      r_gps_mileage = get_gps_mileage (lgm_of s), r_therm = therm_get_curr_data (gt_therm s),
      r_power_source = t_power e, r_ign_off = t_ign_report e, r_ign_coll = t_ign_report_coll e, r_conf = md_conf (gt_mdt s)\<rparr>"

definition get_gps_data_count :: "gtrace \<Rightarrow> int" where
  "get_gps_data_count s = int (length (gt_queue s))"

subsection \<open>A reading of the GPS\<close>

definition is_gps_time_jump_up :: "int \<Rightarrow> int \<Rightarrow> gtrace \<Rightarrow> bool \<times> gtrace" where
  "is_gps_time_jump_up modem_time gps_time s =
     (if modem_time < BASE_UTC_VALUE then (False, s\<lparr>gps_check_cnt := 0, gps_check_cnt_variable := 3\<rparr>)
      else if \<bar>modem_time - gps_time\<bar> \<ge> JUMP_UP_TIME_VALUE then
        (let s1 = s\<lparr>gps_check_cnt := gps_check_cnt s + 1\<rparr> in
         (True,
          if gps_check_cnt s1 > gps_check_cnt_variable s1 then
            (let v = gps_check_cnt_variable s1 + 3 in
             s1\<lparr>gps_check_cnt := 0, gps_resets := Suc (gps_resets s1),
                gps_check_cnt_variable := (if v > 30 then 3 else v)\<rparr>)
          else s1))
      else (False, s\<lparr>gps_check_cnt := 0, gps_check_cnt_variable := 3\<rparr>))"

text \<open>
  The new record at the end of the queue; the two flags are the outcomes of the allocations of the
  record and of its node.
\<close>

definition queue_record :: "gt_env \<Rightarrow> bool \<Rightarrow> bool \<Rightarrow> gpsData \<Rightarrow> gtrace \<Rightarrow> gtrace option" where
  "queue_record e malloc_ok add_ok g s =
     (if \<not> malloc_ok then Some s
      else
        (case create_report_data eCYCLE_REPORT_EVC (env_for_report e s) g of
           None \<Rightarrow> None
         | Some p \<Rightarrow> Some (if add_ok then s\<lparr>gt_queue := gt_queue s @ [p]\<rparr> else s)))"

definition use_reading :: "gt_env \<Rightarrow> bool \<Rightarrow> bool \<Rightarrow> gpsData \<Rightarrow> gtrace \<Rightarrow> gtrace option" where
  "use_reading e malloc_ok add_ok g s =
     (case gps_reading (env_for_gps e s) g (lgm_of s) of
        (ret, d, m) \<Rightarrow>
          (let s1 = set_lgm m s in
           if ret \<noteq> eUSE_GPS_DATA then Some s1 else queue_record e malloc_ok add_ok d s1))"

definition gps_parse_one_context_callback :: "gt_env \<Rightarrow> int \<Rightarrow> bool \<Rightarrow> bool \<Rightarrow> gpsData \<Rightarrow> gtrace \<Rightarrow> gtrace option" where
  "gps_parse_one_context_callback e modem_time malloc_ok add_ok cur s =
     (if gactive cur = 1 then
        (case is_gps_time_jump_up modem_time (gutc_sec cur) s of
           (jump, s1) \<Rightarrow>
             if jump then Some s1
             else use_reading e malloc_ok add_ok cur
                    (if gspeed cur > 0 then s1\<lparr>prev_gps_active_time := modem_time\<rparr> else s1))
      else use_reading e malloc_ok add_ok cur s)"

subsection \<open>Start and end\<close>

definition save_odometer :: "gt_env \<Rightarrow> gtrace \<Rightarrow> gtrace" where
  "save_odometer e s =
     s\<lparr>gt_mdt := sms_save_mileage (t_sms e) (get_server_mileage (lgm_of s) + get_gps_mileage (lgm_of s)) (gt_mdt s)\<rparr>"

definition abort_callback :: "gt_env \<Rightarrow> gtrace \<Rightarrow> gtrace" where
  "abort_callback e s = save_odometer e s"

definition terminate_app_callback :: "gt_env \<Rightarrow> gtrace \<Rightarrow> gtrace" where
  "terminate_app_callback e s = save_odometer e s"

definition init_model_callback :: "gt_env \<Rightarrow> gtrace \<Rightarrow> gtrace" where
  "init_model_callback e s =
     (let s1 = s\<lparr>gt_mdt := warn_timeout (gt_mdt s)\<rparr>;
          (geo, os) = lgm_geo (lgm_of s1);
          (m, os1, c1) = load_mileage_file (e_api (t_sms e)) os (md_crit (gt_mdt s1));
          s2 = s1\<lparr>gt_mdt := (gt_mdt s1)\<lparr>md_lgm := set_server_mileage m ((lgm_of s1)\<lparr>lgm_geo := (geo, os1)\<rparr>),
                  md_crit := c1\<rparr>\<rparr>;
          conf = md_conf (gt_mdt s2);
          dev = takeWhile (\<lambda>b. b \<noteq> 0) (tempature_device conf)
      in if tempature_enable conf = 1 then
           s2\<lparr>gt_therm := snd (therm_set_dev dev (int (length dev))
                (therm_set_sense_cycle (tempature_cycle conf) (gt_therm s2)))\<rparr>
         else s2)"

text \<open>
  The loop that waits for a plausible year, over the years the GPS reports: it does not end while
  none is after 2013. The callbacks that wait are given its outcome.
\<close>

partial_function (option) wait_time_sync :: "(nat \<Rightarrow> u16) \<Rightarrow> nat \<Rightarrow> nat option" where
  "wait_time_sync years i = (if years i > 2013 then Some i else wait_time_sync years (Suc i))"

definition put_event :: "int \<Rightarrow> gtrace \<Rightarrow> gtrace" where
  "put_event ev s = s\<lparr>gt_mdt := (gt_mdt s)\<lparr>md_sent := md_sent (gt_mdt s) @ [ev]\<rparr>\<rparr>"

text \<open>
  A report of the queue for the first pipe; \<open>pipe_ok\<close> is whether the pipe takes the packet, which is
  freed otherwise.
\<close>

definition put_cycle_report :: "bool \<Rightarrow> bool \<Rightarrow> gtrace \<Rightarrow> gtrace option" where
  "put_cycle_report malloc_ok pipe_ok s =
     (case make_period_packet malloc_ok (gt_queue s) of
        None \<Rightarrow> None
      | Some (r, pkt, q) \<Rightarrow>
          Some (case pkt of
                  None \<Rightarrow> s\<lparr>gt_queue := q\<rparr>
                | Some (b, len) \<Rightarrow> s\<lparr>gt_queue := q, gt_pipe1 := gt_pipe1 s @ (if pipe_ok then [b] else [])\<rparr>))"

definition ignition_on_callback :: "(nat \<Rightarrow> u16) \<Rightarrow> gtrace \<Rightarrow> gtrace option" where
  "ignition_on_callback years s =
     (let s1 = set_lgm (init_gps_manager (lgm_of s)) (s\<lparr>is_run_ignition_off := False\<rparr>);
          conf = md_conf (gt_mdt s1);
          s2 = (if tempature_enable conf = 1
                then s1\<lparr>gt_therm := therm_set_sense_cycle (tempature_cycle conf) (therm_clear_fault (gt_therm s1))\<rparr>
                else s1)
      in case wait_time_sync years 0 of None \<Rightarrow> None | Some n \<Rightarrow> Some (put_event eIGN_ON_EVT s2))"

definition ignition_off_callback :: "gt_env \<Rightarrow> (nat \<Rightarrow> u16) \<Rightarrow> bool \<Rightarrow> bool \<Rightarrow> gtrace \<Rightarrow> gtrace option" where
  "ignition_off_callback e years malloc_ok pipe_ok s =
     (let s1 = s\<lparr>is_run_ignition_off := True\<rparr>; conf = md_conf (gt_mdt s1);
          s2 = (if tempature_enable conf = 1
                then s1\<lparr>gt_therm := therm_set_sense_cycle (tempature_cycle conf * 3) (gt_therm s1)\<rparr> else s1)
      in case wait_time_sync years 0 of
           None \<Rightarrow> None
         | Some n \<Rightarrow> map_option (save_odometer e) (put_cycle_report malloc_ok pipe_ok (put_event eIGN_OFF_EVT s2)))"

definition process_poweroff :: "gt_env \<Rightarrow> gtrace \<Rightarrow> gtrace" where
  "process_poweroff e s =
     (let (geo, os) = lgm_geo (lgm_of s);
          (r, v, os1) = gps_valid_data_write (t_gps_enc e) (t_gps_conf e) (gt_valid s) os;
          s1 = set_lgm ((lgm_of s)\<lparr>lgm_geo := (geo, os1)\<rparr>) (s\<lparr>gt_valid := v\<rparr>)
      in s1\<lparr>gt_mdt := (gt_mdt s1)\<lparr>md_off := True\<rparr>\<rparr>)"

definition power_off_callback :: "gt_env \<Rightarrow> (nat \<Rightarrow> u16) \<Rightarrow> bool \<Rightarrow> bool \<Rightarrow> gtrace \<Rightarrow> gtrace option" where
  "power_off_callback e years malloc_ok pipe_ok s =
     (case (if \<not> is_run_ignition_off s \<and> t_ign_off e
            then ignition_off_callback e years malloc_ok pipe_ok s else Some s) of
        None \<Rightarrow> None
      | Some s1 \<Rightarrow> Some (process_poweroff e (put_event ePOWER_SOURCE_CHANGE_EVT s1)))"

definition network_fail_emergency_reset_callback :: "gt_env \<Rightarrow> gtrace \<Rightarrow> gtrace" where
  "network_fail_emergency_reset_callback e s = process_poweroff e s"

subsection \<open>The main loop\<close>

text \<open>
  What one pass takes from outside: every reading of a clock, of the ignition and of the memory, and
  for each report whether its buffer is allocated and whether the pipe takes it. Counting the passes
  for the channel recovery and for the log has no effect and is left out.
\<close>

record pass_env =
  p_wd_time :: int
  p_ign_report :: bool
  p_ign_collect :: bool
  p_put :: "nat \<Rightarrow> bool \<times> bool"
  p_therm_time :: int
  p_line1 :: "byte list option"
  p_line2 :: "byte list option"
  p_cur_time :: int
  p_ign :: bool
  p_idle_time :: int
  p_mem :: int
  p_new_time :: int
  p_check_time :: int

text \<open>\<open>report_interval/collect_interval\<close> raised to one; \<open>None\<close> is the division by zero.\<close>

definition condition_send :: "int \<Rightarrow> int \<Rightarrow> int option" where
  "condition_send report collect =
     (if collect = 0 then None
      else (let n = report sdiv collect in Some (if n \<le> 0 then 1 else n)))"

fun send_due :: "(nat \<Rightarrow> bool \<times> bool) \<Rightarrow> int \<Rightarrow> nat \<Rightarrow> gtrace \<Rightarrow> gtrace option" where
  "send_due put c 0 s = Some s"
| "send_due put c (Suc n_try) s =
     (if get_gps_data_count s \<ge> c then
        (case put_cycle_report (fst (put n_try)) (snd (put n_try)) s of
           None \<Rightarrow> None
         | Some s1 \<Rightarrow> send_due put c n_try s1)
      else Some s)"

definition sense_if_enabled :: "pass_env \<Rightarrow> gtrace \<Rightarrow> gtrace" where
  "sense_if_enabled p s =
     (if tempature_enable (md_conf (gt_mdt s)) = 1
      then s\<lparr>gt_therm := snd (therm_sense (p_therm_time p) (p_line1 p) (p_line2 p) (gt_therm s))\<rparr> else s)"

text \<open>The check for a power-off; behind a power-off there is no return.\<close>

definition idle_check :: "gt_env \<Rightarrow> pass_env \<Rightarrow> gtrace \<Rightarrow> gtrace" where
  "idle_check e p s =
     (if p_ign p \<or> p_idle_time p - prev_gps_active_time s \<ge> 1800 then
        (if p_mem p \<ge> 0 \<and> p_mem p < 5000 then process_poweroff e s
         else if p_cur_time p - system_on_time s > 24 * 3600 then
           process_poweroff e (s\<lparr>system_on_time := p_new_time p\<rparr>)
         else s)
      else s)"

definition main_loop_pass :: "gt_env \<Rightarrow> pass_env \<Rightarrow> gtrace \<Rightarrow> gtrace option" where
  "main_loop_pass e p s =
     (let s1 = s\<lparr>gt_wd := snd (watchdog_set_cur_ktime eWdMain (p_wd_time p) (gt_wd s))\<rparr>;
          conf = md_conf (gt_mdt s1)
      in case condition_send (get_report_interval (p_ign_report p) conf) (get_collection_interval (p_ign_collect p) conf) of
           None \<Rightarrow> None
         | Some c \<Rightarrow>
             (case send_due (p_put p) c (nat c) s1 of
                None \<Rightarrow> None
              | Some s2 \<Rightarrow>
                  (let s3 = idle_check e p (sense_if_enabled p s2) in
                   Some (if md_off (gt_mdt s3) then s3
                         else s3\<lparr>gt_wd := watchdog_process (p_check_time p) (gt_wd s3)\<rparr>))))"

text \<open>The wait for the network, over its states.\<close>

partial_function (option) wait_network :: "(nat \<Rightarrow> bool) \<Rightarrow> nat \<Rightarrow> nat option" where
  "wait_network up i = (if up i then Some i else wait_network up (Suc i))"

text \<open>The loop is entered behind the two waits, with the first reading of the thermometer.\<close>

definition main_loop_start :: "gt_env \<Rightarrow> (byte list \<Rightarrow> mdt_fence \<times> mdt_fence) \<Rightarrow> (nat \<Rightarrow> bool) \<Rightarrow> (nat \<Rightarrow> u16) \<Rightarrow>
    int \<Rightarrow> int \<Rightarrow> pass_env \<Rightarrow> gtrace \<Rightarrow> gtrace option" where
  "main_loop_start e unpack up years t_active t_on p s =
     (let m = init_gps_manager (lgm_of s);
          (r, geo1, os1) = mdt_init_geo_fence (e_enc (t_sms e)) unpack (fst (lgm_geo m)) (snd (lgm_geo m));
          s1 = set_lgm (m\<lparr>lgm_geo := (geo1, os1)\<rparr>) s
      in case wait_network up 0 of
           None \<Rightarrow> None
         | Some i \<Rightarrow>
             (case wait_time_sync years 0 of
                None \<Rightarrow> None
              | Some j \<Rightarrow>
                  Some (sense_if_enabled p (s1\<lparr>prev_gps_active_time := t_active, system_on_time := t_on\<rparr>))))"

end
