(* ===== verification/GtraceRun.thy ===== *)
theory GtraceRun
  imports Gtrace
begin

text \<open>
  The callbacks of \<open>model/gtrace\<close> together: every event of the base program is a step, a run is any
  sequence of them, and an invariant ties the messages, the queue and the first pipe.
\<close>

text \<open>The phone number is one of digits that fits its field; every other input is free.\<close>

definition env_ok :: "gt_env \<Rightarrow> bool" where
  "env_ok e \<longleftrightarrow> number_ok (t_phone e)"

inductive gt_step :: "gtrace \<Rightarrow> gtrace \<Rightarrow> bool" where
  gt_reading: "env_ok e \<Longrightarrow> gps_parse_one_context_callback e t m a g s = Some s' \<Longrightarrow> gt_step s s'"
| gt_message: "parse_model_sms e txt (gt_mdt s) = Some (r, d) \<Longrightarrow> gt_step s (s\<lparr>gt_mdt := d\<rparr>)"
| gt_ign_on: "ignition_on_callback years s = Some s' \<Longrightarrow> gt_step s s'"
| gt_ign_off: "ignition_off_callback e years m q s = Some s' \<Longrightarrow> gt_step s s'"
| gt_power_off: "power_off_callback e years m q s = Some s' \<Longrightarrow> gt_step s s'"
| gt_init: "gt_step s (init_model_callback e s)"
| gt_start: "main_loop_start e unpack up years t1 t2 p s = Some s' \<Longrightarrow> gt_step s s'"
| gt_pass: "main_loop_pass e p s = Some s' \<Longrightarrow> gt_step s s'"
| gt_abort: "gt_step s (abort_callback e s)"
| gt_terminate: "gt_step s (terminate_app_callback e s)"
| gt_net_fail: "gt_step s (network_fail_emergency_reset_callback e s)"

definition is_report :: "byte list \<Rightarrow> bool" where
  "is_report b \<longleftrightarrow> (\<exists>p. from_program p \<and> record_bytes p = Some b)"

text \<open>The state the invariant looks at.\<close>

definition gt_view :: "gtrace \<Rightarrow> mdt_conf \<times> lotte_packet list \<times> byte list list" where
  "gt_view s = (md_conf (gt_mdt s), gt_queue s, gt_pipe1 s)"

definition good_view :: "mdt_conf \<times> lotte_packet list \<times> byte list list \<Rightarrow> bool" where
  "good_view v \<longleftrightarrow> intervals_ok (fst v) \<and> list_all from_program (fst (snd v)) \<and> list_all is_report (snd (snd v))"

definition gt_ok :: "gtrace \<Rightarrow> bool" where
  "gt_ok s \<longleftrightarrow> good_view (gt_view s)"

lemma gt_ok_iff:
  "gt_ok s \<longleftrightarrow> ok_conf (gt_mdt s) \<and> list_all from_program (gt_queue s) \<and> list_all is_report (gt_pipe1 s)"
  by (simp add: gt_ok_def good_view_def gt_view_def)

lemma gt_ok_view: "gt_view s' = gt_view s \<Longrightarrow> gt_ok s \<Longrightarrow> gt_ok s'"
  by (simp add: gt_ok_def)

lemma view_updates [simp]:
  "gt_view (set_lgm m s) = gt_view s" "gt_view (save_odometer e s) = gt_view s"
  "gt_view (put_event ev s) = gt_view s" "gt_view (sense_if_enabled p s) = gt_view s"
  "gt_view (s\<lparr>is_run_ignition_off := i\<rparr>) = gt_view s" "gt_view (s\<lparr>prev_gps_active_time := t\<rparr>) = gt_view s"
  "gt_view (s\<lparr>system_on_time := t\<rparr>) = gt_view s" "gt_view (s\<lparr>gt_therm := th\<rparr>) = gt_view s"
  "gt_view (s\<lparr>gt_wd := w\<rparr>) = gt_view s" "gt_view (s\<lparr>gt_valid := v\<rparr>) = gt_view s"
  "gt_view (s\<lparr>gt_mdt := (gt_mdt s)\<lparr>md_off := b\<rparr>\<rparr>) = gt_view s"
  by (simp_all add: gt_view_def set_lgm_def save_odometer_def put_event_def sense_if_enabled_def)

lemma view_poweroff [simp]: "gt_view (process_poweroff e s) = gt_view s"
  by (simp add: process_poweroff_def Let_def case_prod_unfold)

lemma view_idle [simp]: "gt_view (idle_check e p s) = gt_view s"
  by (simp add: idle_check_def)

lemma view_init [simp]: "gt_view (init_model_callback e s) = gt_view s"
  by (simp add: init_model_callback_def gt_view_def Let_def case_prod_unfold)

lemma view_jump: "is_gps_time_jump_up t g s = (j, s') \<Longrightarrow> gt_view s' = gt_view s"
  by (auto simp: is_gps_time_jump_up_def Let_def gt_view_def split: if_splits)

lemma view_start: "main_loop_start e unpack up years t1 t2 p s = Some s' \<Longrightarrow> gt_view s' = gt_view s"
  by (auto simp: main_loop_start_def Let_def case_prod_unfold split: option.splits)

lemma view_ign_on: "ignition_on_callback years s = Some s' \<Longrightarrow> gt_view s' = gt_view s"
  by (auto simp: ignition_on_callback_def Let_def split: option.splits)

subsection \<open>A report of the queue\<close>

text \<open>
  From a good queue \<open>put_cycle_report\<close> always returns: it takes the oldest record, or nothing when the
  queue is empty or the buffer is refused.
\<close>

lemma put_cycle_takes:
  assumes "list_all from_program (gt_queue s)" and "gt_queue s = p # q"
  shows "\<exists>b. record_bytes p = Some b \<and> put_cycle_report True pipe_ok s =
    Some (s\<lparr>gt_queue := q, gt_pipe1 := gt_pipe1 s @ (if pipe_ok then [b] else [])\<rparr>)"
proof -
  have c: "created p" using assms by (simp add: from_program_created)
  then obtain b where b: "record_bytes p = Some b" "length b \<le> divert_size 1" using created_record by blast
  moreover have "packet_ok p" using c by (simp add: created_def)
  ultimately show ?thesis using make_period_one [OF _ b] assms(2) by (simp add: put_cycle_report_def)
qed

lemma put_cycle_nothing:
  "gt_queue s = [] \<or> \<not> m \<Longrightarrow> put_cycle_report m pipe_ok s = Some s"
  by (auto simp: put_cycle_report_def make_period_packet_def Let_def)

lemma put_cycle_ok:
  assumes "gt_ok s"
  shows "\<exists>s'. put_cycle_report m pipe_ok s = Some s' \<and> gt_ok s' \<and> gt_mdt s' = gt_mdt s"
proof (cases "gt_queue s = [] \<or> \<not> m")
  case True
  with assms put_cycle_nothing show ?thesis by blast
next
  case False
  then obtain p q where q: "gt_queue s = p # q"
    by (cases "gt_queue s") auto
  from assms obtain b where "record_bytes p = Some b" and "put_cycle_report True pipe_ok s =
      Some (s\<lparr>gt_queue := q, gt_pipe1 := gt_pipe1 s @ (if pipe_ok then [b] else [])\<rparr>)"
    using put_cycle_takes [OF _ q, of pipe_ok] by (auto simp: gt_ok_iff)
  with False q assms show ?thesis by (auto simp: gt_ok_iff is_report_def)
qed

lemma send_due_ok:
  "gt_ok s \<Longrightarrow> \<exists>s'. send_due put c n s = Some s' \<and> gt_ok s' \<and> gt_mdt s' = gt_mdt s"
proof (induction n arbitrary: s)
  case (Suc n)
  obtain s1 where s1: "put_cycle_report (fst (put n)) (snd (put n)) s = Some s1" "gt_ok s1" "gt_mdt s1 = gt_mdt s"
    using put_cycle_ok [OF Suc.prems] by blast
  with Suc.IH [OF s1(2)] Suc.prems show ?case by auto
qed simp

text \<open>Valid intervals give a positive number of records per report.\<close>

lemma condition_send_ok:
  assumes "intervals_ok conf"
  shows "\<exists>c>0. condition_send (get_report_interval i conf) (get_collection_interval j conf) = Some c"
  using assms by (auto simp: intervals_ok_def interval_pair_ok_def get_collection_interval_def condition_send_def Let_def)

lemma pass_ok:
  assumes "gt_ok s"
  shows "\<exists>s'. main_loop_pass e p s = Some s' \<and> gt_ok s'"
proof -
  let ?s1 = "s\<lparr>gt_wd := snd (watchdog_set_cur_ktime eWdMain (p_wd_time p) (gt_wd s))\<rparr>"
  have 1: "gt_ok ?s1" using assms by (simp add: gt_ok_def)
  obtain c where c: "condition_send (get_report_interval (p_ign_report p) (md_conf (gt_mdt s)))
      (get_collection_interval (p_ign_collect p) (md_conf (gt_mdt s))) = Some c"
    using condition_send_ok assms by (fastforce simp: gt_ok_iff)
  from send_due_ok [OF 1] obtain s2 where s2: "send_due (p_put p) c (nat c) ?s1 = Some s2" "gt_ok s2" by blast
  have "gt_view (idle_check e p (sense_if_enabled p s2)) = gt_view s2" by simp
  with s2 c show ?thesis by (simp add: main_loop_pass_def Let_def gt_ok_def)
qed

lemma ign_off_ok:
  assumes "ignition_off_callback e years m q s = Some s'" and "gt_ok s"
  shows "gt_ok s'"
proof -
  define s2 where "s2 = (let s1 = s\<lparr>is_run_ignition_off := True\<rparr>; conf = md_conf (gt_mdt s1)
    in if tempature_enable conf = 1
       then s1\<lparr>gt_therm := therm_set_sense_cycle (tempature_cycle conf * 3) (gt_therm s1)\<rparr> else s1)"
  have "gt_view (put_event eIGN_OFF_EVT s2) = gt_view s" by (simp add: s2_def Let_def)
  with assms(2) have "gt_ok (put_event eIGN_OFF_EVT s2)" by (simp only: gt_ok_def)
  with put_cycle_ok [OF this, of m q] assms(1) show ?thesis
    unfolding ignition_off_callback_def Let_def s2_def [unfolded Let_def, symmetric]
    by (auto simp: gt_ok_def split: option.splits)
qed

lemma power_off_ok:
  assumes "power_off_callback e years m q s = Some s'" and "gt_ok s"
  shows "gt_ok s'"
  using assms ign_off_ok [of e years m q s]
  by (auto simp: power_off_callback_def gt_ok_def split: option.splits if_splits)

lemma queue_record_ok:
  assumes "queue_record e m a g s = Some s'" and "env_ok e" and "gt_ok s"
  shows "gt_ok s'"
proof -
  have "from_program p" if "create_report_data eCYCLE_REPORT_EVC (env_for_report e s) g = Some p" for p
    using that assms(2) unfolding from_program_def env_ok_def
    by (intro exI [of _ eCYCLE_REPORT_EVC] exI [of _ "env_for_report e s"] exI [of _ g])
      (simp add: env_for_report_def eCYCLE_REPORT_EVC_def eMAX_EVENT_CODE_def)
  with assms show ?thesis
    by (auto simp: queue_record_def gt_ok_iff split: if_splits option.splits)
qed

lemma use_reading_ok:
  assumes "use_reading e m a g s = Some s'" and "env_ok e" and "gt_ok s"
  shows "gt_ok s'"
proof -
  have "gt_ok (set_lgm l s)" for l using assms(3) by (simp add: gt_ok_def)
  with assms(1) queue_record_ok [OF _ assms(2)] show ?thesis
    by (auto simp: use_reading_def Let_def split: prod.splits if_splits)
qed

lemma reading_ok:
  assumes "gps_parse_one_context_callback e t m a g s = Some s'" and "env_ok e" and "gt_ok s"
  shows "gt_ok s'"
proof (cases "gactive g = 1")
  case True
  obtain j s1 where j: "is_gps_time_jump_up t (gutc_sec g) s = (j, s1)" by (metis surj_pair)
  have "gt_ok s1" "gt_ok (s1\<lparr>prev_gps_active_time := t\<rparr>)" using assms(3) view_jump [OF j] by (simp_all add: gt_ok_def)
  with assms(1) True j use_reading_ok [OF _ assms(2)] show ?thesis
    by (auto simp: gps_parse_one_context_callback_def split: if_splits)
next
  case False
  with assms use_reading_ok show ?thesis by (auto simp: gps_parse_one_context_callback_def)
qed

lemma gt_step_ok: "gt_step s s' \<Longrightarrow> gt_ok s \<Longrightarrow> gt_ok s'"
proof (induction rule: gt_step.induct)
  case (gt_message e msg s r d)
  then show ?case using parse_keeps_intervals [OF gt_message(1)] by (simp add: gt_ok_iff)
next
  case (gt_pass e p s s')
  then show ?case using pass_ok [of s e p] by auto
qed (auto simp: gt_ok_def abort_callback_def terminate_app_callback_def network_fail_emergency_reset_callback_def
    dest: reading_ok [unfolded gt_ok_def] ign_off_ok [unfolded gt_ok_def] power_off_ok [unfolded gt_ok_def]
      view_start view_ign_on)

lemma gt_run_ok: "gt_step\<^sup>*\<^sup>* s s' \<Longrightarrow> gt_ok s \<Longrightarrow> gt_ok s'"
  by (induction rule: rtranclp_induct) (auto intro: gt_step_ok)

subsection \<open>A reading returns\<close>

text \<open>With a good thermometer and a number that fits, a reading never goes past a table.\<close>

definition therm_ok :: "gtrace \<Rightarrow> bool" where
  "therm_ok s \<longleftrightarrow> (\<forall>d. therm_get_curr_data (gt_therm s) = Some d \<longrightarrow> good_therm d)"

lemma create_returns:
  "\<lbrakk>number_ok (r_phonenum e); \<And>d. r_therm e = Some d \<Longrightarrow> good_therm d\<rbrakk> \<Longrightarrow> \<exists>p. create_report_data ev e g = Some p"
  by (cases "r_therm e") (auto simp: create_report_data_def number_ok_def fill_temps_def good_therm_def)

lemma queue_returns:
  "env_ok e \<Longrightarrow> therm_ok s \<Longrightarrow> \<exists>p. queue_record e True True g s = Some (s\<lparr>gt_queue := gt_queue s @ [p]\<rparr>)"
  using create_returns [of "env_for_report e s" eCYCLE_REPORT_EVC g]
  by (auto simp: queue_record_def env_ok_def therm_ok_def env_for_report_def)

lemma use_returns:
  assumes "env_ok e" and "therm_ok s" and "gps_reading (env_for_gps e s) g (lgm_of s) = (r, d, l)"
  shows "\<exists>s'. use_reading e True True g s = Some s' \<and>
    (r = eUSE_GPS_DATA \<longrightarrow> (\<exists>p. gt_queue s' = gt_queue s @ [p]))"
proof -
  have "therm_ok (set_lgm l s)" "gt_queue (set_lgm l s) = gt_queue s" using assms(2) by (simp_all add: therm_ok_def set_lgm_def)
  with queue_returns [OF assms(1), of "set_lgm l s" d] assms(3) show ?thesis by (auto simp: use_reading_def Let_def)
qed

subsection \<open>What every run keeps\<close>

text \<open>A device that has just started: nothing queued, nothing in the pipe, valid intervals.\<close>

definition fresh :: "gtrace \<Rightarrow> bool" where
  "fresh s \<longleftrightarrow> ok_conf (gt_mdt s) \<and> gt_queue s = [] \<and> gt_pipe1 s = []"

lemma fresh_run_ok: "fresh s \<Longrightarrow> gt_step\<^sup>*\<^sup>* s s' \<Longrightarrow> gt_ok s'"
  by (rule gt_run_ok) (auto simp: fresh_def gt_ok_iff)

lemma report_read:
  assumes "is_report b"
  shows "length b \<le> 89 \<and> (\<exists>p. from_program p \<and> read_stream 1 b = [(p, True)])"
proof -
  from assms obtain p where p: "from_program p" "record_bytes p = Some b" by (auto simp: is_report_def)
  then have c: "created p" by (simp add: from_program_created)
  then have "read_stream 1 b = [(p, True)]"
    using read_stream_record [of p b 0 "[]"] p(2) by (simp add: created_def)
  with p record_length [OF c p(2)] show ?thesis by blast
qed

text \<open>
  C1: whatever readings, messages, passes of the main loop and events of the ignition, the power and
  the network follow each other, every packet the program puts into the first pipe is at most 89 bytes
  and is read by the server as exactly one record the program created, with its checksum.
\<close>

theorem gtrace_reports_readable:
  assumes "fresh s" and "gt_step\<^sup>*\<^sup>* s s'" and "b \<in> set (gt_pipe1 s')"
  shows "length b \<le> 89 \<and> (\<exists>p. from_program p \<and> read_stream 1 b = [(p, True)])"
  using report_read fresh_run_ok [OF assms(1,2)] assms(3) by (auto simp: gt_ok_iff list_all_iff)

text \<open>
  C2: in every state such a run reaches, a pass of the main loop returns: neither the division of
  the report interval by the collection interval nor the making of a packet fails, whatever the
  ignition shows at each of its readings and whichever allocations are refused.
\<close>

theorem main_loop_pass_returns:
  assumes "fresh s" and "gt_step\<^sup>*\<^sup>* s s'"
  shows "\<exists>s''. main_loop_pass e p s' = Some s''"
  using pass_ok [OF fresh_run_ok [OF assms]] by blast

subsection \<open>How many records a pass sends\<close>

text \<open>Every buffer is allocated and the pipe takes every packet.\<close>

definition all_put :: "nat \<Rightarrow> bool \<times> bool" where "all_put i = (True, True)"

lemma send_due_takes:
  assumes "gt_ok s" and "0 < c"
  shows "\<exists>s'. send_due all_put (int c) n s = Some s' \<and>
    gt_queue s' = drop (min n (Suc (length (gt_queue s)) - c)) (gt_queue s) \<and> gt_mdt s' = gt_mdt s"
  using assms(1)
proof (induction n arbitrary: s)
  case (Suc n)
  show ?case
  proof (cases "c \<le> length (gt_queue s)")
    case False
    then show ?thesis by (simp add: get_gps_data_count_def)
  next
    case True
    with assms(2) obtain p q where q: "gt_queue s = p # q" by (cases "gt_queue s") auto
    with Suc.prems put_cycle_takes [of s p q True] obtain s1 where
      s1: "put_cycle_report True True s = Some s1" "gt_queue s1 = q" "gt_mdt s1 = gt_mdt s"
      by (auto simp: gt_ok_iff)
    have "gt_ok s1" using put_cycle_ok [OF Suc.prems, of True True] s1(1) by simp
    from Suc.IH [OF this] s1 True q show ?thesis
      by (auto simp: get_gps_data_count_def all_put_def Suc_diff_le min_def)
  qed
qed simp

lemma queue_kept [simp]:
  "gt_queue (idle_check e p s) = gt_queue s" "gt_queue (sense_if_enabled p s) = gt_queue s"
  using view_idle [of e p s] view_updates(4) [of p s] by (simp_all only: gt_view_def prod.inject)

lemma pass_queue:
  assumes "gt_ok s" and "0 < c" and "p_put p = all_put"
    and "condition_send (get_report_interval (p_ign_report p) (md_conf (gt_mdt s)))
      (get_collection_interval (p_ign_collect p) (md_conf (gt_mdt s))) = Some (int c)"
  shows "\<exists>s'. main_loop_pass e p s = Some s' \<and>
    gt_queue s' = drop (min c (Suc (length (gt_queue s)) - c)) (gt_queue s)"
proof -
  let ?s1 = "s\<lparr>gt_wd := snd (watchdog_set_cur_ktime eWdMain (p_wd_time p) (gt_wd s))\<rparr>"
  have "gt_ok ?s1" using assms(1) by (simp add: gt_ok_def)
  from send_due_takes [OF this assms(2), of c] assms(3,4) show ?thesis
    by (auto simp: main_loop_pass_def Let_def)
qed

text \<open>
  C22: with \<open>c\<close> records to a report, a pass that finds between \<open>c\<close> and \<open>2 * c - 1\<close> of them leaves
  \<open>c - 1\<close> in the queue: the loop asks for \<open>c\<close> records before each packet although a packet carries
  one, so the newest \<open>c - 1\<close> records are always held back.
\<close>

theorem reports_held_back:
  assumes "gt_ok s" and "0 < c" and "p_put p = all_put"
    and "condition_send (get_report_interval (p_ign_report p) (md_conf (gt_mdt s)))
      (get_collection_interval (p_ign_collect p) (md_conf (gt_mdt s))) = Some (int c)"
    and "c \<le> length (gt_queue s)" and "length (gt_queue s) < 2 * c"
  shows "\<exists>s'. main_loop_pass e p s = Some s' \<and>
    gt_queue s' = drop (Suc (length (gt_queue s)) - c) (gt_queue s) \<and> length (gt_queue s') = c - 1"
  using pass_queue [OF assms(1-4), of e] assms(5,6) by auto

subsection \<open>Readings off the clock\<close>

definition counts_ok :: "gtrace \<Rightarrow> bool" where
  "counts_ok s \<longleftrightarrow> 0 \<le> gps_check_cnt s \<and> gps_check_cnt s \<le> gps_check_cnt_variable s \<and>
     3 \<le> gps_check_cnt_variable s \<and> gps_check_cnt_variable s \<le> 30"

definition off_clock :: "int \<Rightarrow> int \<Rightarrow> bool" where
  "off_clock t g \<longleftrightarrow> BASE_UTC_VALUE \<le> t \<and> JUMP_UP_TIME_VALUE \<le> \<bar>t - g\<bar>"

lemma jump_counts_ok: "counts_ok s \<Longrightarrow> counts_ok (snd (is_gps_time_jump_up t g s))"
  by (simp add: is_gps_time_jump_up_def counts_ok_def Let_def)

text \<open>The counter after a reading off the clock: one more, or none and one reset more.\<close>

lemma jump_counted:
  assumes "off_clock t g" and "is_gps_time_jump_up t g s = (j, s')"
  shows "j \<and> s' = s\<lparr>gps_check_cnt := gps_check_cnt s', gps_check_cnt_variable := gps_check_cnt_variable s',
      gps_resets := gps_resets s'\<rparr> \<and>
    (if gps_check_cnt s + 1 > gps_check_cnt_variable s then gps_resets s' = Suc (gps_resets s)
     else gps_resets s' = gps_resets s \<and> gps_check_cnt s' = gps_check_cnt s + 1 \<and>
       gps_check_cnt_variable s' = gps_check_cnt_variable s)"
  using assms by (auto simp: is_gps_time_jump_up_def off_clock_def Let_def split: if_splits)

fun jump_run :: "(int \<times> int) list \<Rightarrow> gtrace \<Rightarrow> gtrace" where
  "jump_run [] s = s"
| "jump_run ((t, g) # xs) s = jump_run xs (snd (is_gps_time_jump_up t g s))"

lemma jump_run_resets:
  "\<lbrakk>counts_ok s; \<forall>(t, g)\<in>set xs. off_clock t g\<rbrakk> \<Longrightarrow>
    gps_resets s \<le> gps_resets (jump_run xs s) \<and>
    (gps_check_cnt s + int (length xs) > gps_check_cnt_variable s \<longrightarrow> gps_resets s < gps_resets (jump_run xs s))"
proof (induction xs arbitrary: s)
  case (Cons x xs)
  obtain t g j s1 where x: "x = (t, g)" "is_gps_time_jump_up t g s = (j, s1)" by (metis surj_pair)
  have o: "off_clock t g" using Cons.prems(2) x by simp
  have "counts_ok s1" using jump_counts_ok [OF Cons.prems(1), of t g] x by simp
  from Cons.IH [OF this] Cons.prems(2) jump_counted [OF o x(2)] x show ?case by (auto split: if_splits)
qed (simp add: counts_ok_def)

lemma jump_run_counts_ok: "counts_ok s \<Longrightarrow> counts_ok (jump_run xs s)"
  by (induction xs s rule: jump_run.induct) (simp_all add: jump_counts_ok)

text \<open>
  Whatever was read before, 31 readings in a row that are off the clock of the modem by the limit
  or more reset the GPS at least once.
\<close>

theorem jumps_reset_gps:
  assumes "counts_ok s" and "length xs = 31" and "\<forall>(t, g)\<in>set xs. off_clock t g"
  shows "gps_resets (jump_run before s) < gps_resets (jump_run xs (jump_run before s))"
  using jump_run_resets [OF jump_run_counts_ok [OF assms(1), of before] assms(3)]
    jump_run_counts_ok [OF assms(1), of before] assms(2)
  by (simp add: counts_ok_def)

text \<open>
  A reading off the clock is dropped as a whole: nothing is queued, the GPS manager with its
  mileage and the fences is left as it was, and only the counters of such readings change.
\<close>

theorem off_clock_reading_dropped:
  assumes "off_clock t (gutc_sec g)" and "gactive g = 1"
  shows "\<exists>s'. gps_parse_one_context_callback e t m a g s = Some s' \<and>
    s' = s\<lparr>gps_check_cnt := gps_check_cnt s', gps_check_cnt_variable := gps_check_cnt_variable s',
      gps_resets := gps_resets s'\<rparr>"
proof -
  obtain j s1 where j: "is_gps_time_jump_up t (gutc_sec g) s = (j, s1)" by (metis surj_pair)
  from jump_counted [OF assms(1) j] assms(2) j show ?thesis
    by (simp add: gps_parse_one_context_callback_def)
qed

subsection \<open>The idle check\<close>

lemma queue_record_time: "queue_record e m a g s = Some s' \<Longrightarrow> prev_gps_active_time s' = prev_gps_active_time s"
  by (auto simp: queue_record_def split: if_splits option.splits)

lemma use_reading_time: "use_reading e m a g s = Some s' \<Longrightarrow> prev_gps_active_time s' = prev_gps_active_time s"
  by (auto simp: use_reading_def set_lgm_def Let_def split: prod.splits if_splits dest: queue_record_time)

text \<open>
  Once a moving reading was used while the clock of the modem was set, the check for missing
  movement no longer works: it compares the time since the start of the device with that UTC time, so
  with the ignition on and less than 46 years since the start neither low memory nor a day of
  operation powers the device off, however long the vehicle has stood.
\<close>

theorem idle_check_blind_after_move:
  assumes "gps_parse_one_context_callback e t m a g s = Some s'" and "gactive g = 1" and "0 < gspeed g"
    and "BASE_UTC_VALUE \<le> t" and "\<not> off_clock t (gutc_sec g)"
    and "\<not> p_ign p" and "p_idle_time p < BASE_UTC_VALUE + 1800"
  shows "idle_check e2 p s' = s'"
proof -
  obtain s1 where "is_gps_time_jump_up t (gutc_sec g) s = (False, s1)"
    using assms(4,5) by (auto simp: is_gps_time_jump_up_def off_clock_def)
  with assms(1-3) have "use_reading e m a g (s1\<lparr>prev_gps_active_time := t\<rparr>) = Some s'"
    by (simp add: gps_parse_one_context_callback_def)
  from use_reading_time [OF this] assms(4,6,7) show ?thesis by (simp add: idle_check_def)
qed

subsection \<open>A device\<close>

definition gtrace_example :: gtrace where
  "gtrace_example = \<lparr>gt_mdt = mdt_example\<lparr>md_lgm := (lgm_init fence_example)\<lparr>first_gps_active := True\<rparr>\<rparr>,
     gt_queue = [], gt_pipe1 = [], gps_check_cnt = 0, gps_check_cnt_variable = 3, gps_resets = 0,
     is_run_ignition_off = False, prev_gps_active_time = 0, system_on_time = 0, gt_therm = therm_init,
     gt_valid = gpsst_init, gt_wd = wd_init\<rparr>"

definition gt_env_example :: gt_env where
  "gt_env_example = \<lparr>t_sms = sms_env_example, t_phone = phone_example, t_power = 0, t_ign_off = False, t_ign_coll = False,
     t_ign_report = False, t_ign_report_coll = False,
     t_gps_enc = (\<lambda>_. []), t_gps_conf = undefined\<rparr>"

definition pass_example :: pass_env where
  "pass_example = \<lparr>p_wd_time = 100, p_ign_report = False, p_ign_collect = False, p_put = all_put, p_therm_time = 100,
     p_line1 = None, p_line2 = None, p_cur_time = 100, p_ign = False, p_idle_time = 100, p_mem = 4000,
     p_new_time = 100, p_check_time = 100\<rparr>"

lemma example_ok: "fresh gtrace_example" "env_ok gt_env_example" "therm_ok gtrace_example" "counts_ok gtrace_example"
proof -
  show "fresh gtrace_example" using mdt_example_intervals by (simp add: fresh_def gtrace_example_def)
  show "env_ok gt_env_example"
    by (simp add: env_ok_def gt_env_example_def number_ok_def phone_example_def str_def MAX_DEV_ID_LED_def is_dec_def)
  show "therm_ok gtrace_example" by (simp add: therm_ok_def gtrace_example_def therm_init_def therm_get_curr_data_def)
  show "counts_ok gtrace_example" by (simp add: counts_ok_def gtrace_example_def)
qed

lemma example_reading:
  "\<exists>s p. gps_parse_one_context_callback gt_env_example t True True (home\<lparr>gutc_sec := 100\<rparr>) gtrace_example = Some s \<and>
    gt_queue s = [p]"
proof -
  have e: "env_for_gps gt_env_example gtrace_example = gps_env_example"
    by (simp add: env_for_gps_def gt_env_example_def gtrace_example_def gps_env_example_def sms_env_example_def mdt_example_def)
  let ?g = "home\<lparr>gutc_sec := 100\<rparr>"
  obtain r d l where r: "gps_reading (env_for_gps gt_env_example gtrace_example) ?g (lgm_of gtrace_example) = (r, d, l)"
    by (metis surj_pair)
  then have "r = eUSE_GPS_DATA"
    unfolding e by (auto simp: gps_reading_def home_def zero_gps_def lgm_init_def inactive_gps_process_def Let_def
        iscollection_gps_time_def record_defs recovery_gps_data_def interval_of_def [symmetric]
        lgm_of_def gtrace_example_def)
  with use_returns [OF example_ok(2,3) r] show ?thesis
    by (auto simp: gps_parse_one_context_callback_def home_def zero_gps_def gtrace_example_def)
qed

text \<open>After that reading the ignition goes off: the record leaves the queue for the pipe.\<close>

lemma example_run:
  "\<exists>s b. gt_step\<^sup>*\<^sup>* gtrace_example s \<and> gt_pipe1 s = [b]"
proof -
  obtain s p where s: "gps_parse_one_context_callback gt_env_example 0 True True (home\<lparr>gutc_sec := 100\<rparr>) gtrace_example = Some s"
    "gt_queue s = [p]" using example_reading by blast
  have 1: "gt_step gtrace_example s" by (rule gt_reading [OF example_ok(2) s(1)])
  have "gt_pipe1 s = []"
    using s(1) by (auto simp: gps_parse_one_context_callback_def home_def zero_gps_def use_reading_def Let_def
        queue_record_def gtrace_example_def set_lgm_def split: prod.splits option.splits if_splits)
  moreover have ok: "gt_ok s" using fresh_run_ok [OF example_ok(1)] 1 by blast
  moreover define s1 where "s1 = put_event eIGN_OFF_EVT (let s1 = s\<lparr>is_run_ignition_off := True\<rparr>; conf = md_conf (gt_mdt s1)
    in if tempature_enable conf = 1
       then s1\<lparr>gt_therm := therm_set_sense_cycle (tempature_cycle conf * 3) (gt_therm s1)\<rparr> else s1)"
  ultimately have "gt_view s1 = gt_view s" by (simp add: Let_def)
  then have v: "gt_ok s1" "gt_queue s1 = [p]" "gt_pipe1 s1 = []"
    using ok s(2) \<open>gt_pipe1 s = []\<close> by (simp_all add: gt_ok_def gt_view_def)
  obtain b where "put_cycle_report True True s1 = Some (s1\<lparr>gt_queue := [], gt_pipe1 := [b]\<rparr>)"
    using put_cycle_takes [of s1 p "[]" True] v by (auto simp: gt_ok_iff)
  then have "ignition_off_callback gt_env_example (\<lambda>_. 2016) True True s =
      Some (save_odometer gt_env_example (s1\<lparr>gt_queue := [], gt_pipe1 := [b]\<rparr>))"
    by (simp add: ignition_off_callback_def Let_def s1_def wait_time_sync.simps [of "\<lambda>_. 2016"])
  from gt_ign_off [OF this] 1 have "gt_step\<^sup>*\<^sup>* gtrace_example (save_odometer gt_env_example (s1\<lparr>gt_queue := [], gt_pipe1 := [b]\<rparr>))"
    by (metis (no_types) r_into_rtranclp rtranclp.rtrancl_into_rtrancl)
  moreover have "gt_pipe1 (save_odometer gt_env_example (s1\<lparr>gt_queue := [], gt_pipe1 := [b]\<rparr>)) = [b]"
    by (simp add: save_odometer_def)
  ultimately show ?thesis by blast
qed

lemma gtrace_reports_readable_witness:
  "\<exists>s b. gt_step\<^sup>*\<^sup>* gtrace_example s \<and> gt_pipe1 s = [b] \<and> length b \<le> 89 \<and>
    (\<exists>p. from_program p \<and> read_stream 1 b = [(p, True)])"
proof -
  obtain s b where s: "gt_step\<^sup>*\<^sup>* gtrace_example s" "gt_pipe1 s = [b]" using example_run by blast
  with gtrace_reports_readable [OF example_ok(1) s(1), of b] show ?thesis by auto
qed

lemma main_loop_pass_returns_witness:
  "\<exists>s b s'. gt_step\<^sup>*\<^sup>* gtrace_example s \<and> gt_pipe1 s = [b] \<and> main_loop_pass gt_env_example pass_example s = Some s'"
proof -
  obtain s b where s: "gt_step\<^sup>*\<^sup>* gtrace_example s" "gt_pipe1 s = [b]" using example_run by blast
  with main_loop_pass_returns [OF example_ok(1) s(1), of gt_env_example pass_example] show ?thesis by blast
qed

lemma reports_held_back_witness:
  "\<exists>s s'. condition_send 120 60 = Some 2 \<and> length (gt_queue s) = 2 \<and>
    main_loop_pass gt_env_example pass_example s = Some s' \<and> length (gt_queue s') = 1"
proof -
  obtain p where p: "from_program p" using env_example_created by blast
  define s where "s = gtrace_example\<lparr>gt_queue := [p, p], gt_mdt := (gt_mdt gtrace_example)\<lparr>md_conf :=
    (md_conf (gt_mdt gtrace_example))\<lparr>report_interval_keyon := 120, collect_interval_keyon := 60\<rparr>\<rparr>\<rparr>"
  have "gt_ok s" using example_ok(1) p by (auto simp: gt_ok_iff s_def fresh_def intervals_ok_def interval_pair_ok_def gtrace_example_def)
  moreover have "condition_send (get_report_interval (p_ign_report pass_example) (md_conf (gt_mdt s)))
      (get_collection_interval (p_ign_collect pass_example) (md_conf (gt_mdt s))) = Some (int 2)"
    by (simp add: condition_send_def pass_example_def s_def get_report_interval_def get_collection_interval_def signed_divide_int_def)
  moreover have "p_put pass_example = all_put" "length (gt_queue s) = 2" by (simp_all add: pass_example_def s_def)
  moreover have "condition_send 120 60 = Some 2" by (simp add: condition_send_def signed_divide_int_def)
  ultimately show ?thesis using reports_held_back [of s 2 pass_example gt_env_example] by auto
qed

definition late :: "(int \<times> int) list" where "late = replicate 31 (BASE_UTC_VALUE, 0)"

lemma jumps_reset_gps_witness: "gps_resets (jump_run [] gtrace_example) < gps_resets (jump_run late (jump_run [] gtrace_example))"
  by (rule jumps_reset_gps [OF example_ok(4)])
    (simp_all add: late_def off_clock_def BASE_UTC_VALUE_def JUMP_UP_TIME_VALUE_def)

definition moving :: gpsData where "moving = home\<lparr>gutc_sec := BASE_UTC_VALUE, gactive := 1, gspeed := 40\<rparr>"

lemma off_clock_reading_dropped_witness:
  "\<exists>s'. gps_parse_one_context_callback gt_env_example (2 * BASE_UTC_VALUE) True True moving gtrace_example = Some s' \<and>
    s' = gtrace_example\<lparr>gps_check_cnt := gps_check_cnt s', gps_check_cnt_variable := gps_check_cnt_variable s',
      gps_resets := gps_resets s'\<rparr>"
  by (rule off_clock_reading_dropped) (simp_all add: moving_def off_clock_def BASE_UTC_VALUE_def JUMP_UP_TIME_VALUE_def)

lemma idle_check_blind_after_move_witness:
  "\<exists>s'. gps_parse_one_context_callback gt_env_example BASE_UTC_VALUE True True moving gtrace_example = Some s' \<and>
    idle_check gt_env_example (pass_example\<lparr>p_idle_time := 864000, p_cur_time := 864000\<rparr>) s' = s'"
proof -
  have o: "\<not> off_clock BASE_UTC_VALUE (gutc_sec moving)" by (simp add: off_clock_def moving_def JUMP_UP_TIME_VALUE_def)
  obtain s1 where s1: "is_gps_time_jump_up BASE_UTC_VALUE (gutc_sec moving) gtrace_example = (False, s1)"
    "therm_ok (s1\<lparr>prev_gps_active_time := BASE_UTC_VALUE\<rparr>)"
    using o example_ok(3) by (auto simp: is_gps_time_jump_up_def off_clock_def therm_ok_def)
  have m: "gactive moving = 1" "0 < gspeed moving" by (simp_all add: moving_def)
  obtain r d l where "gps_reading (env_for_gps gt_env_example (s1\<lparr>prev_gps_active_time := BASE_UTC_VALUE\<rparr>)) moving
      (lgm_of (s1\<lparr>prev_gps_active_time := BASE_UTC_VALUE\<rparr>)) = (r, d, l)" by (metis surj_pair)
  from use_returns [OF example_ok(2) s1(2) this] s1(1) obtain s' where
    s': "gps_parse_one_context_callback gt_env_example BASE_UTC_VALUE True True moving gtrace_example = Some s'"
    by (auto simp: gps_parse_one_context_callback_def m)
  have "idle_check gt_env_example (pass_example\<lparr>p_idle_time := 864000, p_cur_time := 864000\<rparr>) s' = s'"
    by (rule idle_check_blind_after_move [OF s' m _ o]) (simp_all add: pass_example_def BASE_UTC_VALUE_def)
  with s' show ?thesis by blast
qed

end
