(* ===== verification/DataQueue.thy ===== *)
theory DataQueue
  imports Fifo
begin

text \<open>
  \<open>ext/dev/adas/movon_adas/src/movon_data_queue.c\<close>: the ring of bytes between the serial line of a
  driver assistance unit and the reader of its frames. The ring is modelled as the code has it, an
  array with two indices that are both -1 while it is empty, and shown to be a queue that forgets its
  oldest byte when it is full. The loop that counts the bytes is partial: it ends because the indices
  are in range.
\<close>

definition QUEUE_SIZE :: int where "QUEUE_SIZE = 2048"

record mq =
  items :: "byte list"
  front :: int
  rear :: int

definition mq_init :: mq where
  "mq_init = \<lparr>items = replicate (nat QUEUE_SIZE) 0, front = -1, rear = -1\<rparr>"

definition isFull :: "mq \<Rightarrow> bool" where
  "isFull s \<longleftrightarrow> front s = rear s + 1 \<or> (front s = 0 \<and> rear s = QUEUE_SIZE - 1)"

definition isEmpty :: "mq \<Rightarrow> bool" where
  "isEmpty s \<longleftrightarrow> front s = -1"

partial_function (option) cnt_loop :: "int \<Rightarrow> int \<Rightarrow> nat \<Rightarrow> nat option" where
  "cnt_loop i r cnt = (if i = r then Some cnt else cnt_loop ((i + 1) mod QUEUE_SIZE) r (cnt + 1))"

definition cntQueue :: "mq \<Rightarrow> nat option" where
  "cntQueue s = cnt_loop (front s) (rear s) 1"

text \<open>\<open>None\<close> is \<open>QUEUE_RET_FAIL\<close>.\<close>

definition deQueue :: "mq \<Rightarrow> (byte \<times> mq) option" where
  "deQueue s =
     (if isEmpty s then None
      else
        (let element = items s ! nat (front s) in
         if front s = rear s then Some (element, s\<lparr>front := -1, rear := -1\<rparr>)
         else Some (element, s\<lparr>front := (front s + 1) mod QUEUE_SIZE\<rparr>)))"

definition put_rear :: "byte \<Rightarrow> mq \<Rightarrow> mq" where
  "put_rear element s =
     (let s1 = (if front s = -1 then s\<lparr>front := 0\<rparr> else s); r = (rear s1 + 1) mod QUEUE_SIZE
      in s1\<lparr>rear := r, items := (items s1)[nat r := element]\<rparr>)"

definition enQueue :: "byte \<Rightarrow> mq \<Rightarrow> mq" where
  "enQueue element s =
     put_rear element (if isFull s then (case deQueue s of None \<Rightarrow> s | Some (b, s1) \<Rightarrow> s1) else s)"

definition enQueue_size :: "byte list \<Rightarrow> mq \<Rightarrow> mq" where
  "enQueue_size elements s = foldl (\<lambda>s b. enQueue b s) s elements"

subsection \<open>The contract\<close>

text \<open>A queue of at most \<open>cap\<close> elements in which a new element pushes out the oldest of a full one.\<close>

locale forgetful =
  fixes inv :: "'s \<Rightarrow> bool"
    and contents :: "'s \<Rightarrow> 'b list"
    and put :: "'b \<Rightarrow> 's \<Rightarrow> 's"
    and get :: "'s \<Rightarrow> ('b \<times> 's) option"
    and cap :: nat
  assumes put_law: "inv s \<Longrightarrow> inv (put x s) \<and> contents (put x s) =
      drop (Suc (length (contents s)) - cap) (contents s @ [x])"
    and get_law: "inv s \<Longrightarrow> get s = Some (y, s') \<Longrightarrow> inv s' \<and> contents s = y # contents s'"
    and get_none: "inv s \<Longrightarrow> get s = None \<longleftrightarrow> contents s = []"
    and some: "0 < cap"
    and room: "inv s \<Longrightarrow> length (contents s) \<le> cap"
begin

lemma put_all:
  "inv s \<Longrightarrow> inv (foldl (\<lambda>s b. put b s) s xs) \<and> contents (foldl (\<lambda>s b. put b s) s xs) =
     drop (length (contents s) + length xs - cap) (contents s @ xs)"
proof (induction xs arbitrary: s)
  case Nil
  with room show ?case by simp
next
  case (Cons x xs)
  let ?c = "contents s"
  from put_law [OF Cons.prems, of x] have p: "inv (put x s)"
    "contents (put x s) = drop (Suc (length ?c) - cap) (?c @ [x])" by simp_all
  define k where "k = Suc (length ?c) - cap"
  have l: "length ?c \<le> cap" by (rule room [OF Cons.prems])
  then have k: "k = 0 \<or> k = 1 \<and> length ?c = cap" using some by (auto simp: k_def)
  have "contents (put x s) @ xs = drop k (?c @ x # xs)" using p(2) [folded k_def] some k
    by (cases ?c) auto
  moreover have "length (contents (put x s)) = Suc (length ?c) - k" using p(2) [folded k_def] k by auto
  ultimately show ?case using Cons.IH [OF p(1)] k l by (elim disjE) (simp_all del: drop_append)
qed

lemma get_cons: "inv s \<Longrightarrow> contents s = y # ys \<Longrightarrow> \<exists>s'. get s = Some (y, s') \<and> inv s' \<and> contents s' = ys"
proof -
  assume a: "inv s" "contents s = y # ys"
  then obtain z s' where g: "get s = Some (z, s')" using get_none by fastforce
  from get_law [OF a(1) g] a(2) g show ?thesis by auto
qed

lemma get_nil: "inv s \<Longrightarrow> contents s = [] \<Longrightarrow> get s = None"
  using get_none by simp

text \<open>While there is room the queue is a queue in the usual sense.\<close>

lemma put_room: "inv s \<Longrightarrow> length (contents s) < cap \<Longrightarrow> contents (put x s) = contents s @ [x]"
  using put_law [of s x] by simp

end

subsection \<open>The ring is such a queue\<close>

definition mq_inv :: "mq \<Rightarrow> bool" where
  "mq_inv s \<longleftrightarrow> length (items s) = nat QUEUE_SIZE \<and>
     (front s = -1 \<and> rear s = -1 \<or> 0 \<le> front s \<and> front s < QUEUE_SIZE \<and> 0 \<le> rear s \<and> rear s < QUEUE_SIZE)"

text \<open>The place of the \<open>k\<close>-th byte, and the number of bytes of a ring that is not empty.\<close>

definition slot :: "int \<Rightarrow> nat \<Rightarrow> nat" where
  "slot f k = nat ((f + int k) mod QUEUE_SIZE)"

definition used :: "mq \<Rightarrow> nat" where
  "used s = Suc (nat ((rear s - front s) mod QUEUE_SIZE))"

definition mq_contents :: "mq \<Rightarrow> byte list" where
  "mq_contents s = (if isEmpty s then [] else map (\<lambda>k. items s ! slot (front s) k) [0..<used s])"

lemma mq_init_inv: "mq_inv mq_init" "mq_contents mq_init = []"
  by (simp_all add: mq_inv_def mq_init_def mq_contents_def isEmpty_def)

lemma slot_less: "slot f k < nat QUEUE_SIZE"
  by (simp add: slot_def QUEUE_SIZE_def)

lemma slot_0: "0 \<le> f \<Longrightarrow> f < QUEUE_SIZE \<Longrightarrow> slot f 0 = nat f"
  by (simp add: slot_def)

lemma slot_Suc: "slot ((f + 1) mod QUEUE_SIZE) k = slot f (Suc k)"
  by (simp add: slot_def mod_simps ac_simps)

lemma slot_inj: "j < k \<Longrightarrow> k < nat QUEUE_SIZE \<Longrightarrow> slot f j \<noteq> slot f k"
proof
  assume l: "j < k" "k < nat QUEUE_SIZE" and e: "slot f j = slot f k"
  have "(f + int j) mod QUEUE_SIZE = (f + int k) mod QUEUE_SIZE"
    using e by (simp add: slot_def QUEUE_SIZE_def eq_nat_nat_iff)
  then have "QUEUE_SIZE dvd (f + int k) - (f + int j)" by (metis mod_eq_dvd_iff)
  then have "QUEUE_SIZE dvd int k - int j" by simp
  with l show False using zdvd_imp_le [of QUEUE_SIZE "int k - int j"] by (simp add: QUEUE_SIZE_def)
qed

lemma used_le: "used s \<le> nat QUEUE_SIZE"
  by (simp add: used_def QUEUE_SIZE_def)

lemma length_contents: "length (mq_contents s) = (if isEmpty s then 0 else used s)"
  by (simp add: mq_contents_def)

text \<open>The ring seen from its two ends.\<close>

lemma no_distance:
  "\<lbrakk>0 \<le> a; a < QUEUE_SIZE; 0 \<le> b; b < QUEUE_SIZE; (a - b) mod QUEUE_SIZE = 0\<rbrakk> \<Longrightarrow> a = b"
  by (metis mod_eq_dvd_iff dvd_eq_mod_eq_0 mod_pos_pos_trivial)

lemma used_front:
  assumes "0 \<le> front s" "front s < QUEUE_SIZE" "0 \<le> rear s" "rear s < QUEUE_SIZE" "front s \<noteq> rear s"
  shows "used s = Suc (used (s\<lparr>front := (front s + 1) mod QUEUE_SIZE\<rparr>))"
proof -
  define d where "d = (rear s - front s) mod QUEUE_SIZE"
  have d: "0 \<le> d" "d < QUEUE_SIZE" by (simp_all add: d_def QUEUE_SIZE_def)
  have "d \<noteq> 0" using no_distance [OF assms(3,4,1,2)] assms(5) by (auto simp: d_def)
  moreover have "(rear s - (front s + 1) mod QUEUE_SIZE) mod QUEUE_SIZE = (d - 1) mod QUEUE_SIZE"
    by (simp add: d_def mod_simps algebra_simps)
  ultimately show ?thesis using d by (simp add: used_def d_def [symmetric])
qed

lemma full_used:
  assumes "mq_inv s" "\<not> isEmpty s"
  shows "isFull s \<longleftrightarrow> used s = nat QUEUE_SIZE"
proof -
  have r: "0 \<le> front s" "front s < 2048" "0 \<le> rear s" "rear s < 2048"
    using assms by (auto simp: mq_inv_def isEmpty_def QUEUE_SIZE_def)
  show ?thesis
  proof (cases "front s \<le> rear s")
    case True
    then have "(rear s - front s) mod 2048 = rear s - front s" using r by simp
    with r True show ?thesis by (auto simp: isFull_def used_def QUEUE_SIZE_def)
  next
    case False
    then have "(rear s - front s) mod 2048 = rear s - front s + 2048"
      using r mod_pos_pos_trivial [of "rear s - front s + 2048" 2048] by simp
    with r False show ?thesis by (auto simp: isFull_def used_def QUEUE_SIZE_def)
  qed
qed

lemma empty_not_full: "mq_inv s \<Longrightarrow> isEmpty s \<Longrightarrow> \<not> isFull s"
  by (auto simp: mq_inv_def isEmpty_def isFull_def QUEUE_SIZE_def)

lemma deQueue_law:
  assumes "mq_inv s" "deQueue s = Some (y, s')"
  shows "mq_inv s' \<and> mq_contents s = y # mq_contents s'"
proof -
  have ne: "\<not> isEmpty s" using assms(2) by (auto simp: deQueue_def)
  have r: "0 \<le> front s" "front s < QUEUE_SIZE" "0 \<le> rear s" "rear s < QUEUE_SIZE" "length (items s) = nat QUEUE_SIZE"
    using assms(1) ne by (auto simp: mq_inv_def isEmpty_def)
  show ?thesis
  proof (cases "front s = rear s")
    case True
    then have "used s = 1" by (simp add: used_def)
    with True assms(2) ne r show ?thesis
      by (auto simp: deQueue_def Let_def mq_inv_def mq_contents_def isEmpty_def slot_0)
  next
    case False
    let ?t = "s\<lparr>front := (front s + 1) mod QUEUE_SIZE\<rparr>"
    have t: "s' = ?t" "y = items s ! nat (front s)" using assms(2) ne False by (auto simp: deQueue_def Let_def)
    have f: "0 \<le> (front s + 1) mod QUEUE_SIZE" "(front s + 1) mod QUEUE_SIZE < QUEUE_SIZE" by (simp_all add: QUEUE_SIZE_def)
    have "mq_inv ?t" using f r by (simp add: mq_inv_def)
    moreover have "\<not> isEmpty ?t" using f by (simp add: isEmpty_def)
    moreover have "mq_contents s = items s ! nat (front s) # map (\<lambda>k. items s ! slot (front s) (Suc k)) [0..<used ?t]"
      using ne used_front [OF r(1-4) False] slot_0 [OF r(1,2)]
      by (simp add: mq_contents_def map_upt_Suc del: upt_Suc)
    ultimately show ?thesis using t by (simp add: mq_contents_def slot_Suc del: upt_Suc)
  qed
qed

lemma deQueue_none: "deQueue s = None \<longleftrightarrow> mq_contents s = []"
  by (simp add: deQueue_def mq_contents_def used_def Let_def)

lemma put_rear_law:
  assumes "mq_inv s" "\<not> isFull s"
  shows "mq_inv (put_rear x s) \<and> mq_contents (put_rear x s) = mq_contents s @ [x]"
proof (cases "isEmpty s")
  case True
  then have "front s = -1" "rear s = -1" "length (items s) = nat QUEUE_SIZE"
    using assms(1) by (auto simp: isEmpty_def mq_inv_def QUEUE_SIZE_def)
  then show ?thesis
    by (simp add: put_rear_def Let_def mq_inv_def mq_contents_def isEmpty_def used_def slot_def QUEUE_SIZE_def)
next
  case False
  then have r: "0 \<le> front s" "front s < QUEUE_SIZE" "0 \<le> rear s" "rear s < QUEUE_SIZE" "length (items s) = nat QUEUE_SIZE"
    using assms(1) by (auto simp: isEmpty_def mq_inv_def)
  define d where "d = (rear s - front s) mod QUEUE_SIZE"
  have d: "0 \<le> d" "d < QUEUE_SIZE" by (simp_all add: d_def QUEUE_SIZE_def)
  have "used s \<noteq> nat QUEUE_SIZE" using full_used [OF assms(1) False] assms(2) by simp
  then have "Suc (nat d) \<noteq> nat QUEUE_SIZE" by (simp add: used_def d_def [symmetric])
  then have "d + 1 < QUEUE_SIZE" using d by (simp add: QUEUE_SIZE_def)
  let ?r = "(rear s + 1) mod QUEUE_SIZE" and ?t = "put_rear x s"
  have t: "?t = s\<lparr>rear := ?r, items := (items s)[nat ?r := x]\<rparr>"
    using False by (simp add: put_rear_def isEmpty_def Let_def)
  have rr: "0 \<le> ?r" "?r < QUEUE_SIZE" by (simp_all add: QUEUE_SIZE_def)
  have "(?r - front s) mod QUEUE_SIZE = (d + 1) mod QUEUE_SIZE" by (simp add: d_def mod_simps algebra_simps)
  then have u: "used ?t = Suc (used s)"
    using d \<open>d + 1 < QUEUE_SIZE\<close> by (simp add: t used_def d_def [symmetric] mod_pos_pos_trivial nat_add_distrib)
  have "(front s + 1 + d) mod QUEUE_SIZE = (front s + 1 + (rear s - front s)) mod QUEUE_SIZE"
    unfolding d_def by (rule mod_add_right_eq)
  then have "(front s + 1 + d) mod QUEUE_SIZE = ?r" by (simp add: add.commute)
  then have last: "slot (front s) (used s) = nat ?r"
    using d by (simp add: slot_def used_def d_def [symmetric] ac_simps)
  have lt: "used s < nat QUEUE_SIZE" using \<open>d + 1 < QUEUE_SIZE\<close> d by (simp add: used_def d_def [symmetric])
  have "(items s)[nat ?r := x] ! slot (front s) k = items s ! slot (front s) k" if "k < used s" for k
    using slot_inj [OF that lt, of "front s"] last by simp
  moreover have "(items s)[nat ?r := x] ! nat ?r = x" using rr r(5) by simp
  ultimately have "mq_contents ?t = mq_contents s @ [x]"
    using False u last by (simp add: mq_contents_def isEmpty_def t)
  moreover have "mq_inv ?t" using rr r by (simp add: t mq_inv_def)
  ultimately show ?thesis by simp
qed

lemma deQueue_not_full:
  assumes "mq_inv s" "isFull s" "deQueue s = Some (y, s')"
  shows "\<not> isFull s'"
proof
  assume f: "isFull s'"
  from deQueue_law [OF assms(1,3)] have s': "mq_inv s'" "mq_contents s = y # mq_contents s'" by simp_all
  have "\<not> isEmpty s" using empty_not_full assms(1,2) by blast
  then have "length (mq_contents s) = nat QUEUE_SIZE"
    using full_used assms(1,2) by (simp add: length_contents)
  moreover have "\<not> isEmpty s'" using empty_not_full s'(1) f by blast
  then have "length (mq_contents s') = nat QUEUE_SIZE" using full_used s'(1) f by (simp add: length_contents)
  ultimately show False using s'(2) by simp
qed

lemma enQueue_law:
  assumes "mq_inv s"
  shows "mq_inv (enQueue x s) \<and> mq_contents (enQueue x s) =
    drop (Suc (length (mq_contents s)) - nat QUEUE_SIZE) (mq_contents s @ [x])"
proof (cases "isFull s")
  case True
  have ne: "\<not> isEmpty s" using empty_not_full assms True by blast
  then obtain y s' where d: "deQueue s = Some (y, s')" by (cases "front s = rear s") (auto simp: deQueue_def Let_def)
  from deQueue_law [OF assms d] have s': "mq_inv s'" "mq_contents s = y # mq_contents s'" by simp_all
  have "length (mq_contents s) = nat QUEUE_SIZE"
    using full_used [OF assms ne] True ne by (simp add: length_contents)
  with put_rear_law [OF s'(1) deQueue_not_full [OF assms True d], of x] s'(2) True d
  show ?thesis by (simp add: enQueue_def)
next
  case False
  have "length (mq_contents s) < nat QUEUE_SIZE"
    using full_used [OF assms] False used_le [of s] by (auto simp: length_contents QUEUE_SIZE_def)
  with put_rear_law [OF assms False, of x] False show ?thesis by (simp add: enQueue_def)
qed

interpretation ring: forgetful mq_inv mq_contents enQueue deQueue "nat QUEUE_SIZE"
proof unfold_locales
  fix s assume "mq_inv s"
  show "length (mq_contents s) \<le> nat QUEUE_SIZE" using used_le by (simp add: length_contents)
next
  show "0 < nat QUEUE_SIZE" by (simp add: QUEUE_SIZE_def)
qed (use enQueue_law deQueue_law deQueue_none in auto)

text \<open>As long as nothing is pushed out the ring satisfies the contract of theory Fifo as well.\<close>

definition put_if_room :: "byte \<Rightarrow> mq \<Rightarrow> mq option" where
  "put_if_room x s = (if isFull s then None else Some (enQueue x s))"

interpretation ring_fifo: fifo mq_inv mq_contents put_if_room deQueue "\<lambda>x. x"
proof unfold_locales
  fix s x s'
  assume "mq_inv s" "put_if_room x s = Some s'"
  then show "mq_inv s' \<and> mq_contents s' = mq_contents s @ [x]"
    using put_rear_law [of s x] by (auto simp: put_if_room_def enQueue_def split: if_splits)
qed (use deQueue_law deQueue_none in auto)

text \<open>The count is the number of bytes, and 1 for the empty ring.\<close>

lemma cnt_loop_ends:
  assumes "0 \<le> r" "r < QUEUE_SIZE"
  shows "0 \<le> i \<Longrightarrow> i < QUEUE_SIZE \<Longrightarrow> n = nat ((r - i) mod QUEUE_SIZE) \<Longrightarrow> cnt_loop i r c = Some (c + n)"
proof (induction n arbitrary: i c)
  case 0
  moreover have "0 \<le> (r - i) mod QUEUE_SIZE" by (simp add: QUEUE_SIZE_def)
  ultimately have "(r - i) mod QUEUE_SIZE = 0" by simp
  then have "r = i" by (rule no_distance [OF assms 0(1,2)])
  then show ?case by (simp add: cnt_loop.simps)
next
  case (Suc n)
  have ne: "i \<noteq> r" using Suc.prems(3) by auto
  have "used \<lparr>items = [], front = i, rear = r\<rparr> = Suc (Suc n)" using Suc.prems(3) by (simp add: used_def)
  with used_front [of "\<lparr>items = [], front = i, rear = r\<rparr>"] Suc.prems(1,2) assms ne
  have "n = nat ((r - (i + 1) mod QUEUE_SIZE) mod QUEUE_SIZE)" by (simp add: used_def)
  from Suc.IH [OF _ _ this, of "c + 1"] ne show ?case by (subst cnt_loop.simps) (simp add: QUEUE_SIZE_def)
qed

lemma cntQueue_eq:
  assumes "mq_inv s"
  shows "cntQueue s = Some (max 1 (length (mq_contents s)))"
proof (cases "isEmpty s")
  case True
  then have "front s = rear s" using assms by (auto simp: mq_inv_def isEmpty_def QUEUE_SIZE_def)
  with True show ?thesis by (simp add: cntQueue_def cnt_loop.simps length_contents)
next
  case False
  then have r: "0 \<le> front s" "front s < QUEUE_SIZE" "0 \<le> rear s" "rear s < QUEUE_SIZE"
    using assms by (auto simp: isEmpty_def mq_inv_def)
  with cnt_loop_ends [OF r(3,4,1,2) refl, of 1] False show ?thesis
    by (simp add: cntQueue_def length_contents used_def)
qed

fun mq_run :: "byte qop list \<Rightarrow> mq \<Rightarrow> byte option list \<times> mq" where
  "mq_run [] s = ([], s)"
| "mq_run (Put x # ops) s = mq_run ops (enQueue x s)"
| "mq_run (Get # ops) s =
     (case deQueue s of
        None \<Rightarrow> (None # fst (mq_run ops s), snd (mq_run ops s))
      | Some (b, s1) \<Rightarrow> (Some b # fst (mq_run ops s1), snd (mq_run ops s1)))"

fun list_run :: "byte qop list \<Rightarrow> byte list \<Rightarrow> byte option list \<times> byte list" where
  "list_run [] q = ([], q)"
| "list_run (Put x # ops) q = list_run ops (drop (Suc (length q) - 2048) (q @ [x]))"
| "list_run (Get # ops) q =
     (case q of
        [] \<Rightarrow> (None # fst (list_run ops q), snd (list_run ops q))
      | b # q1 \<Rightarrow> (Some b # fst (list_run ops q1), snd (list_run ops q1)))"

text \<open>
  C18: for every sequence of bytes written and read, started from the empty ring, the ring with its two
  indices behaves as a list of at most 2048 bytes from which the oldest byte is dropped when a byte is
  written to a full list.
\<close>

theorem ring_refines_list:
  "fst (mq_run ops mq_init) = fst (list_run ops []) \<and>
   mq_contents (snd (mq_run ops mq_init)) = snd (list_run ops [])"
proof -
  have "mq_inv s \<Longrightarrow> fst (mq_run ops s) = fst (list_run ops (mq_contents s)) \<and>
      mq_contents (snd (mq_run ops s)) = snd (list_run ops (mq_contents s))" for s
  proof (induction ops arbitrary: s)
    case (Cons op ops)
    show ?case
    proof (cases op)
      case (Put x)
      with Cons.IH ring.put_law [OF Cons.prems, of x] show ?thesis by (simp add: QUEUE_SIZE_def)
    next
      case Get
      show ?thesis
      proof (cases "deQueue s")
        case None
        with Get Cons ring.get_none [OF Cons.prems] show ?thesis by simp
      next
        case (Some r)
        obtain b s1 where r: "r = (b, s1)" by (cases r)
        with Some Get Cons.IH [of s1] ring.get_law [OF Cons.prems, of b s1] show ?thesis by simp
      qed
    qed
  qed simp
  from this [OF mq_init_inv(1)] show ?thesis by (simp add: mq_init_inv)
qed

end
