(* ===== verification/AdasUart.thy ===== *)
theory AdasUart
  imports Posix
begin

text \<open>
  \<open>ext/dev/adas\<close>: what the two driver assistance units share, the events they report
  (\<open>common/include/adas_common.h\<close>) and the handling of their serial line. The files
  \<open>movon_adas_uart_util.c\<close> and \<open>mobileye_adas_uart_util.c\<close> are the same but for names, so one model,
  with the default rate as argument, stands for both. The results of \<open>open\<close> are inputs; \<open>u_speed\<close> is the
  rate the line was opened with.
\<close>

datatype adas_evt = eADAS_EVT__NONE | eADAS_EVT__INVALID | eADAS_EVT__FCW | eADAS_EVT__UFCW | eADAS_EVT__LDW
  | eADAS_EVT__PCW | eADAS_EVT__SLI | eADAS_EVT__TSR | eADAS_EVT__HMW | eADAS_EVT__ERR | eADAS_EVT__FPW
  | eADAS_EVT__BYPASS

record adas_evt_data =
  evt_code :: adas_evt
  evt_data_1 :: int
  evt_data_2 :: int
  evt_data_3 :: int
  evt_data_4 :: int
  evt_ext :: "byte list"

definition zero_evt :: adas_evt_data where
  "zero_evt = \<lparr>evt_code = eADAS_EVT__NONE, evt_data_1 = 0, evt_data_2 = 0, evt_data_3 = 0, evt_data_4 = 0, evt_ext = []\<rparr>"

definition ADAS_INVAILD_FD :: int where "ADAS_INVAILD_FD = -44"
definition ADAS_UART_INIT_TRY_CNT :: nat where "ADAS_UART_INIT_TRY_CNT = 3"
definition ADAS_CMD_UART_INIT_FAIL :: int where "ADAS_CMD_UART_INIT_FAIL = -3"

record adas_uart =
  u_fd :: int
  u_dev :: "byte list"
  u_baud :: int
  u_speed :: int

definition uart_start :: adas_uart where
  "uart_start = \<lparr>u_fd = ADAS_INVAILD_FD, u_dev = [], u_baud = 0, u_speed = 0\<rparr>"

definition line_rate :: "int \<Rightarrow> int" where
  "line_rate baud = (if baud \<in> {115200, 57600, 38400, 19200, 9600, 4800, 2400} then baud else 115200)"

text \<open>\<open>fd\<close> is the result of \<open>open\<close>.\<close>

definition init_uart :: "int \<Rightarrow> int \<Rightarrow> adas_uart \<Rightarrow> int \<times> adas_uart" where
  "init_uart baud fd u =
     (if fd < 0 then (-1, u\<lparr>u_fd := fd\<rparr>) else (0, u\<lparr>u_fd := fd, u_speed := line_rate baud\<rparr>))"

text \<open>A name of 64 bytes or more runs over the table: \<open>None\<close>.\<close>

definition uart_set_dev :: "byte list \<Rightarrow> byte list \<Rightarrow> adas_uart \<Rightarrow> adas_uart option" where
  "uart_set_dev dflt name u =
     (let d = (if name \<noteq> [] then name else dflt) in if length d \<ge> 64 then None else Some (u\<lparr>u_dev := d\<rparr>))"

definition uart_set_baudrate :: "int \<Rightarrow> int \<Rightarrow> adas_uart \<Rightarrow> adas_uart" where
  "uart_set_baudrate dflt baudrate u = u\<lparr>u_baud := (if baudrate > 0 then baudrate else dflt)\<rparr>"

definition uart_init :: "int \<Rightarrow> int \<Rightarrow> adas_uart \<Rightarrow> int \<times> adas_uart" where
  "uart_init dflt fd u =
     (if u_fd u \<le> 0 then
        (let baud = (if u_baud u = 0 then u_baud u else dflt); (ret, u1) = init_uart baud fd u
         in if ret \<noteq> 0 then (-1, u1\<lparr>u_fd := ADAS_INVAILD_FD\<rparr>) else (0, u1))
      else (0, u))"

definition uart_deinit :: "adas_uart \<Rightarrow> adas_uart" where
  "uart_deinit u = u\<lparr>u_fd := ADAS_INVAILD_FD\<rparr>"

definition uart_get_fd :: "adas_uart \<Rightarrow> int" where
  "uart_get_fd u = u_fd u"

definition uart_init_stat :: "adas_uart \<Rightarrow> int" where
  "uart_init_stat u = (if u_fd u \<le> 0 then -1 else 0)"

fun init_tries :: "int \<Rightarrow> (nat \<Rightarrow> int) \<Rightarrow> nat \<Rightarrow> adas_uart \<Rightarrow> adas_uart" where
  "init_tries dflt fds 0 u = u"
| "init_tries dflt fds (Suc n) u =
     (case uart_init dflt (fds n) u of (r, u1) \<Rightarrow> if r = 0 then u1 else init_tries dflt fds n u1)"

definition uart_chk :: "int \<Rightarrow> (nat \<Rightarrow> int) \<Rightarrow> adas_uart \<Rightarrow> int \<times> adas_uart" where
  "uart_chk dflt fds u =
     (let u1 = init_tries dflt fds ADAS_UART_INIT_TRY_CNT u
      in if uart_init_stat u1 = -1 then (ADAS_CMD_UART_INIT_FAIL, u1) else (0, u1))"

definition mgr_init :: "byte list \<Rightarrow> int \<Rightarrow> byte list \<Rightarrow> int \<Rightarrow> adas_uart \<Rightarrow> adas_uart option" where
  "mgr_init dflt_dev dflt dev_name baud_rate u =
     (case uart_set_dev dflt_dev dev_name (uart_deinit u) of
        None \<Rightarrow> None | Some u1 \<Rightarrow> Some (uart_set_baudrate dflt baud_rate u1))"

subsection \<open>Lemmas\<close>

text \<open>The check succeeds exactly when the line is open afterwards, and an open line stays as it is.\<close>

lemma uart_chk_ok: "uart_chk dflt fds u = (r, u1) \<Longrightarrow> (r = 0) = (u_fd u1 > 0)"
  by (auto simp: uart_chk_def uart_init_stat_def Let_def ADAS_CMD_UART_INIT_FAIL_def split: if_splits)

lemma uart_chk_open: "u_fd u > 0 \<Longrightarrow> uart_chk dflt fds u = (0, u)"
  by (simp add: uart_chk_def uart_init_stat_def ADAS_UART_INIT_TRY_CNT_def numeral_3_eq_3 uart_init_def)

text \<open>
  The rate that was set is never used: the test for an unset rate is the wrong way round, so a line is
  opened at the default rate of the unit.
\<close>

lemma tries_speed:
  "u_fd u \<le> 0 \<Longrightarrow> u_baud u \<noteq> 0 \<Longrightarrow> u_fd (init_tries dflt fds n u) > 0 \<Longrightarrow>
   u_speed (init_tries dflt fds n u) = line_rate dflt"
  by (induction n arbitrary: u)
    (auto simp: uart_init_def init_uart_def Let_def ADAS_INVAILD_FD_def split: if_splits)

lemma set_rate_ignored:
  assumes "dflt > 0" and "mgr_init d dflt name b u = Some u0" and "uart_chk dflt fds u0 = (0, u1)"
  shows "u_speed u1 = line_rate dflt"
proof -
  have "u_fd u0 \<le> 0" "u_baud u0 \<noteq> 0"
    using assms(1,2)
    by (auto simp: mgr_init_def uart_set_dev_def uart_deinit_def uart_set_baudrate_def ADAS_INVAILD_FD_def Let_def
        split: if_splits)
  moreover have "u1 = init_tries dflt fds ADAS_UART_INIT_TRY_CNT u0"
    using assms(3) by (simp add: uart_chk_def Let_def split: if_splits)
  ultimately show ?thesis using tries_speed [of u0 dflt fds] uart_chk_ok [OF assms(3)] by simp
qed

end
