(* ===== verification/Movon.thy ===== *)
theory Movon
  imports DataQueue AdasUart
begin

text \<open>
  \<open>ext/dev/adas/movon_adas\<close>: the unit of one maker sends frames of 26 bytes. \<open>get_dataframe_from_Queue\<close>
  looks for the three bytes a frame begins with, \<open>movon_get_evt_data\<close> takes one event after the other
  out of a frame, and the reading thread of \<open>movon_adas_mgr.c\<close> drives both and reports the events. The
  thread is modelled pass by pass with the bytes of its read as input; \<open>char\<close> is unsigned on the
  targets and a \<open>short\<close> has its low byte first. \<open>None\<close> is a loop that does not end.
\<close>

definition MOVON_DATA_FRAME__PREFIX :: byte where "MOVON_DATA_FRAME__PREFIX = 0x5b"
definition MOVON_DATA_FRAME__DATA1 :: byte where "MOVON_DATA_FRAME__DATA1 = 0x49"
definition MOVON_DATA_FRAME__DATA2 :: byte where "MOVON_DATA_FRAME__DATA2 = 0x41"
definition MOVON_FRAME_SIZE :: nat where "MOVON_FRAME_SIZE = 26"
definition MOVON_DEFAULT_BAUDRATE :: int where "MOVON_DEFAULT_BAUDRATE = 115200"

record movon_frame =
  m_stx :: byte
  m_type1 :: byte
  m_type2 :: byte
  m_data_len :: byte
  m_speed :: byte
  m_left_turn :: byte
  m_right_turn :: byte
  m_break :: byte
  m_rpm :: u16
  LDW_left :: byte
  LDW_right :: byte
  m_left_distance :: u16
  m_right_distance :: u16
  m_ttc_sec :: byte
  m_sda :: byte
  m_fvsa :: byte
  m_fpw :: byte
  m_fcw :: byte
  m_pcw :: byte
  m_recode :: byte
  m_errcode :: byte
  m_chksum :: byte
  m_etx :: byte

definition short_at :: "byte list \<Rightarrow> nat \<Rightarrow> u16" where
  "short_at f i = ucast (f ! i) OR push_bit 8 (ucast (f ! (i + 1)))"

definition as_frame :: "byte list \<Rightarrow> movon_frame" where
  "as_frame f =
     \<lparr>m_stx = f ! 0, m_type1 = f ! 1, m_type2 = f ! 2, m_data_len = f ! 3, m_speed = f ! 4, m_left_turn = f ! 5,
      m_right_turn = f ! 6, m_break = f ! 7, m_rpm = short_at f 8, LDW_left = f ! 10, LDW_right = f ! 11,
      m_left_distance = short_at f 12, m_right_distance = short_at f 14, m_ttc_sec = f ! 16, m_sda = f ! 17,
      m_fvsa = f ! 18, m_fpw = f ! 19, m_fcw = f ! 20, m_pcw = f ! 21, m_recode = f ! 22, m_errcode = f ! 23,
      m_chksum = f ! 24, m_etx = f ! 25\<rparr>"

subsection \<open>A frame out of the queue\<close>

text \<open>
  The loop that looks for the beginning, with the number of bytes it believes to be there; the flag is
  \<open>found_data_prefix\<close>.
\<close>

partial_function (option) frame_search :: "nat \<Rightarrow> mq \<Rightarrow> (bool \<times> mq) option" where
  "frame_search queue_size s =
     (if queue_size > MOVON_FRAME_SIZE then
        (case deQueue s of
           None \<Rightarrow> Some (False, s)
         | Some (b0, s1) \<Rightarrow>
             if b0 \<noteq> MOVON_DATA_FRAME__PREFIX then
               (case cntQueue s1 of None \<Rightarrow> None | Some n \<Rightarrow> frame_search n s1)
             else
               (case deQueue s1 of
                  None \<Rightarrow> Some (False, s1)
                | Some (b1, s2) \<Rightarrow>
                    if b1 \<noteq> MOVON_DATA_FRAME__DATA1 then
                      (case cntQueue s2 of None \<Rightarrow> None | Some n \<Rightarrow> frame_search n s2)
                    else
                      (case deQueue s2 of
                         None \<Rightarrow> Some (False, s2)
                       | Some (b2, s3) \<Rightarrow>
                           if b2 \<noteq> MOVON_DATA_FRAME__DATA2 then
                             (case cntQueue s3 of None \<Rightarrow> None | Some n \<Rightarrow> frame_search n s3)
                           else Some (True, s3))))
      else Some (False, s))"

text \<open>A byte that is not there leaves \<open>data_one\<close> as it was.\<close>

fun take_bytes :: "nat \<Rightarrow> byte \<Rightarrow> mq \<Rightarrow> byte list \<times> mq" where
  "take_bytes 0 data_one s = ([], s)"
| "take_bytes (Suc n) data_one s =
     (case deQueue s of
        None \<Rightarrow> (data_one # fst (take_bytes n data_one s), snd (take_bytes n data_one s))
      | Some (b, s1) \<Rightarrow> (b # fst (take_bytes n b s1), snd (take_bytes n b s1)))"

definition get_dataframe_from_Queue :: "mq \<Rightarrow> (byte list option \<times> mq) option" where
  "get_dataframe_from_Queue s =
     (case cntQueue s of
        None \<Rightarrow> None
      | Some n \<Rightarrow>
          (case frame_search n s of
             None \<Rightarrow> None
           | Some (False, s1) \<Rightarrow> Some (None, s1)
           | Some (True, s1) \<Rightarrow>
               (case take_bytes (MOVON_FRAME_SIZE - 3) MOVON_DATA_FRAME__DATA2 s1 of
                  (bs, s2) \<Rightarrow>
                    Some (Some ([MOVON_DATA_FRAME__PREFIX, MOVON_DATA_FRAME__DATA1, MOVON_DATA_FRAME__DATA2] @ bs), s2))))"

subsection \<open>The events of a frame\<close>

definition movon_get_evt_data :: "adas_evt_data \<Rightarrow> movon_frame \<Rightarrow> adas_evt_data \<times> movon_frame" where
  "movon_get_evt_data e0 f =
     (let e = e0\<lparr>evt_data_1 := uint (m_speed f), evt_data_2 := uint (m_break f), evt_data_3 := uint (m_ttc_sec f)\<rparr> in
      if m_fcw f = 2 then
        (e\<lparr>evt_code := (if m_speed f < 30 then eADAS_EVT__UFCW else eADAS_EVT__FCW)\<rparr>, f\<lparr>m_fcw := 0\<rparr>)
      else if LDW_left f = 2 then (e\<lparr>evt_code := eADAS_EVT__LDW, evt_data_4 := 0\<rparr>, f\<lparr>LDW_left := 0\<rparr>)
      else if LDW_right f = 2 then (e\<lparr>evt_code := eADAS_EVT__LDW, evt_data_4 := 1\<rparr>, f\<lparr>LDW_right := 0\<rparr>)
      else if m_pcw f = 2 then (e\<lparr>evt_code := eADAS_EVT__PCW\<rparr>, f\<lparr>m_pcw := 0\<rparr>)
      else if m_fpw f = 2 then (e\<lparr>evt_code := eADAS_EVT__FPW\<rparr>, f\<lparr>m_fpw := 0\<rparr>)
      else if m_errcode f \<noteq> 0 then
        (e\<lparr>evt_code := eADAS_EVT__ERR, evt_data_4 := uint (m_errcode f)\<rparr>, f\<lparr>m_errcode := 0\<rparr>)
      else (e\<lparr>evt_code := eADAS_EVT__NONE\<rparr>, f))"

definition flags_left :: "movon_frame \<Rightarrow> nat" where
  "flags_left f = length (filter (\<lambda>b. b) [m_fcw f = 2, LDW_left f = 2, LDW_right f = 2, m_pcw f = 2, m_fpw f = 2, m_errcode f \<noteq> 0])"

lemma event_clears_flag:
  "evt_code (fst (movon_get_evt_data e f)) \<noteq> eADAS_EVT__NONE \<Longrightarrow>
   flags_left (snd (movon_get_evt_data e f)) < flags_left f"
  by (auto simp: movon_get_evt_data_def flags_left_def Let_def split: if_splits)

text \<open>What the inner loop of the thread hands to the callback, the closing event of no kind included.\<close>

function movon_events :: "adas_evt_data \<Rightarrow> movon_frame \<Rightarrow> adas_evt_data list" where
  "movon_events e f =
     (let r = movon_get_evt_data e f
      in fst r # (if evt_code (fst r) = eADAS_EVT__NONE then [] else movon_events (fst r) (snd r)))"
  by pat_completeness auto
termination
  by (relation "measure (flags_left \<circ> snd)") (simp_all add: event_clears_flag)

declare movon_events.simps [simp del]

subsection \<open>The reading thread\<close>

record movon =
  mv_queue :: mq
  mv_cur :: movon_frame
  mv_invaild :: int
  mv_out :: "adas_evt_data list"
  mv_uart :: adas_uart

definition movon_adas_set_cur_data :: "movon_frame \<Rightarrow> movon \<Rightarrow> movon" where
  "movon_adas_set_cur_data f m = m\<lparr>mv_cur := f\<rparr>"

definition movon_adas_get_cur_data :: "movon \<Rightarrow> movon_frame" where
  "movon_adas_get_cur_data m = mv_cur m"

definition count_invaild :: "movon \<Rightarrow> movon" where
  "count_invaild m =
     (let n = mv_invaild m + 1 in
      if n > 10 then m\<lparr>mv_invaild := 0, mv_out := mv_out m @ [zero_evt\<lparr>evt_code := eADAS_EVT__INVALID\<rparr>]\<rparr>
      else m\<lparr>mv_invaild := n\<rparr>)"

definition use_frame :: "byte list \<Rightarrow> movon \<Rightarrow> movon" where
  "use_frame bs m =
     (let f = as_frame bs; m1 = movon_adas_set_cur_data f m
      in m1\<lparr>mv_invaild := 0, mv_out := mv_out m1 @ movon_events zero_evt f\<rparr>)"

partial_function (option) movon_drain :: "movon \<Rightarrow> movon option" where
  "movon_drain m =
     (case get_dataframe_from_Queue (mv_queue m) of
        None \<Rightarrow> None
      | Some (None, q) \<Rightarrow> Some (count_invaild (m\<lparr>mv_queue := q\<rparr>))
      | Some (Some bs, q) \<Rightarrow> movon_drain (use_frame bs (m\<lparr>mv_queue := q\<rparr>)))"

text \<open>
  One pass: \<open>fds\<close> are the results of opening the line, \<open>got\<close> the bytes of the read, none when it fails.
\<close>

definition movon_read_pass :: "(nat \<Rightarrow> int) \<Rightarrow> byte list \<Rightarrow> movon \<Rightarrow> movon option" where
  "movon_read_pass fds got m =
     (case uart_chk MOVON_DEFAULT_BAUDRATE fds (mv_uart m) of
        (r, u) \<Rightarrow>
          (let m1 = m\<lparr>mv_uart := u\<rparr> in
           if r \<noteq> 0 then Some m1
           else if uart_get_fd u = ADAS_INVAILD_FD then Some m1
           else movon_drain (if got \<noteq> [] then m1\<lparr>mv_queue := enQueue_size got (mv_queue m1)\<rparr> else m1)))"

subsection \<open>What the search makes of the bytes\<close>

text \<open>The search on the list of queued bytes.\<close>

fun seek :: "byte list \<Rightarrow> byte list option \<times> byte list" where
  "seek (a # b # c # q) =
     (if length q \<le> 23 then (None, a # b # c # q)
      else if a \<noteq> MOVON_DATA_FRAME__PREFIX then seek (b # c # q)
      else if b \<noteq> MOVON_DATA_FRAME__DATA1 then seek (c # q)
      else if c \<noteq> MOVON_DATA_FRAME__DATA2 then seek q
      else (Some (a # b # c # take 23 q), drop 23 q))"
| "seek q = (None, q)"

lemma seek_short: "length q \<le> 26 \<Longrightarrow> seek q = (None, q)"
  by (cases q rule: seek.cases) auto

lemma suffix_grows: "(\<exists>p. q = p @ f @ r) \<Longrightarrow> \<exists>p. x # q = p @ f @ r"
  by (metis append_Cons)

lemma seek_frame: "seek q = (Some f, r) \<Longrightarrow>
  length f = MOVON_FRAME_SIZE \<and> (\<exists>p. q = p @ f @ r) \<and>
  take 3 f = [MOVON_DATA_FRAME__PREFIX, MOVON_DATA_FRAME__DATA1, MOVON_DATA_FRAME__DATA2]"
proof (induction q rule: seek.induct)
  case (1 a b c q)
  consider "length q > 23" "a \<noteq> MOVON_DATA_FRAME__PREFIX" | "length q > 23" "a = MOVON_DATA_FRAME__PREFIX" "b \<noteq> MOVON_DATA_FRAME__DATA1"
    | "length q > 23" "a = MOVON_DATA_FRAME__PREFIX" "b = MOVON_DATA_FRAME__DATA1" "c \<noteq> MOVON_DATA_FRAME__DATA2"
    | "length q > 23" "a = MOVON_DATA_FRAME__PREFIX" "b = MOVON_DATA_FRAME__DATA1" "c = MOVON_DATA_FRAME__DATA2"
    using 1(4) by (fastforce split: if_splits)
  then show ?case
  proof cases
    case 1
    with "1.IH"(1) "1.prems" show ?thesis by (simp add: suffix_grows)
  next
    case 2
    with "1.IH"(2) "1.prems" show ?thesis by (simp add: suffix_grows)
  next
    case 3
    with "1.IH"(3) "1.prems" show ?thesis by (simp add: suffix_grows)
  next
    case 4
    with "1.prems" have "f = a # b # c # take 23 q" "r = drop 23 q" by auto
    with 4 show ?thesis by (auto simp: MOVON_FRAME_SIZE_def intro: exI [of _ "[]"])
  qed
qed auto

lemma max_one: "length q > 26 \<Longrightarrow> max 1 (length q) = length q" "max 1 (length q) > 26 \<longleftrightarrow> length q > 26"
  by auto

text \<open>The search on the ring finds what the search on its bytes finds, and both loops end.\<close>

lemma frame_search_seek:
  "\<lbrakk>mq_inv s; mq_contents s = q\<rbrakk> \<Longrightarrow> \<exists>s'. mq_inv s' \<and>
    frame_search (max 1 (length q)) s = Some (fst (seek q) \<noteq> None, s') \<and>
    mq_contents s' = (case fst (seek q) of None \<Rightarrow> snd (seek q) | Some f \<Rightarrow> drop 3 f @ snd (seek q))"
proof (induction q arbitrary: s rule: seek.induct)
  case (1 a b c q)
  show ?case
  proof (cases "length q \<le> 23")
    case True
    then show ?thesis using 1(4,5) by (subst frame_search.simps) (auto simp: MOVON_FRAME_SIZE_def)
  next
    case False
    then have n: "max 1 (length (a # b # c # q)) > MOVON_FRAME_SIZE" by (simp add: MOVON_FRAME_SIZE_def)
    obtain s1 where s1: "deQueue s = Some (a, s1)" "mq_inv s1" "mq_contents s1 = b # c # q"
      using ring.get_cons [OF 1(4,5)] by blast
    obtain s2 where s2: "deQueue s1 = Some (b, s2)" "mq_inv s2" "mq_contents s2 = c # q"
      using ring.get_cons [OF s1(2,3)] by blast
    obtain s3 where s3: "deQueue s2 = Some (c, s3)" "mq_inv s3" "mq_contents s3 = q"
      using ring.get_cons [OF s2(2,3)] by blast
    have cnt: "cntQueue t = Some (max 1 (length (mq_contents t)))" if "mq_inv t" for t
      using cntQueue_eq that .
    note step = frame_search.simps [of "max 1 (length (a # b # c # q))" s]
    show ?thesis
    proof (cases "a = MOVON_DATA_FRAME__PREFIX")
      case F: False
      with False have sk: "seek (a # b # c # q) = seek (b # c # q)" by simp
      from "1.IH"(1) [OF False F s1(2,3)] F n s1 cnt [OF s1(2)] show ?thesis unfolding sk by (subst step) (simp del: seek.simps)
    next
      case A: True
      show ?thesis
      proof (cases "b = MOVON_DATA_FRAME__DATA1")
        case F: False
        with A False have sk: "seek (a # b # c # q) = seek (c # q)" by simp
        from A "1.IH"(2) [OF False _ F s2(2,3)] F n s1 s2 cnt [OF s2(2)] show ?thesis
          unfolding sk by (subst step) (simp del: seek.simps)
      next
        case B: True
        show ?thesis
        proof (cases "c = MOVON_DATA_FRAME__DATA2")
          case F: False
          with A B False have sk: "seek (a # b # c # q) = seek q" by simp
          from A B "1.IH"(3) [OF False _ _ F s3(2,3)] F n s1 s2 s3 cnt [OF s3(2)] show ?thesis
            unfolding sk by (subst step) (simp del: seek.simps)
        next
          case C: True
          with A B False n s1 s2 s3 show ?thesis by (subst step) simp
        qed
      qed
    qed
  qed
qed (subst frame_search.simps, auto simp: MOVON_FRAME_SIZE_def)+

lemma take_bytes_eq:
  "\<lbrakk>mq_inv s; n \<le> length (mq_contents s)\<rbrakk> \<Longrightarrow> \<exists>s'. mq_inv s' \<and>
    take_bytes n d s = (take n (mq_contents s), s') \<and> mq_contents s' = drop n (mq_contents s)"
proof (induction n arbitrary: s d)
  case (Suc n)
  then obtain b q where q: "mq_contents s = b # q" by (cases "mq_contents s") auto
  obtain s1 where s1: "deQueue s = Some (b, s1)" "mq_inv s1" "mq_contents s1 = q"
    using ring.get_cons [OF Suc.prems(1) q] by blast
  from Suc.IH [OF s1(2), of b] s1 q Suc.prems(2) show ?case by auto
qed auto

lemma get_dataframe_seek:
  assumes "mq_inv s"
  shows "\<exists>s'. get_dataframe_from_Queue s = Some (fst (seek (mq_contents s)), s') \<and> mq_inv s' \<and>
    mq_contents s' = snd (seek (mq_contents s))"
proof -
  let ?q = "mq_contents s"
  obtain s1 where s1: "mq_inv s1" "frame_search (max 1 (length ?q)) s = Some (fst (seek ?q) \<noteq> None, s1)"
    "mq_contents s1 = (case fst (seek ?q) of None \<Rightarrow> snd (seek ?q) | Some f \<Rightarrow> drop 3 f @ snd (seek ?q))"
    using frame_search_seek [OF assms refl] by blast
  note cnt = cntQueue_eq [OF assms]
  show ?thesis
  proof (cases "fst (seek ?q)")
    case None
    with s1 cnt show ?thesis by (simp add: get_dataframe_from_Queue_def)
  next
    case (Some f)
    then have sk: "seek ?q = (Some f, snd (seek ?q))" by (metis prod.collapse)
    from seek_frame [OF sk] have f: "length f = 26" "take 3 f = [MOVON_DATA_FRAME__PREFIX, MOVON_DATA_FRAME__DATA1, MOVON_DATA_FRAME__DATA2]"
      by (simp_all add: MOVON_FRAME_SIZE_def)
    have "length (drop 3 f) = 23" using f(1) by simp
    then obtain s2 where "take_bytes 23 MOVON_DATA_FRAME__DATA2 s1 = (drop 3 f, s2)" "mq_inv s2" "mq_contents s2 = snd (seek ?q)"
      using take_bytes_eq [OF s1(1), of 23] s1(3) Some by auto
    moreover have "take 3 f @ drop 3 f = f" by (rule append_take_drop_id)
    ultimately show ?thesis
      using cnt s1(2) Some f(2) by (auto simp: get_dataframe_from_Queue_def MOVON_FRAME_SIZE_def)
  qed
qed

text \<open>
  On every ring the reader of frames returns. What it delivers is 26 consecutive queued bytes that
  begin with the three bytes of a frame, and what it leaves are the bytes behind them, so it never
  reads a byte that is not there.
\<close>

theorem movon_frame_whole:
  assumes "mq_inv s"
  shows "\<exists>r s'. get_dataframe_from_Queue s = Some (r, s') \<and> mq_inv s' \<and>
    (case r of
       None \<Rightarrow> length (mq_contents s') \<le> 26
     | Some f \<Rightarrow> length f = MOVON_FRAME_SIZE \<and> (\<exists>p. mq_contents s = p @ f @ mq_contents s') \<and>
         take 3 f = [MOVON_DATA_FRAME__PREFIX, MOVON_DATA_FRAME__DATA1, MOVON_DATA_FRAME__DATA2])"
proof -
  have short: "fst (seek q) = None \<Longrightarrow> length (snd (seek q)) \<le> 26" for q
    by (induction q rule: seek.induct) (auto split: if_splits)
  obtain s' where s': "get_dataframe_from_Queue s = Some (fst (seek (mq_contents s)), s')" "mq_inv s'"
    "mq_contents s' = snd (seek (mq_contents s))" using get_dataframe_seek [OF assms] by blast
  show ?thesis
    using s' short [of "mq_contents s"] seek_frame [of "mq_contents s" _ "snd (seek (mq_contents s))"]
    by (cases "fst (seek (mq_contents s))") (auto simp: prod_eq_iff)
qed

lemma movon_frame_whole_witness:
  "\<exists>r s'. get_dataframe_from_Queue (enQueue_size [0x5b, 0x49, 0x41] mq_init) = Some (r, s') \<and> mq_inv s' \<and>
    (case r of
       None \<Rightarrow> length (mq_contents s') \<le> 26
     | Some f \<Rightarrow> length f = MOVON_FRAME_SIZE \<and>
         (\<exists>p. mq_contents (enQueue_size [0x5b, 0x49, 0x41] mq_init) = p @ f @ mq_contents s') \<and>
         take 3 f = [MOVON_DATA_FRAME__PREFIX, MOVON_DATA_FRAME__DATA1, MOVON_DATA_FRAME__DATA2])"
proof -
  have "mq_inv (enQueue_size [0x5b, 0x49, 0x41] mq_init)"
    unfolding enQueue_size_def using ring.put_all [OF mq_init_inv(1)] by blast
  from movon_frame_whole [OF this] show ?thesis .
qed

subsection \<open>The order of the events\<close>

definition event_codes :: "movon_frame \<Rightarrow> adas_evt list" where
  "event_codes f =
     (if m_fcw f = 2 then [if m_speed f < 30 then eADAS_EVT__UFCW else eADAS_EVT__FCW] else []) @
     (if LDW_left f = 2 then [eADAS_EVT__LDW] else []) @ (if LDW_right f = 2 then [eADAS_EVT__LDW] else []) @
     (if m_pcw f = 2 then [eADAS_EVT__PCW] else []) @ (if m_fpw f = 2 then [eADAS_EVT__FPW] else []) @
     (if m_errcode f \<noteq> 0 then [eADAS_EVT__ERR] else []) @ [eADAS_EVT__NONE]"

lemma first_event:
  "map evt_code (movon_events e f) = event_codes f" if
  "evt_code (fst (movon_get_evt_data e f)) \<noteq> eADAS_EVT__NONE \<Longrightarrow>
   map evt_code (movon_events (fst (movon_get_evt_data e f)) (snd (movon_get_evt_data e f))) =
     event_codes (snd (movon_get_evt_data e f))"
  using that
  by (subst movon_events.simps)
    (auto simp: Let_def movon_get_evt_data_def event_codes_def split: if_splits)

text \<open>
  The inner loop of the thread reports every flag of a frame once, in the order of importance, a
  forward collision below 30 km/h as the urban one, and then the event of no kind. So it ends after at
  most seven events.
\<close>

theorem movon_event_order:
  "map evt_code (movon_events e f) =
     (if m_fcw f = 2 then [if m_speed f < 30 then eADAS_EVT__UFCW else eADAS_EVT__FCW] else []) @
     (if LDW_left f = 2 then [eADAS_EVT__LDW] else []) @ (if LDW_right f = 2 then [eADAS_EVT__LDW] else []) @
     (if m_pcw f = 2 then [eADAS_EVT__PCW] else []) @ (if m_fpw f = 2 then [eADAS_EVT__FPW] else []) @
     (if m_errcode f \<noteq> 0 then [eADAS_EVT__ERR] else []) @ [eADAS_EVT__NONE]"
proof -
  have "map evt_code (movon_events e f) = event_codes f"
    by (induction e f rule: movon_events.induct) (rule first_event, simp)
  then show ?thesis by (simp add: event_codes_def)
qed

lemma events_valid: "x \<in> set (movon_events e f) \<Longrightarrow> evt_code x \<noteq> eADAS_EVT__INVALID"
proof -
  have c: "map evt_code (movon_events e f) = event_codes f"
    by (induction e f rule: movon_events.induct) (rule first_event, simp)
  have n: "eADAS_EVT__INVALID \<notin> set (event_codes f)" by (simp add: event_codes_def)
  assume "x \<in> set (movon_events e f)"
  then have "evt_code x \<in> set (event_codes f)" using c by (metis imageI list.set_map)
  with n show ?thesis by auto
qed

subsection \<open>A stream of frames\<close>

definition good_frame :: "byte list \<Rightarrow> bool" where
  "good_frame f \<longleftrightarrow> length f = 26 \<and> take 3 f = [MOVON_DATA_FRAME__PREFIX, MOVON_DATA_FRAME__DATA1, MOVON_DATA_FRAME__DATA2]"

text \<open>What a drain takes off the queue, and what it leaves, when the frames follow each other.\<close>

function chop :: "byte list \<Rightarrow> byte list list \<times> byte list" where
  "chop q = (if length q \<le> 26 then ([], q) else (take 26 q # fst (chop (drop 26 q)), snd (chop (drop 26 q))))"
  by pat_completeness auto
termination by (relation "measure length") auto

declare chop.simps [simp del]

lemma chop_short: "length q \<le> 26 \<Longrightarrow> chop q = ([], q)"
  by (subst chop.simps) simp

lemma chop_long: "length q > 26 \<Longrightarrow> chop q = (take 26 q # fst (chop (drop 26 q)), snd (chop (drop 26 q)))"
  by (subst chop.simps) simp

lemma chop_rest: "length (snd (chop q)) \<le> 26"
  by (induction q rule: chop.induct) (subst chop.simps, simp)

lemma chop_append:
  "fst (chop (p @ x)) = fst (chop p) @ fst (chop (snd (chop p) @ x)) \<and>
   snd (chop (p @ x)) = snd (chop (snd (chop p) @ x))"
proof (induction p rule: chop.induct)
  case (1 p)
  show ?case
  proof (cases "length p \<le> 26")
    case True
    then show ?thesis by (simp add: chop_short)
  next
    case False
    with 1 chop_long [of p] chop_long [of "p @ x"] show ?thesis by simp
  qed
qed

lemma chop_frames:
  "\<lbrakk>fs \<noteq> []; \<forall>f \<in> set fs. length f = 26\<rbrakk> \<Longrightarrow> chop (concat fs) = (butlast fs, last fs)"
proof (induction fs)
  case (Cons f fs)
  show ?case
  proof (cases fs)
    case Nil
    then show ?thesis using Cons.prems by (simp add: chop_short)
  next
    case (Cons g gs)
    then have "length (concat (f # fs)) > 26" using Cons.prems by auto
    from chop_long [OF this] Cons.IH Cons.prems Cons show ?thesis by simp
  qed
qed simp

text \<open>A queue is in step when it holds the beginning of a sequence of frames.\<close>

definition in_step :: "byte list \<Rightarrow> bool" where
  "in_step q \<longleftrightarrow> (\<exists>fs r. q @ r = concat fs \<and> (\<forall>f \<in> set fs. good_frame f))"

lemma in_step_long:
  assumes "in_step q" "length q > 26"
  shows "good_frame (take 26 q) \<and> in_step (drop 26 q)"
proof -
  obtain fs r where fs: "q @ r = concat fs" "\<forall>f \<in> set fs. good_frame f" using assms(1) by (auto simp: in_step_def)
  with assms(2) obtain f gs where g: "fs = f # gs" by (cases fs) auto
  with fs have f: "length f = 26" "good_frame f" by (auto simp: good_frame_def)
  have "take 26 (q @ r) = f" "drop 26 (q @ r) = concat gs" using fs(1) g f(1) by simp_all
  with assms(2) f(2) fs(2) g show ?thesis by (auto simp: in_step_def)
qed

lemma seek_in_step:
  assumes "in_step q" "length q > 26"
  shows "seek q = (Some (take 26 q), drop 26 q)"
proof -
  obtain a b c p where q: "q = a # b # c # p" using assms(2) by (cases q rule: seek.cases) auto
  with in_step_long [OF assms] assms(2) show ?thesis by (simp add: good_frame_def)
qed

lemma in_step_prefix: "in_step (p @ q) \<Longrightarrow> in_step p"
  by (auto simp: in_step_def)

lemma in_step_later: "in_step (p @ x) \<Longrightarrow> in_step (snd (chop p) @ x)"
proof (induction p rule: chop.induct)
  case (1 p)
  show ?case
  proof (cases "length p \<le> 26")
    case False
    then have d: "in_step (drop 26 p @ x)" using in_step_long [of "p @ x"] "1.prems" by simp
    show ?thesis using "1.IH" [OF False d] chop_long [of p] False by simp
  qed (use "1.prems" in \<open>simp add: chop_short\<close>)
qed

text \<open>The events other than the one that says nothing came.\<close>

definition told_events :: "movon \<Rightarrow> adas_evt_data list" where
  "told_events m = filter (\<lambda>e. evt_code e \<noteq> eADAS_EVT__INVALID) (mv_out m)"

definition frame_events :: "byte list \<Rightarrow> adas_evt_data list" where
  "frame_events bs = movon_events zero_evt (as_frame bs)"

lemma told_use_frame: "told_events (use_frame bs m) = told_events m @ frame_events bs"
  by (auto simp: told_events_def use_frame_def frame_events_def movon_adas_set_cur_data_def Let_def events_valid
      intro!: filter_True)

lemma told_count: "told_events (count_invaild m) = told_events m" "mv_queue (count_invaild m) = mv_queue m"
  "mv_uart (count_invaild m) = mv_uart m"
  by (simp_all add: told_events_def count_invaild_def Let_def)

lemma use_frame_simps: "mv_queue (use_frame bs m) = mv_queue m" "mv_uart (use_frame bs m) = mv_uart m"
  by (simp_all add: use_frame_def movon_adas_set_cur_data_def Let_def)

lemma drain_in_step:
  "\<lbrakk>mq_inv (mv_queue m); mq_contents (mv_queue m) = q; in_step q\<rbrakk> \<Longrightarrow>
   \<exists>m'. movon_drain m = Some m' \<and> mq_inv (mv_queue m') \<and> mq_contents (mv_queue m') = snd (chop q) \<and>
     told_events m' = told_events m @ concat (map frame_events (fst (chop q))) \<and> mv_uart m' = mv_uart m"
proof (induction q arbitrary: m rule: chop.induct)
  case (1 q)
  obtain s where s: "get_dataframe_from_Queue (mv_queue m) = Some (fst (seek q), s)" "mq_inv s"
    "mq_contents s = snd (seek q)" using get_dataframe_seek [OF "1.prems"(1)] "1.prems"(2) by auto
  show ?case
  proof (cases "length q \<le> 26")
    case True
    with s show ?thesis
      by (subst movon_drain.simps) (simp add: seek_short chop_short told_count, simp add: told_events_def)
  next
    case False
    define m1 where "m1 = use_frame (take 26 q) (m\<lparr>mv_queue := s\<rparr>)"
    have sk: "seek q = (Some (take 26 q), drop 26 q)" using seek_in_step [OF "1.prems"(3)] False by simp
    have "mq_inv (mv_queue m1)" "mq_contents (mv_queue m1) = drop 26 q" "in_step (drop 26 q)"
      using s sk in_step_long [OF "1.prems"(3)] False by (simp_all add: m1_def use_frame_simps)
    from "1.IH" [OF False this] obtain m' where m': "movon_drain m1 = Some m'" "mq_inv (mv_queue m')"
      "mq_contents (mv_queue m') = snd (chop (drop 26 q))" "mv_uart m' = mv_uart m1"
      "told_events m' = told_events m1 @ concat (map frame_events (fst (chop (drop 26 q))))" by blast
    have "movon_drain m = Some m'" using s(1) sk m'(1) by (subst movon_drain.simps) (simp add: m1_def)
    moreover have "told_events m1 = told_events m @ frame_events (take 26 q)" "mv_uart m1 = mv_uart m"
      unfolding m1_def told_use_frame by (simp_all add: told_events_def use_frame_simps)
    ultimately show ?thesis using m' False chop_long [of q] by simp
  qed
qed

text \<open>The passes of the thread on an open line, one read each.\<close>

fun movon_passes :: "byte list list \<Rightarrow> movon \<Rightarrow> movon option" where
  "movon_passes [] m = Some m"
| "movon_passes (got # gots) m =
     (case movon_read_pass (\<lambda>_. -1) got m of None \<Rightarrow> None | Some m1 \<Rightarrow> movon_passes gots m1)"

lemma pass_open:
  "u_fd (mv_uart m) > 0 \<Longrightarrow> movon_read_pass fds got m =
     movon_drain (if got \<noteq> [] then m\<lparr>mv_queue := enQueue_size got (mv_queue m)\<rparr> else m)"
  by (simp add: movon_read_pass_def uart_chk_open uart_get_fd_def ADAS_INVAILD_FD_def)

lemma read_queue:
  assumes "mq_inv q" "length (mq_contents q) \<le> 26" "length got \<le> 2022"
  shows "mq_inv (enQueue_size got q) \<and> mq_contents (enQueue_size got q) = mq_contents q @ got"
  using ring.put_all [OF assms(1), of got] assms(2,3) by (simp add: enQueue_size_def QUEUE_SIZE_def)

lemma passes_in_step:
  "\<lbrakk>mq_inv (mv_queue m); mq_contents (mv_queue m) = q; length q \<le> 26; u_fd (mv_uart m) > 0;
    \<forall>g \<in> set gots. length g \<le> 2022; in_step (q @ concat gots)\<rbrakk> \<Longrightarrow>
   \<exists>m'. movon_passes gots m = Some m' \<and> mq_contents (mv_queue m') = snd (chop (q @ concat gots)) \<and>
     told_events m' = told_events m @ concat (map frame_events (fst (chop (q @ concat gots))))"
proof (induction gots arbitrary: m q)
  case Nil
  then show ?case by (simp add: chop_short)
next
  case (Cons got gots)
  let ?s = "enQueue_size got (mv_queue m)" and ?r = "snd (chop (q @ got))" and ?rest = "concat gots"
  define m1 where "m1 = (if got \<noteq> [] then m\<lparr>mv_queue := ?s\<rparr> else m)"
  have "mq_inv ?s \<and> mq_contents ?s = q @ got"
    using read_queue [of "mv_queue m" got] Cons.prems(1,2,3,5) by simp
  then have m1: "mq_inv (mv_queue m1)" "mq_contents (mv_queue m1) = q @ got" "told_events m1 = told_events m" "mv_uart m1 = mv_uart m"
    using Cons.prems(1,2) by (simp_all add: m1_def told_events_def)
  have st: "in_step ((q @ got) @ ?rest)" using Cons.prems(6) by simp
  from drain_in_step [OF m1(1,2) in_step_prefix [OF st]] obtain m2 where m2: "movon_drain m1 = Some m2"
    "mq_inv (mv_queue m2)" "mq_contents (mv_queue m2) = ?r" "mv_uart m2 = mv_uart m"
    "told_events m2 = told_events m @ concat (map frame_events (fst (chop (q @ got))))" using m1(3,4) by auto
  have pass: "movon_read_pass (\<lambda>_. -1) got m = Some m2"
    using pass_open [OF Cons.prems(4)] m2(1) by (simp add: m1_def)
  have fd: "u_fd (mv_uart m2) > 0" using m2(4) Cons.prems(4) by simp
  have rd: "\<forall>g \<in> set gots. length g \<le> 2022" using Cons.prems(5) by simp
  from Cons.IH [OF m2(2,3) chop_rest fd rd in_step_later [OF st]]
  obtain m3 where "movon_passes gots m2 = Some m3" "mq_contents (mv_queue m3) = snd (chop (?r @ ?rest))"
    "told_events m3 = told_events m2 @ concat (map frame_events (fst (chop (?r @ ?rest))))" by blast
  with m2(5) pass chop_append [of "q @ got" ?rest] show ?case by simp
qed

text \<open>
  C17: on an open line and from an empty queue, however the reads cut a stream of frames into pieces of
  up to 2022 bytes, the thread reports the events of every frame but the last, in order and once each,
  and the last frame stays in the queue whole.
\<close>

theorem movon_stream:
  assumes "mq_inv (mv_queue m)" and "mq_contents (mv_queue m) = []" and "u_fd (mv_uart m) > 0"
    and "\<forall>g \<in> set gots. length g \<le> 2022"
    and "concat gots = concat fs" and "\<forall>f \<in> set fs. good_frame f" and "fs \<noteq> []"
  shows "\<exists>m'. movon_passes gots m = Some m' \<and> mq_contents (mv_queue m') = last fs \<and>
    told_events m' = told_events m @ concat (map (\<lambda>f. movon_events zero_evt (as_frame f)) (butlast fs))"
proof -
  have "chop (concat fs) = (butlast fs, last fs)"
    using chop_frames [OF assms(7)] assms(6) by (simp add: good_frame_def)
  moreover have "in_step ([] @ concat gots)" using assms(5,6) by (auto simp: in_step_def intro: exI [of _ fs])
  ultimately show ?thesis
    using passes_in_step [OF assms(1,2) _ assms(3,4)] assms(5) by (simp add: frame_events_def [abs_def])
qed

definition sample_frame :: "byte \<Rightarrow> byte list" where
  "sample_frame fcw = [0x5b, 0x49, 0x41] @ replicate 17 0 @ [fcw] @ replicate 5 0"

definition sample_movon :: movon where
  "sample_movon = \<lparr>mv_queue = mq_init, mv_cur = as_frame (replicate 26 0), mv_invaild = 0, mv_out = [],
     mv_uart = uart_start\<lparr>u_fd := 5\<rparr>\<rparr>"

text \<open>Two frames in three reads: the collision warning of the first one is reported.\<close>

lemma movon_stream_witness:
  "\<exists>m'. movon_passes [[0x5b, 0x49], drop 2 (sample_frame 2) @ [0x5b], drop 1 (sample_frame 0)] sample_movon = Some m' \<and>
    mq_contents (mv_queue m') = sample_frame 0 \<and>
    told_events m' = told_events sample_movon @ concat (map (\<lambda>f. movon_events zero_evt (as_frame f)) [sample_frame 2])"
proof -
  have "mq_inv (mv_queue sample_movon)" "mq_contents (mv_queue sample_movon) = []" "u_fd (mv_uart sample_movon) > 0"
    by (simp_all add: sample_movon_def mq_init_inv)
  from movon_stream [OF this, of "[[0x5b, 0x49], drop 2 (sample_frame 2) @ [0x5b], drop 1 (sample_frame 0)]"
      "[sample_frame 2, sample_frame 0]"]
  show ?thesis
    by (simp add: sample_frame_def good_frame_def MOVON_DATA_FRAME__PREFIX_def MOVON_DATA_FRAME__DATA1_def
        MOVON_DATA_FRAME__DATA2_def)
qed

subsection \<open>A line that says nothing\<close>

text \<open>
  A read that completes no frame counts; the eleventh one in a row reports it and starts the count anew.
\<close>

lemma silent_drain:
  assumes "mq_inv (mv_queue m)" "length (mq_contents (mv_queue m)) \<le> 26"
  shows "\<exists>q. movon_drain m = Some (count_invaild (m\<lparr>mv_queue := q\<rparr>)) \<and> mq_inv q \<and> mq_contents q = mq_contents (mv_queue m)"
  using get_dataframe_seek [OF assms(1)] seek_short [OF assms(2)] by (subst movon_drain.simps) auto

lemma silent_passes:
  "\<lbrakk>mq_inv (mv_queue m); length (mq_contents (mv_queue m)) \<le> 26; u_fd (mv_uart m) > 0; 0 \<le> mv_invaild m;
    mv_invaild m + int n \<le> 10\<rbrakk> \<Longrightarrow>
   \<exists>m'. movon_passes (replicate n []) m = Some m' \<and> mv_invaild m' = mv_invaild m + int n \<and> mv_out m' = mv_out m \<and>
     mq_inv (mv_queue m') \<and> mq_contents (mv_queue m') = mq_contents (mv_queue m) \<and> mv_uart m' = mv_uart m"
proof (induction n arbitrary: m)
  case (Suc n)
  from silent_drain [OF Suc.prems(1,2)] obtain q where q:
    "movon_drain m = Some (count_invaild (m\<lparr>mv_queue := q\<rparr>))" "mq_inv q" "mq_contents q = mq_contents (mv_queue m)" by blast
  define m1 where "m1 = count_invaild (m\<lparr>mv_queue := q\<rparr>)"
  have m1: "mv_queue m1 = q" "mv_invaild m1 = mv_invaild m + 1" "mv_out m1 = mv_out m" "mv_uart m1 = mv_uart m"
    using Suc.prems(5) by (simp_all add: m1_def count_invaild_def Let_def)
  have "movon_read_pass (\<lambda>_. -1) [] m = Some m1" using pass_open [OF Suc.prems(3)] q(1) by (simp add: m1_def)
  moreover from Suc.IH [of m1] m1 q Suc.prems obtain m' where "movon_passes (replicate n []) m1 = Some m'"
    "mv_invaild m' = mv_invaild m1 + int n" "mv_out m' = mv_out m1" "mq_inv (mv_queue m')"
    "mq_contents (mv_queue m') = mq_contents (mv_queue m1)" "mv_uart m' = mv_uart m1" by auto
  ultimately show ?case using m1 q(3) by simp
qed simp

lemma passes_append:
  "movon_passes (a @ b) m = (case movon_passes a m of None \<Rightarrow> None | Some m1 \<Rightarrow> movon_passes b m1)"
  by (induction a arbitrary: m) (auto split: option.split)

text \<open>
  A unit that falls silent is reported: after a frame was read, the eleventh pass in a row in
  which nothing comes reports the event \<open>INVALID\<close>, the ten before it report nothing.
\<close>

theorem movon_silence_reported:
  assumes "mq_inv (mv_queue m)" and "length (mq_contents (mv_queue m)) \<le> 26" and "u_fd (mv_uart m) > 0"
    and "mv_invaild m = 0"
  shows "\<exists>m1 m2. movon_passes (replicate 10 []) m = Some m1 \<and> mv_out m1 = mv_out m \<and>
    movon_read_pass (\<lambda>_. -1) [] m1 = Some m2 \<and>
    mv_out m2 = mv_out m @ [zero_evt\<lparr>evt_code := eADAS_EVT__INVALID\<rparr>] \<and> mv_invaild m2 = 0"
proof -
  from silent_passes [OF assms(1-3), of 10] assms(4) obtain m1 where m1: "movon_passes (replicate 10 []) m = Some m1"
    "mv_invaild m1 = 10" "mv_out m1 = mv_out m" "mq_inv (mv_queue m1)"
    "mq_contents (mv_queue m1) = mq_contents (mv_queue m)" "mv_uart m1 = mv_uart m" by auto
  then obtain q where "movon_drain m1 = Some (count_invaild (m1\<lparr>mv_queue := q\<rparr>))"
    using silent_drain [of m1] assms(2) by auto
  then have "movon_read_pass (\<lambda>_. -1) [] m1 = Some (count_invaild (m1\<lparr>mv_queue := q\<rparr>))"
    using pass_open [of m1] m1(6) assms(3) by simp
  with m1 show ?thesis by (simp add: count_invaild_def Let_def)
qed

lemma movon_silence_reported_witness:
  "\<exists>m1 m2. movon_passes (replicate 10 []) sample_movon = Some m1 \<and> mv_out m1 = mv_out sample_movon \<and>
    movon_read_pass (\<lambda>_. -1) [] m1 = Some m2 \<and>
    mv_out m2 = mv_out sample_movon @ [zero_evt\<lparr>evt_code := eADAS_EVT__INVALID\<rparr>] \<and> mv_invaild m2 = 0"
  by (rule movon_silence_reported) (simp_all add: sample_movon_def mq_init_inv)

end
