(* ===== verification/Mobileye.thy ===== *)
theory Mobileye
  imports AdasUart CText
begin

text \<open>
  \<open>ext/dev/adas/mobileye_adas\<close>: the unit of the other maker sends lines of text, \<open>$MEFCW,70*71\<close> for a
  forward collision at 70 km/h. \<open>tool_device_argument\<close> cuts a line into fields,
  \<open>mobileye_get_evt_data\<close> turns them into an event, and the reading thread of \<open>mobileye_adas_mgr.c\<close>
  drives both line by line. The splitting of the text that was read into lines is a function of the
  system's library and a parameter. \<open>None\<close> is a write or read outside of a buffer; a pointer has four
  bytes.
\<close>

definition MAX_MOBILEYE_ADAS_RET_BUFF_SIZE :: nat where "MAX_MOBILEYE_ADAS_RET_BUFF_SIZE = 1024"
definition MAX_ADAS_CHK_ERR :: nat where "MAX_ADAS_CHK_ERR = 120"
definition MAX_READ_ADAS_UART_INVAILD_CHK :: nat where "MAX_READ_ADAS_UART_INVAILD_CHK = 200"
definition MOBILEYE_DEFAULT_BAUDRATE :: int where "MOBILEYE_DEFAULT_BAUDRATE = 9600"
definition MOBILEYE_CHK_MSG :: "byte list" where "MOBILEYE_CHK_MSG = str ''$ME''"

definition MOBILEYE_CMD_FCW__COMMAND :: "byte list" where "MOBILEYE_CMD_FCW__COMMAND = str ''$MEFCW''"
definition MOBILEYE_CMD_PCW__COMMAND :: "byte list" where "MOBILEYE_CMD_PCW__COMMAND = str ''$MEPCW''"
definition MOBILEYE_CMD_LDW__COMMAND :: "byte list" where "MOBILEYE_CMD_LDW__COMMAND = str ''$MELDW''"
definition MOBILEYE_CMD_HMW__COMMAND :: "byte list" where "MOBILEYE_CMD_HMW__COMMAND = str ''$MEHMW''"
definition MOBILEYE_CMD_SLI__COMMAND :: "byte list" where "MOBILEYE_CMD_SLI__COMMAND = str ''$MESLI''"
definition MOBILEYE_CMD_ERR__COMMAND :: "byte list" where "MOBILEYE_CMD_ERR__COMMAND = str ''$MEERR''"
definition MOBILEYE_CMD_SYNC__COMMAND :: "byte list" where "MOBILEYE_CMD_SYNC__COMMAND = str ''$MESYNC''"

subsection \<open>The fields of a line\<close>

definition c_text :: "byte list \<Rightarrow> byte list" where
  "c_text t = takeWhile (\<lambda>c. c \<noteq> 0) t"

definition field_end :: "byte \<Rightarrow> bool" where
  "field_end c \<longleftrightarrow> c = 44 \<or> c = 42"

text \<open>What the loop leaves in the buffer for a character: a space is passed over and stays a NUL.\<close>

definition kept :: "byte \<Rightarrow> byte" where
  "kept c = (if field_end c \<or> c = 32 then 0 else c)"

definition arg_offsets :: "byte list \<Rightarrow> nat list" where
  "arg_offsets l = 0 # map Suc (filter (\<lambda>i. field_end (l ! i)) [0..<length l])"

text \<open>
  The pointers are stored in the 2560 bytes of \<open>tmp_argv\<close>; the arguments are the strings they point to.
\<close>

definition tool_device_argument :: "byte list \<Rightarrow> byte list list option" where
  "tool_device_argument buff =
     (if buff = [] then Some []
      else if length buff \<ge> MAX_MOBILEYE_ADAS_RET_BUFF_SIZE \<or> length (arg_offsets buff) > 640 then None
      else
        (let out = map kept buff @ replicate (MAX_MOBILEYE_ADAS_RET_BUFF_SIZE - length buff) 0
         in Some (map (\<lambda>off. c_text (drop off out)) (arg_offsets buff))))"

text \<open>\<open>1\<close> for a number, -1 for anything else.\<close>

definition num_char :: "byte \<Rightarrow> bool" where
  "num_char c \<longleftrightarrow> is_dec c \<or> c = 46 \<or> c = 45"

definition tool_chk_invalid_num_data :: "byte list \<Rightarrow> int" where
  "tool_chk_invalid_num_data d =
     (if d = str ''x'' \<or> d = str ''X'' \<or> d = [] \<or> d = str ''*'' then -1
      else if str ''x'' ! 0 \<in> set d \<or> str ''*'' ! 0 \<in> set d then -1
      else if list_all num_char d then 1 else -1)"

subsection \<open>The commands\<close>

text \<open>The fields behind the command name; \<open>None\<close> is \<open>eMOBILEYE_CMD_RET__FAIL\<close>.\<close>

definition parse_fcw :: "byte list list \<Rightarrow> int option" where
  "parse_fcw argv =
     (if length argv \<noteq> 3 then None else if argv ! 0 \<noteq> MOBILEYE_CMD_FCW__COMMAND then None
      else Some (atoi (argv ! 1)))"

definition parse_pcw :: "byte list list \<Rightarrow> int option" where
  "parse_pcw argv =
     (if length argv \<noteq> 3 then None else if argv ! 0 \<noteq> MOBILEYE_CMD_PCW__COMMAND then None
      else Some (atoi (argv ! 1)))"

definition parse_ldw :: "byte list list \<Rightarrow> (int \<times> byte) option" where
  "parse_ldw argv =
     (if length argv \<noteq> 4 then None else if argv ! 0 \<noteq> MOBILEYE_CMD_LDW__COMMAND then None
      else Some (atoi (argv ! 1), case argv ! 2 of [] \<Rightarrow> 0 | c # r \<Rightarrow> c))"

definition parse_hmw :: "byte list list \<Rightarrow> int option" where
  "parse_hmw argv =
     (if length argv \<noteq> 3 then None else if argv ! 0 \<noteq> MOBILEYE_CMD_HMW__COMMAND then None
      else Some (atoi (argv ! 1)))"

text \<open>The warning level and the speed.\<close>

definition parse_sli :: "byte list list \<Rightarrow> (int \<times> int) option" where
  "parse_sli argv =
     (if length argv \<noteq> 4 then None else if argv ! 0 \<noteq> MOBILEYE_CMD_SLI__COMMAND then None
      else Some (atoi (argv ! 1), atoi (argv ! 2)))"

text \<open>The outer \<open>None\<close> is a code that does not fit the eight bytes of \<open>err_code\<close>.\<close>

definition parse_err :: "byte list list \<Rightarrow> byte list option option" where
  "parse_err argv =
     (if length argv \<noteq> 3 then Some None else if argv ! 0 \<noteq> MOBILEYE_CMD_ERR__COMMAND then Some None
      else if length (argv ! 1) \<ge> 8 then None else Some (Some (argv ! 1)))"

definition parse_sync :: "byte list list \<Rightarrow> int option" where
  "parse_sync argv =
     (if length argv \<noteq> 3 then None else if argv ! 0 \<noteq> MOBILEYE_CMD_SYNC__COMMAND then None
      else Some (atoi (argv ! 1)))"

text \<open>The text of the log entry of an error has 64 bytes.\<close>

definition err_log_length :: "byte list list \<Rightarrow> nat" where
  "err_log_length argv = sum_list (map (\<lambda>a. length a + 2) argv)"

definition err_event :: "byte list \<Rightarrow> adas_evt_data \<Rightarrow> adas_evt_data" where
  "err_event code e =
     e\<lparr>evt_code := eADAS_EVT__ERR,
       evt_data_4 := (if atoi code = 0 then (case code of [] \<Rightarrow> 0 | c # r \<Rightarrow> - uint c) else atoi code),
       evt_ext := code\<rparr>"

definition ldw_event :: "int \<Rightarrow> byte \<Rightarrow> adas_evt_data \<Rightarrow> adas_evt_data" where
  "ldw_event speed lane e =
     (let e1 = e\<lparr>evt_code := eADAS_EVT__LDW, evt_data_1 := speed\<rparr> in
      if lane = 108 \<or> lane = 76 then e1\<lparr>evt_data_4 := 0\<rparr>
      else if lane = 114 \<or> lane = 82 then e1\<lparr>evt_data_4 := 1\<rparr> else e1)"

text \<open>The branches, with the count of failures; the second block of the last one is not an \<open>else\<close>.\<close>

definition evt_branches :: "byte list list \<Rightarrow> adas_evt_data \<Rightarrow> nat \<Rightarrow> (adas_evt_data \<times> nat) option" where
  "evt_branches argv e cnt =
     (if argv = [] then Some (e, cnt + 1)
      else if argv ! 0 = MOBILEYE_CMD_FCW__COMMAND then
        (case parse_fcw argv of
           None \<Rightarrow> Some (e, cnt + 1)
         | Some v \<Rightarrow> Some (e\<lparr>evt_code := (if v > 30 then eADAS_EVT__FCW else eADAS_EVT__UFCW), evt_data_1 := v\<rparr>, 0))
      else if argv ! 0 = MOBILEYE_CMD_PCW__COMMAND then
        (case parse_pcw argv of
           None \<Rightarrow> Some (e, cnt + 1)
         | Some v \<Rightarrow> Some (e\<lparr>evt_code := eADAS_EVT__PCW, evt_data_1 := v\<rparr>, 0))
      else if argv ! 0 = MOBILEYE_CMD_LDW__COMMAND then
        (case parse_ldw argv of None \<Rightarrow> Some (e, cnt + 1) | Some (v, lane) \<Rightarrow> Some (ldw_event v lane e, 0))
      else if argv ! 0 = MOBILEYE_CMD_HMW__COMMAND then
        (case parse_hmw argv of
           None \<Rightarrow> Some (e, cnt + 1)
         | Some v \<Rightarrow> Some (e\<lparr>evt_code := eADAS_EVT__HMW, evt_data_1 := v\<rparr>, 0))
      else if argv ! 0 = MOBILEYE_CMD_SLI__COMMAND then
        (case parse_sli argv of
           None \<Rightarrow> Some (e, cnt + 1)
         | Some (l, v) \<Rightarrow> Some (e\<lparr>evt_code := eADAS_EVT__SLI, evt_data_1 := v, evt_data_4 := l\<rparr>, 0))
      else if argv ! 0 = MOBILEYE_CMD_ERR__COMMAND then
        (if err_log_length argv \<ge> 64 then None
         else
           (case parse_err argv of
              None \<Rightarrow> None
            | Some None \<Rightarrow> Some (e, cnt + 1)
            | Some (Some code) \<Rightarrow> Some (err_event code e, 0)))
      else if argv ! 0 = MOBILEYE_CMD_SYNC__COMMAND then
        (case (case parse_sync argv of
                 None \<Rightarrow> (e\<lparr>evt_code := eADAS_EVT__INVALID\<rparr>, cnt + 1) | Some v \<Rightarrow> (e, cnt)) of
           (e1, cnt1) \<Rightarrow> Some (e1\<lparr>evt_code := eADAS_EVT__NONE\<rparr>, 0))
      else Some (e, cnt + 1))"

definition mobileye_get_evt_data :: "byte list list \<Rightarrow> adas_evt_data \<Rightarrow> nat \<Rightarrow> (adas_evt_data \<times> nat) option" where
  "mobileye_get_evt_data argv e cnt =
     (case evt_branches argv e cnt of
        None \<Rightarrow> None
      | Some (e1, cnt1) \<Rightarrow> Some (e1, if cnt1 > MAX_ADAS_CHK_ERR then 0 else cnt1))"

subsection \<open>The reading thread\<close>

record mobileye =
  me_cnt :: nat
  me_fails :: nat
  me_uart :: adas_uart
  me_out :: "adas_evt_data list"

definition has_chk_msg :: "byte list \<Rightarrow> bool" where
  "has_chk_msg l \<longleftrightarrow> list_ex (\<lambda>i. take 3 (drop i l) = MOBILEYE_CHK_MSG) [0..<length l]"

definition invalid_evt :: adas_evt_data where
  "invalid_evt = zero_evt\<lparr>evt_code := eADAS_EVT__INVALID\<rparr>"

text \<open>
  The event of a line of \<open>n\<close> bytes that carries the mark; \<open>bypass\<close> is the build switch that hands the
  line on as it is.
\<close>

definition line_event :: "bool \<Rightarrow> nat \<Rightarrow> byte list \<Rightarrow> nat \<Rightarrow> (adas_evt_data \<times> nat) option" where
  "line_event bypass n l cnt =
     (if bypass then
        (if n > 32 then None
         else Some (invalid_evt\<lparr>evt_code := eADAS_EVT__BYPASS, evt_ext := take n l\<rparr>, cnt))
      else
        (case tool_device_argument l of
           None \<Rightarrow> None
         | Some argv \<Rightarrow> if length argv > 0 then mobileye_get_evt_data argv invalid_evt cnt else Some (invalid_evt, cnt)))"

text \<open>One round of the loop over the lines; \<open>ok\<close> is \<open>parse_success_flag\<close>.\<close>

definition mobileye_line :: "bool \<Rightarrow> nat \<Rightarrow> byte list \<Rightarrow> bool \<Rightarrow> mobileye \<Rightarrow> (bool \<times> mobileye) option" where
  "mobileye_line bypass n l ok m =
     (case (if has_chk_msg l then line_event bypass n l (me_cnt m) else Some (invalid_evt, me_cnt m)) of
        None \<Rightarrow> None
      | Some (e, cnt) \<Rightarrow>
          (let ok1 = (has_chk_msg l \<or> ok);
               m1 = (if ok1 then m else m\<lparr>me_uart := uart_deinit (me_uart m)\<rparr>)
           in Some (ok1, m1\<lparr>me_cnt := cnt, me_out := me_out m1 @ [e]\<rparr>)))"

text \<open>\<open>rl\<close> gives the length of the first line of a text and the line without its end.\<close>

function mobileye_lines :: "bool \<Rightarrow> (byte list \<Rightarrow> nat \<times> byte list) \<Rightarrow> byte list \<Rightarrow> bool \<Rightarrow> mobileye \<Rightarrow> mobileye option" where
  "mobileye_lines bypass rl t ok m =
     (if t = [] then Some m
      else if fst (rl t) = 0 then Some m
      else
        (case mobileye_line bypass (fst (rl t)) (snd (rl t)) ok m of
           None \<Rightarrow> None
         | Some (ok1, m1) \<Rightarrow> mobileye_lines bypass rl (drop (fst (rl t)) t) ok1 m1))"
  by pat_completeness auto
termination by (relation "measure (\<lambda>(bypass, rl, t, ok, m). length t)") auto

declare mobileye_lines.simps [simp del]

text \<open>
  A pass of the thread with the results of opening the line and the bytes of the read; a read that
  fills the buffer leaves no NUL for \<open>strlen\<close>.
\<close>

definition mobileye_read_pass ::
    "bool \<Rightarrow> (byte list \<Rightarrow> nat \<times> byte list) \<Rightarrow> (nat \<Rightarrow> int) \<Rightarrow> byte list \<Rightarrow> mobileye \<Rightarrow> mobileye option" where
  "mobileye_read_pass bypass rl fds got m0 =
     (let m = (if me_fails m0 > MAX_READ_ADAS_UART_INVAILD_CHK then m0\<lparr>me_fails := 0\<rparr> else m0) in
      case uart_chk MOBILEYE_DEFAULT_BAUDRATE fds (me_uart m) of
        (r, u) \<Rightarrow>
          (let m1 = m\<lparr>me_uart := u\<rparr> in
           if r \<noteq> 0 then Some m1
           else if uart_get_fd u = ADAS_INVAILD_FD then Some m1
           else if got = [] then Some (m1\<lparr>me_out := me_out m1 @ [invalid_evt], me_fails := me_fails m1 + 1\<rparr>)
           else if 0 \<notin> set got \<and> length got \<ge> MAX_MOBILEYE_ADAS_RET_BUFF_SIZE then None
           else mobileye_lines bypass rl (c_text got) False (m1\<lparr>me_fails := 0\<rparr>)))"

subsection \<open>The fields read back\<close>

text \<open>The cutting of a line by recursion on its characters.\<close>

fun split_fields :: "byte list \<Rightarrow> byte list list" where
  "split_fields [] = [[]]"
| "split_fields (c # l) =
     (if field_end c then [] # split_fields l
      else if c = 32 \<or> c = 0 then [] # tl (split_fields l)
      else (c # hd (split_fields l)) # tl (split_fields l))"

lemma fields_not_nil: "split_fields l \<noteq> []"
  by (cases l) auto

lemma offsets_Cons:
  "arg_offsets (c # l) = 0 # map Suc (if field_end c then arg_offsets l else tl (arg_offsets l))"
proof -
  have "[0..<length (c # l)] = 0 # map Suc [0..<length l]" by (simp add: upt_conv_Cons map_Suc_upt del: upt_Suc)
  then show ?thesis by (simp add: arg_offsets_def filter_map comp_def del: upt_Suc)
qed

lemma c_text_Cons: "c_text (c # l) = (if c = 0 then [] else c # c_text l)"
  by (simp add: c_text_def)

lemma args_cut:
  "map (\<lambda>off. c_text (drop off (map kept l @ replicate (Suc k) 0))) (arg_offsets l) = split_fields l"
proof (induction l)
  case Nil
  then show ?case by (simp add: arg_offsets_def c_text_def)
next
  case (Cons c l)
  let ?out = "map kept l @ replicate (Suc k) 0"
  obtain os where os: "arg_offsets l = 0 # os" by (simp add: arg_offsets_def)
  have ih: "split_fields l = c_text ?out # map (\<lambda>off. c_text (drop off ?out)) os"
    using Cons os by (simp del: replicate.simps)
  have "map (\<lambda>off. c_text (drop off (kept c # ?out))) (arg_offsets (c # l)) =
    c_text (kept c # ?out) # map (\<lambda>off. c_text (drop off ?out)) (if field_end c then 0 # os else os)"
    unfolding offsets_Cons os by (simp add: comp_def del: replicate.simps)
  also have "\<dots> = split_fields (c # l)" using ih by (auto simp: c_text_Cons kept_def simp del: replicate.simps)
  finally show ?case by simp
qed

definition clean_field :: "byte list \<Rightarrow> bool" where
  "clean_field f \<longleftrightarrow> (\<forall>c \<in> set f. \<not> field_end c \<and> c \<noteq> 32 \<and> c \<noteq> 0)"

lemma fields_clean: "clean_field f \<Longrightarrow> split_fields f = [f]"
  by (induction f) (auto simp: clean_field_def)

lemma fields_field: "\<lbrakk>clean_field f; field_end s\<rbrakk> \<Longrightarrow> split_fields (f @ s # l) = f # split_fields l"
  by (induction f) (auto simp: clean_field_def)

text \<open>A line: the first field, and every further one behind the character that ends the one before.\<close>

fun line_of :: "byte list \<Rightarrow> (byte \<times> byte list) list \<Rightarrow> byte list" where
  "line_of f [] = f"
| "line_of f ((s, g) # r) = f @ s # line_of g r"

lemma fields_line:
  "\<lbrakk>clean_field f; \<forall>(s, g) \<in> set r. field_end s \<and> clean_field g\<rbrakk> \<Longrightarrow> split_fields (line_of f r) = f # map snd r"
  by (induction f r rule: line_of.induct) (auto simp: fields_clean fields_field)

lemma argument_cut:
  assumes "l \<noteq> []" "length l < MAX_MOBILEYE_ADAS_RET_BUFF_SIZE" "length (split_fields l) \<le> 640"
  shows "tool_device_argument l = Some (split_fields l)"
proof -
  obtain k where k: "MAX_MOBILEYE_ADAS_RET_BUFF_SIZE - length l = Suc k" using assms(2)
    by (metis Suc_diff_Suc)
  have c: "map (\<lambda>off. c_text (drop off (map kept l @ replicate (Suc k) 0))) (arg_offsets l) = split_fields l" by (rule args_cut)
  then have "length (arg_offsets l) = length (split_fields l)" by (metis length_map)
  with c assms k show ?thesis by (simp add: tool_device_argument_def Let_def del: replicate.simps)
qed

text \<open>
  A line of fields without spaces, commas and stars is cut into exactly these fields, whichever of
  the two characters separates them, as long as line and pointers fit their tables.
\<close>

theorem mobileye_fields:
  assumes "clean_field f" and "\<forall>(s, g) \<in> set r. field_end s \<and> clean_field g" and "line_of f r \<noteq> []"
    and "length (line_of f r) < 1024" and "length r < 640"
  shows "tool_device_argument (line_of f r) = Some (f # map snd r)"
  using argument_cut [of "line_of f r"] fields_line [OF assms(1,2)] assms(3-5)
  by (simp add: MAX_MOBILEYE_ADAS_RET_BUFF_SIZE_def)

lemma mobileye_fields_witness:
  "tool_device_argument (line_of (str ''$MEFCW'') [(44, str ''70''), (42, str ''71'')]) =
     Some [str ''$MEFCW'', str ''70'', str ''71'']"
  using mobileye_fields [of "str ''$MEFCW''" "[(44, str ''70''), (42, str ''71'')]"]
  by (simp add: clean_field_def field_end_def str_def)

subsection \<open>The event of a line\<close>

lemmas commands = MOBILEYE_CMD_FCW__COMMAND_def MOBILEYE_CMD_PCW__COMMAND_def MOBILEYE_CMD_LDW__COMMAND_def
  MOBILEYE_CMD_HMW__COMMAND_def MOBILEYE_CMD_SLI__COMMAND_def MOBILEYE_CMD_ERR__COMMAND_def
  MOBILEYE_CMD_SYNC__COMMAND_def

definition all_commands :: "byte list list" where
  "all_commands = [MOBILEYE_CMD_FCW__COMMAND, MOBILEYE_CMD_PCW__COMMAND, MOBILEYE_CMD_LDW__COMMAND,
    MOBILEYE_CMD_HMW__COMMAND, MOBILEYE_CMD_SLI__COMMAND, MOBILEYE_CMD_ERR__COMMAND, MOBILEYE_CMD_SYNC__COMMAND]"

lemma commands_differ: "distinct all_commands" "distinct (rev all_commands)"
  by (simp_all add: all_commands_def commands str_def)

lemmas commands_neq = commands_differ [unfolded all_commands_def, simplified distinct.simps rev.simps append.simps
    list.set insert_iff empty_iff de_Morgan_disj not_False_eq_True simp_thms]

text \<open>
  The checksum of the line is never compared: apart from the entry for the log, whose length counts,
  the last field does not matter.
\<close>

lemma checksum_not_read:
  assumes "argv \<noteq> []" "length c = length d"
  shows "mobileye_get_evt_data (argv @ [c]) e n = mobileye_get_evt_data (argv @ [d]) e n"
proof -
  have nth: "i < length argv \<Longrightarrow> (argv @ [x]) ! i = argv ! i" for i x by (simp add: nth_append)
  have h: "(argv @ [x]) ! 0 = argv ! 0" for x using assms(1) by (simp add: nth)
  have "err_log_length (argv @ [c]) = err_log_length (argv @ [d])" using assms(2) by (simp add: err_log_length_def)
  moreover have "parse_fcw (argv @ [c]) = parse_fcw (argv @ [d])" "parse_pcw (argv @ [c]) = parse_pcw (argv @ [d])"
    "parse_hmw (argv @ [c]) = parse_hmw (argv @ [d])" "parse_ldw (argv @ [c]) = parse_ldw (argv @ [d])"
    "parse_sli (argv @ [c]) = parse_sli (argv @ [d])" "parse_err (argv @ [c]) = parse_err (argv @ [d])"
    "parse_sync (argv @ [c]) = parse_sync (argv @ [d])"
    by (auto simp: parse_fcw_def parse_pcw_def parse_hmw_def parse_ldw_def parse_sli_def parse_err_def
        parse_sync_def nth_append)
  ultimately show ?thesis by (simp add: mobileye_get_evt_data_def evt_branches_def h)
qed

text \<open>
  A line that begins as an alive message always counts as one, even when it is cut off: the block that
  should be the \<open>else\<close> of the failed parse is run in any case.
\<close>

lemma broken_sync_alive:
  "argv \<noteq> [] \<Longrightarrow> argv ! 0 = MOBILEYE_CMD_SYNC__COMMAND \<Longrightarrow>
   mobileye_get_evt_data argv e n = Some (e\<lparr>evt_code := eADAS_EVT__NONE\<rparr>, 0)"
  by (simp add: mobileye_get_evt_data_def evt_branches_def commands_neq split: option.split)

text \<open>The failures in a row stay within the limit; nothing else happens when they reach it.\<close>

lemma fail_count_bounded:
  "mobileye_get_evt_data argv e n = Some (e1, n1) \<Longrightarrow> n1 \<le> MAX_ADAS_CHK_ERR"
  by (auto simp: mobileye_get_evt_data_def split: option.splits if_splits)

lemma decimal_clean: "0 \<le> v \<Longrightarrow> clean_field (sprintf_d v)"
proof -
  assume "0 \<le> v"
  then have "list_all is_dec (sprintf_d v)" using dec_digits_read [of "nat v"] by (simp add: sprintf_d_def)
  moreover have "is_dec c \<Longrightarrow> \<not> field_end c \<and> c \<noteq> 32 \<and> c \<noteq> 0" for c
    by (auto simp: is_dec_def field_end_def)
  ultimately show "clean_field (sprintf_d v)" by (simp add: clean_field_def list_all_iff)
qed

definition event_line :: "string \<Rightarrow> byte list list \<Rightarrow> byte list" where
  "event_line cmd fs = line_of (str cmd) (map (\<lambda>f. (44, f)) (butlast fs) @ [(42, last fs)])"

lemma decimal_short: "0 \<le> v \<Longrightarrow> v < 1000 \<Longrightarrow> length (sprintf_d v) \<le> 3"
proof -
  assume v: "0 \<le> v" "v < 1000"
  then have "length (dec_digits (nat v)) \<le> 3"
    by (subst dec_digits.simps, simp, subst dec_digits.simps, simp) (auto simp: dec_digits.simps)
  then show "length (sprintf_d v) \<le> 3" using v by (simp add: sprintf_d_def)
qed

lemma str_length [simp]: "length (str x) = length x"
  by (simp add: str_def)

lemma event_args:
  assumes "clean_field (str cmd)" "length cmd < 10" "clean_field a" "length a < 10" "clean_field b" "length b < 10"
  shows "tool_device_argument (event_line cmd [a, b]) = Some [str cmd, a, b]"
    and "clean_field d \<Longrightarrow> length d < 10 \<Longrightarrow> tool_device_argument (event_line cmd [a, b, d]) = Some [str cmd, a, b, d]"
  using mobileye_fields [of "str cmd" "[(44, a), (42, b)]"] mobileye_fields [of "str cmd" "[(44, a), (44, b), (42, d)]"] assms
  by (simp_all add: event_line_def field_end_def)

lemma commands_clean:
  "clean_field (str ''$MEFCW'')" "clean_field (str ''$MEPCW'')" "clean_field (str ''$MEHMW'')" "clean_field (str ''$MESLI'')"
  "clean_field (str ''$MELDW'')" "clean_field (str ''$MESYNC'')" "clean_field (str ''$MEERR'')"
  by (auto simp: clean_field_def str_def field_end_def)

lemma lane_clean: "c \<in> {CHR ''L'', CHR ''l'', CHR ''R'', CHR ''r''} \<Longrightarrow> clean_field (str [c])"
  by (auto simp: clean_field_def str_def field_end_def)

lemmas line_rules = line_event_def mobileye_get_evt_data_def evt_branches_def commands commands_neq [unfolded commands]
  parse_fcw_def parse_pcw_def parse_hmw_def parse_sli_def parse_ldw_def parse_sync_def parse_err_def
  err_log_length_def

text \<open>
  C40: the lines of the manual, with a speed of up to 999 km/h and whatever stands behind the star, give
  the events they stand for: forward collision (urban up to 30 km/h), pedestrian, distance, speed limit
  with its level, the lane on the left (0) and on the right (1) in small and in capital letters, an error
  with its number, and the sign of life. Each of them sets the count of failures to zero.
\<close>

theorem mobileye_line_events:
  assumes "0 \<le> v" "v < 1000" and "0 \<le> k" "k < 1000" and "clean_field cs" "length cs < 10"
  shows "line_event False n (event_line ''$MEFCW'' [sprintf_d v, cs]) j =
      Some (invalid_evt\<lparr>evt_code := (if v > 30 then eADAS_EVT__FCW else eADAS_EVT__UFCW), evt_data_1 := v\<rparr>, 0) \<and>
    line_event False n (event_line ''$MEPCW'' [sprintf_d v, cs]) j =
      Some (invalid_evt\<lparr>evt_code := eADAS_EVT__PCW, evt_data_1 := v\<rparr>, 0) \<and>
    line_event False n (event_line ''$MEHMW'' [sprintf_d v, cs]) j =
      Some (invalid_evt\<lparr>evt_code := eADAS_EVT__HMW, evt_data_1 := v\<rparr>, 0) \<and>
    line_event False n (event_line ''$MESLI'' [sprintf_d k, sprintf_d v, cs]) j =
      Some (invalid_evt\<lparr>evt_code := eADAS_EVT__SLI, evt_data_1 := v, evt_data_4 := k\<rparr>, 0) \<and>
    (\<forall>(c, side) \<in> {(CHR ''L'', 0), (CHR ''l'', 0), (CHR ''R'', 1), (CHR ''r'', 1)}.
      line_event False n (event_line ''$MELDW'' [sprintf_d v, str [c], cs]) j =
        Some (invalid_evt\<lparr>evt_code := eADAS_EVT__LDW, evt_data_1 := v, evt_data_4 := side\<rparr>, 0)) \<and>
    (0 < k \<longrightarrow> line_event False n (event_line ''$MEERR'' [sprintf_d k, cs]) j =
      Some (invalid_evt\<lparr>evt_code := eADAS_EVT__ERR, evt_data_4 := k, evt_ext := sprintf_d k\<rparr>, 0)) \<and>
    line_event False n (event_line ''$MESYNC'' [sprintf_d v, cs]) j =
      Some (invalid_evt\<lparr>evt_code := eADAS_EVT__NONE\<rparr>, 0)"
proof -
  have short: "length (sprintf_d v) < 10" "length (sprintf_d k) < 10" "\<not> 8 \<le> length (sprintf_d k)"
    "\<not> 52 \<le> length (sprintf_d k) + length cs"
    using decimal_short [OF assms(1,2)] decimal_short [OF assms(3,4)] assms(6) by simp_all
  note facts = short decimal_clean [OF assms(1)] decimal_clean [OF assms(3)] assms(5,6) commands_clean
    atoi_sprintf [OF assms(1)] atoi_sprintf [OF assms(3)]
  have lane: "line_event False n (event_line ''$MELDW'' [sprintf_d v, str [c], cs]) j =
      Some (invalid_evt\<lparr>evt_code := eADAS_EVT__LDW, evt_data_1 := v, evt_data_4 := side\<rparr>, 0)"
    if "(c, side) \<in> {(CHR ''L'', 0), (CHR ''l'', 0), (CHR ''R'', 1), (CHR ''r'', 1)}" for c side
  proof -
    have c: "c \<in> {CHR ''L'', CHR ''l'', CHR ''R'', CHR ''r''}" using that by auto
    have "tool_device_argument (event_line ''$MELDW'' [sprintf_d v, str [c], cs]) =
        Some [str ''$MELDW'', sprintf_d v, str [c], cs]"
      by (rule event_args(2)) (simp_all add: facts lane_clean [OF c])
    moreover have "str [c] = [of_char c]" by (simp add: str_def)
    ultimately have "line_event False n (event_line ''$MELDW'' [sprintf_d v, str [c], cs]) j =
        Some (ldw_event v (of_char c) invalid_evt, 0)"
      by (simp add: facts line_rules)
    then show ?thesis using that by (auto simp: ldw_event_def invalid_evt_def zero_evt_def)
  qed
  have "line_event False n (event_line ''$MEFCW'' [sprintf_d v, cs]) j =
      Some (invalid_evt\<lparr>evt_code := (if v > 30 then eADAS_EVT__FCW else eADAS_EVT__UFCW), evt_data_1 := v\<rparr>, 0)"
    by (simp add: event_args(1) facts line_rules)
  moreover have "line_event False n (event_line ''$MEPCW'' [sprintf_d v, cs]) j =
      Some (invalid_evt\<lparr>evt_code := eADAS_EVT__PCW, evt_data_1 := v\<rparr>, 0)"
    by (simp add: event_args(1) facts line_rules)
  moreover have "line_event False n (event_line ''$MEHMW'' [sprintf_d v, cs]) j =
      Some (invalid_evt\<lparr>evt_code := eADAS_EVT__HMW, evt_data_1 := v\<rparr>, 0)"
    by (simp add: event_args(1) facts line_rules)
  moreover have "line_event False n (event_line ''$MESLI'' [sprintf_d k, sprintf_d v, cs]) j =
      Some (invalid_evt\<lparr>evt_code := eADAS_EVT__SLI, evt_data_1 := v, evt_data_4 := k\<rparr>, 0)"
    by (simp add: event_args(2) facts line_rules)
  moreover have "0 < k \<longrightarrow> line_event False n (event_line ''$MEERR'' [sprintf_d k, cs]) j =
      Some (invalid_evt\<lparr>evt_code := eADAS_EVT__ERR, evt_data_4 := k, evt_ext := sprintf_d k\<rparr>, 0)"
    by (simp add: event_args(1) facts line_rules err_event_def)
  moreover have "line_event False n (event_line ''$MESYNC'' [sprintf_d v, cs]) j =
      Some (invalid_evt\<lparr>evt_code := eADAS_EVT__NONE\<rparr>, 0)"
    by (simp add: event_args(1) facts line_rules)
  ultimately show ?thesis using lane by blast
qed

lemma mobileye_line_events_witness:
  "line_event False 13 (event_line ''$MEFCW'' [sprintf_d 70, str ''71'']) 5 =
      Some (invalid_evt\<lparr>evt_code := (if (70::int) > 30 then eADAS_EVT__FCW else eADAS_EVT__UFCW), evt_data_1 := 70\<rparr>, 0) \<and>
   line_event False 13 (event_line ''$MESLI'' [sprintf_d 4, sprintf_d 70, str ''71'']) 5 =
      Some (invalid_evt\<lparr>evt_code := eADAS_EVT__SLI, evt_data_1 := 70, evt_data_4 := 4\<rparr>, 0) \<and>
   line_event False 13 (event_line ''$MELDW'' [sprintf_d 70, str [CHR ''L''], str ''71'']) 5 =
      Some (invalid_evt\<lparr>evt_code := eADAS_EVT__LDW, evt_data_1 := 70, evt_data_4 := 0\<rparr>, 0)"
  using mobileye_line_events [of 70 4 "str ''71''" 13 5] by (simp add: clean_field_def field_end_def str_def)

end
