(* ===== verification/BmSearch.thy ===== *)
theory BmSearch
  imports Posix
begin

text \<open>
  The string search of \<open>model/alloc3/alloc_packet_tool.c\<close> (and of \<open>util/at-bridge-util.c\<close>, which holds a
  copy): a comparison from the right with the bad character rule. It is shown to find what the search
  at one place after the other finds. A \<open>char\<close> is unsigned, so the table has one entry for each of its
  values.
\<close>

definition badCharHeuristic :: "byte list \<Rightarrow> nat \<Rightarrow> byte \<Rightarrow> int" where
  "badCharHeuristic p sz = fold (\<lambda>i badchar. badchar(p ! i := int i)) [0..<sz] (\<lambda>_. -1)"

text \<open>The inner loop: the index of the last character that differs, -1 when none does.\<close>

fun last_mismatch :: "byte list \<Rightarrow> byte list \<Rightarrow> nat \<Rightarrow> nat \<Rightarrow> int" where
  "last_mismatch hay pat s 0 = -1"
| "last_mismatch hay pat s (Suc j) =
     (if pat ! j = hay ! (s + j) then last_mismatch hay pat s j else int j)"

function bm_loop :: "byte list \<Rightarrow> int \<Rightarrow> byte list \<Rightarrow> int \<Rightarrow> (byte \<Rightarrow> int) \<Rightarrow> int \<Rightarrow> int" where
  "bm_loop hay n pat m badchar s =
     (if s \<le> n - m then
        (let j = last_mismatch hay pat (nat s) (nat m) in
         if j < 0 then s
         else bm_loop hay n pat m badchar (s + max 1 (j - badchar (hay ! nat (s + j)))))
      else -1)"
  by pat_completeness auto
termination by (relation "measure (\<lambda>(hay, n, pat, m, badchar, s). nat (n - m - s + 1))") auto

declare bm_loop.simps [simp del]

definition bm_search :: "byte list \<Rightarrow> int \<Rightarrow> byte list \<Rightarrow> int \<Rightarrow> int" where
  "bm_search hay n pat m = bm_loop hay n pat m (badCharHeuristic pat (nat m)) 0"

subsection \<open>The search it is\<close>

definition occurs :: "byte list \<Rightarrow> byte list \<Rightarrow> nat \<Rightarrow> nat \<Rightarrow> bool" where
  "occurs hay pat m s \<longleftrightarrow> list_all (\<lambda>k. pat ! k = hay ! (s + k)) [0..<m]"

lemma occursD: "occurs hay pat m s \<Longrightarrow> k < m \<Longrightarrow> pat ! k = hay ! (s + k)"
  by (simp add: occurs_def list_all_iff)

definition result_of :: "nat option \<Rightarrow> int" where
  "result_of r = (case r of None \<Rightarrow> -1 | Some s \<Rightarrow> int s)"

text \<open>The table holds the last place of a character, or -1.\<close>

lemma badchar_last:
  "k < sz \<Longrightarrow> badCharHeuristic p sz c < int k \<Longrightarrow> p ! k \<noteq> c"
proof (induction sz)
  case (Suc sz)
  have b: "badCharHeuristic p (Suc sz) c = (if c = p ! sz then int sz else badCharHeuristic p sz c)"
    by (simp add: badCharHeuristic_def)
  with Suc show ?case by (cases "k = sz") (auto split: if_splits)
qed simp

lemma badchar_less: "badCharHeuristic p sz c < int sz"
proof (induction sz)
  case (Suc sz)
  have "badCharHeuristic p (Suc sz) c = (if c = p ! sz then int sz else badCharHeuristic p sz c)"
    by (simp add: badCharHeuristic_def)
  with Suc show ?case by simp
qed (simp add: badCharHeuristic_def)

lemma mismatch_none: "last_mismatch hay pat s m < 0 \<longleftrightarrow> occurs hay pat m s"
  by (induction m) (simp_all add: occurs_def)

lemma mismatch_some:
  "\<not> occurs hay pat m s \<Longrightarrow> \<exists>j < m. last_mismatch hay pat s m = int j \<and> pat ! j \<noteq> hay ! (s + j)"
proof (induction m)
  case (Suc m)
  then show ?case by (cases "pat ! m = hay ! (s + m)") (fastforce simp: occurs_def)+
qed (simp add: occurs_def)

text \<open>The places that the rule passes over hold no occurrence.\<close>

lemma skipped:
  assumes j: "j < m" "pat ! j \<noteq> hay ! (s + j)"
    and d: "int d < max 1 (int j - badCharHeuristic pat m (hay ! (s + j)))"
  shows "\<not> occurs hay pat m (s + d)"
proof
  assume o: "occurs hay pat m (s + d)"
  show False
  proof (cases "d = 0")
    case True
    with o j show False using occursD [OF o j(1)] by simp
  next
    case False
    then have lt: "badCharHeuristic pat m (hay ! (s + j)) < int j - int d" using d by (auto simp: max_def split: if_splits)
    show False
    proof (cases "d \<le> j")
      case True
      then have "badCharHeuristic pat m (hay ! (s + j)) < int (j - d)" using lt by (simp add: of_nat_diff)
      then have "pat ! (j - d) \<noteq> hay ! (s + j)" using badchar_last [of "j - d" m] j(1) by auto
      moreover have "s + d + (j - d) = s + j" using True by simp
      then have "pat ! (j - d) = hay ! (s + j)" using occursD [OF o, of "j - d"] j(1) by simp
      ultimately show False by simp
    next
      case False
      have "-1 \<le> badCharHeuristic pat k c" for k c by (induction k) (auto simp: badCharHeuristic_def)
      from this [of m "hay ! (s + j)"] have "int d < int j + 1" using lt by linarith
      with False show False by simp
    qed
  qed
qed

lemma find_skip:
  "s \<le> t \<Longrightarrow> (\<forall>u. s \<le> u \<and> u < t \<longrightarrow> \<not> P u) \<Longrightarrow> find P [s..<n] = find P [t..<n]"
proof (induction "t - s" arbitrary: s)
  case (Suc k)
  then have "s < t" by simp
  show ?case
  proof (cases "s < n")
    case True
    then have "find P [s..<n] = find P [Suc s..<n]"
      using Suc.prems(2) \<open>s < t\<close> by (subst upt_conv_Cons) auto
    also have "\<dots> = find P [t..<n]" using Suc.hyps(1) [of "Suc s"] Suc.hyps(2) Suc.prems \<open>s < t\<close> by auto
    finally show ?thesis .
  qed (use \<open>s < t\<close> in simp)
qed simp

lemma bm_loop_find:
  "bm_loop hay (int n) pat (int m) (badCharHeuristic pat m) (int s) =
     result_of (find (occurs hay pat m) [s..<Suc n - m])"
proof (induction "Suc n - m - s" arbitrary: s rule: less_induct)
  case less
  show ?case
  proof (cases "m + s \<le> n")
    case False
    then show ?thesis by (subst bm_loop.simps) (auto simp: result_of_def)
  next
    case True
    show ?thesis
    proof (cases "occurs hay pat m s")
      case oc: True
      have "[s..<Suc n - m] = s # [Suc s..<Suc n - m]" using True by (intro upt_conv_Cons) simp
      with oc True mismatch_none [of hay pat s m] show ?thesis
        by (subst bm_loop.simps) (simp add: result_of_def Let_def)
    next
      case no: False
      obtain j where j: "j < m" "last_mismatch hay pat s m = int j" "pat ! j \<noteq> hay ! (s + j)"
        using mismatch_some [OF no] by blast
      let ?d = "max 1 (int j - badCharHeuristic pat m (hay ! (s + j)))"
      have st: "int s + ?d = int (s + nat ?d)" by simp
      have "bm_loop hay (int n) pat (int m) (badCharHeuristic pat m) (int s) =
          bm_loop hay (int n) pat (int m) (badCharHeuristic pat m) (int (s + nat ?d))"
        using True j(2) st by (subst bm_loop.simps) (simp add: Let_def nat_add_distrib)
      also have "\<dots> = result_of (find (occurs hay pat m) [s + nat ?d..<Suc n - m])"
        using True by (intro less) auto
      also have "find (occurs hay pat m) [s + nat ?d..<Suc n - m] = find (occurs hay pat m) [s..<Suc n - m]"
      proof (rule find_skip [symmetric])
        show "\<forall>u. s \<le> u \<and> u < s + nat ?d \<longrightarrow> \<not> occurs hay pat m u"
        proof (intro allI impI)
          fix u assume u: "s \<le> u \<and> u < s + nat ?d"
          then have "int (u - s) < ?d" by linarith
          from skipped [OF j(1,3) this] u show "\<not> occurs hay pat m u" by simp
        qed
      qed simp
      finally show ?thesis .
    qed
  qed
qed

text \<open>
  C20: the search returns the first place at which the pattern stands, as the search at one place after
  the other does, and -1 when there is none: the bad character rule never skips an occurrence.
\<close>

theorem bm_search_first:
  "bm_search hay (int n) pat (int m) =
     (case find (\<lambda>s. list_all (\<lambda>k. pat ! k = hay ! (s + k)) [0..<m]) [0..<Suc n - m] of
        None \<Rightarrow> -1 | Some s \<Rightarrow> int s)"
  using bm_loop_find [of hay n pat m 0] by (simp add: bm_search_def result_of_def occurs_def [abs_def])

text \<open>For texts that are given by their bytes: found exactly when the pattern is part of the text.\<close>

lemma occurs_sublist:
  assumes "m \<le> length pat" "s + m \<le> length hay"
  shows "occurs hay pat m s \<longleftrightarrow> take m pat = take m (drop s hay)"
  using assms by (auto simp: occurs_def list_all_iff list_eq_iff_nth_eq)

lemma bm_search_found:
  assumes "n \<le> length hay" "m \<le> length pat"
  shows "bm_search hay (int n) pat (int m) \<ge> 0 \<longleftrightarrow> (\<exists>a b. take n hay = a @ take m pat @ b)"
proof -
  have "bm_search hay (int n) pat (int m) \<ge> 0 \<longleftrightarrow> (\<exists>s < Suc n - m. occurs hay pat m s)"
    using bm_loop_find [of hay n pat m 0]
      find_None_iff [of "occurs hay pat m" "[0..<Suc n - m]"]
    by (cases "find (occurs hay pat m) [0..<Suc n - m]") (auto simp: bm_search_def result_of_def)
  also have "\<dots> \<longleftrightarrow> (\<exists>a b. take n hay = a @ take m pat @ b)"
  proof
    assume "\<exists>s < Suc n - m. occurs hay pat m s"
    then obtain s where "s < Suc n - m" and o: "occurs hay pat m s" by blast
    then have s: "s + m \<le> n" "occurs hay pat m s" by (simp_all add: less_diff_conv less_Suc_eq_le)
    then have "take m pat = take m (drop s (take n hay))"
      using occurs_sublist [of m pat s hay] assms by (simp add: drop_take min_def)
    then have "take n hay = take s (take n hay) @ take m pat @ drop (s + m) (take n hay)"
      by (metis append_take_drop_id drop_drop add.commute)
    then show "\<exists>a b. take n hay = a @ take m pat @ b" by blast
  next
    assume "\<exists>a b. take n hay = a @ take m pat @ b"
    then obtain a b where ab: "take n hay = a @ take m pat @ b" by blast
    have len: "length a + m \<le> n" using arg_cong [OF ab, of length] assms by simp
    have "take m (drop (length a) (take n hay)) = take m pat" using ab assms(2) by simp
    moreover have "min m (n - length a) = m" using len by simp
    ultimately have "take m pat = take m (drop (length a) hay)" by (simp add: drop_take)
    then have "occurs hay pat m (length a)" using occurs_sublist [of m pat "length a" hay] assms len by simp
    with len show "\<exists>s < Suc n - m. occurs hay pat m s" by (intro exI [of _ "length a"]) simp
  qed
  finally show ?thesis .
qed

end
