(* ===== verification/AllocFrame.thy ===== *)
theory AllocFrame
  imports Posix
begin

text \<open>
  \<open>_alloc_get_packet_frame\<close> of \<open>model/alloc3/alloc_packet_tool.c\<close>: the bytes of a server's answer are put
  into a ring, and a frame is what stands between the first opening brace and the next closing one.
  \<open>None\<close> is an access outside of an array: of the ring, of the 512 bytes of a frame or of the buffer for
  the bytes behind a frame.
\<close>

definition PACKET_START_CHAR :: byte where "PACKET_START_CHAR = 123"
definition PACKET_END_CHAR :: byte where "PACKET_END_CHAR = 125"
definition MAX_RCV_PACKET_SIZE :: nat where "MAX_RCV_PACKET_SIZE = 512"
definition PKT_FRAME_QUEUE_BUFF_SIZE :: nat where "PKT_FRAME_QUEUE_BUFF_SIZE = 1024"

text \<open>The ring with its two indices, and the bytes behind the last frame.\<close>

record frame_ring =
  saved_buff :: "byte list"
  queue_top :: nat
  queue_bottom :: int
  ex_buff :: "byte list"
  b_ex_buff :: bool

definition ring_init :: frame_ring where
  "ring_init = \<lparr>saved_buff = replicate PKT_FRAME_QUEUE_BUFF_SIZE 0, queue_top = 1, queue_bottom = 0,
     ex_buff = replicate MAX_RCV_PACKET_SIZE 0, b_ex_buff = False\<rparr>"

definition ring_put :: "byte \<Rightarrow> frame_ring \<Rightarrow> frame_ring" where
  "ring_put b s =
     (let t = (queue_top s + 1) mod PKT_FRAME_QUEUE_BUFF_SIZE;
          s1 = s\<lparr>saved_buff := (saved_buff s)[queue_top s := b], queue_top := t\<rparr>
      in if int t = queue_bottom s then s1\<lparr>queue_bottom := (queue_bottom s + 1) mod int PKT_FRAME_QUEUE_BUFF_SIZE\<rparr>
         else s1)"

text \<open>The two searches: at most \<open>k\<close> bytes from index \<open>i\<close> on, not beyond the top.\<close>

fun ring_find :: "byte list \<Rightarrow> byte \<Rightarrow> nat \<Rightarrow> nat \<Rightarrow> nat \<Rightarrow> nat option" where
  "ring_find buff c tp 0 i = None"
| "ring_find buff c tp (Suc k) i =
     (if buff ! i = c then Some i
      else if i = tp then None
      else ring_find buff c tp k ((i + 1) mod PKT_FRAME_QUEUE_BUFF_SIZE))"

text \<open>The bytes from one index to another without the two braces.\<close>

fun ring_copy :: "byte list \<Rightarrow> nat \<Rightarrow> nat \<Rightarrow> nat \<Rightarrow> byte list" where
  "ring_copy buff suffix 0 i = []"
| "ring_copy buff suffix (Suc k) i =
     (if buff ! i \<noteq> PACKET_START_CHAR \<and> buff ! i \<noteq> PACKET_END_CHAR then [buff ! i] else []) @
     (if i = suffix then [] else ring_copy buff suffix k ((i + 1) mod PKT_FRAME_QUEUE_BUFF_SIZE))"

text \<open>The bytes of the read behind the frame are kept.\<close>

definition keep_rest :: "nat \<Rightarrow> nat \<Rightarrow> frame_ring \<Rightarrow> frame_ring option" where
  "keep_rest sz buff_len s =
     (if sz + 2 < buff_len then
        (let index = sz + 2; k = buff_len - index in
         if k > MAX_RCV_PACKET_SIZE \<or> buff_len \<ge> PKT_FRAME_QUEUE_BUFF_SIZE then None
         else
           Some (s\<lparr>b_ex_buff := True,
             ex_buff := map (\<lambda>i. saved_buff s ! (index + i + 1)) [0..<k] @ drop k (ex_buff s)\<rparr>))
      else Some s)"

text \<open>The frame, if there is one: \<open>-1\<close> is the inner \<open>None\<close>.\<close>

definition alloc_get_packet_frame :: "byte list \<Rightarrow> frame_ring \<Rightarrow> (byte list option \<times> frame_ring) option" where
  "alloc_get_packet_frame buff s0 =
     (let s = fold ring_put buff s0 in
      if queue_bottom s < 0 then None
      else
        (case ring_find (saved_buff s) PACKET_START_CHAR (queue_top s) PKT_FRAME_QUEUE_BUFF_SIZE (nat (queue_bottom s)) of
           None \<Rightarrow> Some (None, s\<lparr>queue_bottom := int (queue_top s) - 1\<rparr>)
         | Some prefix \<Rightarrow>
             (case ring_find (saved_buff s) PACKET_END_CHAR (queue_top s) PKT_FRAME_QUEUE_BUFF_SIZE prefix of
                None \<Rightarrow> Some (None, s)
              | Some suffix \<Rightarrow>
                  (let content = ring_copy (saved_buff s) suffix PKT_FRAME_QUEUE_BUFF_SIZE prefix in
                   if length content > MAX_RCV_PACKET_SIZE then None
                   else
                     (case keep_rest (length content) (length buff) s of
                        None \<Rightarrow> None
                      | Some s1 \<Rightarrow>
                          Some (Some content,
                            s1\<lparr>saved_buff := replicate PKT_FRAME_QUEUE_BUFF_SIZE 0, queue_top := 1, queue_bottom := 0\<rparr>))))))"

subsection \<open>A frame cut into reads\<close>

text \<open>The ring that holds the beginning of a frame and nothing else.\<close>

definition ring_holds :: "byte list \<Rightarrow> frame_ring \<Rightarrow> bool" where
  "ring_holds q s \<longleftrightarrow> length q \<le> 1000 \<and> saved_buff s = 0 # q @ replicate (1023 - length q) 0 \<and>
     queue_top s = Suc (length q) \<and> queue_bottom s = 0"

lemma ring_init_holds: "ring_holds [] ring_init"
proof -
  have "replicate (Suc 1023) (0::byte) = 0 # replicate 1023 0" by (rule replicate_Suc)
  then show ?thesis by (simp add: ring_holds_def ring_init_def PKT_FRAME_QUEUE_BUFF_SIZE_def)
qed

lemma put_holds:
  assumes "ring_holds q s" "length q < 1000"
  shows "ring_holds (q @ [b]) (ring_put b s) \<and> ex_buff (ring_put b s) = ex_buff s \<and> b_ex_buff (ring_put b s) = b_ex_buff s"
proof -
  have r: "replicate (1023 - length q) (0::byte) = 0 # replicate (1023 - Suc (length q)) 0"
  proof -
    have "1023 - length q = Suc (1023 - Suc (length q))" using assms(2) by simp
    then show ?thesis by (metis replicate_Suc)
  qed
  have m: "Suc (Suc (length q)) mod 1024 = Suc (Suc (length q))" using assms(2) by simp
  from assms show ?thesis
    by (simp add: ring_holds_def ring_put_def Let_def PKT_FRAME_QUEUE_BUFF_SIZE_def r m)
qed

lemma puts_hold:
  "\<lbrakk>ring_holds q s; length q + length p \<le> 1000\<rbrakk> \<Longrightarrow> ring_holds (q @ p) (fold ring_put p s) \<and>
   ex_buff (fold ring_put p s) = ex_buff s \<and> b_ex_buff (fold ring_put p s) = b_ex_buff s"
proof (induction p arbitrary: q s)
  case (Cons b p)
  with put_holds [OF Cons.prems(1), of b] Cons.IH [of "q @ [b]" "ring_put b s"] show ?case by simp
qed simp

lemma ring_find_pass:
  "\<lbrakk>a \<le> b; b \<le> 1023; b - a \<le> k; \<forall>i. a \<le> i \<and> i < b \<longrightarrow> buff ! i \<noteq> c \<and> i \<noteq> tp\<rbrakk> \<Longrightarrow>
   ring_find buff c tp k a = ring_find buff c tp (k - (b - a)) b"
proof (induction "b - a" arbitrary: a k)
  case (Suc d)
  then obtain k' where k: "k = Suc k'" by (cases k) auto
  have l: "a < b" using Suc.hyps(2) by simp
  then have "(a + 1) mod 1024 = Suc a" using Suc.prems(2) by simp
  then have "ring_find buff c tp k a = ring_find buff c tp k' (Suc a)"
    using Suc.prems(4) l k by (simp add: PKT_FRAME_QUEUE_BUFF_SIZE_def)
  also have "\<dots> = ring_find buff c tp (k' - (b - Suc a)) b"
    using Suc.hyps(2) Suc.prems l k by (intro Suc.hyps(1)) auto
  finally show ?case using k l by (simp add: Suc_diff_Suc)
qed simp

lemma ring_find_here: "0 < k \<Longrightarrow> buff ! i = c \<Longrightarrow> ring_find buff c tp k i = Some i"
  by (cases k) auto

lemma ring_find_top: "buff ! tp \<noteq> c \<Longrightarrow> ring_find buff c tp k tp = None"
  by (cases k) auto

lemma ring_copy_run:
  "\<lbrakk>a \<le> z; z \<le> 1023; z - a < k\<rbrakk> \<Longrightarrow> ring_copy buff z k a =
     filter (\<lambda>b. b \<noteq> PACKET_START_CHAR \<and> b \<noteq> PACKET_END_CHAR) (map ((!) buff) [a..<Suc z])"
proof (induction "z - a" arbitrary: a k)
  case 0
  then obtain k' where "k = Suc k'" by (cases k) auto
  with 0 show ?case by simp
next
  case (Suc d)
  then obtain k' where k: "k = Suc k'" by (cases k) auto
  have l: "a < z" using Suc.hyps(2) by simp
  then have m: "(a + 1) mod 1024 = Suc a" using Suc.prems(2) by simp
  have u: "[a..<Suc z] = a # [Suc a..<Suc z]" using l by (intro upt_conv_Cons) simp
  have "ring_copy buff z k' (Suc a) =
      filter (\<lambda>b. b \<noteq> PACKET_START_CHAR \<and> b \<noteq> PACKET_END_CHAR) (map ((!) buff) [Suc a..<Suc z])"
    using Suc.hyps(2) Suc.prems l k by (intro Suc.hyps(1)) auto
  with k l m show ?case unfolding u by (simp add: PKT_FRAME_QUEUE_BUFF_SIZE_def del: upt_Suc)
qed

definition brace_free :: "byte list \<Rightarrow> bool" where
  "brace_free c \<longleftrightarrow> PACKET_START_CHAR \<notin> set c \<and> PACKET_END_CHAR \<notin> set c"

lemma braces: "PACKET_START_CHAR \<noteq> PACKET_END_CHAR" "PACKET_START_CHAR \<noteq> 0" "PACKET_END_CHAR \<noteq> 0"
  by (simp_all add: PACKET_START_CHAR_def PACKET_END_CHAR_def)

lemma held_nth: "ring_holds q s \<Longrightarrow> i < length q \<Longrightarrow> saved_buff s ! Suc i = q ! i"
  "ring_holds q s \<Longrightarrow> saved_buff s ! Suc (length q) = 0" "ring_holds q s \<Longrightarrow> saved_buff s ! 0 = 0"
  by (simp_all add: ring_holds_def nth_append)

lemma find_start:
  assumes "ring_holds q s" "q \<noteq> []" "hd q = PACKET_START_CHAR"
  shows "ring_find (saved_buff s) PACKET_START_CHAR (queue_top s) 1024 0 = Some 1"
proof -
  have t: "queue_top s = Suc (length q)" using assms(1) by (simp add: ring_holds_def)
  have "ring_find (saved_buff s) PACKET_START_CHAR (queue_top s) 1024 0 =
      ring_find (saved_buff s) PACKET_START_CHAR (queue_top s) (1024 - (1 - 0)) 1"
    using held_nth(3) [OF assms(1)] t braces(2) by (intro ring_find_pass) auto
  moreover have "saved_buff s ! 1 = PACKET_START_CHAR"
    using held_nth(1) [OF assms(1), of 0] assms(2,3) by (simp add: hd_conv_nth)
  ultimately show ?thesis using ring_find_here [of "1024 - (1 - 0)" "saved_buff s" 1] by simp
qed

lemma find_end:
  assumes "ring_holds q s" "PACKET_END_CHAR \<notin> set (butlast q)" "q \<noteq> []"
  shows "ring_find (saved_buff s) PACKET_END_CHAR (queue_top s) 1024 1 =
    (if last q = PACKET_END_CHAR then Some (length q) else None)"
proof -
  have h: "queue_top s = Suc (length q)" "length q \<le> 1000" using assms(1) by (simp_all add: ring_holds_def)
  have before: "saved_buff s ! i \<noteq> PACKET_END_CHAR \<and> i \<noteq> queue_top s" if i: "1 \<le> i" "i < length q" for i
  proof -
    obtain j where j: "i = Suc j" "j < length q - 1" using i by (cases i) auto
    then have "butlast q ! j \<in> set (butlast q)" by (intro nth_mem) simp
    then have "q ! j \<noteq> PACKET_END_CHAR" using assms(2) j(2) by (auto simp: nth_butlast)
    then show ?thesis using held_nth(1) [OF assms(1), of j] j h(1) i by simp
  qed
  have "length q > 0" using assms(3) by simp
  then obtain n where n: "length q = Suc n" by (cases "length q") auto
  have run: "ring_find (saved_buff s) PACKET_END_CHAR (queue_top s) 1024 1 =
      ring_find (saved_buff s) PACKET_END_CHAR (queue_top s) (1024 - (length q - 1)) (length q)"
    using before h(2) n by (intro ring_find_pass) auto
  have l: "saved_buff s ! length q = last q"
    using held_nth(1) [OF assms(1), of n] n by (simp add: last_conv_nth [OF assms(3)])
  show ?thesis
  proof (cases "last q = PACKET_END_CHAR")
    case True
    then show ?thesis using run ring_find_here [of "1024 - (length q - 1)"] l h(2) by simp
  next
    case False
    have "ring_find (saved_buff s) PACKET_END_CHAR (queue_top s) 1024 1 =
        ring_find (saved_buff s) PACKET_END_CHAR (queue_top s) (1024 - (Suc (length q) - 1)) (Suc (length q))"
      using before h l False n by (intro ring_find_pass) (auto simp: less_Suc_eq)
    then show ?thesis
      using False ring_find_top [of "saved_buff s" "queue_top s" PACKET_END_CHAR] held_nth(2) [OF assms(1)] h(1) braces(3) by simp
  qed
qed

lemma frame_waits:
  assumes "ring_holds q s" "length q + length r \<le> 1000"
    and "q @ r = [] \<or> hd (q @ r) = PACKET_START_CHAR" "PACKET_END_CHAR \<notin> set (q @ r)"
  shows "\<exists>s'. alloc_get_packet_frame r s = Some (None, s') \<and> ring_holds (q @ r) s' \<and> ex_buff s' = ex_buff s \<and> b_ex_buff s' = b_ex_buff s"
proof -
  let ?s = "fold ring_put r s"
  have h: "ring_holds (q @ r) ?s" "ex_buff ?s = ex_buff s" "b_ex_buff ?s = b_ex_buff s" using puts_hold [OF assms(1,2)] by simp_all
  have b: "queue_bottom ?s = 0" "queue_top ?s = Suc (length (q @ r))" using h(1) by (simp_all add: ring_holds_def)
  show ?thesis
  proof (cases "q @ r = []")
    case True
    then have c: "saved_buff ?s = 0 # replicate 1023 0" "queue_top ?s = 1" using h(1) by (auto simp: ring_holds_def)
    have "ring_find (saved_buff ?s) PACKET_START_CHAR (queue_top ?s) 1024 0 =
        ring_find (saved_buff ?s) PACKET_START_CHAR (queue_top ?s) (1024 - (1 - 0)) 1"
      using c braces(2) by (intro ring_find_pass) auto
    also have "\<dots> = None" using ring_find_top [of "saved_buff ?s" 1] c braces(2) by simp
    finally show ?thesis using h b c True
      by (simp add: alloc_get_packet_frame_def Let_def PKT_FRAME_QUEUE_BUFF_SIZE_def ring_holds_def)
  next
    case False
    have e: "PACKET_END_CHAR \<notin> set (butlast (q @ r))" using assms(4) by (meson in_set_butlastD)
    have "last (q @ r) \<noteq> PACKET_END_CHAR" using assms(4) last_in_set [OF False] by metis
    moreover have "hd (q @ r) = PACKET_START_CHAR" using assms(3) False by blast
    ultimately show ?thesis
      using find_start [OF h(1) False] find_end [OF h(1) e False] h b
      by (simp add: alloc_get_packet_frame_def Let_def PKT_FRAME_QUEUE_BUFF_SIZE_def)
  qed
qed

lemma frame_done:
  assumes "ring_holds q s" "r \<noteq> []" "q @ r = PACKET_START_CHAR # c @ [PACKET_END_CHAR]" "brace_free c" "length c \<le> 512"
  shows "\<exists>s'. alloc_get_packet_frame r s = Some (Some c, s') \<and> ring_holds [] s' \<and> ex_buff s' = ex_buff s \<and> b_ex_buff s' = b_ex_buff s"
proof -
  let ?s = "fold ring_put r s" and ?q = "q @ r"
  have len: "length ?q = length c + 2" using assms(3) by simp
  then have h: "ring_holds ?q ?s" "ex_buff ?s = ex_buff s" "b_ex_buff ?s = b_ex_buff s"
    using puts_hold [OF assms(1), of r] assms(5) by simp_all
  have bl: "butlast ?q = PACKET_START_CHAR # c" unfolding assms(3) by simp
  have e: "PACKET_END_CHAR \<notin> set (butlast ?q)" using assms(4) braces(1) unfolding bl by (simp add: brace_free_def)
  have ne: "?q \<noteq> []" "hd ?q = PACKET_START_CHAR" "last ?q = PACKET_END_CHAR" unfolding assms(3) by simp_all
  have st: "ring_find (saved_buff ?s) PACKET_START_CHAR (queue_top ?s) 1024 0 = Some 1"
    by (rule find_start [OF h(1) ne(1,2)])
  have en: "ring_find (saved_buff ?s) PACKET_END_CHAR (queue_top ?s) 1024 1 = Some (length ?q)"
    using find_end [OF h(1) e ne(1)] ne(3) by simp
  have m: "map ((!) (saved_buff ?s)) [1..<Suc (length ?q)] = ?q"
  proof (rule nth_equalityI)
    fix i assume "i < length (map ((!) (saved_buff ?s)) [1..<Suc (length ?q)])"
    then have "i < length ?q" by (simp del: upt_Suc)
    then show "map ((!) (saved_buff ?s)) [1..<Suc (length ?q)] ! i = ?q ! i"
      using held_nth(1) [OF h(1)] by (simp del: upt_Suc)
  qed (simp del: upt_Suc)
  have "ring_copy (saved_buff ?s) (length ?q) 1024 1 =
      filter (\<lambda>b. b \<noteq> PACKET_START_CHAR \<and> b \<noteq> PACKET_END_CHAR) (map ((!) (saved_buff ?s)) [1..<Suc (length ?q)])"
    by (rule ring_copy_run) (use len assms(5) in simp_all)
  also have "\<dots> = filter (\<lambda>b. b \<noteq> PACKET_START_CHAR \<and> b \<noteq> PACKET_END_CHAR) ?q" unfolding m ..
  also have "\<dots> = c" using assms(4) unfolding assms(3) by (auto simp: brace_free_def intro!: filter_True)
  finally have cp: "ring_copy (saved_buff ?s) (length ?q) 1024 1 = c" .
  have "length r \<le> length c + 2" using len by simp
  then have "keep_rest (length c) (length r) ?s = Some ?s" by (simp add: keep_rest_def)
  then show ?thesis
    using st en cp h assms(5) ring_init_holds
    by (simp add: alloc_get_packet_frame_def Let_def PKT_FRAME_QUEUE_BUFF_SIZE_def MAX_RCV_PACKET_SIZE_def
        ring_holds_def ring_init_def)
qed

fun frame_calls :: "byte list list \<Rightarrow> frame_ring \<Rightarrow> (byte list option list \<times> frame_ring) option" where
  "frame_calls [] s = Some ([], s)"
| "frame_calls (r # rs) s =
     (case alloc_get_packet_frame r s of
        None \<Rightarrow> None
      | Some (f, s1) \<Rightarrow>
          (case frame_calls rs s1 of None \<Rightarrow> None | Some (fs, s2) \<Rightarrow> Some (f # fs, s2)))"

text \<open>A read that does not bring the end of the frame.\<close>

lemma frame_begun:
  assumes "ring_holds q s" "q @ p @ w = PACKET_START_CHAR # c @ [PACKET_END_CHAR]" "w \<noteq> []"
    and "brace_free c" "length c \<le> 512"
  shows "\<exists>s'. alloc_get_packet_frame p s = Some (None, s') \<and> ring_holds (q @ p) s' \<and> ex_buff s' = ex_buff s \<and>
    b_ex_buff s' = b_ex_buff s"
proof -
  have "last w = PACKET_END_CHAR" using arg_cong [OF assms(2), of last] assms(3) by simp
  then obtain u where u: "w = u @ [PACKET_END_CHAR]" using append_butlast_last_id [OF assms(3)] by metis
  then have qp: "q @ p @ u = PACKET_START_CHAR # c" using assms(2) by simp
  have l: "length q + length p \<le> 1000" using arg_cong [OF qp, of length] assms(5) by simp
  have s: "q @ p = [] \<or> hd (q @ p) = PACKET_START_CHAR"
  proof (cases "q @ p")
    case (Cons a l)
    have "q @ p @ u = (q @ p) @ u" by simp
    then have "hd (q @ p @ u) = a" using Cons by (metis append_Cons list.sel(1))
    with Cons qp show ?thesis by simp
  qed simp
  have "set (q @ p) \<subseteq> set (PACKET_START_CHAR # c)" using arg_cong [OF qp, of set] by auto
  then have "PACKET_END_CHAR \<notin> set (q @ p)" using assms(4) braces(1) by (auto simp: brace_free_def)
  from frame_waits [OF assms(1) l s this] show ?thesis .
qed

lemma calls_reassemble:
  "\<lbrakk>ring_holds q s; r \<noteq> []; q @ concat rs @ r = PACKET_START_CHAR # c @ [PACKET_END_CHAR]; brace_free c; length c \<le> 512\<rbrakk> \<Longrightarrow>
   \<exists>s'. frame_calls (rs @ [r]) s = Some (replicate (length rs) None @ [Some c], s') \<and> ring_holds [] s' \<and>
     ex_buff s' = ex_buff s \<and> b_ex_buff s' = b_ex_buff s"
proof (induction rs arbitrary: q s)
  case Nil
  then have "q @ r = PACKET_START_CHAR # c @ [PACKET_END_CHAR]" by simp
  from frame_done [OF Nil(1,2) this Nil(4,5)] show ?case by auto
next
  case (Cons p rs)
  have eq: "q @ p @ (concat rs @ r) = PACKET_START_CHAR # c @ [PACKET_END_CHAR]" "concat rs @ r \<noteq> []"
    using Cons.prems(2,3) by simp_all
  obtain s1 where s1: "alloc_get_packet_frame p s = Some (None, s1)" "ring_holds (q @ p) s1"
    "ex_buff s1 = ex_buff s" "b_ex_buff s1 = b_ex_buff s" using frame_begun [OF Cons.prems(1) eq Cons.prems(4,5)] by blast
  have "(q @ p) @ concat rs @ r = PACKET_START_CHAR # c @ [PACKET_END_CHAR]" using eq(1) by simp
  from Cons.IH [OF s1(2) Cons.prems(2) this Cons.prems(4,5)] s1 show ?case by auto
qed

text \<open>
  C19: a frame of up to 512 characters that arrives alone, cut into reads at any places, is delivered
  whole and without its braces by the read that brings its end and by no earlier one; the ring is empty
  again afterwards and no byte is kept as behind the frame.
\<close>

theorem alloc_frame_reassembled:
  assumes "r \<noteq> []" and "concat rs @ r = PACKET_START_CHAR # c @ [PACKET_END_CHAR]"
    and "PACKET_START_CHAR \<notin> set c" and "PACKET_END_CHAR \<notin> set c" and "length c \<le> 512"
  shows "frame_calls (rs @ [r]) ring_init = Some (replicate (length rs) None @ [Some c], ring_init)"
proof -
  obtain s' where s': "frame_calls (rs @ [r]) ring_init = Some (replicate (length rs) None @ [Some c], s')"
    "ring_holds [] s'" "ex_buff s' = ex_buff ring_init" "b_ex_buff s' = b_ex_buff ring_init"
    using calls_reassemble [OF ring_init_holds assms(1), of rs c] assms(2-5) by (auto simp: brace_free_def)
  then have "s' = ring_init" using ring_init_holds by (simp add: ring_holds_def)
  with s'(1) show ?thesis by simp
qed

lemma alloc_frame_reassembled_witness:
  "frame_calls ([[123, 49], [44]] @ [[50, 125]]) ring_init =
     Some (replicate (length [[123, 49], [44::byte]]) None @ [Some [49, 44, 50]], ring_init)"
  by (rule alloc_frame_reassembled) (simp_all add: PACKET_START_CHAR_def PACKET_END_CHAR_def)

text \<open>
  When the top of the ring stands at its beginning, which 1023 bytes without an opening brace bring
  about, the lower index becomes -1, and every later call reads in front of the ring.
\<close>

lemma bottom_negative: "queue_bottom s < 0 \<Longrightarrow> queue_bottom (fold ring_put p s) < 0"
proof (induction p arbitrary: s)
  case (Cons b p)
  then have "queue_bottom (ring_put b s) < 0" by (auto simp: ring_put_def Let_def)
  from Cons.IH [OF this] show ?case by simp
qed simp

lemma ring_underrun:
  assumes "queue_top (fold ring_put p s) = 0" and "alloc_get_packet_frame p s = Some (None, s1)"
    and "ring_find (saved_buff (fold ring_put p s)) PACKET_START_CHAR 0 PKT_FRAME_QUEUE_BUFF_SIZE
      (nat (queue_bottom (fold ring_put p s))) = None"
  shows "alloc_get_packet_frame q s1 = None"
proof -
  have "queue_bottom s1 < 0"
    using assms by (auto simp: alloc_get_packet_frame_def Let_def split: if_splits)
  from bottom_negative [OF this, of q] show ?thesis by (simp add: alloc_get_packet_frame_def Let_def)
qed

end
