(* ===== verification/AllocDown.thy ===== *)
theory AllocDown
  imports CText Storage BmSearch
begin

text \<open>
  \<open>model/alloc3/alloc_packet_tool.c\<close>: the list of passengers, which the server sends in numbered
  packets. \<open>strtok\<close> is \<open>strtok_r\<close>; a packet is handled field by field, where a step fails (\<open>Fail\<close>: the
  code sets \<open>err\<close> and starts anew), leaves the state as it is (\<open>Leave\<close>: the jump without \<open>err\<close>), or goes
  on (\<open>Next\<close>). The outermost \<open>None\<close> is an access outside of a field. \<open>enc\<close> is the representation of the
  record in memory, which is saved with theory Storage.
\<close>

subsection \<open>Tokens\<close>

definition strtok :: "byte list \<Rightarrow> byte list \<Rightarrow> (byte list \<times> byte list) option" where
  "strtok delims t =
     (let s = dropWhile (\<lambda>c. c \<in> set delims) t in
      if s = [] then None
      else Some (takeWhile (\<lambda>c. c \<notin> set delims) s, tl (dropWhile (\<lambda>c. c \<notin> set delims) s)))"

definition COMMA :: "byte list" where "COMMA = [44]"
definition CRLF :: "byte list" where "CRLF = [13, 10]"

datatype 'a step = Fail | Leave 'a | Next 'a

definition on_token :: "byte list \<Rightarrow> byte list \<Rightarrow> (byte list \<Rightarrow> byte list \<Rightarrow> 'a step option) \<Rightarrow> 'a step option" where
  "on_token delims s k = (case strtok delims s of None \<Rightarrow> Some Fail | Some (tr, rest) \<Rightarrow> k tr rest)"

definition go_on :: "'a step option \<Rightarrow> ('a \<Rightarrow> 'a step option) \<Rightarrow> 'a step option" where
  "go_on r k =
     (case r of
        None \<Rightarrow> None | Some Fail \<Rightarrow> Some Fail | Some (Leave p) \<Rightarrow> Some (Leave p) | Some (Next p) \<Rightarrow> k p)"

text \<open>\<open>strncpy\<close> of a token into a field of \<open>cap\<close> bytes, and \<open>strncmp\<close> of a field with the token's length.\<close>

definition put_field :: "byte list \<Rightarrow> byte list \<Rightarrow> byte list option" where
  "put_field old tr = (if length tr > length old then None else Some (tr @ drop (length tr) old))"

definition same_start :: "byte list \<Rightarrow> byte list \<Rightarrow> bool option" where
  "same_start field tr =
     (if length tr \<le> length field then Some (take (length tr) field = tr)
      else if take (length field) tr = field then None else Some False)"

subsection \<open>The list of passengers\<close>

datatype passenger_stat = eGET_PASSENGER_STAT_NULL | eGET_PASSENGER_STAT_DOWNLOADING | eGET_PASSENGER_STAT_COMPLETE

definition RFID_LIST_CAP :: nat where "RFID_LIST_CAP = 342000"
definition RFID_SAVED_FILE :: string where "RFID_SAVED_FILE = ''/data/mds/data/alloc_rfid.dat''"

text \<open>\<open>rfid_list\<close> is the written part of the array, so its length is \<open>rfid_list_len\<close>.\<close>

record passenger =
  p_status :: passenger_stat
  p_cmd_id :: "byte list"
  p_max_pkt :: int
  p_cur_pkt :: int
  p_version :: "byte list"
  rfid_list :: "byte list"

definition NO_VERSION :: "byte list" where "NO_VERSION = str ''00000000''"

definition init_passenger_info :: passenger where
  "init_passenger_info = \<lparr>p_status = eGET_PASSENGER_STAT_NULL, p_cmd_id = replicate 10 0, p_max_pkt = 0,
     p_cur_pkt = 0, p_version = NO_VERSION, rfid_list = []\<rparr>"

definition passenger_id :: "byte list \<Rightarrow> passenger \<Rightarrow> passenger step option" where
  "passenger_id tr p =
     (case p_status p of
        eGET_PASSENGER_STAT_NULL \<Rightarrow>
          (case put_field (replicate 10 0) tr of None \<Rightarrow> None | Some c \<Rightarrow> Some (Next (p\<lparr>p_cmd_id := c\<rparr>)))
      | eGET_PASSENGER_STAT_DOWNLOADING \<Rightarrow>
          (case same_start (p_cmd_id p) tr of
             None \<Rightarrow> None | Some eq \<Rightarrow> Some (if eq then Next p else Fail))
      | eGET_PASSENGER_STAT_COMPLETE \<Rightarrow> Some (Next p))"

definition passenger_max :: "byte list \<Rightarrow> passenger \<Rightarrow> passenger step option" where
  "passenger_max tr p =
     (case p_status p of
        eGET_PASSENGER_STAT_NULL \<Rightarrow>
          Some (Next (p\<lparr>p_max_pkt := atoi tr, p_cur_pkt := 0, p_status := eGET_PASSENGER_STAT_DOWNLOADING\<rparr>))
      | eGET_PASSENGER_STAT_DOWNLOADING \<Rightarrow> Some (if p_max_pkt p \<noteq> atoi tr then Fail else Next p)
      | eGET_PASSENGER_STAT_COMPLETE \<Rightarrow> Some (Next p))"

definition passenger_cur :: "byte list \<Rightarrow> passenger \<Rightarrow> passenger step option" where
  "passenger_cur tr p =
     (case p_status p of
        eGET_PASSENGER_STAT_NULL \<Rightarrow> Some (Leave p)
      | eGET_PASSENGER_STAT_DOWNLOADING \<Rightarrow>
          Some (if p_cur_pkt p + 1 \<noteq> atoi tr then Fail else Next (p\<lparr>p_cur_pkt := atoi tr\<rparr>))
      | eGET_PASSENGER_STAT_COMPLETE \<Rightarrow> Some (Next p))"

definition passenger_version :: "byte list \<Rightarrow> passenger \<Rightarrow> passenger step option" where
  "passenger_version tr p =
     (if p_version p = NO_VERSION then
        (case put_field (p_version p) tr of None \<Rightarrow> None | Some v \<Rightarrow> Some (Next (p\<lparr>p_version := v\<rparr>)))
      else
        (case same_start (p_version p) tr of
           None \<Rightarrow> None | Some eq \<Rightarrow> Some (if eq then Next p else Fail)))"

definition passenger_list :: "byte list \<Rightarrow> passenger \<Rightarrow> passenger step option" where
  "passenger_list tr p =
     (if length (rfid_list p) + length tr + 1 > RFID_LIST_CAP then None
      else Some (Next (p\<lparr>rfid_list := rfid_list p @ tr @ [44]\<rparr>)))"

text \<open>All fields of a packet; the data is copied to a buffer of 512 bytes before it is cut.\<close>

definition passenger_steps :: "byte list \<Rightarrow> passenger \<Rightarrow> passenger step option" where
  "passenger_steps content p =
     on_token COMMA content (\<lambda>cmd r0.
     on_token COMMA r0 (\<lambda>phone r1.
     on_token COMMA r1 (\<lambda>cmd_id r2. go_on (passenger_id cmd_id p) (\<lambda>p1.
     on_token COMMA r2 (\<lambda>data_size r3.
     on_token COMMA r3 (\<lambda>max_pkt r4. go_on (passenger_max max_pkt p1) (\<lambda>p2.
     on_token COMMA r4 (\<lambda>cur_pkt r5. go_on (passenger_cur cur_pkt p2) (\<lambda>p3.
     on_token CRLF r5 (\<lambda>data r6.
       if atoi data_size \<noteq> int (length data) then Some Fail
       else if length data \<ge> 512 then None
       else
         on_token COMMA data (\<lambda>version r7. go_on (passenger_version version p3) (\<lambda>p4.
         on_token CRLF r7 (\<lambda>l r8. passenger_list l p4)))))))))))))"

definition save_passenger_info :: "(passenger \<Rightarrow> byte list) \<Rightarrow> byte list \<Rightarrow> passenger \<Rightarrow> os \<Rightarrow> (passenger \<times> os) option" where
  "save_passenger_info enc content p0 os =
     (let p = (if p_status p0 = eGET_PASSENGER_STAT_COMPLETE then init_passenger_info else p0) in
      case passenger_steps content p of
        None \<Rightarrow> None
      | Some Fail \<Rightarrow> Some (init_passenger_info, os)
      | Some (Leave q) \<Rightarrow> Some (q, os)
      | Some (Next q) \<Rightarrow>
          if p_max_pkt q = p_cur_pkt q then
            (let q1 = q\<lparr>p_status := eGET_PASSENGER_STAT_COMPLETE\<rparr>
             in Some (q1, snd (storage_save_file RFID_SAVED_FILE (enc q1) os)))
          else Some (q, os))"

text \<open>Loading, into a buffer of zeros.\<close>

definition load_file_passenger_info ::
    "(passenger \<Rightarrow> byte list) \<Rightarrow> (byte list \<Rightarrow> passenger) \<Rightarrow> os \<Rightarrow> passenger \<times> os" where
  "load_file_passenger_info enc dec_rec os =
     (case storage_load_file RFID_SAVED_FILE (replicate (length (enc init_passenger_info)) 0) os of
        (ret, d, os1) \<Rightarrow> (if ret \<ge> 0 then dec_rec d else init_passenger_info, os1))"

definition get_passenger_info_stat :: "passenger \<Rightarrow> passenger_stat" where
  "get_passenger_info_stat p = p_status p"

definition get_passenger_info_ver :: "passenger \<Rightarrow> byte list" where
  "get_passenger_info_ver p = p_version p"

definition get_passenger_cmd_id :: "passenger \<Rightarrow> byte list" where
  "get_passenger_cmd_id p = p_cmd_id p"

text \<open>The index of a card's number in the list, or -1.\<close>

definition find_rfid :: "byte list \<Rightarrow> passenger \<Rightarrow> int" where
  "find_rfid rfid_pat p = bm_search (rfid_list p) (int (length (rfid_list p))) rfid_pat (int (length rfid_pat))"

subsection \<open>A packet of the list\<close>

definition field_ok :: "byte list \<Rightarrow> bool" where
  "field_ok f \<longleftrightarrow> f \<noteq> [] \<and> 44 \<notin> set f"

text \<open>What the server writes for packet \<open>k\<close> of \<open>n\<close>.\<close>

definition list_packet :: "byte list \<Rightarrow> byte list \<Rightarrow> byte list \<Rightarrow> int \<Rightarrow> int \<Rightarrow> byte list \<Rightarrow> byte list \<Rightarrow> byte list" where
  "list_packet cmd phone cmd_id n k ver l =
     cmd @ [44] @ phone @ [44] @ cmd_id @ [44] @ sprintf_d (int (length (ver @ [44] @ l))) @ [44] @
     sprintf_d n @ [44] @ sprintf_d k @ [44] @ ver @ [44] @ l"

lemma strtok_field:
  assumes "field_ok f"
  shows "strtok COMMA (f @ [44] @ r) = Some (f, r)"
proof -
  obtain c g where f: "f = c # g" "c \<noteq> 44" using assms by (cases f) (auto simp: field_ok_def)
  have "takeWhile (\<lambda>c. c \<noteq> 44) (f @ 44 # r) = f" "dropWhile (\<lambda>c. c \<noteq> 44) (f @ 44 # r) = 44 # r"
    using assms by (auto simp: field_ok_def takeWhile_append dropWhile_append)
  then show ?thesis using f by (simp add: strtok_def COMMA_def Let_def)
qed

lemma strtok_line:
  assumes "d \<noteq> []" "13 \<notin> set d" "10 \<notin> set d"
  shows "strtok CRLF d = Some (d, [])"
proof -
  have n: "\<forall>c \<in> set d. c \<noteq> 13 \<and> c \<noteq> 10" using assms(2,3) by auto
  have a: "dropWhile (\<lambda>c. c = 13 \<or> c = 10) d = d" using assms(1) n by (cases d) auto
  have b: "takeWhile (\<lambda>c. c \<noteq> 13 \<and> c \<noteq> 10) d = d" using n by (simp add: takeWhile_eq_all_conv)
  have c: "dropWhile (\<lambda>c. c \<noteq> 13 \<and> c \<noteq> 10) d = []" using n by (simp add: dropWhile_eq_Nil_conv)
  show ?thesis using assms(1) by (simp add: strtok_def CRLF_def Let_def a b c)
qed

lemma decimal_field: "0 \<le> v \<Longrightarrow> field_ok (sprintf_d v)"
proof -
  assume v: "0 \<le> v"
  have "\<not> is_dec 44" by (simp add: is_dec_def)
  with v dec_digits_read [of "nat v"] show ?thesis
    by (auto simp: field_ok_def sprintf_d_def list_all_iff)
qed

text \<open>A packet seen through its fields.\<close>

lemma steps_packet:
  assumes "field_ok cmd" "field_ok phone" "field_ok cmd_id" "0 \<le> n" "0 \<le> k" "field_ok ver"
    and "l \<noteq> []" "13 \<notin> set (ver @ l)" "10 \<notin> set (ver @ l)" "length ver + length l < 511"
  shows "passenger_steps (list_packet cmd phone cmd_id n k ver l) p =
    go_on (passenger_id cmd_id p) (\<lambda>p1. go_on (passenger_max (sprintf_d n) p1) (\<lambda>p2.
    go_on (passenger_cur (sprintf_d k) p2) (\<lambda>p3. go_on (passenger_version ver p3) (\<lambda>p4. passenger_list l p4))))"
proof -
  let ?d = "ver @ [44] @ l"
  have d: "strtok CRLF ?d = Some (?d, [])" using assms(6,8,9) by (intro strtok_line) auto
  have l: "strtok CRLF l = Some (l, [])" using assms(7-9) by (intro strtok_line) auto
  have sz: "atoi (sprintf_d (int (length ?d))) = int (length ?d)" by (rule atoi_sprintf) simp
  have len: "\<not> length ?d \<ge> 512" using assms(10) by simp
  note f = strtok_field [OF assms(1)] strtok_field [OF assms(2)] strtok_field [OF assms(3)]
    strtok_field [OF decimal_field [OF assms(4)]] strtok_field [OF decimal_field [OF assms(5)]]
    strtok_field [OF decimal_field [of "int (length ?d)"]] strtok_field [OF assms(6)]
  show ?thesis
    unfolding list_packet_def passenger_steps_def on_token_def f(1)
    by (simp only: f option.case prod.case of_nat_0_le_iff d l sz len simp_thms if_False if_True)
qed

subsection \<open>A download\<close>

fun save_all :: "(passenger \<Rightarrow> byte list) \<Rightarrow> byte list list \<Rightarrow> passenger \<Rightarrow> os \<Rightarrow> (passenger \<times> os) option" where
  "save_all enc [] p os = Some (p, os)"
| "save_all enc (c # cs) p os =
     (case save_passenger_info enc c p os of None \<Rightarrow> None | Some (q, os1) \<Rightarrow> save_all enc cs q os1)"

definition padded :: "byte list \<Rightarrow> byte list \<Rightarrow> byte list" where
  "padded old tr = tr @ drop (length tr) old"

text \<open>The record after the parts \<open>ls\<close> of a list with \<open>n\<close> packets.\<close>

definition loading :: "passenger_stat \<Rightarrow> byte list \<Rightarrow> int \<Rightarrow> byte list \<Rightarrow> byte list list \<Rightarrow> passenger" where
  "loading st cmd_id n ver ls = \<lparr>p_status = st, p_cmd_id = padded (replicate 10 0) cmd_id, p_max_pkt = n,
     p_cur_pkt = int (length ls), p_version = padded NO_VERSION ver, rfid_list = concat (map (\<lambda>l. l @ [44]) ls)\<rparr>"

lemma same_padded: "length tr \<le> length old \<Longrightarrow> same_start (padded old tr) tr = Some True"
  by (simp add: same_start_def padded_def)

lemma put_padded: "length tr \<le> length old \<Longrightarrow> put_field old tr = Some (padded old tr)"
  by (simp add: put_field_def padded_def)

lemma version_step:
  assumes "length ver \<le> 8"
  shows "passenger_version ver (p\<lparr>p_version := padded NO_VERSION ver\<rparr>) = Some (Next (p\<lparr>p_version := padded NO_VERSION ver\<rparr>))"
proof -
  have l: "length NO_VERSION = 8" by (simp add: NO_VERSION_def str_def)
  have len: "length (padded NO_VERSION ver) = 8" using assms l by (simp add: padded_def)
  have "padded (padded NO_VERSION ver) ver = padded NO_VERSION ver"
    by (simp add: padded_def)
  then show ?thesis
    using assms len same_padded [of ver NO_VERSION] put_padded [of ver "padded NO_VERSION ver"]
      put_padded [of ver NO_VERSION] l
    by (cases "padded NO_VERSION ver = NO_VERSION") (simp_all add: passenger_version_def)
qed

definition list_room :: "byte list list \<Rightarrow> bool" where
  "list_room ls \<longleftrightarrow> sum_list (map (\<lambda>l. length l + 1) ls) \<le> RFID_LIST_CAP"

lemma part_step:
  assumes "p = init_passenger_info \<and> ls = [] \<or> p = loading eGET_PASSENGER_STAT_DOWNLOADING cmd_id n ver ls"
    and "length cmd_id \<le> 10" "length ver \<le> 8" "0 \<le> n" "list_room (ls @ [l])"
  shows "go_on (passenger_id cmd_id p) (\<lambda>p1. go_on (passenger_max (sprintf_d n) p1) (\<lambda>p2.
    go_on (passenger_cur (sprintf_d (int (Suc (length ls)))) p2) (\<lambda>p3. go_on (passenger_version ver p3) (\<lambda>p4. passenger_list l p4)))) =
    Some (Next (loading eGET_PASSENGER_STAT_DOWNLOADING cmd_id n ver (ls @ [l])))"
  using assms(1)
proof
  have at: "atoi (sprintf_d n) = n" "atoi (sprintf_d (int (Suc (length ls)))) = int (Suc (length ls))"
    using assms(4) by (simp_all only: atoi_sprintf of_nat_0_le_iff)
  have len: "length (concat (map (\<lambda>l. l @ [44]) ls)) + length l + 1 \<le> RFID_LIST_CAP"
    using assms(5) by (simp add: list_room_def length_concat comp_def)
  {
    assume "p = init_passenger_info \<and> ls = []"
    with at len assms(2,3) show ?thesis
      by (simp add: go_on_def passenger_id_def passenger_max_def passenger_cur_def passenger_list_def
          passenger_version_def init_passenger_info_def loading_def put_padded NO_VERSION_def str_def)
  next
    assume p: "p = loading eGET_PASSENGER_STAT_DOWNLOADING cmd_id n ver ls"
    have v: "passenger_version ver (p\<lparr>p_cur_pkt := c\<rparr>) = Some (Next (p\<lparr>p_cur_pkt := c\<rparr>))" for c
      using version_step [OF assms(3), of "p\<lparr>p_cur_pkt := c\<rparr>"] by (simp add: p loading_def)
    from p at len assms(2) show ?thesis
      by (simp add: go_on_def passenger_id_def passenger_max_def passenger_cur_def same_padded
          loading_def) (simp add: v [unfolded p loading_def, simplified] passenger_list_def loading_def)
  }
qed

lemma save_part:
  assumes "p = init_passenger_info \<and> ls = [] \<or> p = loading eGET_PASSENGER_STAT_DOWNLOADING cmd_id n ver ls"
    and "field_ok cmd" "field_ok phone" "field_ok cmd_id" "length cmd_id \<le> 10" "field_ok ver" "length ver \<le> 8" "0 \<le> n"
    and "l \<noteq> []" "13 \<notin> set (ver @ l)" "10 \<notin> set (ver @ l)" "length ver + length l < 511" "list_room (ls @ [l])"
  shows "save_passenger_info enc (list_packet cmd phone cmd_id n (int (Suc (length ls))) ver l) p os =
    (if n = int (Suc (length ls)) then
       Some (loading eGET_PASSENGER_STAT_COMPLETE cmd_id n ver (ls @ [l]),
         snd (storage_save_file RFID_SAVED_FILE (enc (loading eGET_PASSENGER_STAT_COMPLETE cmd_id n ver (ls @ [l]))) os))
     else Some (loading eGET_PASSENGER_STAT_DOWNLOADING cmd_id n ver (ls @ [l]), os))"
proof -
  have st: "p_status p \<noteq> eGET_PASSENGER_STAT_COMPLETE" using assms(1) by (auto simp: init_passenger_info_def loading_def)
  have k: "0 \<le> int (Suc (length ls))" by (rule of_nat_0_le_iff)
  have "passenger_steps (list_packet cmd phone cmd_id n (int (Suc (length ls))) ver l) p =
      Some (Next (loading eGET_PASSENGER_STAT_DOWNLOADING cmd_id n ver (ls @ [l])))"
    unfolding steps_packet [OF assms(2-4) assms(8) k assms(6) assms(9-12)]
    by (rule part_step [OF assms(1) assms(5) assms(7) assms(8) assms(13)])
  with st show ?thesis by (simp add: save_passenger_info_def Let_def loading_def)
qed

text \<open>The packets of a list cut into the parts \<open>ls\<close>, from the one behind the first \<open>done\<close> parts on.\<close>

fun list_packets :: "(int \<Rightarrow> byte list \<Rightarrow> byte list) \<Rightarrow> nat \<Rightarrow> byte list list \<Rightarrow> byte list list" where
  "list_packets mk d [] = []"
| "list_packets mk d (l # ls) = mk (int (Suc d)) l # list_packets mk (Suc d) ls"

lemma download_rest:
  assumes h: "field_ok cmd" "field_ok phone" "field_ok cmd_id" "length cmd_id \<le> 10" "field_ok ver" "length ver \<le> 8"
  shows "\<lbrakk>p = init_passenger_info \<and> ls = [] \<or> p = loading eGET_PASSENGER_STAT_DOWNLOADING cmd_id n ver ls;
    n = int (length (ls @ ms)); ms \<noteq> []; list_room (ls @ ms);
    \<forall>l \<in> set ms. l \<noteq> [] \<and> 13 \<notin> set (ver @ l) \<and> 10 \<notin> set (ver @ l) \<and> length ver + length l < 511\<rbrakk> \<Longrightarrow>
    save_all enc (list_packets (\<lambda>k l. list_packet cmd phone cmd_id n k ver l) (length ls) ms) p os =
      Some (loading eGET_PASSENGER_STAT_COMPLETE cmd_id n ver (ls @ ms),
        snd (storage_save_file RFID_SAVED_FILE (enc (loading eGET_PASSENGER_STAT_COMPLETE cmd_id n ver (ls @ ms))) os))"
proof (induction ms arbitrary: p ls)
  case (Cons m ms)
  have m: "m \<noteq> []" "13 \<notin> set (ver @ m)" "10 \<notin> set (ver @ m)" "length ver + length m < 511"
    using Cons.prems(5) by simp_all
  have room: "list_room (ls @ [m])" using Cons.prems(4) by (simp add: list_room_def)
  have n: "0 \<le> n" using Cons.prems(2) by simp
  note part = save_part [OF Cons.prems(1) h(1-6) n m room, of enc os]
  show ?case
  proof (cases ms)
    case Nil
    then have "n = int (Suc (length ls))" using Cons.prems(2) by simp
    with part Nil show ?thesis by simp
  next
    case (Cons m2 ms2)
    then have "n \<noteq> int (Suc (length ls))" using \<open>n = int (length (ls @ m # ms))\<close> by simp
    moreover have "save_all enc (list_packets (\<lambda>k l. list_packet cmd phone cmd_id n k ver l) (length (ls @ [m])) ms)
        (loading eGET_PASSENGER_STAT_DOWNLOADING cmd_id n ver (ls @ [m])) os =
      Some (loading eGET_PASSENGER_STAT_COMPLETE cmd_id n ver ((ls @ [m]) @ ms),
        snd (storage_save_file RFID_SAVED_FILE (enc (loading eGET_PASSENGER_STAT_COMPLETE cmd_id n ver ((ls @ [m]) @ ms))) os))"
      by (rule Cons.IH) (use Cons Cons.prems(2,4,5) in simp_all)
    ultimately show ?thesis using part by simp
  qed
qed simp

text \<open>
  The number is looked for anywhere in the list, so a part of another passenger's number is found too.
\<close>

lemma find_rfid_part:
  assumes "rfid_list p = u @ rfid @ v"
  shows "find_rfid rfid p \<ge> 0"
proof -
  have "\<exists>a b. take (length (rfid_list p)) (rfid_list p) = a @ take (length rfid) rfid @ b" using assms by auto
  then show ?thesis unfolding find_rfid_def by (subst bm_search_found) auto
qed

text \<open>
  A list of passengers that comes in consecutive packets of up to 510 characters is complete with
  the last one and saved, holds exactly the parts, each closed by a comma, and a card whose number
  stands in one of the parts is found in it.
\<close>

theorem passenger_download:
  assumes "field_ok cmd" "field_ok phone" "field_ok cmd_id" "length cmd_id \<le> 10" "field_ok ver" "length ver \<le> 8"
    and "ls \<noteq> []" and "list_room ls"
    and "\<forall>l \<in> set ls. l \<noteq> [] \<and> 13 \<notin> set (ver @ l) \<and> 10 \<notin> set (ver @ l) \<and> length ver + length l < 511"
    and "a @ rfid @ b \<in> set ls"
  shows "\<exists>p os'. save_all enc
      (list_packets (\<lambda>k l. list_packet cmd phone cmd_id (int (length ls)) k ver l) 0 ls) init_passenger_info os = Some (p, os') \<and>
    get_passenger_info_stat p = eGET_PASSENGER_STAT_COMPLETE \<and> rfid_list p = concat (map (\<lambda>l. l @ [44]) ls) \<and>
    os' = snd (storage_save_file RFID_SAVED_FILE (enc p) os) \<and> find_rfid rfid p \<ge> 0"
proof -
  let ?p = "loading eGET_PASSENGER_STAT_COMPLETE cmd_id (int (length ls)) ver ls"
  have start: "init_passenger_info = init_passenger_info \<and> [] = [] \<or>
      init_passenger_info = loading eGET_PASSENGER_STAT_DOWNLOADING cmd_id (int (length ls)) ver []" by simp
  have s: "save_all enc (list_packets (\<lambda>k l. list_packet cmd phone cmd_id (int (length ls)) k ver l) 0 ls) init_passenger_info os =
      Some (?p, snd (storage_save_file RFID_SAVED_FILE (enc ?p) os))"
    using download_rest [OF assms(1-6) start _ assms(7) _ assms(9), where enc = enc and os = os]
    by (simp only: append_Nil list.size assms(8))
  obtain u v where uv: "ls = u @ (a @ rfid @ b) # v" using split_list [OF assms(10)] by blast
  have l: "rfid_list ?p = concat (map (\<lambda>l. l @ [44]) ls)" by (simp add: loading_def)
  also have "\<dots> = (concat (map (\<lambda>l. l @ [44]) u) @ a) @ rfid @ (b @ [44] @ concat (map (\<lambda>l. l @ [44]) v))"
    unfolding uv by simp
  finally have "find_rfid rfid ?p \<ge> 0" by (intro find_rfid_part)
  moreover have "get_passenger_info_stat ?p = eGET_PASSENGER_STAT_COMPLETE"
    by (simp add: get_passenger_info_stat_def loading_def)
  ultimately show ?thesis using s l by blast
qed

lemma passenger_download_witness:
  "\<exists>p os'. save_all (\<lambda>p. rfid_list p)
      (list_packets (\<lambda>k l. list_packet [49] [48] [55] (int (length [[50, 51], [52, 53 :: byte]])) k [54] l) 0 [[50, 51], [52, 53]])
      init_passenger_info \<lparr>files = (\<lambda>_. None), script = []\<rparr> = Some (p, os') \<and>
    get_passenger_info_stat p = eGET_PASSENGER_STAT_COMPLETE \<and>
    rfid_list p = concat (map (\<lambda>l. l @ [44]) [[50, 51], [52, 53]]) \<and>
    os' = snd (storage_save_file RFID_SAVED_FILE (rfid_list p) \<lparr>files = (\<lambda>_. None), script = []\<rparr>) \<and> find_rfid [53] p \<ge> 0"
  by (rule passenger_download [where a = "[52]" and b = "[]"])
    (simp_all add: field_ok_def list_room_def RFID_LIST_CAP_def)

text \<open>A packet that is not the next one throws everything away that has come so far.\<close>

lemma passenger_gap_restarts:
  assumes "p_status p = eGET_PASSENGER_STAT_DOWNLOADING" "p_cmd_id p = padded (replicate 10 0) cmd_id" "length cmd_id \<le> 10"
    and "p_max_pkt p = n" "k \<noteq> p_cur_pkt p + 1"
    and "field_ok cmd" "field_ok phone" "field_ok cmd_id" "0 \<le> n" "0 \<le> k" "field_ok ver"
    and "l \<noteq> []" "13 \<notin> set (ver @ l)" "10 \<notin> set (ver @ l)" "length ver + length l < 511"
  shows "save_passenger_info enc (list_packet cmd phone cmd_id n k ver l) p os = Some (init_passenger_info, os)"
proof -
  have "same_start (p_cmd_id p) cmd_id = Some True" using same_padded [of cmd_id "replicate 10 0"] assms(2,3) by simp
  then have "passenger_steps (list_packet cmd phone cmd_id n k ver l) p = Some Fail"
    unfolding steps_packet [OF assms(6-15)]
    using assms(1,4,5) atoi_sprintf [OF assms(9)] atoi_sprintf [OF assms(10)]
    by (simp add: go_on_def passenger_id_def passenger_max_def passenger_cur_def)
  with assms(1) show ?thesis by (simp add: save_passenger_info_def)
qed

end
