(* ===== verification/AllocStops.thy ===== *)
theory AllocStops
  imports Nmea Geofence AllocDown
begin

text \<open>
  The bus stops of \<open>model/alloc3\<close>: \<open>save_geofence_info\<close> and its neighbours of \<open>alloc_packet_tool.c\<close>,
  which read the stops out of numbered packets, and \<open>geofence.c\<close>, which watches them. The loop over the
  fences is the one of \<open>util/geofence-v2.c\<close> (theory Geofence) and saves nothing; around it stand the
  numbers of the last and of the first stop. \<open>encs\<close> and the like are the representations of the tables
  in memory, which are saved with theory Storage.
\<close>

definition GEO_FENCE_MAX_COUNT :: nat where "GEO_FENCE_MAX_COUNT = 100"
definition GEOFENCE_SAVED_FILE :: string where "GEOFENCE_SAVED_FILE = ''/data/mds/data/alloc_geofence.dat''"
definition GEO_FENCE_SETUP_DATA_FILE :: string where "GEO_FENCE_SETUP_DATA_FILE = ''/data/mds/data/geo_fence.dat''"
definition ALLOC_FENCE_STATUS_FILE :: string where "ALLOC_FENCE_STATUS_FILE = ''/data/mds/data/geo_fence_status.dat''"

datatype geofence_stat = eGET_GEOFENCE_STAT_NULL | eGET_GEOFENCE_STAT_DOWNLOADING | eGET_GEOFENCE_STAT_COMPLETE

text \<open>The four arrays as one list of their written entries, whose length is \<open>total_geo_fence\<close>.\<close>

record bus_stop =
  stop_num :: int
  stop_lat :: real
  stop_lon :: real
  stop_range :: int

record stop_info =
  gf_status :: geofence_stat
  gf_cmd_id :: "byte list"
  gf_max_pkt :: int
  gf_cur_pkt :: int
  bus_stops :: "bus_stop list"
  info_recent :: int

record stops =
  geo_fence_info :: stop_info
  fences :: geo
  recent_geo_fence :: int
  first_geo_fence :: int
  tl500_geofence_reset :: bool

record fence_codes =
  enc_setup :: "geo_setup list \<Rightarrow> byte list"
  dec_setup :: "byte list \<Rightarrow> geo_setup list"
  enc_status :: "fence_notification list \<Rightarrow> byte list"
  enc_info :: "stop_info \<Rightarrow> byte list"
  dec_info :: "byte list \<Rightarrow> stop_info"

subsection \<open>Fences\<close>

text \<open>The saved setup is loaded, the status is not: whatever the file holds is overwritten.\<close>

definition alloc_init_geo_fence :: "fence_codes \<Rightarrow> stops \<Rightarrow> os \<Rightarrow> stops \<times> os" where
  "alloc_init_geo_fence c s os =
     (let g = init_geo_fence_data (fences s);
          (d, os1) = load_or_save GEO_FENCE_SETUP_DATA_FILE (enc_setup c (setup_data g)) os;
          (ret, st, os2) = storage_load_file ALLOC_FENCE_STATUS_FILE (enc_status c (status_data g)) os1
      in (s\<lparr>fences := g\<lparr>setup_data := dec_setup c d,
            status_data := replicate GEO_FENCE_MAX_COUNT OUT_NOTIFICATION\<rparr>\<rparr>, os2))"

definition set_recent_geo_fence :: "int \<Rightarrow> stops \<Rightarrow> stops" where
  "set_recent_geo_fence i s =
     (let v = (if i < 0 then -1 else i);
          s1 = s\<lparr>recent_geo_fence := v\<rparr>
      in if first_geo_fence s1 = -1 then s1\<lparr>first_geo_fence := v\<rparr> else s1)"

definition get_cur_fence_status :: "nat \<Rightarrow> stops \<Rightarrow> fence_notification" where
  "get_cur_fence_status i s = status_data (fences s) ! i"

definition set_cur_fence_status_out :: "nat \<Rightarrow> stops \<Rightarrow> stops" where
  "set_cur_fence_status_out i s = s\<lparr>fences := (fences s)\<lparr>status_data := (status_data (fences s))[i := OUT_NOTIFICATION]\<rparr>\<rparr>"

definition alloc_get_geofence_notification :: "(real \<Rightarrow> real) \<Rightarrow> gpsData \<Rightarrow> stops \<Rightarrow>
    fence_notification \<times> nat option \<times> stops" where
  "alloc_get_geofence_notification rnd g s =
     (case get_geofence_notification rnd g (fences s) of
        (r, Some k, f) \<Rightarrow>
          (r, Some k, if r = IN_NOTIFICATION then set_recent_geo_fence (int k) (s\<lparr>fences := f\<rparr>) else s\<lparr>fences := f\<rparr>)
      | (r, None, f) \<Rightarrow> (r, None, s\<lparr>fences := f\<rparr>))"

subsection \<open>Stops\<close>

definition no_stops :: stop_info where
  "no_stops = \<lparr>gf_status = eGET_GEOFENCE_STAT_NULL, gf_cmd_id = replicate 10 0, gf_max_pkt = 0, gf_cur_pkt = 0,
     bus_stops = [], info_recent = 0\<rparr>"

definition alloc_geo_fence_info_init :: "fence_codes \<Rightarrow> stops \<Rightarrow> os \<Rightarrow> stops \<times> os" where
  "alloc_geo_fence_info_init c s os = alloc_init_geo_fence c (s\<lparr>geo_fence_info := no_stops\<rparr>) os"

definition fence_of :: "bus_stop \<Rightarrow> geo_setup" where
  "fence_of b = \<lparr>enable = True, latitude = stop_lat b, longitude = stop_lon b, fence_range = stop_range b,
     setup_fence_status = SETUP_ENTRY_EXIT\<rparr>"

definition set_geofence_data :: "fence_codes \<Rightarrow> stops \<Rightarrow> os \<Rightarrow> int \<times> stops \<times> os" where
  "set_geofence_data c s os =
     (if gf_status (geo_fence_info s) \<noteq> eGET_GEOFENCE_STAT_COMPLETE then (-1, s, os)
      else
        (let (s1, os1) = alloc_init_geo_fence c s os; bs = bus_stops (geo_fence_info s1)
         in (0, s1\<lparr>fences := fold (\<lambda>i f. snd (set_geo_fence_setup_info (int i) (fence_of (bs ! i)) f))
               [0..<length bs] (fences s1)\<rparr>, os1)))"

definition load_file_geofence_info :: "fence_codes \<Rightarrow> stops \<Rightarrow> os \<Rightarrow> stops \<times> os" where
  "load_file_geofence_info c s os =
     (case storage_load_file GEOFENCE_SAVED_FILE (replicate (length (enc_info c no_stops)) 0) os of
        (ret, d, os1) \<Rightarrow>
          if ret \<ge> 0 then
            (let info = dec_info c d;
                 (r, s2, os2) = set_geofence_data c (s\<lparr>geo_fence_info := info\<rparr>) os1
             in (set_recent_geo_fence (info_recent info) s2, os2))
          else alloc_geo_fence_info_init c s os1)"

definition get_geo_fence_info_stat :: "stops \<Rightarrow> geofence_stat" where
  "get_geo_fence_info_stat s = gf_status (geo_fence_info s)"

definition get_geo_fence_cmd_id :: "stops \<Rightarrow> byte list" where
  "get_geo_fence_cmd_id s = gf_cmd_id (geo_fence_info s)"

text \<open>The number of a stop, 0 behind the written entries.\<close>

definition get_geo_fence_id :: "int \<Rightarrow> stops \<Rightarrow> byte list option" where
  "get_geo_fence_id i s =
     (if i < 0 \<or> i \<ge> int GEO_FENCE_MAX_COUNT then None
      else
        (let bs = bus_stops (geo_fence_info s)
         in Some (sprintf_d (if nat i < length bs then stop_num (bs ! nat i) else 0))))"

subsection \<open>A packet with stops\<close>

definition stops_id :: "byte list \<Rightarrow> stop_info \<Rightarrow> stop_info step option" where
  "stops_id tr p =
     (case gf_status p of
        eGET_GEOFENCE_STAT_NULL \<Rightarrow>
          (case put_field (replicate 10 0) tr of None \<Rightarrow> None | Some c \<Rightarrow> Some (Next (p\<lparr>gf_cmd_id := c\<rparr>)))
      | eGET_GEOFENCE_STAT_DOWNLOADING \<Rightarrow>
          (case same_start (gf_cmd_id p) tr of
             None \<Rightarrow> None | Some eq \<Rightarrow> Some (if eq then Next p else Fail))
      | eGET_GEOFENCE_STAT_COMPLETE \<Rightarrow> Some (Next p))"

definition stops_max :: "byte list \<Rightarrow> stop_info \<Rightarrow> stop_info step option" where
  "stops_max tr p =
     (case gf_status p of
        eGET_GEOFENCE_STAT_NULL \<Rightarrow>
          Some (Next (p\<lparr>gf_max_pkt := atoi tr, gf_cur_pkt := 0, gf_status := eGET_GEOFENCE_STAT_DOWNLOADING\<rparr>))
      | eGET_GEOFENCE_STAT_DOWNLOADING \<Rightarrow> Some (if gf_max_pkt p \<noteq> atoi tr then Fail else Next p)
      | eGET_GEOFENCE_STAT_COMPLETE \<Rightarrow> Some (Next p))"

text \<open>Unlike with the passengers, the number is taken as it is: the comparison is commented out.\<close>

definition stops_cur :: "byte list \<Rightarrow> stop_info \<Rightarrow> stop_info step option" where
  "stops_cur tr p =
     (case gf_status p of
        eGET_GEOFENCE_STAT_NULL \<Rightarrow> Some (Leave p)
      | eGET_GEOFENCE_STAT_DOWNLOADING \<Rightarrow> Some (Next (p\<lparr>gf_cur_pkt := atoi tr\<rparr>))
      | eGET_GEOFENCE_STAT_COMPLETE \<Rightarrow> Some (Next p))"

lemma strtok_shorter: "strtok d t = Some (a, r) \<Longrightarrow> length r < length t"
proof -
  assume a: "strtok d t = Some (a, r)"
  let ?s = "dropWhile (\<lambda>c. c \<in> set d) t"
  have s: "?s \<noteq> []" "r = tl (dropWhile (\<lambda>c. c \<notin> set d) ?s)"
    using a by (auto simp: strtok_def Let_def split: if_splits)
  have "length ?s \<le> length t" by (rule length_dropWhile_le)
  moreover have "length (tl (dropWhile (\<lambda>c. c \<notin> set d) ?s)) < length ?s"
    using s(1) length_dropWhile_le [of "\<lambda>c. c \<notin> set d" ?s] by (cases ?s) (auto simp: less_Suc_eq_le)
  ultimately show ?thesis using s(2) by simp
qed

text \<open>The loop over the stops of a packet, four tokens each.\<close>

function stops_loop :: "byte list \<Rightarrow> stop_info \<Rightarrow> stop_info step option" where
  "stops_loop t p =
     (case strtok COMMA t of
        None \<Rightarrow> Some (Next p)
      | Some (n, r1) \<Rightarrow>
          if length (bus_stops p) \<ge> GEO_FENCE_MAX_COUNT then None
          else
            (case strtok COMMA r1 of
               None \<Rightarrow> Some Fail
             | Some (la, r2) \<Rightarrow>
                 (case strtok COMMA r2 of
                    None \<Rightarrow> Some Fail
                  | Some (lo, r3) \<Rightarrow>
                      (case strtok COMMA r3 of
                         None \<Rightarrow> Some Fail
                       | Some (ra, r4) \<Rightarrow>
                           stops_loop r4 (p\<lparr>bus_stops := bus_stops p @
                             [\<lparr>stop_num = atoi n, stop_lat = atof la, stop_lon = atof lo, stop_range = to_int (atof ra)\<rparr>]\<rparr>)))))"
  by pat_completeness auto
termination
  by (relation "measure (\<lambda>(t, p). length t)") (auto dest!: strtok_shorter)

declare stops_loop.simps [simp del]

definition stops_steps :: "byte list \<Rightarrow> stop_info \<Rightarrow> stop_info step option" where
  "stops_steps content p =
     on_token COMMA content (\<lambda>cmd r0.
     on_token COMMA r0 (\<lambda>phone r1.
     on_token COMMA r1 (\<lambda>cmd_id r2. go_on (stops_id cmd_id p) (\<lambda>p1.
     on_token COMMA r2 (\<lambda>data_size r3.
     on_token COMMA r3 (\<lambda>max_pkt r4. go_on (stops_max max_pkt p1) (\<lambda>p2.
     on_token COMMA r4 (\<lambda>cur_pkt r5. go_on (stops_cur cur_pkt p2) (\<lambda>p3.
     on_token CRLF r5 (\<lambda>data r6.
       if atoi data_size \<noteq> int (length data) then Some Fail
       else if length data \<ge> 512 then None
       else stops_loop data p3))))))))))"

definition save_geofence_info :: "fence_codes \<Rightarrow> byte list \<Rightarrow> stops \<Rightarrow> os \<Rightarrow> (stops \<times> os) option" where
  "save_geofence_info c content s0 os0 =
     (let (s, os) = (if gf_status (geo_fence_info s0) = eGET_GEOFENCE_STAT_COMPLETE
                     then alloc_geo_fence_info_init c s0 os0 else (s0, os0))
      in case stops_steps content (geo_fence_info s) of
           None \<Rightarrow> None
         | Some Fail \<Rightarrow> Some (alloc_geo_fence_info_init c s os)
         | Some (Leave q) \<Rightarrow> Some (s\<lparr>geo_fence_info := q\<rparr>, os)
         | Some (Next q) \<Rightarrow>
             if gf_max_pkt q = gf_cur_pkt q then
               (let q1 = q\<lparr>gf_status := eGET_GEOFENCE_STAT_COMPLETE, info_recent := -1\<rparr>;
                    s1 = (set_recent_geo_fence (-1) s)\<lparr>geo_fence_info := q1, tl500_geofence_reset := True\<rparr>;
                    os1 = snd (storage_save_file GEOFENCE_SAVED_FILE (enc_info c q1) os)
                in Some (snd (set_geofence_data c s1 os1)))
             else Some (s\<lparr>geo_fence_info := q\<rparr>, os))"

subsection \<open>What a position reports\<close>

text \<open>
  The packet of a stop: entering or leaving, the index and the number of the stop, of which eight
  characters are sent: \<open>sprintf\<close> writes up to eleven characters and a NUL into the eight bytes of
  \<open>zone_id\<close> and the four of \<open>zone_idx\<close> behind them in the packed record, and \<open>zone_idx\<close> is stored
  after that. A report is made only when the
  stops are complete, but the fence has changed its status then too. \<open>None\<close>: an index behind the table.
\<close>

record stop_report =
  zone_in :: bool
  zone_idx :: nat
  zone_id :: "byte list"

definition zone_report :: "bool \<Rightarrow> nat \<Rightarrow> stops \<Rightarrow> (stop_report option \<times> stops) option" where
  "zone_report b k s =
     (case get_geo_fence_id (int k) s of
        None \<Rightarrow> None | Some z \<Rightarrow> Some (Some \<lparr>zone_in = b, zone_idx = k, zone_id = take 8 z\<rparr>, s))"

definition fence_pass :: "(real \<Rightarrow> real) \<Rightarrow> gpsData \<Rightarrow> stops \<Rightarrow> (stop_report option \<times> stops) option" where
  "fence_pass rnd g s =
     (case alloc_get_geofence_notification rnd g s of
        (r, None, s1) \<Rightarrow> Some (None, s1)
      | (r, Some k, s1) \<Rightarrow>
          if get_geo_fence_info_stat s1 \<noteq> eGET_GEOFENCE_STAT_COMPLETE then Some (None, s1)
          else if r = IN_NOTIFICATION then
            map_option (\<lambda>(p, s2). (p, s2\<lparr>tl500_geofence_reset := False\<rparr>)) (zone_report True k s1)
          else if r = OUT_NOTIFICATION then zone_report False k s1
          else Some (None, s1))"

fun fence_passes :: "(real \<Rightarrow> real) \<Rightarrow> gpsData list \<Rightarrow> stops \<Rightarrow> stop_report option list option" where
  "fence_passes rnd [] s = Some []"
| "fence_passes rnd (g # gs) s =
     (case fence_pass rnd g s of
        None \<Rightarrow> None
      | Some (p, s1) \<Rightarrow> map_option ((#) p) (fence_passes rnd gs s1))"

subsection \<open>One pass\<close>

definition both_ways :: "geo \<Rightarrow> bool" where
  "both_ways f \<longleftrightarrow> length (status_data f) = 100 \<and>
     (\<forall>i < 100. enable (setup_data f ! i) \<longrightarrow> setup_fence_status (setup_data f ! i) = SETUP_ENTRY_EXIT)"

definition near :: "(real \<Rightarrow> real) \<Rightarrow> gpsData \<Rightarrow> geo_setup \<Rightarrow> bool" where
  "near rnd g f \<longleftrightarrow> to_int (get_distance_m rnd (latitude f) (glat g) (longitude f) (glon g)) \<le> fence_range f"

lemma geo_loop_both_ways:
  "\<lbrakk>geo_loop rnd i g s = (r, num, s'); both_ways s\<rbrakk> \<Longrightarrow> setup_data s' = setup_data s \<and>
   (case num of
      None \<Rightarrow> r = NONE_NOTIFICATION \<and> status_data s' = status_data s
    | Some k \<Rightarrow> k < 100 \<and> enable (setup_data s ! k) \<and> r \<noteq> NONE_NOTIFICATION \<and> status_data s ! k \<noteq> r \<and>
        status_data s' = (status_data s)[k := r] \<and> (r = IN_NOTIFICATION \<longleftrightarrow> near rnd g (setup_data s ! k)))"
proof (induction rnd i g s arbitrary: r num s' rule: geo_loop.induct)
  case (1 rnd i g s)
  note m = GEO_FENCE_V2_MAX_COUNT_def
  show ?case
  proof (cases "i < GEO_FENCE_V2_MAX_COUNT")
    case False
    with "1.prems" show ?thesis by (subst (asm) geo_loop.simps) auto
  next
    case i: True
    let ?s1 = "s\<lparr>hold_count := (hold_count s)[i := hold_count s ! i - 1]\<rparr>"
    obtain res s2 where gn: "get_notification rnd i g ?s1 = (res, s2)" by (cases "get_notification rnd i g ?s1")
    note fr = get_notification_frame [OF gn]
    have b1: "both_ways ?s1" using "1.prems"(2) by (simp add: both_ways_def)
    consider (off) "\<not> enable (setup_data s ! i)"
      | (hold) "enable (setup_data s ! i)" "hold_count s ! i > 0"
      | (quiet) "enable (setup_data s ! i)" "\<not> hold_count s ! i > 0" "res = NONE_NOTIFICATION"
      | (event) "enable (setup_data s ! i)" "\<not> hold_count s ! i > 0" "res \<noteq> NONE_NOTIFICATION"
      by blast
    then show ?thesis
    proof cases
      case off
      with i "1.prems"(1) have "geo_loop rnd (i + 1) g s = (r, num, s')" by (subst (asm) geo_loop.simps) simp
      from "1.IH"(1) [OF i off this "1.prems"(2)] show ?thesis .
    next
      case hold
      with i "1.prems"(1) have "geo_loop rnd (i + 1) g ?s1 = (r, num, s')"
        by (subst (asm) geo_loop.simps) (simp add: Let_def)
      from "1.IH"(2) [OF i _ refl refl hold(2) this b1] hold(1) show ?thesis by (cases num) simp_all
    next
      case quiet
      have "setup_fence_status (setup_data ?s1 ! i) = SETUP_ENTRY_EXIT"
        using quiet(1) "1.prems"(2) i by (simp add: both_ways_def m)
      with get_notification_quiet [of rnd i g ?s1 s2] gn quiet(3) have s2: "s2 = ?s1" by simp
      with quiet i "1.prems"(1) gn have "geo_loop rnd (i + 1) g s2 = (r, num, s')"
        by (subst (asm) geo_loop.simps) (simp add: Let_def)
      from "1.IH"(3) [OF i _ refl refl quiet(2) gn [symmetric] quiet(3) this] b1 s2 quiet(1) show ?thesis by (cases num) simp_all
    next
      case event
      with i "1.prems"(1) gn have e: "num = Some i" "r = res"
        "s' = s2\<lparr>hold_count := (hold_count s2)[i := WAIT_TIME_UNTIL_NEXT_GEO_EVENT]\<rparr>"
        by (subst (asm) geo_loop.simps, simp add: Let_def)+
      have len: "i < length (status_data ?s1)" using "1.prems"(2) i by (simp add: both_ways_def m)
      note ev = get_notification_event [OF gn event(3) len]
      have "status_data s2 = (status_data s)[i := res]"
        using fr ev len by (intro nth_equalityI) (auto simp: nth_list_update)
      with e event i ev fr show ?thesis by (auto simp: near_def m)
    qed
  qed
qed

definition unused_fences :: "geo_setup list" where
  "unused_fences = replicate GEO_FENCE_V2_MAX_COUNT
     \<lparr>enable = False, latitude = 0, longitude = 0, fence_range = 0, setup_fence_status = SETUP_UNKNOWN\<rparr>"

definition fences_of :: "bus_stop list \<Rightarrow> geo_setup list" where
  "fences_of bs = map fence_of bs @ drop (length bs) unused_fences"

text \<open>The stops \<open>bs\<close> are watched: each has its fence, and no other fence is enabled.\<close>

definition stops_watched :: "bus_stop list \<Rightarrow> stops \<Rightarrow> bool" where
  "stops_watched bs s \<longleftrightarrow> gf_status (geo_fence_info s) = eGET_GEOFENCE_STAT_COMPLETE \<and>
     bus_stops (geo_fence_info s) = bs \<and> length bs \<le> 100 \<and> setup_data (fences s) = fences_of bs \<and>
     length (status_data (fences s)) = 100"

definition zone_note :: "stop_report \<Rightarrow> fence_notification" where
  "zone_note p = (if zone_in p then IN_NOTIFICATION else OUT_NOTIFICATION)"

lemma watched_fence:
  assumes "stops_watched bs s" "k < 100"
  shows "enable (setup_data (fences s) ! k) \<longleftrightarrow> k < length bs"
    and "k < length bs \<Longrightarrow> setup_data (fences s) ! k = fence_of (bs ! k)"
  using assms by (auto simp: stops_watched_def fences_of_def unused_fences_def nth_append
      GEO_FENCE_V2_MAX_COUNT_def fence_of_def)

lemma watched_both_ways:
  assumes "stops_watched bs s"
  shows "both_ways (fences s)"
  using watched_fence [OF assms] assms by (auto simp: both_ways_def stops_watched_def fence_of_def)

lemma set_recent_keeps [simp]:
  "geo_fence_info (set_recent_geo_fence i s) = geo_fence_info s" "fences (set_recent_geo_fence i s) = fences s"
  by (simp_all add: set_recent_geo_fence_def Let_def)

lemma fence_pass_watched:
  assumes "stops_watched bs s"
  shows "\<exists>o' s'. fence_pass rnd g s = Some (o', s') \<and> stops_watched bs s' \<and>
    (case o' of
       None \<Rightarrow> status_data (fences s') = status_data (fences s)
     | Some p \<Rightarrow> zone_idx p < length bs \<and> zone_id p = take 8 (sprintf_d (stop_num (bs ! zone_idx p))) \<and>
         zone_in p = near rnd g (fence_of (bs ! zone_idx p)) \<and>
         status_data (fences s) ! zone_idx p \<noteq> zone_note p \<and>
         status_data (fences s') = (status_data (fences s))[zone_idx p := zone_note p])"
proof -
  note w = assms [unfolded stops_watched_def]
  obtain r num f where l: "geo_loop rnd 0 g (fences s) = (r, num, f)" by (cases "geo_loop rnd 0 g (fences s)")
  note gl = geo_loop_both_ways [OF l watched_both_ways [OF assms]]
  have fr: "get_geofence_notification rnd g (fences s) = (r, num, f)" using l by (simp add: get_geofence_notification_def)
  show ?thesis
  proof (cases num)
    case None
    with gl w fr show ?thesis by (simp add: fence_pass_def alloc_get_geofence_notification_def stops_watched_def)
  next
    case (Some k)
    with gl have k: "k < 100" "enable (setup_data (fences s) ! k)" "r \<noteq> NONE_NOTIFICATION"
      "status_data (fences s) ! k \<noteq> r" "status_data f = (status_data (fences s))[k := r]"
      "r = IN_NOTIFICATION \<longleftrightarrow> near rnd g (setup_data (fences s) ! k)" "setup_data f = setup_data (fences s)" by simp_all
    have b: "k < length bs" "setup_data (fences s) ! k = fence_of (bs ! k)"
      using watched_fence [OF assms k(1)] k(2) by simp_all
    have id: "get_geo_fence_id (int k) t = Some (sprintf_d (stop_num (bs ! k)))"
      if "bus_stops (geo_fence_info t) = bs" for t
      using that b(1) k(1) by (simp add: get_geo_fence_id_def GEO_FENCE_MAX_COUNT_def)
    show ?thesis
    proof (cases r)
      case IN_NOTIFICATION
      with Some k b id w fr show ?thesis
        by (simp add: fence_pass_def alloc_get_geofence_notification_def stops_watched_def zone_report_def
            get_geo_fence_info_stat_def zone_note_def)
    next
      case OUT_NOTIFICATION
      with Some k b id w fr show ?thesis
        by (simp add: fence_pass_def alloc_get_geofence_notification_def stops_watched_def zone_report_def
            get_geo_fence_info_stat_def zone_note_def)
    qed (use k in simp)
  qed
qed

text \<open>The reports about one stop, as notifications.\<close>

definition notes_of :: "nat \<Rightarrow> stop_report option list \<Rightarrow> fence_notification list" where
  "notes_of k ps = map zone_note (filter (\<lambda>p. zone_idx p = k) (List.map_filter id ps))"

text \<open>
  C11: while the stops are watched, every report names the number of the stop its index stands for and is
  an arrival exactly when the position lies within the stop's range; the reports about each stop are
  alternately of arriving and of leaving, beginning with the opposite of its status.
\<close>

theorem stop_reports:
  assumes "stops_watched bs s"
  shows "\<exists>ps. fence_passes rnd gs s = Some ps \<and> length ps = length gs \<and>
    (\<forall>(g, o') \<in> set (zip gs ps). \<forall>p. o' = Some p \<longrightarrow> zone_idx p < length bs \<and>
       zone_id p = take 8 (sprintf_d (stop_num (bs ! zone_idx p))) \<and>
       zone_in p = near rnd g (fence_of (bs ! zone_idx p))) \<and>
    (\<forall>k < length bs. alternating (status_data (fences s) ! k) (notes_of k ps))"
  using assms
proof (induction gs arbitrary: s)
  case Nil
  then show ?case by (simp add: notes_of_def)
next
  case (Cons g gs)
  obtain o1 s1 where p: "fence_pass rnd g s = Some (o1, s1)" "stops_watched bs s1"
    and q: "case o1 of
       None \<Rightarrow> status_data (fences s1) = status_data (fences s)
     | Some p \<Rightarrow> zone_idx p < length bs \<and> zone_id p = take 8 (sprintf_d (stop_num (bs ! zone_idx p))) \<and>
         zone_in p = near rnd g (fence_of (bs ! zone_idx p)) \<and>
         status_data (fences s) ! zone_idx p \<noteq> zone_note p \<and>
         status_data (fences s1) = (status_data (fences s))[zone_idx p := zone_note p]"
    using fence_pass_watched [OF Cons.prems] by blast
  obtain ps where ps: "fence_passes rnd gs s1 = Some ps" "length ps = length gs"
    "\<forall>(g, o') \<in> set (zip gs ps). \<forall>p. o' = Some p \<longrightarrow> zone_idx p < length bs \<and>
       zone_id p = take 8 (sprintf_d (stop_num (bs ! zone_idx p))) \<and>
       zone_in p = near rnd g (fence_of (bs ! zone_idx p))"
    "\<forall>k < length bs. alternating (status_data (fences s1) ! k) (notes_of k ps)"
    using Cons.IH [OF p(2)] by blast
  have len: "length (status_data (fences s)) = 100" "length bs \<le> 100" using Cons.prems by (simp_all add: stops_watched_def)
  have "alternating (status_data (fences s) ! k) (notes_of k (o1 # ps))" if "k < length bs" for k
  proof (cases o1)
    case None
    with q ps(4) that show ?thesis by (simp add: notes_of_def List.map_filter_simps)
  next
    case (Some r)
    with q ps(4) that len show ?thesis
      by (cases "zone_idx r = k") (auto simp: notes_of_def List.map_filter_simps zone_note_def nth_list_update)
  qed
  with p(1) ps q show ?case by (cases o1) auto
qed

lemma stop_reports_witness:
  "let bs = [\<lparr>stop_num = 3, stop_lat = 37, stop_lon = 127, stop_range = 500\<rparr>];
       s = \<lparr>geo_fence_info = no_stops\<lparr>gf_status := eGET_GEOFENCE_STAT_COMPLETE, bus_stops := bs\<rparr>,
         fences = \<lparr>setup_data = fences_of bs, status_data = replicate 100 OUT_NOTIFICATION, hold_count = replicate 100 0\<rparr>,
         recent_geo_fence = -1, first_geo_fence = -1, tl500_geofence_reset = True\<rparr>;
       gs = [zero_gps\<lparr>glat := 37, glon := 127\<rparr>, zero_gps, zero_gps]
   in \<exists>ps. fence_passes (\<lambda>x. x) gs s = Some ps \<and> length ps = length gs \<and>
    (\<forall>(g, o') \<in> set (zip gs ps). \<forall>p. o' = Some p \<longrightarrow> zone_idx p < length bs \<and>
       zone_id p = take 8 (sprintf_d (stop_num (bs ! zone_idx p))) \<and>
       zone_in p = near (\<lambda>x. x) g (fence_of (bs ! zone_idx p))) \<and>
    (\<forall>k < length bs. alternating (status_data (fences s) ! k) (notes_of k ps))"
  unfolding Let_def by (rule stop_reports) (simp add: stops_watched_def no_stops_def)

subsection \<open>A download\<close>

text \<open>A stop as the server writes it, and what is made of it.\<close>

record stop_text =
  t_num :: "byte list"
  t_lat :: "byte list"
  t_lon :: "byte list"
  t_range :: "byte list"

definition text_ok :: "stop_text \<Rightarrow> bool" where
  "text_ok t \<longleftrightarrow> list_all (\<lambda>f. field_ok f \<and> 13 \<notin> set f \<and> 10 \<notin> set f) [t_num t, t_lat t, t_lon t, t_range t]"

definition stop_of :: "stop_text \<Rightarrow> bus_stop" where
  "stop_of t = \<lparr>stop_num = atoi (t_num t), stop_lat = atof (t_lat t), stop_lon = atof (t_lon t),
     stop_range = to_int (atof (t_range t))\<rparr>"

fun stops_text :: "stop_text list \<Rightarrow> byte list" where
  "stops_text [] = []"
| "stops_text (t # ts) = t_num t @ [44] @ t_lat t @ [44] @ t_lon t @ [44] @ t_range t @
     (if ts = [] then [] else [44] @ stops_text ts)"

definition stops_packet :: "byte list \<Rightarrow> byte list \<Rightarrow> byte list \<Rightarrow> int \<Rightarrow> int \<Rightarrow> stop_text list \<Rightarrow> byte list" where
  "stops_packet cmd phone cmd_id n k ts =
     cmd @ [44] @ phone @ [44] @ cmd_id @ [44] @ sprintf_d (int (length (stops_text ts))) @ [44] @
     sprintf_d n @ [44] @ sprintf_d k @ [44] @ stops_text ts"

lemma strtok_last:
  assumes "field_ok f"
  shows "strtok COMMA f = Some (f, [])"
proof -
  obtain c g where f: "f = c # g" "c \<noteq> 44" using assms by (cases f) (auto simp: field_ok_def)
  have d: "takeWhile (\<lambda>c. c \<noteq> 44) g = g" "dropWhile (\<lambda>c. c \<noteq> 44) g = []"
    using assms f(1) by (auto simp: field_ok_def takeWhile_eq_all_conv)
  show ?thesis using f by (simp add: strtok_def COMMA_def Let_def d)
qed

lemma strtok_nil [simp]: "strtok d [] = None"
  by (simp add: strtok_def)

lemma stops_loop_text:
  "\<lbrakk>list_all text_ok ts; length (bus_stops p) + length ts \<le> 100\<rbrakk> \<Longrightarrow>
   stops_loop (stops_text ts) p = Some (Next (p\<lparr>bus_stops := bus_stops p @ map stop_of ts\<rparr>))"
proof (induction ts arbitrary: p)
  case Nil
  then show ?case by (simp add: stops_loop.simps)
next
  case (Cons t ts)
  have f: "field_ok (t_num t)" "field_ok (t_lat t)" "field_ok (t_lon t)" "field_ok (t_range t)"
    using Cons.prems(1) by (simp_all add: text_ok_def)
  have room: "\<not> length (bus_stops p) \<ge> GEO_FENCE_MAX_COUNT" using Cons.prems(2) by (simp add: GEO_FENCE_MAX_COUNT_def)
  have "strtok COMMA (t_range t @ (if ts = [] then [] else [44] @ stops_text ts)) = Some (t_range t, stops_text ts)"
    using strtok_last [OF f(4)] strtok_field [OF f(4)] by simp
  then have "stops_loop (stops_text (t # ts)) p = stops_loop (stops_text ts) (p\<lparr>bus_stops := bus_stops p @ [stop_of t]\<rparr>)"
    unfolding stops_text.simps
    by (subst stops_loop.simps) (simp only: strtok_field f room option.case prod.case if_False stop_of_def)
  also have "\<dots> = Some (Next (p\<lparr>bus_stops := bus_stops p @ map stop_of (t # ts)\<rparr>))"
    using Cons.IH [of "p\<lparr>bus_stops := bus_stops p @ [stop_of t]\<rparr>"] Cons.prems by simp
  finally show ?case .
qed

lemma text_ok_set: "list_all text_ok ts \<Longrightarrow> 13 \<notin> set (stops_text ts) \<and> 10 \<notin> set (stops_text ts)"
  by (induction ts) (auto simp: text_ok_def)

lemma stops_text_nil: "list_all text_ok ts \<Longrightarrow> stops_text ts = [] \<longleftrightarrow> ts = []"
  by (cases ts) (auto simp: text_ok_def field_ok_def)

lemma stops_steps_packet:
  assumes "field_ok cmd" "field_ok phone" "field_ok cmd_id" "0 \<le> n" "0 \<le> k"
    and "ts \<noteq> []" "list_all text_ok ts" "length (stops_text ts) < 512"
  shows "stops_steps (stops_packet cmd phone cmd_id n k ts) p =
    go_on (stops_id cmd_id p) (\<lambda>p1. go_on (stops_max (sprintf_d n) p1) (\<lambda>p2.
    go_on (stops_cur (sprintf_d k) p2) (\<lambda>p3. stops_loop (stops_text ts) p3)))"
proof -
  let ?d = "stops_text ts"
  have d: "strtok CRLF ?d = Some (?d, [])"
    using text_ok_set [OF assms(7)] stops_text_nil [OF assms(7)] assms(6) by (intro strtok_line) auto
  have sz: "atoi (sprintf_d (int (length ?d))) = int (length ?d)" by (rule atoi_sprintf) simp
  have len: "\<not> length ?d \<ge> 512" using assms(8) by simp
  note f = strtok_field [OF assms(1)] strtok_field [OF assms(2)] strtok_field [OF assms(3)]
    strtok_field [OF decimal_field [OF assms(4)]] strtok_field [OF decimal_field [OF assms(5)]]
    strtok_field [OF decimal_field [of "int (length ?d)"]]
  show ?thesis
    unfolding stops_packet_def stops_steps_def on_token_def f(1)
    by (simp only: f option.case prod.case of_nat_0_le_iff d sz len simp_thms if_False if_True)
qed

text \<open>The record after \<open>k\<close> packets with the stops \<open>bs\<close>.\<close>

definition loading_stops :: "byte list \<Rightarrow> int \<Rightarrow> nat \<Rightarrow> bus_stop list \<Rightarrow> stop_info" where
  "loading_stops cmd_id n k bs = \<lparr>gf_status = eGET_GEOFENCE_STAT_DOWNLOADING,
     gf_cmd_id = padded (replicate 10 0) cmd_id, gf_max_pkt = n, gf_cur_pkt = int k, bus_stops = bs, info_recent = 0\<rparr>"

definition stops_so_far :: "byte list \<Rightarrow> int \<Rightarrow> nat \<Rightarrow> bus_stop list \<Rightarrow> stop_info \<Rightarrow> bool" where
  "stops_so_far cmd_id n k bs p \<longleftrightarrow>
     p = no_stops \<and> k = 0 \<and> bs = [] \<or> p = loading_stops cmd_id n k bs"

lemma stops_part:
  assumes "stops_so_far cmd_id n k bs p" and "length cmd_id \<le> 10" "0 \<le> n"
    and "list_all text_ok ts" "length bs + length ts \<le> 100"
  shows "go_on (stops_id cmd_id p) (\<lambda>p1. go_on (stops_max (sprintf_d n) p1) (\<lambda>p2.
    go_on (stops_cur (sprintf_d (int (Suc k))) p2) (\<lambda>p3. stops_loop (stops_text ts) p3))) =
    Some (Next (loading_stops cmd_id n (Suc k) (bs @ map stop_of ts)))"
proof -
  have at: "atoi (sprintf_d n) = n" "atoi (sprintf_d (int (Suc k))) = int (Suc k)"
    using assms(3) by (simp_all only: atoi_sprintf of_nat_0_le_iff)
  have l: "stops_loop (stops_text ts) (loading_stops cmd_id n (Suc k) bs) =
      Some (Next (loading_stops cmd_id n (Suc k) (bs @ map stop_of ts)))"
    using stops_loop_text [of ts "loading_stops cmd_id n (Suc k) bs"] assms(4,5) by (simp add: loading_stops_def)
  have "go_on (stops_id cmd_id p) (\<lambda>p1. go_on (stops_max (sprintf_d n) p1) (\<lambda>p2.
      stops_cur (sprintf_d (int (Suc k))) p2)) = Some (Next (loading_stops cmd_id n (Suc k) bs))"
    using assms(1) unfolding stops_so_far_def
  proof
    assume "p = no_stops \<and> k = 0 \<and> bs = []"
    with at assms(2) show ?thesis
      by (simp add: go_on_def stops_id_def stops_max_def stops_cur_def no_stops_def loading_stops_def put_padded)
  next
    assume "p = loading_stops cmd_id n k bs"
    with at assms(2) show ?thesis
      by (simp add: go_on_def stops_id_def stops_max_def stops_cur_def loading_stops_def same_padded)
  qed
  with l show ?thesis
    by (auto simp: go_on_def split: option.splits step.splits)
qed

lemma setup_loop:
  assumes "m \<le> length bs" "length bs \<le> 100" "setup_data f = unused_fences"
  shows "setup_data (fold (\<lambda>i f. snd (set_geo_fence_setup_info (int i) (fence_of (bs ! i)) f)) [0..<m] f) =
      map fence_of (take m bs) @ drop m unused_fences \<and>
    status_data (fold (\<lambda>i f. snd (set_geo_fence_setup_info (int i) (fence_of (bs ! i)) f)) [0..<m] f) = status_data f"
  using assms(1)
proof (induction m)
  case 0
  then show ?case by (simp add: assms(3))
next
  case (Suc m)
  let ?f = "fold (\<lambda>i f. snd (set_geo_fence_setup_info (int i) (fence_of (bs ! i)) f)) [0..<m] f"
  have m: "m < length bs" "m < 100" using Suc.prems assms(2) by simp_all
  have u: "length unused_fences = 100" by (simp add: unused_fences_def GEO_FENCE_V2_MAX_COUNT_def)
  have d: "drop m unused_fences = unused_fences ! m # drop (Suc m) unused_fences"
    using Cons_nth_drop_Suc [of m unused_fences] m(2) u by simp
  have t: "take (Suc m) bs = take m bs @ [bs ! m]" using m(1) by (rule take_Suc_conv_app_nth)
  have "setup_data ?f = map fence_of (take m bs) @ drop m unused_fences" "status_data ?f = status_data f"
    using Suc by simp_all
  with m show ?case
    by (simp add: set_geo_fence_setup_info_def GEO_FENCE_V2_MAX_COUNT_def t d list_update_append)
qed

text \<open>What the program relies on: the setup file holds the table it was given at the first start.\<close>

definition setup_unused :: "fence_codes \<Rightarrow> os \<Rightarrow> bool" where
  "setup_unused c os \<longleftrightarrow> healthy os \<and> stored GEO_FENCE_SETUP_DATA_FILE (enc_setup c unused_fences) os \<and>
     dec_setup c (enc_setup c unused_fences) = unused_fences"

lemma init_fences_unused:
  assumes "setup_unused c os"
  shows "setup_data (fences (fst (alloc_init_geo_fence c s os))) = unused_fences \<and>
    status_data (fences (fst (alloc_init_geo_fence c s os))) = replicate 100 OUT_NOTIFICATION \<and>
    geo_fence_info (fst (alloc_init_geo_fence c s os)) = geo_fence_info s \<and>
    recent_geo_fence (fst (alloc_init_geo_fence c s os)) = recent_geo_fence s \<and>
    tl500_geofence_reset (fst (alloc_init_geo_fence c s os)) = tl500_geofence_reset s"
proof -
  have i: "setup_data (init_geo_fence_data (fences s)) = unused_fences"
    by (simp add: init_geo_fence_data_def unused_fences_def)
  have "storage_load_file GEO_FENCE_SETUP_DATA_FILE (enc_setup c unused_fences) os = (0, enc_setup c unused_fences, os)"
    using assms by (intro store.load_law) (simp_all add: setup_unused_def)
  then have "load_or_save GEO_FENCE_SETUP_DATA_FILE (enc_setup c unused_fences) os = (enc_setup c unused_fences, os)"
    by (simp add: load_or_save_def)
  with assms show ?thesis
    by (simp add: alloc_init_geo_fence_def Let_def i setup_unused_def GEO_FENCE_MAX_COUNT_def split: prod.splits)
qed

lemma set_geofence_data_watched:
  assumes "setup_unused c os" "gf_status (geo_fence_info s) = eGET_GEOFENCE_STAT_COMPLETE"
    "bus_stops (geo_fence_info s) = bs" "length bs \<le> 100"
  shows "\<exists>s' os'. set_geofence_data c s os = (0, s', os') \<and> stops_watched bs s' \<and>
    status_data (fences s') = replicate 100 OUT_NOTIFICATION \<and> recent_geo_fence s' = recent_geo_fence s \<and>
    tl500_geofence_reset s' = tl500_geofence_reset s"
proof -
  obtain s1 os1 where i: "alloc_init_geo_fence c s os = (s1, os1)" by (cases "alloc_init_geo_fence c s os")
  note f = init_fences_unused [OF assms(1), of s, unfolded i, simplified]
  from f assms(4) setup_loop [of "length bs" bs "fences s1"] show ?thesis
    by (simp add: set_geofence_data_def assms(2,3) i stops_watched_def fences_of_def)
qed

fun save_stops :: "fence_codes \<Rightarrow> byte list list \<Rightarrow> stops \<Rightarrow> os \<Rightarrow> (stops \<times> os) option" where
  "save_stops c [] s os = Some (s, os)"
| "save_stops c (p # ps) s os =
     (case save_geofence_info c p s os of None \<Rightarrow> None | Some (s1, os1) \<Rightarrow> save_stops c ps s1 os1)"

lemma stops_save_part:
  assumes "stops_so_far cmd_id n k bs (geo_fence_info s)"
    and "field_ok cmd" "field_ok phone" "field_ok cmd_id" "length cmd_id \<le> 10" "0 \<le> n"
    and "ts \<noteq> []" "list_all text_ok ts" "length (stops_text ts) < 512" "length bs + length ts \<le> 100"
  shows "save_geofence_info c (stops_packet cmd phone cmd_id n (int (Suc k)) ts) s os =
    (if n = int (Suc k) then
       (let q1 = (loading_stops cmd_id n (Suc k) (bs @ map stop_of ts))\<lparr>gf_status := eGET_GEOFENCE_STAT_COMPLETE, info_recent := -1\<rparr>
        in Some (snd (set_geofence_data c ((set_recent_geo_fence (-1) s)\<lparr>geo_fence_info := q1, tl500_geofence_reset := True\<rparr>)
             (snd (storage_save_file GEOFENCE_SAVED_FILE (enc_info c q1) os)))))
     else Some (s\<lparr>geo_fence_info := loading_stops cmd_id n (Suc k) (bs @ map stop_of ts)\<rparr>, os))"
proof -
  have st: "gf_status (geo_fence_info s) \<noteq> eGET_GEOFENCE_STAT_COMPLETE"
    using assms(1) by (auto simp: stops_so_far_def no_stops_def loading_stops_def)
  have k: "0 \<le> int (Suc k)" by (rule of_nat_0_le_iff)
  have "stops_steps (stops_packet cmd phone cmd_id n (int (Suc k)) ts) (geo_fence_info s) =
      Some (Next (loading_stops cmd_id n (Suc k) (bs @ map stop_of ts)))"
    unfolding stops_steps_packet [OF assms(2-4) assms(6) k assms(7-9)]
    by (rule stops_part [OF assms(1) assms(5,6) assms(8) assms(10)])
  moreover have "gf_max_pkt (loading_stops cmd_id n j b) = n" "gf_cur_pkt (loading_stops cmd_id n j b) = int j" for j b
    by (simp_all add: loading_stops_def)
  ultimately show ?thesis using st unfolding save_geofence_info_def by (simp only: if_False prod.case option.case step.case Let_def)
qed

fun stops_packets :: "(int \<Rightarrow> stop_text list \<Rightarrow> byte list) \<Rightarrow> nat \<Rightarrow> stop_text list list \<Rightarrow> byte list list" where
  "stops_packets mk d [] = []"
| "stops_packets mk d (ts # tss) = mk (int (Suc d)) ts # stops_packets mk (Suc d) tss"

lemma stops_rest:
  assumes h: "field_ok cmd" "field_ok phone" "field_ok cmd_id" "length cmd_id \<le> 10" and os: "setup_unused c os"
  shows "\<lbrakk>stops_so_far cmd_id n k bs (geo_fence_info s); n = int (k + length tss); tss \<noteq> [];
    length (bs @ map stop_of (concat tss)) \<le> 100;
    \<forall>ts \<in> set tss. ts \<noteq> [] \<and> list_all text_ok ts \<and> length (stops_text ts) < 512\<rbrakk> \<Longrightarrow>
    \<exists>s' os'. save_stops c (stops_packets (stops_packet cmd phone cmd_id n) k tss) s os = Some (s', os') \<and>
      stops_watched (bs @ map stop_of (concat tss)) s' \<and>
      status_data (fences s') = replicate 100 OUT_NOTIFICATION \<and> recent_geo_fence s' = -1 \<and> tl500_geofence_reset s'"
proof (induction tss arbitrary: s k bs)
  case (Cons ts tss)
  have ts: "ts \<noteq> []" "list_all text_ok ts" "length (stops_text ts) < 512" using Cons.prems(5) by simp_all
  have room: "length bs + length ts \<le> 100" using Cons.prems(4) by simp
  have n: "0 \<le> n" using Cons.prems(2) by simp
  note part = stops_save_part [OF Cons.prems(1) h(1-4) n ts room, of c os]
  show ?case
  proof (cases tss)
    case Nil
    let ?q = "(loading_stops cmd_id n (Suc k) (bs @ map stop_of ts))\<lparr>gf_status := eGET_GEOFENCE_STAT_COMPLETE, info_recent := -1\<rparr>"
    let ?s = "(set_recent_geo_fence (-1) s)\<lparr>geo_fence_info := ?q, tl500_geofence_reset := True\<rparr>"
    let ?os = "snd (storage_save_file GEOFENCE_SAVED_FILE (enc_info c ?q) os)"
    have last: "n = int (Suc k)" using Cons.prems(2) Nil by simp
    have un: "unrelated GEOFENCE_SAVED_FILE GEO_FENCE_SETUP_DATA_FILE"
      by (simp add: unrelated_def bak_def GEOFENCE_SAVED_FILE_def GEO_FENCE_SETUP_DATA_FILE_def)
    obtain r os1 where sv: "storage_save_file GEOFENCE_SAVED_FILE (enc_info c ?q) os = (r, os1)"
      by (cases "storage_save_file GEOFENCE_SAVED_FILE (enc_info c ?q) os")
    have "setup_unused c ?os"
      using os store.save_law [OF _ sv] store.frame_law [OF _ sv un] sv by (simp add: setup_unused_def)
    moreover have "gf_status (geo_fence_info ?s) = eGET_GEOFENCE_STAT_COMPLETE"
      "bus_stops (geo_fence_info ?s) = bs @ map stop_of ts" by (simp_all add: loading_stops_def)
    moreover have "length (bs @ map stop_of ts) \<le> 100" using room by simp
    ultimately obtain s' os' where w: "set_geofence_data c ?s ?os = (0, s', os')"
      "stops_watched (bs @ map stop_of ts) s'" "status_data (fences s') = replicate 100 OUT_NOTIFICATION"
      "recent_geo_fence s' = recent_geo_fence ?s" "tl500_geofence_reset s' = tl500_geofence_reset ?s"
      using set_geofence_data_watched by blast
    have "recent_geo_fence ?s = -1" "tl500_geofence_reset ?s" by (simp_all add: set_recent_geo_fence_def Let_def)
    moreover have "save_geofence_info c (stops_packet cmd phone cmd_id n (int (Suc k)) ts) s os = Some (s', os')"
      unfolding part Let_def w(1) using last by simp
    ultimately show ?thesis using w Nil by simp
  next
    case (Cons t2 tss2)
    let ?s = "s\<lparr>geo_fence_info := loading_stops cmd_id n (Suc k) (bs @ map stop_of ts)\<rparr>"
    have "n \<noteq> int (Suc k)" using Cons \<open>n = int (k + length (ts # tss))\<close> by simp
    then have one: "save_geofence_info c (stops_packet cmd phone cmd_id n (int (Suc k)) ts) s os = Some (?s, os)"
      using part by simp
    have "\<exists>s' os'. save_stops c (stops_packets (stops_packet cmd phone cmd_id n) (Suc k) tss) ?s os = Some (s', os') \<and>
      stops_watched ((bs @ map stop_of ts) @ map stop_of (concat tss)) s' \<and>
      status_data (fences s') = replicate 100 OUT_NOTIFICATION \<and> recent_geo_fence s' = -1 \<and> tl500_geofence_reset s'"
      by (rule Cons.IH) (use Cons Cons.prems in \<open>simp_all add: stops_so_far_def\<close>)
    with one show ?thesis by simp
  qed
qed simp

text \<open>
  C12: stops that come in consecutive packets of up to 511 characters, a hundred in all, are complete with
  the last packet; from then on exactly these stops are watched, in their order, and the terminal counts
  as being outside of all of them.
\<close>

theorem stops_download:
  assumes "field_ok cmd" "field_ok phone" "field_ok cmd_id" "length cmd_id \<le> 10" and "setup_unused c os"
    and "geo_fence_info s = no_stops" and "tss \<noteq> []" and "length (concat tss) \<le> 100"
    and "\<forall>ts \<in> set tss. ts \<noteq> [] \<and> list_all text_ok ts \<and> length (stops_text ts) < 512"
  shows "\<exists>s' os'. save_stops c (stops_packets (stops_packet cmd phone cmd_id (int (length tss))) 0 tss) s os = Some (s', os') \<and>
    stops_watched (map stop_of (concat tss)) s' \<and>
    status_data (fences s') = replicate 100 OUT_NOTIFICATION \<and> recent_geo_fence s' = -1 \<and> tl500_geofence_reset s'"
proof -
  have a: "stops_so_far cmd_id (int (length tss)) 0 [] (geo_fence_info s)" using assms(6) by (simp add: stops_so_far_def)
  have b: "int (length tss) = int (0 + length tss)" by simp
  have l: "length ([] @ map stop_of (concat tss)) \<le> 100" using assms(8) by (simp only: append_Nil length_map)
  have "\<exists>s' os'. save_stops c (stops_packets (stops_packet cmd phone cmd_id (int (length tss))) 0 tss) s os = Some (s', os') \<and>
      stops_watched ([] @ map stop_of (concat tss)) s' \<and>
      status_data (fences s') = replicate 100 OUT_NOTIFICATION \<and> recent_geo_fence s' = -1 \<and> tl500_geofence_reset s'"
    by (rule stops_rest [OF assms(1-5) a b assms(7) l assms(9)])
  then show ?thesis by (simp only: append_Nil)
qed

definition sample_codes :: fence_codes where
  "sample_codes = \<lparr>enc_setup = (\<lambda>t. []), dec_setup = (\<lambda>b. unused_fences), enc_status = (\<lambda>t. []),
     enc_info = (\<lambda>i. []), dec_info = (\<lambda>b. no_stops)\<rparr>"

definition sample_stop :: stop_text where
  "sample_stop = \<lparr>t_num = [51], t_lat = [51, 55], t_lon = [49, 50, 55], t_range = [57]\<rparr>"

lemma stops_download_witness:
  "let os = snd (storage_save_file GEO_FENCE_SETUP_DATA_FILE [] \<lparr>files = Map.empty, script = []\<rparr>);
       s = \<lparr>geo_fence_info = no_stops, fences = \<lparr>setup_data = [], status_data = [], hold_count = []\<rparr>,
         recent_geo_fence = -1, first_geo_fence = -1, tl500_geofence_reset = False\<rparr>;
       tss = [[sample_stop, sample_stop], [sample_stop]]
   in \<exists>s' os'. save_stops sample_codes (stops_packets (stops_packet [51] [48] [55] (int (length tss))) 0 tss) s os = Some (s', os') \<and>
    stops_watched (map stop_of (concat tss)) s' \<and>
    status_data (fences s') = replicate 100 OUT_NOTIFICATION \<and> recent_geo_fence s' = -1 \<and> tl500_geofence_reset s'"
  unfolding Let_def
  by (rule stops_download)
    (simp_all add: field_ok_def setup_unused_def sample_codes_def sample_stop_def text_ok_def storage_save_healthy
      healthy_def stored_def)

text \<open>A packet that comes twice adds its stops twice, since its number is not compared.\<close>

lemma stops_packet_twice:
  assumes "stops_so_far cmd_id n k bs (geo_fence_info s)"
    and "field_ok cmd" "field_ok phone" "field_ok cmd_id" "length cmd_id \<le> 10" "0 \<le> n" "n \<noteq> int (Suc k)"
    and "ts \<noteq> []" "list_all text_ok ts" "length (stops_text ts) < 512" "length bs + 2 * length ts \<le> 100"
  shows "\<exists>s'. save_stops c (replicate 2 (stops_packet cmd phone cmd_id n (int (Suc k)) ts)) s os = Some (s', os) \<and>
    bus_stops (geo_fence_info s') = bs @ map stop_of ts @ map stop_of ts"
proof -
  have r: "length bs + length ts \<le> 100" using assms(11) by simp
  note one = stops_save_part [OF assms(1-6) assms(8-10) r, of c os]
  let ?p = "loading_stops cmd_id n (Suc k) (bs @ map stop_of ts)"
  have z: "0 \<le> int (Suc k)" by simp
  have at: "atoi (sprintf_d n) = n" "atoi (sprintf_d (int (Suc k))) = int (Suc k)"
    using assms(6) by (simp_all only: atoi_sprintf of_nat_0_le_iff)
  have "stops_steps (stops_packet cmd phone cmd_id n (int (Suc k)) ts) ?p =
      stops_loop (stops_text ts) ?p"
    unfolding stops_steps_packet [OF assms(2-4) assms(6) z assms(8-10)]
    using at assms(5) by (simp add: go_on_def stops_id_def stops_max_def stops_cur_def loading_stops_def same_padded)
  also have "\<dots> = Some (Next (?p\<lparr>bus_stops := bus_stops ?p @ map stop_of ts\<rparr>))"
    using assms(9,11) by (intro stops_loop_text) (simp_all add: loading_stops_def)
  finally have "save_geofence_info c (stops_packet cmd phone cmd_id n (int (Suc k)) ts) (s\<lparr>geo_fence_info := ?p\<rparr>) os =
      Some (s\<lparr>geo_fence_info := ?p\<lparr>bus_stops := bus_stops ?p @ map stop_of ts\<rparr>\<rparr>, os)"
    using assms(7) by (simp add: save_geofence_info_def loading_stops_def)
  with one assms(7) show ?thesis by (simp add: numeral_2_eq_2 loading_stops_def)
qed

end
