(* ===== verification/AllocTag.thy ===== *)
theory AllocTag
  imports AllocStops AllocFrame
begin

text \<open>
  The cards that were read, \<open>model/alloc3/tagging.c\<close>: they are collected as text in an array of 351
  bytes, and a full or old collection becomes a packet. The list of packets is the one of
  \<open>util/list.c\<close>, as a list (theory UtilList); \<open>tag_sent\<close> are the packets handed to the sender. \<open>fmt\<close> is
  \<open>printf\<close> of a coordinate with seven decimals. \<open>None\<close>: the array or a buffer of the code is overrun.
\<close>

definition RFID_LIST_SIZE :: nat where "RFID_LIST_SIZE = 350"
definition RFID_DATA_LEN :: nat where "RFID_DATA_LEN = 15"

text \<open>\<open>taggingData_t\<close>; its last field is the text itself.\<close>

record tagging_data =
  idx_geo_fence :: int
  td_count :: int
  td_num :: int
  td_date :: "byte list"
  td_data :: "byte list"

text \<open>The static variables; the text in the array, whose length is the index.\<close>

record tagging =
  tagging_geo_fence :: int
  tagging_count :: int
  tagging_array :: "byte list"
  tagging_num :: int
  tagging_data_list :: "tagging_data list"
  tag_sent :: "tagging_data list"

definition tagging_start :: tagging where
  "tagging_start = \<lparr>tagging_geo_fence = -1, tagging_count = 0, tagging_array = [], tagging_num = 0,
     tagging_data_list = [], tag_sent = []\<rparr>"

text \<open>What a call finds: the stops, the current and the last valid position, whether memory is left.\<close>

record tag_env =
  e_stops :: stops
  e_gps :: gpsData
  e_last :: gpsData
  e_memory :: bool

definition clear_tagging :: "tagging \<Rightarrow> tagging" where
  "clear_tagging t = t\<lparr>tagging_array := [], tagging_num := 0, tagging_count := 0\<rparr>"

text \<open>The date goes into 15 bytes; a year of more than four digits is cut at its end.\<close>

definition date_text :: "gpsData \<Rightarrow> byte list" where
  "date_text g =
     (let num = (\<lambda>n v. replicate (n - length (sprintf_d v)) 48 @ sprintf_d v)
      in take 14 (num 4 (uint (gyear g)) @ num 2 (uint (gmon g)) @ num 2 (uint (gday g)) @
           num 2 (uint (ghour g)) @ num 2 (uint (gmin g)) @ num 2 (uint (gsec g))))"

definition get_tagging_data :: "tag_env \<Rightarrow> tagging \<Rightarrow> tagging_data option" where
  "get_tagging_data e t =
     (if tagging_num t \<le> 0 \<and> tagging_count t \<le> 0 then None
      else if \<not> e_memory e then None
      else Some \<lparr>idx_geo_fence = tagging_geo_fence t, td_count = tagging_count t, td_num = tagging_num t,
             td_date = date_text (e_gps e), td_data = tagging_array t\<rparr>)"

text \<open>The collection becomes a packet of the list; when there is no memory, it is lost.\<close>

definition push_tagging :: "tag_env \<Rightarrow> tagging \<Rightarrow> tagging" where
  "push_tagging e t =
     (let t1 = clear_tagging t
      in case get_tagging_data e t of
           None \<Rightarrow> t1 | Some d \<Rightarrow> t1\<lparr>tagging_data_list := tagging_data_list t1 @ [d]\<rparr>)"

definition tagging_add_list :: "tag_env \<Rightarrow> tagging \<Rightarrow> tagging" where
  "tagging_add_list e t = push_tagging e t"

definition pkt_send_tagging :: "tagging \<Rightarrow> tagging" where
  "pkt_send_tagging t = t\<lparr>tagging_data_list := [], tag_sent := tag_sent t @ tagging_data_list t\<rparr>"

text \<open>The number of the stop at which a card was read; \<open>temp_fence_id\<close> has 12 bytes.\<close>

definition fence_text :: "tag_env \<Rightarrow> int \<Rightarrow> byte list option" where
  "fence_text e geo_fence =
     (if geo_fence = -1 then Some [48]
      else if tl500_geofence_reset (e_stops e) then Some [48]
      else
        (case get_geo_fence_id geo_fence (e_stops e) of
           None \<Rightarrow> None | Some z \<Rightarrow> if length z > 11 then None else Some z))"

definition tag_place :: "tag_env \<Rightarrow> real \<times> real" where
  "tag_place e =
     (if glat (e_gps e) = 0 \<or> glon (e_gps e) = 0 then (glat (e_last e), glon (e_last e))
      else (glat (e_gps e), glon (e_gps e)))"

definition tag_text :: "(real \<Rightarrow> byte list) \<Rightarrow> tag_env \<Rightarrow> byte list \<Rightarrow> byte list \<Rightarrow> byte list \<Rightarrow> byte list" where
  "tag_text fmt e z rfid_date rfid_pat =
     z @ [44] @ take 14 rfid_date @ [44] @ take 15 rfid_pat @ [44] @ fmt (fst (tag_place e)) @ [44] @ fmt (snd (tag_place e))"

definition need_push_list :: "byte list \<Rightarrow> int \<Rightarrow> tagging \<Rightarrow> bool" where
  "need_push_list rfid_pat geo_fence t \<longleftrightarrow>
     length (tagging_array t) + min (length rfid_pat) RFID_DATA_LEN > RFID_LIST_SIZE \<or>
     geo_fence \<noteq> tagging_geo_fence t \<and> tagging_geo_fence t \<ge> 0"

definition tagging_add_rfid :: "(real \<Rightarrow> byte list) \<Rightarrow> tag_env \<Rightarrow> byte list \<Rightarrow> int \<Rightarrow> byte list \<Rightarrow> tagging \<Rightarrow> tagging option" where
  "tagging_add_rfid fmt e rfid_pat geo_fence rfid_date t =
     (let t1 = (if need_push_list rfid_pat geo_fence t then push_tagging e (pkt_send_tagging t) else t);
          comma = (if tagging_array t1 \<noteq> [] then [44] else [])
      in case fence_text e geo_fence of
           None \<Rightarrow> None
         | Some z \<Rightarrow>
             (let a = tagging_array t1 @ comma @ tag_text fmt e z rfid_date rfid_pat
              in if length a > RFID_LIST_SIZE then None
                 else
                   (let t2 = t1\<lparr>tagging_geo_fence := geo_fence, tagging_array := a, tagging_num := tagging_num t1 + 1\<rparr>
                    in Some (if tagging_num t2 \<ge> 5 \<or> length a > RFID_LIST_SIZE - 57
                             then pkt_send_tagging (tagging_add_list e t2) else t2))))"

definition tagging_add_count :: "tag_env \<Rightarrow> int \<Rightarrow> tagging \<Rightarrow> tagging" where
  "tagging_add_count e geo_fence t =
     (let t1 = (if geo_fence \<noteq> tagging_geo_fence t \<and> tagging_geo_fence t \<ge> 0 then push_tagging e t else t)
      in t1\<lparr>tagging_geo_fence := geo_fence, tagging_count := tagging_count t1 + 1\<rparr>)"

subsection \<open>The packet\<close>

definition ePROTOCOL_ID_TAG_REPORT :: byte where "ePROTOCOL_ID_TAG_REPORT = 84"

text \<open>
  The telephone number stands in a field of 15 characters, filled up with spaces. \<open>None\<close>: a number that
  does not fit its buffer of 64 bytes.
\<close>

definition dev_id :: "byte list \<Rightarrow> byte list option" where
  "dev_id phonenum = (if length phonenum > 64 then None else Some (take 15 (phonenum @ replicate (15 - length phonenum) 32)))"

definition mkpkt_tag_data :: "byte list \<Rightarrow> byte list \<Rightarrow> byte list \<Rightarrow> int \<Rightarrow> byte list \<Rightarrow> byte list option" where
  "mkpkt_tag_data phonenum zone date num_rfid list_rfid =
     (case dev_id phonenum of
        None \<Rightarrow> None
      | Some d \<Rightarrow>
          (let p = [PACKET_START_CHAR, ePROTOCOL_ID_TAG_REPORT, 44] @ d @ [44] @ take 8 zone @ [44] @ take 14 date @ [44] @
             sprintf_d num_rfid @ [44] @ list_rfid @ [PACKET_END_CHAR]
           in if length p \<ge> 1024 then None else Some p))"

text \<open>The branch of \<open>make_packet\<close> for a collection of cards.\<close>

definition make_tagging_packet :: "byte list \<Rightarrow> stops \<Rightarrow> tagging_data \<Rightarrow> byte list option" where
  "make_tagging_packet phone s d =
     (case (if idx_geo_fence d = -1 then Some [48] else get_geo_fence_id (idx_geo_fence d) s) of
        None \<Rightarrow> None
      | Some z \<Rightarrow> if length z > 11 then None else mkpkt_tag_data phone z (td_date d) (td_num d) (td_data d))"

subsection \<open>Sequences of calls\<close>

datatype tag_op = Card "byte list" int "byte list" | Passenger int | Put | Send

fun tag_step :: "(real \<Rightarrow> byte list) \<Rightarrow> tag_env \<times> tag_op \<Rightarrow> tagging \<Rightarrow> tagging option" where
  "tag_step fmt (e, Card pat geo date) t = tagging_add_rfid fmt e pat geo date t"
| "tag_step fmt (e, Passenger geo) t = Some (tagging_add_count e geo t)"
| "tag_step fmt (e, Put) t = Some (tagging_add_list e t)"
| "tag_step fmt (e, Send) t = Some (pkt_send_tagging t)"

fun tag_run :: "(real \<Rightarrow> byte list) \<Rightarrow> (tag_env \<times> tag_op) list \<Rightarrow> tagging \<Rightarrow> tagging option" where
  "tag_run fmt [] t = Some t"
| "tag_run fmt (x # xs) t = (case tag_step fmt x t of None \<Rightarrow> None | Some t1 \<Rightarrow> tag_run fmt xs t1)"

text \<open>The cards of a sequence: the stop and the text of each.\<close>

fun tags_of :: "(real \<Rightarrow> byte list) \<Rightarrow> (tag_env \<times> tag_op) list \<Rightarrow> (int \<times> byte list) list" where
  "tags_of fmt [] = []"
| "tags_of fmt ((e, Card pat geo date) # xs) =
     (geo, tag_text fmt e (case fence_text e geo of None \<Rightarrow> [] | Some z \<Rightarrow> z) date pat) # tags_of fmt xs"
| "tags_of fmt (x # xs) = tags_of fmt xs"

fun passengers :: "(tag_env \<times> tag_op) list \<Rightarrow> int" where
  "passengers [] = 0"
| "passengers ((e, Passenger geo) # xs) = 1 + passengers xs"
| "passengers (x # xs) = passengers xs"

text \<open>A call with memory, at a stop of the table, with coordinates of at most twelve characters.\<close>

fun op_ok :: "(real \<Rightarrow> byte list) \<Rightarrow> tag_env \<times> tag_op \<Rightarrow> bool" where
  "op_ok fmt (e, Card pat geo date) \<longleftrightarrow> e_memory e \<and> fence_text e geo \<noteq> None \<and>
     length (fmt (fst (tag_place e))) \<le> 12 \<and> length (fmt (snd (tag_place e))) \<le> 12"
| "op_ok fmt (e, _) \<longleftrightarrow> e_memory e"

fun comma_joined :: "byte list list \<Rightarrow> byte list" where
  "comma_joined [] = []"
| "comma_joined (x # xs) = x @ (if xs = [] then [] else [44] @ comma_joined xs)"

lemma comma_joined_snoc: "comma_joined (xs @ [x]) = comma_joined xs @ (if xs = [] then [] else [44]) @ x"
  by (induction xs) simp_all

lemma comma_joined_nil: "(\<forall>x \<in> set xs. x \<noteq> []) \<Longrightarrow> comma_joined xs = [] \<longleftrightarrow> xs = []"
  by (cases xs) auto

lemma comma_joined_length: "(\<forall>x \<in> set xs. length x \<le> 68) \<Longrightarrow> length (comma_joined xs) \<le> 69 * length xs - 1"
  by (induction xs) (auto simp: neq_Nil_conv)

definition packet_of :: "tagging_data \<Rightarrow> (int \<times> byte list) list \<Rightarrow> bool" where
  "packet_of d g \<longleftrightarrow> td_data d = comma_joined (map snd g) \<and> td_num d = int (length g) \<and> length g \<le> 5 \<and>
     (\<forall>x \<in> set g. fst x = idx_geo_fence d \<or> fst x < 0)"

text \<open>The packets so far hold the cards \<open>gs\<close>, the array holds the cards \<open>p\<close>.\<close>

definition tagged :: "(int \<times> byte list) list list \<Rightarrow> (int \<times> byte list) list \<Rightarrow> int \<Rightarrow> tagging \<Rightarrow> bool" where
  "tagged gs p n t \<longleftrightarrow> list_all2 packet_of (tag_sent t @ tagging_data_list t) gs \<and>
     tagging_array t = comma_joined (map snd p) \<and> tagging_num t = int (length p) \<and> 0 \<le> tagging_count t \<and>
     (\<forall>x \<in> set p. (fst x = tagging_geo_fence t \<or> fst x < 0) \<and> snd x \<noteq> [] \<and> length (snd x) \<le> 68) \<and>
     sum_list (map td_count (tag_sent t @ tagging_data_list t)) + tagging_count t = n"

lemma push_tagged:
  assumes "tagged gs p n t" "length p \<le> 5" "e_memory e"
  shows "\<exists>gs'. tagged gs' [] n (push_tagging e t) \<and> concat gs' = concat gs @ p \<and>
    tagging_geo_fence (push_tagging e t) = tagging_geo_fence t"
proof (cases "tagging_num t \<le> 0 \<and> tagging_count t \<le> 0")
  case True
  with assms(1) have "p = []" "tagging_count t = 0" by (simp_all add: tagged_def)
  with assms(1) True show ?thesis
    by (intro exI [of _ gs]) (simp add: tagged_def push_tagging_def get_tagging_data_def clear_tagging_def Let_def)
next
  case False
  let ?d = "\<lparr>idx_geo_fence = tagging_geo_fence t, td_count = tagging_count t, td_num = tagging_num t,
    td_date = date_text (e_gps e), td_data = tagging_array t\<rparr>"
  have "packet_of ?d p" using assms by (simp add: tagged_def packet_of_def)
  then have "list_all2 packet_of ((tag_sent t @ tagging_data_list t) @ [?d]) (gs @ [p])"
    using assms(1) by (intro list_all2_appendI) (simp_all add: tagged_def)
  moreover have "push_tagging e t = (clear_tagging t)\<lparr>tagging_data_list := tagging_data_list t @ [?d]\<rparr>"
    using False assms(3) by (simp add: push_tagging_def get_tagging_data_def clear_tagging_def Let_def)
  ultimately show ?thesis using assms(1)
    by (intro exI [of _ "gs @ [p]"]) (simp add: tagged_def clear_tagging_def)
qed

lemma send_tagged: "tagged gs p n t \<Longrightarrow> tagged gs p n (pkt_send_tagging t)"
  by (simp add: tagged_def pkt_send_tagging_def)

lemma card_tagged:
  assumes "tagged gs p n t" "length p \<le> 4" "op_ok fmt (e, Card pat geo date)"
  shows "\<exists>t' gs' p'. tagging_add_rfid fmt e pat geo date t = Some t' \<and> tagged gs' p' n t' \<and> length p' \<le> 4 \<and>
    concat gs' @ p' = concat gs @ p @ tags_of fmt [(e, Card pat geo date)]"
proof -
  obtain z where z: "fence_text e geo = Some z" using assms(3) by auto
  then have lz: "length z \<le> 11" by (auto simp: fence_text_def split: if_splits option.splits)
  let ?x = "tag_text fmt e z date pat"
  have "length (take 14 date) \<le> 14" "length (take 15 pat) \<le> 15" by simp_all
  moreover have "length (fmt (fst (tag_place e))) \<le> 12" "length (fmt (snd (tag_place e))) \<le> 12" using assms(3) by simp_all
  moreover have "length ?x = length z + length (take 14 date) + length (take 15 pat) +
      length (fmt (fst (tag_place e))) + length (fmt (snd (tag_place e))) + 4" by (simp add: tag_text_def)
  ultimately have x: "length ?x \<le> 68" "?x \<noteq> []" using lz by (linarith, simp add: tag_text_def)
  let ?t1 = "if need_push_list pat geo t then push_tagging e (pkt_send_tagging t) else t"
  have "\<exists>gs1 p1. tagged gs1 p1 n ?t1 \<and> length p1 \<le> 4 \<and> concat gs1 @ p1 = concat gs @ p \<and>
    (\<forall>y \<in> set p1. fst y = geo \<or> fst y < 0)"
  proof (cases "need_push_list pat geo t")
    case True
    have "length p \<le> 5" "e_memory e" using assms(2,3) by simp_all
    from push_tagged [OF send_tagged [OF assms(1)] this] obtain gs' where
      "tagged gs' [] n (push_tagging e (pkt_send_tagging t))" "concat gs' = concat gs @ p" by blast
    with True show ?thesis by (intro exI [of _ gs'] exI [of _ "[]"]) simp
  next
    case False
    then have "geo = tagging_geo_fence t \<or> tagging_geo_fence t < 0" by (auto simp: need_push_list_def)
    with False assms(1,2) show ?thesis by (intro exI [of _ gs] exI [of _ p]) (auto simp: tagged_def)
  qed
  then obtain gs1 p1 where g: "tagged gs1 p1 n ?t1" "length p1 \<le> 4" "concat gs1 @ p1 = concat gs @ p"
    "\<forall>y \<in> set p1. fst y = geo \<or> fst y < 0" by blast
  let ?a = "tagging_array ?t1 @ (if tagging_array ?t1 \<noteq> [] then [44] else []) @ ?x"
  let ?t2 = "?t1\<lparr>tagging_geo_fence := geo, tagging_array := ?a, tagging_num := tagging_num ?t1 + 1\<rparr>"
  let ?p2 = "p1 @ [(geo, ?x)]"
  have ne: "tagging_array ?t1 = [] \<longleftrightarrow> p1 = []" using g(1) comma_joined_nil [of "map snd p1"] by (auto simp: tagged_def)
  have a: "?a = comma_joined (map snd ?p2)"
    using g(1) ne by (simp add: tagged_def comma_joined_snoc)
  have "length (comma_joined (map snd ?p2)) \<le> 69 * length (map snd ?p2) - 1"
    using g(1) x(1) by (intro comma_joined_length) (auto simp: tagged_def)
  then have room: "\<not> length ?a > RFID_LIST_SIZE" using g(2) unfolding a by (simp add: RFID_LIST_SIZE_def)
  have t2: "tagged gs1 ?p2 n ?t2" using g(1,4) x a by (auto simp: tagged_def)
  have conc: "concat gs1 @ ?p2 = concat gs @ p @ tags_of fmt [(e, Card pat geo date)]"
    using g(3) z by (simp flip: append_assoc)
  define full where "full \<longleftrightarrow> tagging_num ?t2 \<ge> 5 \<or> length ?a > RFID_LIST_SIZE - 57"
  have add: "tagging_add_rfid fmt e pat geo date t =
      Some (if full then pkt_send_tagging (tagging_add_list e ?t2) else ?t2)"
    using z room unfolding tagging_add_rfid_def Let_def full_def by (simp only: option.case if_False tagging.simps)
  show ?thesis
  proof (cases full)
    case True
    have "length ?p2 \<le> 5" "e_memory e" using g(2) assms(3) by simp_all
    from push_tagged [OF t2 this] obtain gs' where gs': "tagged gs' [] n (push_tagging e ?t2)" "concat gs' = concat gs1 @ ?p2"
      by blast
    with True add conc send_tagged [OF gs'(1)] show ?thesis
      by (intro exI [of _ "pkt_send_tagging (push_tagging e ?t2)"] exI [of _ gs'] exI [of _ "[]"])
        (simp add: tagging_add_list_def)
  next
    case False
    have "tagging_num ?t2 = int (length ?p2)" using t2 by (simp add: tagged_def)
    then have "length ?p2 \<le> 4" using False by (simp add: full_def)
    with False add conc t2 show ?thesis
      by (intro exI [of _ ?t2] exI [of _ gs1] exI [of _ ?p2]) simp
  qed
qed

lemma tag_run_append:
  "tag_run fmt (xs @ ys) t = (case tag_run fmt xs t of None \<Rightarrow> None | Some t1 \<Rightarrow> tag_run fmt ys t1)"
  by (induction xs arbitrary: t) (auto split: option.splits)

lemma run_tagged:
  "\<lbrakk>tagged gs p n t; length p \<le> 4; \<forall>x \<in> set ops. op_ok fmt x\<rbrakk> \<Longrightarrow>
   \<exists>t' gs' p'. tag_run fmt ops t = Some t' \<and> tagged gs' p' (n + passengers ops) t' \<and> length p' \<le> 4 \<and>
     concat gs' @ p' = concat gs @ p @ tags_of fmt ops"
proof (induction ops arbitrary: gs p n t)
  case Nil
  then show ?case by auto
next
  case (Cons x ops)
  obtain e c where x: "x = (e, c)" by (cases x)
  have ok: "op_ok fmt (e, c)" "\<forall>x \<in> set ops. op_ok fmt x" using Cons.prems(3) x by simp_all
  then have m: "e_memory e" by (cases c) simp_all
  have l5: "length p \<le> 5" using Cons.prems(2) by simp
  have one: "\<exists>t1 gs1 p1. tag_step fmt (e, c) t = Some t1 \<and> tagged gs1 p1 (n + passengers [(e, c)]) t1 \<and> length p1 \<le> 4 \<and>
      concat gs1 @ p1 = concat gs @ p @ tags_of fmt [(e, c)]"
  proof (cases c)
    case (Card pat geo date)
    with card_tagged [OF Cons.prems(1,2)] ok(1) show ?thesis by simp
  next
    case (Passenger geo)
    show ?thesis
    proof (cases "geo \<noteq> tagging_geo_fence t \<and> tagging_geo_fence t \<ge> 0")
      case True
      from push_tagged [OF Cons.prems(1) l5 m] obtain gs' where g: "tagged gs' [] n (push_tagging e t)" "concat gs' = concat gs @ p"
        by blast
      with Passenger True show ?thesis
        by (intro exI [of _ "tagging_add_count e geo t"] exI [of _ gs'] exI [of _ "[]"])
          (simp add: tagging_add_count_def tagged_def Let_def)
    next
      case False
      with Passenger Cons.prems(1,2) show ?thesis
        by (intro exI [of _ "tagging_add_count e geo t"] exI [of _ gs] exI [of _ p])
          (auto simp: tagging_add_count_def tagged_def Let_def)
    qed
  next
    case Put
    with push_tagged [OF Cons.prems(1) l5 m] show ?thesis
      by (force simp: tagging_add_list_def)
  next
    case Send
    with send_tagged [OF Cons.prems(1)] Cons.prems(2) show ?thesis by force
  qed
  then obtain t1 gs1 p1 where t1: "tag_step fmt (e, c) t = Some t1" "tagged gs1 p1 (n + passengers [(e, c)]) t1"
    "length p1 \<le> 4" "concat gs1 @ p1 = concat gs @ p @ tags_of fmt [(e, c)]" by blast
  have sp: "tags_of fmt ((e, c) # ops) = tags_of fmt [(e, c)] @ tags_of fmt ops"
    "passengers ((e, c) # ops) = passengers [(e, c)] + passengers ops" by (cases c; simp)+
  obtain t' gs' p' where r: "tag_run fmt ops t1 = Some t'" "tagged gs' p' (n + passengers [(e, c)] + passengers ops) t'"
    "length p' \<le> 4" "concat gs' @ p' = concat gs1 @ p1 @ tags_of fmt ops"
    using Cons.IH [OF t1(2,3) ok(2)] by blast
  have "concat gs' @ p' = concat gs @ p @ tags_of fmt ((e, c) # ops)"
    unfolding sp r(4) using t1(4) by (metis append_assoc)
  moreover have "tagged gs' p' (n + passengers ((e, c) # ops)) t'" using r(2) unfolding sp by (simp only: add.assoc)
  moreover have "tag_run fmt ((e, c) # ops) t = Some t'" using t1(1) r(1) by simp
  ultimately show ?case using r(3) x by blast
qed

text \<open>
  C10: whatever sequence of cards, passengers and reports is made, nothing is written behind an array, and
  after a final report the packets hold every card exactly once, in order, at most five in each, with
  the counts of cards and passengers; a card of a packet was read at the stop of the packet or outside
  of all stops.
\<close>

theorem cards_reported:
  assumes "\<forall>x \<in> set ops. op_ok fmt x" and "e_memory e"
  shows "\<exists>t gs. tag_run fmt (ops @ [(e, Put), (e, Send)]) tagging_start = Some t \<and>
    list_all2 (\<lambda>d g. td_data d = comma_joined (map snd g) \<and> td_num d = int (length g) \<and> length g \<le> 5 \<and>
      (\<forall>x \<in> set g. fst x = idx_geo_fence d \<or> fst x < 0)) (tag_sent t) gs \<and>
    concat gs = tags_of fmt ops \<and> sum_list (map td_count (tag_sent t)) = passengers ops"
proof -
  have "tagged [] [] 0 tagging_start" by (simp add: tagged_def tagging_start_def)
  from run_tagged [OF this _ assms(1)] obtain t1 gs p where t1: "tag_run fmt ops tagging_start = Some t1"
    "tagged gs p (passengers ops) t1" "length p \<le> 4" "concat gs @ p = tags_of fmt ops" by auto
  have "length p \<le> 5" using t1(3) by simp
  from push_tagged [OF t1(2) this assms(2)] obtain gs' where
    g: "tagged gs' [] (passengers ops) (push_tagging e t1)" "concat gs' = tags_of fmt ops" using t1(4) by auto
  let ?t = "pkt_send_tagging (push_tagging e t1)"
  have run: "tag_run fmt (ops @ [(e, Put), (e, Send)]) tagging_start = Some ?t"
    using t1(1) by (simp add: tag_run_append tagging_add_list_def)
  have "list_all2 packet_of (tag_sent ?t) gs'" using send_tagged [OF g(1)] by (simp add: tagged_def pkt_send_tagging_def)
  moreover have "tagging_count (push_tagging e t1) = 0"
    by (simp add: push_tagging_def clear_tagging_def Let_def split: option.split)
  then have "sum_list (map td_count (tag_sent ?t)) = passengers ops"
    using g(1) by (simp add: tagged_def pkt_send_tagging_def)
  ultimately show ?thesis using run g(2) unfolding packet_of_def [abs_def] by blast
qed

definition sample_env :: tag_env where
  "sample_env = \<lparr>e_stops = \<lparr>geo_fence_info = no_stops\<lparr>bus_stops := [\<lparr>stop_num = 3, stop_lat = 37, stop_lon = 127, stop_range = 5\<rparr>]\<rparr>,
       fences = \<lparr>setup_data = [], status_data = [], hold_count = []\<rparr>, recent_geo_fence = 0, first_geo_fence = 0,
       tl500_geofence_reset = False\<rparr>,
     e_gps = zero_gps, e_last = zero_gps, e_memory = True\<rparr>"

lemma cards_reported_witness:
  "let fmt = (\<lambda>x. [48]); e = sample_env;
       ops = [(e, Card [49] (-1) [50]), (e, Passenger 0), (e, Card [51, 52] 0 [50]), (e, Put), (e, Card [53] 0 [50])]
   in \<exists>t gs. tag_run fmt (ops @ [(e, Put), (e, Send)]) tagging_start = Some t \<and>
    list_all2 (\<lambda>d g. td_data d = comma_joined (map snd g) \<and> td_num d = int (length g) \<and> length g \<le> 5 \<and>
      (\<forall>x \<in> set g. fst x = idx_geo_fence d \<or> fst x < 0)) (tag_sent t) gs \<and>
    concat gs = tags_of fmt ops \<and> sum_list (map td_count (tag_sent t)) = passengers ops"
proof -
  have "sprintf_d 3 = [51]" by (simp add: sprintf_d_def dec_digits.simps)
  then have "get_geo_fence_id 0 (e_stops sample_env) = Some [51]"
    by (simp add: get_geo_fence_id_def sample_env_def GEO_FENCE_MAX_COUNT_def)
  moreover have "\<not> tl500_geofence_reset (e_stops sample_env)" "e_memory sample_env" by (simp_all add: sample_env_def)
  ultimately show ?thesis
    unfolding Let_def by (intro cards_reported) (simp_all add: fence_text_def)
qed

text \<open>The packet of a collection fits the buffer in which it is made.\<close>

lemma tag_packet_fits:
  assumes "length phone \<le> 64" "length data \<le> 350" "length (sprintf_d num) \<le> 11"
  shows "\<exists>p. mkpkt_tag_data phone zone date num data = Some p \<and> length p \<le> 411"
proof -
  have "length (take 15 (phone @ replicate (15 - length phone) 32)) \<le> 15" by simp
  moreover have "length (take 8 zone) \<le> 8" "length (take 14 date) \<le> 14" by simp_all
  ultimately show ?thesis using assms
    by (simp add: mkpkt_tag_data_def dev_id_def Let_def del: length_take)
qed

text \<open>
  A card that was read outside of the stops goes out with the packet of the next stop: only a change
  from a stop closes the collection.
\<close>

lemma outside_card_joins_next_stop:
  assumes "tagging_geo_fence t = -1" "tagging_array t \<noteq> []" "geo \<ge> 0"
    and "tagging_add_rfid fmt e pat geo date t = Some t'" "tagging_num t < 4"
    and "length (tagging_array t) + length (tag_text fmt e (the (fence_text e geo)) date pat) < RFID_LIST_SIZE - 57"
  shows "tagging_geo_fence t' = geo \<and>
    tagging_array t' = tagging_array t @ [44] @ tag_text fmt e (the (fence_text e geo)) date pat"
proof -
  obtain z where z: "fence_text e geo = Some z" using assms(4) by (cases "fence_text e geo") (auto simp: tagging_add_rfid_def)
  have "\<not> need_push_list pat geo t"
    using assms(1,6) by (auto simp: need_push_list_def RFID_LIST_SIZE_def RFID_DATA_LEN_def tag_text_def)
  with assms z show ?thesis
    by (auto simp: tagging_add_rfid_def Let_def RFID_LIST_SIZE_def split: if_splits)
qed

end
