(* ===== verification/AllocNet.thy ===== *)
theory AllocNet
  imports AllocFrame AllocStops
begin

text \<open>
  \<open>model/alloc3/netcom_ext.c\<close> and the sending of \<open>netcom.c\<close>: one exchange with the server, in which a packet
  is sent and frames are received until one of them ends the exchange. What the network does is given by
  lists: the results of the connections, of the sends, and the bytes of each read (\<open>None\<close>: nothing came in
  time). Behind the end of a list nothing succeeds any more.
\<close>

datatype PACKET_TYPE = PACKET_TYPE_EVENT | PACKET_TYPE_REPORT | PACKET_TYPE_GET_RFID | PACKET_TYPE_GET_GEOFENCE
  | PACKET_TYPE_GEO_FENCE_IN | PACKET_TYPE_GEO_FENCE_OUT | PACKET_TYPE_TAGGING | PACKET_TYPE_RESP_SMS
  | PACKET_TYPE_REQUEST_BUS_STOP_INFO

datatype rcv_case = RCV_DATA_CONTINUE | RCV_DATA_DONE | RCV_DATA_ACK_AND_DONE | RCV_DATA_NOT_AGREEMENT

definition eRCV_PKT_ID_PASSENGER_INFO :: byte where "eRCV_PKT_ID_PASSENGER_INFO = 49"
definition eRCV_PKT_ID_STOP_INFO :: byte where "eRCV_PKT_ID_STOP_INFO = 51"
definition eRCV_PKT_ID_FTP_INFO :: byte where "eRCV_PKT_ID_FTP_INFO = 52"
definition eRCV_PKT_ID_FIRMWARE_UPDATE :: byte where "eRCV_PKT_ID_FIRMWARE_UPDATE = 53"
definition SEND_ACK_RETRY_CNT :: nat where "SEND_ACK_RETRY_CNT = 10"

text \<open>What a frame starts that is not modelled: a transfer of a file, an update, the end of the device.\<close>

datatype alloc_event = Ftp "byte list" | Firmware "byte list" | PowerOff

text \<open>The sends are the results of the calls that are still to come.\<close>

record session =
  ring :: frame_ring
  passengers_info :: passenger
  bus :: stops
  disk :: os
  sends :: "int list"
  acks :: "byte list list"
  events :: "alloc_event list"

record codes =
  c_passenger :: "passenger \<Rightarrow> byte list"
  c_fences :: fence_codes
  c_ftp :: "byte list \<Rightarrow> int"

subsection \<open>Acknowledgements\<close>

text \<open>
  \<open>_send_ack_pkt\<close>: the jump back stands behind the test of the retries, so the loop ends with a complete
  send only, and with the error code of the tenth failure before it. \<open>None\<close>: it does not end.
\<close>

fun ack_loop :: "nat \<Rightarrow> int \<Rightarrow> nat \<Rightarrow> int list \<Rightarrow> (int \<times> int list) option" where
  "ack_loop len err retry_cnt [] = None"
| "ack_loop len err retry_cnt (bytecount # rs) =
     (if bytecount \<le> 0 then ack_loop len (if retry_cnt + 1 \<ge> SEND_ACK_RETRY_CNT then -2 else err) (retry_cnt + 1) rs
      else if bytecount \<noteq> int len then
        ack_loop len (if retry_cnt + 1 \<ge> SEND_ACK_RETRY_CNT then -3 else err) (retry_cnt + 1) rs
      else Some (err, rs))"

definition send_ack_pkt :: "byte list \<Rightarrow> session \<Rightarrow> (int \<times> session) option" where
  "send_ack_pkt tbuff s =
     (if tbuff = [] then Some (-1, s)
      else
        (case ack_loop (length tbuff) 0 0 (sends s) of
           None \<Rightarrow> None | Some (err, rs) \<Rightarrow> Some (err, s\<lparr>sends := rs, acks := acks s @ [tbuff]\<rparr>)))"

text \<open>
  The command id is copied into ten bytes, of which \<open>strlen\<close> finds the end only when it is shorter.
\<close>

definition send_ack_id :: "byte list \<Rightarrow> session \<Rightarrow> (rcv_case \<times> session) option" where
  "send_ack_id cmd_id s =
     (if 0 \<notin> set cmd_id then None
      else
        (case send_ack_pkt (takeWhile (\<lambda>b. b \<noteq> 0) cmd_id) s of
           None \<Rightarrow> None | Some (r, s1) \<Rightarrow> Some (RCV_DATA_DONE, s1)))"

subsection \<open>A frame\<close>

definition alloc_get_binary_packet_id :: "byte list \<Rightarrow> byte" where
  "alloc_get_binary_packet_id content = (case strtok COMMA content of None \<Rightarrow> 0 | Some (tr, r) \<Rightarrow> hd tr)"

definition starts :: "string \<Rightarrow> byte list \<Rightarrow> bool" where
  "starts p content \<longleftrightarrow> take (length p) content = str p"

text \<open>
  What a frame means for the packet that was sent, when its number has not ended the exchange already; a
  list that is up to date is acknowledged with the id on file.
\<close>

definition answer_case :: "PACKET_TYPE \<Rightarrow> byte list \<Rightarrow> session \<Rightarrow> (rcv_case \<times> session) option" where
  "answer_case op content s =
     (let rest = Some (RCV_DATA_CONTINUE, if starts ''(RRR)'' content then s\<lparr>events := events s @ [PowerOff]\<rparr> else s) in
      case op of
        PACKET_TYPE_GET_RFID \<Rightarrow> if starts ''P'' content then send_ack_id (get_passenger_cmd_id (passengers_info s)) s else rest
      | PACKET_TYPE_EVENT \<Rightarrow> if starts ''M'' content then Some (RCV_DATA_DONE, s) else rest
      | PACKET_TYPE_REPORT \<Rightarrow> if starts ''M'' content then Some (RCV_DATA_DONE, s) else rest
      | PACKET_TYPE_GEO_FENCE_IN \<Rightarrow> if starts ''M'' content then Some (RCV_DATA_DONE, s) else rest
      | PACKET_TYPE_GEO_FENCE_OUT \<Rightarrow> if starts ''M'' content then Some (RCV_DATA_DONE, s) else rest
      | PACKET_TYPE_TAGGING \<Rightarrow> Some (if starts ''T'' content then RCV_DATA_DONE else RCV_DATA_NOT_AGREEMENT, s)
      | PACKET_TYPE_RESP_SMS \<Rightarrow> Some (if starts ''B'' content then RCV_DATA_DONE else RCV_DATA_NOT_AGREEMENT, s)
      | PACKET_TYPE_GET_GEOFENCE \<Rightarrow> rest
      | PACKET_TYPE_REQUEST_BUS_STOP_INFO \<Rightarrow> rest)"

text \<open>
  The functions get the frame as text, which ends at a NUL. \<open>c_ftp\<close> is the result of
  \<open>save_ftpserver_info\<close>, which is not modelled.
\<close>

definition use_content :: "codes \<Rightarrow> PACKET_TYPE \<Rightarrow> byte list \<Rightarrow> session \<Rightarrow> (rcv_case \<times> session) option" where
  "use_content c op packet_content s =
     (let content = takeWhile (\<lambda>b. b \<noteq> 0) packet_content;
          pkt_id = alloc_get_binary_packet_id content in
      if pkt_id = eRCV_PKT_ID_PASSENGER_INFO then
        (case save_passenger_info (c_passenger c) content (passengers_info s) (disk s) of
           None \<Rightarrow> None
         | Some (p, os1) \<Rightarrow>
             (let s1 = s\<lparr>passengers_info := p, disk := os1\<rparr>
              in if get_passenger_info_stat p = eGET_PASSENGER_STAT_COMPLETE then send_ack_id (get_passenger_cmd_id p) s1
                 else answer_case op content s1))
      else if pkt_id = eRCV_PKT_ID_STOP_INFO then
        (case save_geofence_info (c_fences c) content (bus s) (disk s) of
           None \<Rightarrow> None
         | Some (b, os1) \<Rightarrow>
             (let s1 = s\<lparr>bus := b, disk := os1\<rparr>
              in if get_geo_fence_info_stat b = eGET_GEOFENCE_STAT_COMPLETE then send_ack_id (get_geo_fence_cmd_id b) s1
                 else answer_case op content s1))
      else if pkt_id = eRCV_PKT_ID_FTP_INFO then
        (let s1 = s\<lparr>events := events s @ [Ftp content]\<rparr>
         in if c_ftp c content > 0 then send_ack_id (replicate 10 0) s1 else answer_case op content s1)
      else if pkt_id = eRCV_PKT_ID_FIRMWARE_UPDATE then
        answer_case op content (s\<lparr>events := events s @ [Firmware content]\<rparr>)
      else answer_case op content s)"

definition recv_data :: "codes \<Rightarrow> PACKET_TYPE \<Rightarrow> byte list \<Rightarrow> session \<Rightarrow> (rcv_case \<times> session) option" where
  "recv_data c op rcv_buff s =
     (case alloc_get_packet_frame rcv_buff (ring s) of
        None \<Rightarrow> None
      | Some (None, r1) \<Rightarrow> Some (RCV_DATA_CONTINUE, s\<lparr>ring := r1\<rparr>)
      | Some (Some content, r1) \<Rightarrow>
          if content = [] then Some (RCV_DATA_CONTINUE, s\<lparr>ring := r1\<rparr>)
          else use_content c op content (s\<lparr>ring := r1\<rparr>))"

subsection \<open>An exchange\<close>

text \<open>
  The bytes behind an earlier frame are put in front of a read that does not begin a frame. Both are
  copied as text, up to the first NUL, into 512 bytes; \<open>None\<close> is a copy that does not fit.
\<close>

definition with_rest :: "byte list \<Rightarrow> session \<Rightarrow> (byte list \<times> session) option" where
  "with_rest got s =
     (let r = ring s; t = takeWhile (\<lambda>b. b \<noteq> 0) in
      if hd got \<noteq> PACKET_START_CHAR \<and> b_ex_buff r then
        (let pre = t (ex_buff r); txt = pre @ t got in
         if 0 \<notin> set (ex_buff r) \<or> length txt \<ge> 512 \<or> length got + length pre > 512 then None
         else
           Some (txt @ replicate (length got + length pre - length txt) 0,
             s\<lparr>ring := r\<lparr>b_ex_buff := False, ex_buff := replicate MAX_RCV_PACKET_SIZE 0\<rparr>\<rparr>))
      else Some (got, s))"

definition retry_count_connect :: nat where "retry_count_connect = 2"
definition retry_count_send :: nat where "retry_count_send = 3"
definition retry_count_receive :: nat where "retry_count_receive = 3"

fun recv_exchange :: "codes \<Rightarrow> PACKET_TYPE \<Rightarrow> nat \<Rightarrow> int \<Rightarrow> byte list option list \<Rightarrow> session \<Rightarrow> (int \<times> session) option" where
  "recv_exchange c op retry_cnt err [] s = Some (-4, s)"
| "recv_exchange c op retry_cnt err (None # rs) s =
     (if retry_cnt + 1 \<ge> retry_count_receive then Some (-4, s) else recv_exchange c op (retry_cnt + 1) err rs s)"
| "recv_exchange c op retry_cnt err (Some got # rs) s =
     (case with_rest got s of
        None \<Rightarrow> None
      | Some (buf, s1) \<Rightarrow>
          (case recv_data c op buf s1 of
             None \<Rightarrow> None
           | Some (RCV_DATA_CONTINUE, s2) \<Rightarrow> recv_exchange c op retry_cnt err rs s2
           | Some (_, s2) \<Rightarrow> Some (err, s2)))"

text \<open>The retries of the connection are counted on by the sends.\<close>

fun connect_retries :: "nat \<Rightarrow> bool list \<Rightarrow> nat option" where
  "connect_retries retry_cnt [] = None"
| "connect_retries retry_cnt (ok # rs) =
     (if ok then Some retry_cnt
      else if retry_cnt > retry_count_connect then None else connect_retries (retry_cnt + 1) rs)"

fun send_retries :: "nat \<Rightarrow> nat \<Rightarrow> int list \<Rightarrow> int \<times> int list" where
  "send_retries len retry_cnt [] = (-2, [])"
| "send_retries len retry_cnt (bytecount # rs) =
     (if bytecount \<le> 0 then (if retry_cnt + 1 \<ge> retry_count_send then (-2, rs) else send_retries len (retry_cnt + 1) rs)
      else if bytecount \<noteq> int len then
        (if retry_cnt + 1 \<ge> retry_count_send then (-3, rs) else send_retries len (retry_cnt + 1) rs)
      else (0, rs))"

text \<open>What the network does in an exchange.\<close>

record peer =
  has_socket :: bool
  host_known :: bool
  connects :: "bool list"
  reads :: "byte list option list"

definition transfer_packet_recv_call :: "codes \<Rightarrow> PACKET_TYPE \<Rightarrow> peer \<Rightarrow> byte list \<Rightarrow> session \<Rightarrow> (int \<times> session) option" where
  "transfer_packet_recv_call c op net tbuff s =
     (if \<not> has_socket net then Some (-1, s)
      else
        (let err = (if host_known net then 0 else -3) in
         case connect_retries 0 (connects net) of
           None \<Rightarrow> Some (-11, s)
         | Some retry_cnt \<Rightarrow>
             (case send_retries (length tbuff) retry_cnt (sends s) of
                (e, rs) \<Rightarrow>
                  if e \<noteq> 0 then Some (e, s\<lparr>sends := rs\<rparr>)
                  else recv_exchange c op 0 err (reads net) (s\<lparr>sends := rs\<rparr>))))"

definition alloc_send_packet :: "codes \<Rightarrow> PACKET_TYPE \<Rightarrow> peer \<Rightarrow> byte list \<Rightarrow> session \<Rightarrow> (int \<times> session) option" where
  "alloc_send_packet c op net packet_buf s =
     map_option (\<lambda>(ret, s1). (if ret < 0 then -1 else 0, s1)) (transfer_packet_recv_call c op net packet_buf s)"

subsection \<open>Receiving frames\<close>

lemma frame_reads:
  "\<lbrakk>ring_holds q (ring s); \<not> b_ex_buff (ring s); ex_buff (ring s) = ex_buff ring_init; r \<noteq> [];
    q @ concat rs @ r = PACKET_START_CHAR # f @ [PACKET_END_CHAR]; brace_free f; length f \<le> 512; f \<noteq> []\<rbrakk> \<Longrightarrow>
   recv_exchange c op n err (map Some (rs @ [r]) @ later) s =
     (case use_content c op f (s\<lparr>ring := ring_init\<rparr>) of
        None \<Rightarrow> None
      | Some (RCV_DATA_CONTINUE, s2) \<Rightarrow> recv_exchange c op n err later s2
      | Some (_, s2) \<Rightarrow> Some (err, s2))"
proof (induction rs arbitrary: q s)
  case Nil
  then have eq: "q @ r = PACKET_START_CHAR # f @ [PACKET_END_CHAR]" by simp
  obtain r1 where r1: "alloc_get_packet_frame r (ring s) = Some (Some f, r1)" "ring_holds [] r1"
    "ex_buff r1 = ex_buff (ring s)" "b_ex_buff r1 = b_ex_buff (ring s)"
    using frame_done [OF Nil(1) Nil(4) eq Nil(6,7)] by blast
  have "r1 = ring_init" using r1 Nil(2,3) ring_init_holds by (simp add: ring_holds_def ring_init_def)
  with r1(1) Nil(2,8) show ?case by (simp add: with_rest_def recv_data_def)
next
  case (Cons p rs)
  have eq: "q @ p @ (concat rs @ r) = PACKET_START_CHAR # f @ [PACKET_END_CHAR]" "concat rs @ r \<noteq> []"
    using Cons.prems(4,5) by simp_all
  obtain r1 where r1: "alloc_get_packet_frame p (ring s) = Some (None, r1)" "ring_holds (q @ p) r1"
    "ex_buff r1 = ex_buff (ring s)" "b_ex_buff r1 = b_ex_buff (ring s)"
    using frame_begun [OF Cons.prems(1) eq Cons.prems(6,7)] by blast
  have eq2: "(q @ p) @ concat rs @ r = PACKET_START_CHAR # f @ [PACKET_END_CHAR]" using eq(1) by simp
  have "recv_exchange c op n err (map Some ((p # rs) @ [r]) @ later) s =
      recv_exchange c op n err (map Some (rs @ [r]) @ later) (s\<lparr>ring := r1\<rparr>)"
    using r1(1) Cons.prems(2) by (simp add: with_rest_def recv_data_def)
  also have "\<dots> = (case use_content c op f (s\<lparr>ring := r1\<rparr>\<lparr>ring := ring_init\<rparr>) of
        None \<Rightarrow> None
      | Some (RCV_DATA_CONTINUE, s2) \<Rightarrow> recv_exchange c op n err later s2
      | Some (_, s2) \<Rightarrow> Some (err, s2))"
    by (rule Cons.IH [of "q @ p"]) (use r1 Cons.prems eq2 in simp_all)
  finally show ?case by simp
qed

text \<open>The frame of \<open>p\<close> cut into reads.\<close>

definition cut_of :: "byte list list \<Rightarrow> byte list \<Rightarrow> bool" where
  "cut_of parts p \<longleftrightarrow> parts \<noteq> [] \<and> last parts \<noteq> [] \<and> concat parts = PACKET_START_CHAR # p @ [PACKET_END_CHAR] \<and>
     brace_free p \<and> length p \<le> 512 \<and> p \<noteq> [] \<and> 0 \<notin> set p"

lemma cut_reads:
  assumes "cut_of parts p" "ring s = ring_init"
  shows "recv_exchange c op n err (map Some parts @ later) s =
     (case use_content c op p s of
        None \<Rightarrow> None
      | Some (RCV_DATA_CONTINUE, s2) \<Rightarrow> recv_exchange c op n err later s2
      | Some (_, s2) \<Rightarrow> Some (err, s2))"
proof -
  have parts: "parts = butlast parts @ [last parts]" using assms(1) by (simp add: cut_of_def)
  have eq: "[] @ concat (butlast parts) @ last parts = PACKET_START_CHAR # p @ [PACKET_END_CHAR]"
    using assms(1) arg_cong [OF parts, of concat] by (simp add: cut_of_def)
  have "recv_exchange c op n err (map Some (butlast parts @ [last parts]) @ later) s =
     (case use_content c op p (s\<lparr>ring := ring_init\<rparr>) of
        None \<Rightarrow> None
      | Some (RCV_DATA_CONTINUE, s2) \<Rightarrow> recv_exchange c op n err later s2
      | Some (_, s2) \<Rightarrow> Some (err, s2))"
    by (rule frame_reads [of "[]"]) (use assms eq ring_init_holds in \<open>simp_all add: cut_of_def ring_init_def\<close>)
  moreover have "s\<lparr>ring := ring_init\<rparr> = s" using assms(2) by simp
  ultimately show ?thesis using parts by simp
qed

subsection \<open>Fetching the list of passengers\<close>

abbreviation pax_packet :: "byte list \<Rightarrow> byte list \<Rightarrow> int \<Rightarrow> byte list \<Rightarrow> int \<Rightarrow> byte list \<Rightarrow> byte list" where
  "pax_packet phone cmd_id n ver k l \<equiv> list_packet [eRCV_PKT_ID_PASSENGER_INFO] phone cmd_id n k ver l"

lemma cmd_field: "field_ok [eRCV_PKT_ID_PASSENGER_INFO]"
  by (simp add: field_ok_def eRCV_PKT_ID_PASSENGER_INFO_def)

lemma pax_packet_id: "alloc_get_binary_packet_id (pax_packet phone cmd_id n ver k l) = eRCV_PKT_ID_PASSENGER_INFO"
  unfolding alloc_get_binary_packet_id_def list_packet_def strtok_field [OF cmd_field] by simp

lemma pax_packet_answer:
  "answer_case PACKET_TYPE_GET_RFID (pax_packet phone cmd_id n ver k l) s = Some (RCV_DATA_CONTINUE, s)"
  by (simp add: answer_case_def starts_def list_packet_def eRCV_PKT_ID_PASSENGER_INFO_def str_def)

lemma ack_whole:
  assumes "cmd_id \<noteq> []" "length cmd_id < 10" "0 \<notin> set cmd_id" "sends s = int (length cmd_id) # rs"
  shows "send_ack_id (padded (replicate 10 0) cmd_id) s = Some (RCV_DATA_DONE, s\<lparr>sends := rs, acks := acks s @ [cmd_id]\<rparr>)"
proof -
  obtain m where m: "10 - length cmd_id = Suc m" using assms(2) by (cases "10 - length cmd_id") auto
  have "takeWhile (\<lambda>b. b \<noteq> 0) (cmd_id @ replicate (Suc m) 0) = cmd_id"
    using assms(3) by (subst takeWhile_append2) auto
  moreover have "padded (replicate 10 0) cmd_id = cmd_id @ replicate (Suc m) 0" using m by (simp add: padded_def)
  ultimately show ?thesis using assms by (simp add: send_ack_id_def send_ack_pkt_def)
qed

lemma use_part:
  assumes "passengers_info s = init_passenger_info \<and> ls = [] \<or>
      passengers_info s = loading eGET_PASSENGER_STAT_DOWNLOADING cmd_id n ver ls"
    and "field_ok phone" "field_ok cmd_id" "length cmd_id < 10" "0 \<notin> set cmd_id" "field_ok ver" "length ver \<le> 8" "0 \<le> n"
    and "l \<noteq> []" "13 \<notin> set (ver @ l)" "10 \<notin> set (ver @ l)" "length ver + length l < 511" "list_room (ls @ [l])"
    and "0 \<notin> set (pax_packet phone cmd_id n ver (int (Suc (length ls))) l)" "sends s = int (length cmd_id) # rs"
  shows "use_content c PACKET_TYPE_GET_RFID (pax_packet phone cmd_id n ver (int (Suc (length ls))) l) s =
    (if n = int (Suc (length ls)) then
       (let p = loading eGET_PASSENGER_STAT_COMPLETE cmd_id n ver (ls @ [l])
        in Some (RCV_DATA_DONE, s\<lparr>passengers_info := p, disk := snd (storage_save_file RFID_SAVED_FILE (c_passenger c p) (disk s)),
             sends := rs, acks := acks s @ [cmd_id]\<rparr>))
     else Some (RCV_DATA_CONTINUE, s\<lparr>passengers_info := loading eGET_PASSENGER_STAT_DOWNLOADING cmd_id n ver (ls @ [l])\<rparr>))"
proof -
  define k where "k = int (Suc (length ls))"
  let ?f = "pax_packet phone cmd_id n ver k l"
  have le: "length cmd_id \<le> 10" using assms(4) by simp
  have ne: "cmd_id \<noteq> []" using assms(3) by (simp add: field_ok_def)
  have t: "takeWhile (\<lambda>b. b \<noteq> 0) ?f = ?f" using assms(14) unfolding k_def by (auto simp: takeWhile_eq_all_conv)
  note sv = save_part [OF assms(1) cmd_field assms(2,3) le assms(6-13), of "c_passenger c" "disk s", folded k_def]
  have st: "get_passenger_info_stat (loading st cmd_id n ver x) = st" "get_passenger_cmd_id (loading st cmd_id n ver x) =
      padded (replicate 10 0) cmd_id" for st x
    by (simp_all add: get_passenger_info_stat_def get_passenger_cmd_id_def loading_def)
  show ?thesis
    unfolding k_def [symmetric]
  proof (cases "n = k")
    case True
    let ?p = "loading eGET_PASSENGER_STAT_COMPLETE cmd_id n ver (ls @ [l])"
    let ?s = "s\<lparr>passengers_info := ?p, disk := snd (storage_save_file RFID_SAVED_FILE (c_passenger c ?p) (disk s))\<rparr>"
    have "send_ack_id (padded (replicate 10 0) cmd_id) ?s = Some (RCV_DATA_DONE, ?s\<lparr>sends := rs, acks := acks ?s @ [cmd_id]\<rparr>)"
      using assms(15) by (intro ack_whole [OF ne assms(4,5)]) simp
    then show "use_content c PACKET_TYPE_GET_RFID ?f s = (if n = k then
       (let p = loading eGET_PASSENGER_STAT_COMPLETE cmd_id n ver (ls @ [l])
        in Some (RCV_DATA_DONE, s\<lparr>passengers_info := p, disk := snd (storage_save_file RFID_SAVED_FILE (c_passenger c p) (disk s)),
             sends := rs, acks := acks s @ [cmd_id]\<rparr>))
     else Some (RCV_DATA_CONTINUE, s\<lparr>passengers_info := loading eGET_PASSENGER_STAT_DOWNLOADING cmd_id n ver (ls @ [l])\<rparr>))"
      unfolding use_content_def Let_def t pax_packet_id sv if_P [OF True] by (simp add: st)
  next
    case False
    then show "use_content c PACKET_TYPE_GET_RFID ?f s = (if n = k then
       (let p = loading eGET_PASSENGER_STAT_COMPLETE cmd_id n ver (ls @ [l])
        in Some (RCV_DATA_DONE, s\<lparr>passengers_info := p, disk := snd (storage_save_file RFID_SAVED_FILE (c_passenger c p) (disk s)),
             sends := rs, acks := acks s @ [cmd_id]\<rparr>))
     else Some (RCV_DATA_CONTINUE, s\<lparr>passengers_info := loading eGET_PASSENGER_STAT_DOWNLOADING cmd_id n ver (ls @ [l])\<rparr>))"
      unfolding use_content_def Let_def t pax_packet_id sv if_not_P [OF False] by (simp add: st pax_packet_answer)
  qed
qed

lemma fetch_rest:
  assumes h: "field_ok phone" "field_ok cmd_id" "length cmd_id < 10" "0 \<notin> set cmd_id" "field_ok ver" "length ver \<le> 8"
  shows "\<lbrakk>passengers_info s = init_passenger_info \<and> ls = [] \<or>
      passengers_info s = loading eGET_PASSENGER_STAT_DOWNLOADING cmd_id n ver ls;
    n = int (length (ls @ ms)); ms \<noteq> []; list_room (ls @ ms); ring s = ring_init; sends s = int (length cmd_id) # rs;
    \<forall>l \<in> set ms. l \<noteq> [] \<and> 13 \<notin> set (ver @ l) \<and> 10 \<notin> set (ver @ l) \<and> length ver + length l < 511;
    list_all2 cut_of cuts (list_packets (pax_packet phone cmd_id n ver) (length ls) ms)\<rbrakk> \<Longrightarrow>
    \<exists>s'. recv_exchange c PACKET_TYPE_GET_RFID i err (map Some (concat cuts) @ later) s = Some (err, s') \<and>
      passengers_info s' = loading eGET_PASSENGER_STAT_COMPLETE cmd_id n ver (ls @ ms) \<and>
      disk s' = snd (storage_save_file RFID_SAVED_FILE (c_passenger c (passengers_info s')) (disk s)) \<and>
      acks s' = acks s @ [cmd_id]"
proof (induction ms arbitrary: s ls cuts)
  case (Cons m ms)
  have m: "m \<noteq> []" "13 \<notin> set (ver @ m)" "10 \<notin> set (ver @ m)" "length ver + length m < 511"
    using Cons.prems(7) by simp_all
  have room: "list_room (ls @ [m])" using Cons.prems(4) by (simp add: list_room_def)
  have n: "0 \<le> n" using Cons.prems(2) by simp
  let ?f = "pax_packet phone cmd_id n ver (int (Suc (length ls))) m"
  obtain ps cuts1 where cuts: "cuts = ps # cuts1" "cut_of ps ?f"
    "list_all2 cut_of cuts1 (list_packets (pax_packet phone cmd_id n ver) (Suc (length ls)) ms)"
    using Cons.prems(8) by (auto simp: list_all2_Cons2)
  have z: "0 \<notin> set ?f" using cuts(2) by (simp add: cut_of_def)
  note part = use_part [OF Cons.prems(1) h n m room z Cons.prems(6), of c]
  have one: "recv_exchange c PACKET_TYPE_GET_RFID i err (map Some (concat cuts) @ later) s =
     (case use_content c PACKET_TYPE_GET_RFID ?f s of
        None \<Rightarrow> None
      | Some (RCV_DATA_CONTINUE, s2) \<Rightarrow> recv_exchange c PACKET_TYPE_GET_RFID i err (map Some (concat cuts1) @ later) s2
      | Some (_, s2) \<Rightarrow> Some (err, s2))"
    using cut_reads [OF cuts(2) Cons.prems(5), of c PACKET_TYPE_GET_RFID i err "map Some (concat cuts1) @ later"] cuts(1) by simp
  show ?case
  proof (cases ms)
    case Nil
    then have "n = int (Suc (length ls))" using Cons.prems(2) by simp
    with one part Nil show ?thesis by (simp add: Let_def)
  next
    case (Cons m2 ms2)
    let ?s = "s\<lparr>passengers_info := loading eGET_PASSENGER_STAT_DOWNLOADING cmd_id n ver (ls @ [m])\<rparr>"
    have "n \<noteq> int (Suc (length ls))" using Cons \<open>n = int (length (ls @ m # ms))\<close> by simp
    with one part have "recv_exchange c PACKET_TYPE_GET_RFID i err (map Some (concat cuts) @ later) s =
        recv_exchange c PACKET_TYPE_GET_RFID i err (map Some (concat cuts1) @ later) ?s" by simp
    moreover have "\<exists>s'. recv_exchange c PACKET_TYPE_GET_RFID i err (map Some (concat cuts1) @ later) ?s = Some (err, s') \<and>
      passengers_info s' = loading eGET_PASSENGER_STAT_COMPLETE cmd_id n ver ((ls @ [m]) @ ms) \<and>
      disk s' = snd (storage_save_file RFID_SAVED_FILE (c_passenger c (passengers_info s')) (disk ?s)) \<and>
      acks s' = acks ?s @ [cmd_id]"
    proof (rule Cons.IH)
      show "list_all2 cut_of cuts1 (list_packets (pax_packet phone cmd_id n ver) (length (ls @ [m])) ms)"
        using cuts(3) by simp
    qed (use Cons Cons.prems(2,4-7) in simp_all)
    ultimately show ?thesis by simp
  qed
qed simp

text \<open>
  C9: a request for the passengers that the server answers with the packets of a list, cut into reads at
  any places, succeeds: the list is complete and saved, and its command id is acknowledged.
\<close>

theorem passengers_fetched:
  assumes "field_ok phone" "field_ok cmd_id" "length cmd_id < 10" "0 \<notin> set cmd_id" "field_ok ver" "length ver \<le> 8"
    and "ls \<noteq> []" "list_room ls"
    and "\<forall>l \<in> set ls. l \<noteq> [] \<and> 13 \<notin> set (ver @ l) \<and> 10 \<notin> set (ver @ l) \<and> length ver + length l < 511"
    and "list_all2 cut_of cuts (list_packets (\<lambda>k l. list_packet [49] phone cmd_id (int (length ls)) k ver l) 0 ls)"
    and "has_socket net" "host_known net" "connect_retries 0 (connects net) \<noteq> None" "reads net = map Some (concat cuts) @ later"
    and "packet \<noteq> []" "sends s = int (length packet) # int (length cmd_id) # rs"
    and "ring s = ring_init" "passengers_info s = init_passenger_info"
  shows "\<exists>s'. alloc_send_packet c PACKET_TYPE_GET_RFID net packet s = Some (0, s') \<and>
    get_passenger_info_stat (passengers_info s') = eGET_PASSENGER_STAT_COMPLETE \<and>
    rfid_list (passengers_info s') = concat (map (\<lambda>l. l @ [44]) ls) \<and>
    disk s' = snd (storage_save_file RFID_SAVED_FILE (c_passenger c (passengers_info s')) (disk s)) \<and>
    acks s' = acks s @ [cmd_id]"
proof -
  let ?s = "s\<lparr>sends := int (length cmd_id) # rs\<rparr>" and ?n = "int (length ls)"
  have "\<exists>s'. recv_exchange c PACKET_TYPE_GET_RFID 0 0 (map Some (concat cuts) @ later) ?s = Some (0, s') \<and>
      passengers_info s' = loading eGET_PASSENGER_STAT_COMPLETE cmd_id ?n ver ([] @ ls) \<and>
      disk s' = snd (storage_save_file RFID_SAVED_FILE (c_passenger c (passengers_info s')) (disk ?s)) \<and>
      acks s' = acks ?s @ [cmd_id]"
  proof (rule fetch_rest [OF assms(1-6)])
    show "passengers_info ?s = init_passenger_info \<and> [] = [] \<or>
        passengers_info ?s = loading eGET_PASSENGER_STAT_DOWNLOADING cmd_id ?n ver []" using assms(18) by simp
    show "?n = int (length ([] @ ls))" by simp
    show "list_room ([] @ ls)" using assms(8) by (simp only: append_Nil)
    show "ring ?s = ring_init" using assms(17) by simp
    show "sends ?s = int (length cmd_id) # rs" by simp
    show "list_all2 cut_of cuts (list_packets (pax_packet phone cmd_id ?n ver) (length []) ls)"
      using assms(10) by (simp only: list.size eRCV_PKT_ID_PASSENGER_INFO_def)
  qed (fact assms(7) assms(9))+
  then obtain s' where s': "recv_exchange c PACKET_TYPE_GET_RFID 0 0 (map Some (concat cuts) @ later) ?s = Some (0, s')"
    "passengers_info s' = loading eGET_PASSENGER_STAT_COMPLETE cmd_id ?n ver ls"
    "disk s' = snd (storage_save_file RFID_SAVED_FILE (c_passenger c (passengers_info s')) (disk s))"
    "acks s' = acks s @ [cmd_id]" by auto
  obtain k where k: "connect_retries 0 (connects net) = Some k" using assms(13) by blast
  have "transfer_packet_recv_call c PACKET_TYPE_GET_RFID net packet s = Some (0, s')"
    using assms(11,12,14-16) k s'(1) by (simp add: transfer_packet_recv_call_def)
  then have "alloc_send_packet c PACKET_TYPE_GET_RFID net packet s = Some (0, s')"
    by (simp add: alloc_send_packet_def)
  with s'(2-4) show ?thesis by (simp add: get_passenger_info_stat_def loading_def)
qed

definition sample_session :: session where
  "sample_session = \<lparr>ring = ring_init, passengers_info = init_passenger_info,
     bus = \<lparr>geo_fence_info = no_stops, fences = \<lparr>setup_data = [], status_data = [], hold_count = []\<rparr>,
       recent_geo_fence = -1, first_geo_fence = -1, tl500_geofence_reset = False\<rparr>,
     disk = \<lparr>files = Map.empty, script = []\<rparr>, sends = [2, 1], acks = [], events = []\<rparr>"

lemma passengers_fetched_witness:
  "let ls = [[50, 51], [52]]; c = \<lparr>c_passenger = rfid_list, c_fences = sample_codes, c_ftp = (\<lambda>t. -1)\<rparr>;
       p1 = list_packet [49] [48] [55] (int (length ls)) 1 [57] [50, 51];
       p2 = list_packet [49] [48] [55] (int (length ls)) 2 [57] [52];
       cuts = [[[PACKET_START_CHAR], p1 @ [PACKET_END_CHAR]], [PACKET_START_CHAR # p2, [PACKET_END_CHAR]]];
       net = \<lparr>has_socket = True, host_known = True, connects = [False, True], reads = map Some (concat cuts) @ []\<rparr>
   in \<exists>s'. alloc_send_packet c PACKET_TYPE_GET_RFID net [80, 44] sample_session = Some (0, s') \<and>
    get_passenger_info_stat (passengers_info s') = eGET_PASSENGER_STAT_COMPLETE \<and>
    rfid_list (passengers_info s') = concat (map (\<lambda>l. l @ [44]) ls) \<and>
    disk s' = snd (storage_save_file RFID_SAVED_FILE (c_passenger c (passengers_info s')) (disk sample_session)) \<and>
    acks s' = acks sample_session @ [[55]]"
proof -
  have d: "sprintf_d 1 = [49]" "sprintf_d 2 = [50]" "sprintf_d 3 = [51]" "sprintf_d 4 = [52]"
    by (simp_all add: sprintf_d_def dec_digits.simps)
  show ?thesis
    unfolding Let_def
    by (rule passengers_fetched [where phone = "[48]" and ver = "[57]" and rs = "[]" and later = "[]" and
      cuts = "let p1 = list_packet [49] [48] [55] 2 1 [57] [50, 51]; p2 = list_packet [49] [48] [55] 2 2 [57] [52]
        in [[[PACKET_START_CHAR], p1 @ [PACKET_END_CHAR]], [PACKET_START_CHAR # p2, [PACKET_END_CHAR]]]", unfolded Let_def])
      (simp_all add: field_ok_def list_room_def RFID_LIST_CAP_def cut_of_def list_packet_def d brace_free_def
        PACKET_START_CHAR_def PACKET_END_CHAR_def sample_session_def retry_count_connect_def)
qed

text \<open>An acknowledgement whose sends all fail is repeated without an end.\<close>

lemma ack_without_end: "(\<forall>x \<in> set rs. x \<noteq> int len) \<Longrightarrow> ack_loop len err retry_cnt rs = None"
  by (induction len err retry_cnt rs rule: ack_loop.induct) auto

text \<open>Cards that are answered with anything but a frame for them count as reported.\<close>

lemma wrong_answer_drops_cards:
  assumes "cut_of parts f" "ring s = ring_init" "\<not> starts ''T'' f"
    and "alloc_get_binary_packet_id f \<notin> {eRCV_PKT_ID_PASSENGER_INFO, eRCV_PKT_ID_STOP_INFO, eRCV_PKT_ID_FTP_INFO,
      eRCV_PKT_ID_FIRMWARE_UPDATE}"
  shows "recv_exchange c PACKET_TYPE_TAGGING n 0 (map Some parts @ later) s = Some (0, s)"
proof -
  have t: "takeWhile (\<lambda>b. b \<noteq> 0) f = f" using assms(1) by (auto simp: cut_of_def takeWhile_eq_all_conv)
  have "use_content c PACKET_TYPE_TAGGING f s = Some (RCV_DATA_NOT_AGREEMENT, s)"
    unfolding use_content_def Let_def t using assms(3,4) by (simp add: answer_case_def)
  then show ?thesis unfolding cut_reads [OF assms(1,2)] by simp
qed

end
