(* ===== verification/Bcm.thy ===== *)
theory Bcm
  imports Posix
begin

text \<open>
  \<open>ext/dev/allkey_bcm_1\<close>: the body control module of a car (locks, horn, lights, sensors) on a serial
  line. Commands have four or nine bytes and an answer of eight; the module reports its events in eight
  bytes of its own and repeats them until they are echoed. Opening, writing and reading the line are
  functions of the system: their results are the lists \<open>opens\<close>, \<open>writes\<close> and \<open>line\<close> of the state, one
  element per call; behind the end of a list nothing succeeds. The lock makes each function one step. Both
  files of the unit hold an unresolved merge conflict over their whole length; this is its HEAD side.
\<close>

definition ALLKEY_BCM_MAX_CHK_DEV_CNT :: nat where "ALLKEY_BCM_MAX_CHK_DEV_CNT = 3"
definition ALLKEY_BCM_UART_READ_RETRY_CNT :: nat where "ALLKEY_BCM_UART_READ_RETRY_CNT = 2"

datatype bcm_evt = bcm_evt_driver_call | bcm_evt_monitor_off_door_open | bcm_evt_monitor_off_door_close
  | bcm_evt_monitor_off_trunk_open | bcm_evt_monitor_off_trunk_close | bcm_evt_small_shock | bcm_evt_big_shock
  | bcm_evt_monitor_on_door_stat | bcm_evt_monitor_on_trunk_stat | bcm_evt_monitor_on_hood_stat
  | bcm_evt_knocksensor_set_id_req | bcm_evt_knocksensor_set_timestamp_req | bcm_evt_monitor_none

text \<open>What the callback of the customer model is given, and the bytes that were written.\<close>

record bcm =
  bcm_fd :: "int option"
  last_event :: bcm_evt
  handled :: "(bcm_evt \<times> byte \<times> byte \<times> byte) list"
  opens :: "int list"
  writes :: "int list"
  line :: "byte list option list"
  written :: "byte list list"

subsection \<open>The line\<close>

fun devinit_loop :: "nat \<Rightarrow> bcm \<Rightarrow> bool \<times> bcm" where
  "devinit_loop 0 s = (False, s)"
| "devinit_loop (Suc n) s =
     (let (fd, s1) = (case bcm_fd s of
                        Some fd \<Rightarrow> (fd, s)
                      | None \<Rightarrow> (case opens s of [] \<Rightarrow> (-1, s) | fd # rest \<Rightarrow> (fd, s\<lparr>opens := rest\<rparr>)))
      in if fd > 0 then (True, s1\<lparr>bcm_fd := Some fd\<rparr>) else devinit_loop n (s1\<lparr>bcm_fd := None\<rparr>))"

definition allkey_bcm_devinit :: "bcm \<Rightarrow> bool \<times> bcm" where
  "allkey_bcm_devinit s = devinit_loop ALLKEY_BCM_MAX_CHK_DEV_CNT s"

definition bcm_read :: "nat \<Rightarrow> bcm \<Rightarrow> byte list \<times> bcm" where
  "bcm_read n s =
     (case line s of
        [] \<Rightarrow> ([], s)
      | None # rest \<Rightarrow> ([], s\<lparr>line := rest\<rparr>)
      | Some b # rest \<Rightarrow> (take n b, s\<lparr>line := (if length b \<le> n then rest else Some (drop n b) # rest)\<rparr>))"

definition bcm_write :: "byte list \<Rightarrow> bcm \<Rightarrow> int \<times> bcm" where
  "bcm_write b s =
     (case writes s of
        [] \<Rightarrow> (-1, s) | n # rest \<Rightarrow> (n, s\<lparr>writes := rest, written := written s @ [b]\<rparr>))"

text \<open>At most two reads for the eight bytes of an answer.\<close>

fun read_answer :: "nat \<Rightarrow> byte list \<Rightarrow> bcm \<Rightarrow> byte list \<times> bcm" where
  "read_answer 0 got s = (got, s)"
| "read_answer (Suc n) got s =
     (case bcm_read (8 - length got) s of
        (b, s1) \<Rightarrow> if length got + length b \<ge> 8 then (got @ b, s1) else read_answer n (got @ b) s1)"

definition allkey_bcm_cmd :: "byte \<Rightarrow> byte \<Rightarrow> bcm \<Rightarrow> byte list option \<times> bcm" where
  "allkey_bcm_cmd cmd_type cmd_data s =
     (case allkey_bcm_devinit s of
        (False, s1) \<Rightarrow> (None, s1)
      | (True, s1) \<Rightarrow>
          (let s2 = snd (bcm_write [0x02, cmd_type, cmd_data, 0xff] s1);
               (recv, s3) = read_answer ALLKEY_BCM_UART_READ_RETRY_CNT [] s2
           in if length recv \<noteq> 8 \<or> recv ! 0 \<noteq> 0x02 \<or> recv ! 1 \<noteq> cmd_type \<or> recv ! 2 \<noteq> 0x41 then (None, s3)
              else (Some recv, s3)))"

definition allkey_bcm_cmd2 :: "byte \<Rightarrow> byte \<Rightarrow> byte list \<Rightarrow> bcm \<Rightarrow> bool \<times> bcm" where
  "allkey_bcm_cmd2 cmd_type cmd_data ext_data s =
     (case allkey_bcm_devinit s of
        (False, s1) \<Rightarrow> (False, s1)
      | (True, s1) \<Rightarrow>
          (let (n, s2) = bcm_write ([0x02, cmd_type, cmd_data, 0x04] @ ext_data @ [0xff]) s1 in (n > 0, s2)))"

subsection \<open>Commands\<close>

definition chk_stat :: "byte \<Rightarrow> byte \<Rightarrow> int" where
  "chk_stat evt stat = (if and stat evt \<noteq> 0 then 1 else 0)"

text \<open>\<open>ALLKEY_BCM_1_DEV_T\<close>.\<close>

record bcm_dev =
  door_open_stat :: int
  door_lock_stat :: int
  engine_stat :: int
  remote_start_stat :: int
  hood_stat :: int
  turbo_stat :: int
  timer_stat :: int
  mute_stat :: int
  shock_stat :: int
  acc_stat :: int
  trunk_stat :: int
  always_evt_stat :: int
  ig_stat :: int
  theif_sensor_stat :: int
  valet_stat :: int
  alert_stat :: int

definition dev_of :: "byte \<Rightarrow> byte \<Rightarrow> bcm_dev" where
  "dev_of a b = \<lparr>door_open_stat = chk_stat a 0x01, door_lock_stat = chk_stat a 0x02, engine_stat = chk_stat a 0x04,
     remote_start_stat = chk_stat a 0x08, hood_stat = chk_stat a 0x10, turbo_stat = chk_stat a 0x20,
     timer_stat = chk_stat a 0x40, mute_stat = chk_stat a 0x80, shock_stat = chk_stat b 0x01, acc_stat = chk_stat b 0x02,
     trunk_stat = chk_stat b 0x04, always_evt_stat = chk_stat b 0x08, ig_stat = chk_stat b 0x10,
     theif_sensor_stat = chk_stat b 0x20, valet_stat = chk_stat b 0x40, alert_stat = chk_stat b 0x80\<rparr>"

definition bcm_get_stat :: "bcm \<Rightarrow> bcm_dev option \<times> bcm" where
  "bcm_get_stat s =
     (case allkey_bcm_cmd 0x53 0x4f s of
        (None, s1) \<Rightarrow> (None, s1) | (Some r, s1) \<Rightarrow> (Some (dev_of (r ! 4) (r ! 5)), s1))"

definition bcm_switch :: "byte \<Rightarrow> byte \<Rightarrow> byte \<Rightarrow> bool \<Rightarrow> bcm \<Rightarrow> bool \<times> bcm" where
  "bcm_switch cmd on off stat s =
     (case allkey_bcm_cmd cmd (if stat then on else off) s of (r, s1) \<Rightarrow> (r \<noteq> None, s1))"

definition bcm_door_lock :: "bool \<Rightarrow> bcm \<Rightarrow> bool \<times> bcm" where "bcm_door_lock = bcm_switch 0x44 0x4c 0x55"
definition bcm_door_evt_on :: "bool \<Rightarrow> bcm \<Rightarrow> bool \<times> bcm" where "bcm_door_evt_on = bcm_switch 0x4d 0x4f 0x46"
definition bcm_horn_on :: "bool \<Rightarrow> bcm \<Rightarrow> bool \<times> bcm" where "bcm_horn_on = bcm_switch 0x50 0x4f 0x46"
definition bcm_light_on :: "bool \<Rightarrow> bcm \<Rightarrow> bool \<times> bcm" where "bcm_light_on = bcm_switch 0x41 0x4f 0x46"

text \<open>The command of the lights again, not the one of the sensor.\<close>

definition bcm_theft_on :: "bool \<Rightarrow> bcm \<Rightarrow> bool \<times> bcm" where "bcm_theft_on = bcm_switch 0x41 0x46 0x4f"

text \<open>Four decimal digits in two bytes.\<close>

definition knock_digits :: "u16 \<Rightarrow> byte list" where
  "knock_digits v =
     (let n = unat v; digit = (\<lambda>k. n div k mod 10)
      in [of_nat (digit 1000 * 16 + digit 100), of_nat (digit 10 * 16 + digit 1), 0, 0])"

definition knocksensor_set_id :: "u16 \<Rightarrow> bcm \<Rightarrow> bool \<times> bcm" where
  "knocksensor_set_id i s = allkey_bcm_cmd2 0x52 0x73 (knock_digits i) s"

definition knocksensor_set_passwd :: "u16 \<Rightarrow> bcm \<Rightarrow> bool \<times> bcm" where
  "knocksensor_set_passwd passwd s = allkey_bcm_cmd2 0x52 0x50 (knock_digits passwd) s"

definition knocksensor_set_modemtime :: "u32 \<Rightarrow> bcm \<Rightarrow> bool \<times> bcm" where
  "knocksensor_set_modemtime t s =
     allkey_bcm_cmd2 0x52 0x54 [ucast (drop_bit 24 t), ucast (drop_bit 16 t), ucast (drop_bit 8 t), ucast t] s"

record bcm_info =
  horn_cnt :: byte
  light_cnt :: byte
  bcm_swver :: byte

definition bcm_get_info :: "bcm \<Rightarrow> bcm_info option \<times> bcm" where
  "bcm_get_info s =
     (case allkey_bcm_cmd 0x4f 0 s of
        (None, s1) \<Rightarrow> (None, s1)
      | (Some r, s1) \<Rightarrow> (Some \<lparr>horn_cnt = drop_bit 4 (r ! 4), light_cnt = and (r ! 4) 0x0f, bcm_swver = r ! 5\<rparr>, s1))"

definition bcm_set_horn_light :: "32 word \<Rightarrow> 32 word \<Rightarrow> bcm \<Rightarrow> bool \<times> bcm" where
  "bcm_set_horn_light h l s =
     (case allkey_bcm_cmd 0x4f (ucast (and (push_bit 4 h) 0xf0) + ucast (and l 0x0f)) s of (r, s1) \<Rightarrow> (r \<noteq> None, s1))"

subsection \<open>Events\<close>

definition evt_code :: "byte \<Rightarrow> byte \<Rightarrow> bcm_evt" where
  "evt_code b1 b2 =
     (if b1 = 0x63 then (if b2 = 0x6f then bcm_evt_driver_call else bcm_evt_monitor_none)
      else if b1 = 0x64 then
        (if b2 = 0x6c then bcm_evt_monitor_off_door_open
         else if b2 = 0x75 then bcm_evt_monitor_off_door_close else bcm_evt_monitor_none)
      else if b1 = 0x6b then
        (if b2 = 0x77 then bcm_evt_small_shock else if b2 = 0x73 then bcm_evt_big_shock else bcm_evt_monitor_none)
      else if b1 = 0x74 then
        (if b2 = 0x6c then bcm_evt_monitor_off_trunk_open
         else if b2 = 0x75 then bcm_evt_monitor_off_trunk_close else bcm_evt_monitor_none)
      else if b1 = 0x76 then
        (if b2 = 0x64 then bcm_evt_monitor_on_door_stat else if b2 = 0x74 then bcm_evt_monitor_on_trunk_stat
         else if b2 = 0x62 then bcm_evt_monitor_on_hood_stat else bcm_evt_monitor_none)
      else if b1 = 0x72 then
        (if b2 = 0x69 then bcm_evt_knocksensor_set_id_req
         else if b2 = 0x74 then bcm_evt_knocksensor_set_timestamp_req else bcm_evt_monitor_none)
      else bcm_evt_monitor_none)"

text \<open>The doors and the trunk of an unguarded car are not reported twice in a row.\<close>

definition chk_double_evt :: "bcm_evt \<Rightarrow> bool" where
  "chk_double_evt e \<longleftrightarrow> e \<in> {bcm_evt_monitor_off_door_open, bcm_evt_monitor_off_door_close,
     bcm_evt_monitor_off_trunk_open, bcm_evt_monitor_off_trunk_close}"

text \<open>
  \<open>proc\<close> is the callback of the customer model (\<open>None\<close> when there is none): whether it succeeds, and what
  it does to the state, for it may send commands of its own.
\<close>

definition allkey_evt_proc :: "(bcm_evt \<Rightarrow> bcm \<Rightarrow> bool \<times> bcm) option \<Rightarrow> byte list \<Rightarrow> bcm \<Rightarrow> bool \<times> bcm" where
  "allkey_evt_proc proc buff s =
     (if buff ! 0 \<noteq> 0x02 \<or> buff ! 7 \<noteq> 0xff then (False, s)
      else
        (let e = evt_code (buff ! 1) (buff ! 2) in
         if e = bcm_evt_monitor_none then (False, s)
         else if chk_double_evt e \<and> e = last_event s then (True, s)
         else
           (let s1 = (if chk_double_evt e then s\<lparr>last_event := e\<rparr> else s);
                s2 = s1\<lparr>handled := handled s1 @ [(e, buff ! 4, buff ! 5, buff ! 6)]\<rparr>
            in case proc of None \<Rightarrow> (True, s1) | Some p \<Rightarrow> p e s2)))"

text \<open>
  A pass of the thread: what has piled up is read and thrown away, then one read may bring an event. An
  event that was accepted is echoed; the answer to the echo is not looked at.
\<close>

definition bcm_read_pass :: "(bcm_evt \<Rightarrow> bcm \<Rightarrow> bool \<times> bcm) option \<Rightarrow> bcm \<Rightarrow> bcm" where
  "bcm_read_pass proc s =
     (case allkey_bcm_devinit s of
        (False, s1) \<Rightarrow> s1
      | (True, s1) \<Rightarrow>
          (let s2 = snd (bcm_read 128 s1); (got, s3) = bcm_read 128 s2
           in if length got = 8 then
                (case allkey_evt_proc proc got s3 of
                   (True, s4) \<Rightarrow> snd (allkey_bcm_cmd 0x45 0x4f s4)
                 | (False, s4) \<Rightarrow> s4)
              else s3))"

subsection \<open>What the callback sees\<close>

fun evt_frames :: "(bcm_evt \<Rightarrow> bcm \<Rightarrow> bool \<times> bcm) option \<Rightarrow> byte list list \<Rightarrow> bcm \<Rightarrow> bool list \<times> bcm" where
  "evt_frames proc [] s = ([], s)"
| "evt_frames proc (f # fs) s =
     (let (ok, s1) = allkey_evt_proc proc f s; (oks, s2) = evt_frames proc fs s1 in (ok # oks, s2))"

text \<open>
  What the frames mean, as a table of the second and the third byte of a frame. It is written without
  the operations above. The comments of the source give the second and the third line, and the sixth
  and the seventh, the opposite meaning: there \<open>0x6c\<close> is a door that was locked and a trunk that was closed.
\<close>

definition bcm_protocol :: "((byte \<times> byte) \<times> bcm_evt) list" where
  "bcm_protocol =
     [((0x63, 0x6f), bcm_evt_driver_call),
      ((0x64, 0x6c), bcm_evt_monitor_off_door_open),
      ((0x64, 0x75), bcm_evt_monitor_off_door_close),
      ((0x6b, 0x77), bcm_evt_small_shock),
      ((0x6b, 0x73), bcm_evt_big_shock),
      ((0x74, 0x6c), bcm_evt_monitor_off_trunk_open),
      ((0x74, 0x75), bcm_evt_monitor_off_trunk_close),
      ((0x76, 0x64), bcm_evt_monitor_on_door_stat),
      ((0x76, 0x74), bcm_evt_monitor_on_trunk_stat),
      ((0x76, 0x62), bcm_evt_monitor_on_hood_stat),
      ((0x72, 0x69), bcm_evt_knocksensor_set_id_req),
      ((0x72, 0x74), bcm_evt_knocksensor_set_timestamp_req)]"

definition frame_event :: "byte list \<Rightarrow> bcm_evt option" where
  "frame_event f = (if f ! 0 = 0x02 \<and> f ! 7 = 0xff then map_of bcm_protocol (f ! 1, f ! 2) else None)"

text \<open>The doors and the trunk are the events of the bytes \<open>d\<close> and \<open>t\<close>.\<close>

definition is_door_frame :: "byte list \<Rightarrow> bool" where
  "is_door_frame f \<longleftrightarrow> frame_event f \<noteq> None \<and> (f ! 1 = 0x64 \<or> f ! 1 = 0x74)"



definition report_of :: "byte list \<Rightarrow> bcm_evt \<times> byte \<times> byte \<times> byte" where
  "report_of f = (the (frame_event f), f ! 4, f ! 5, f ! 6)"


subsection \<open>The table is what the code does\<close>

lemma evt_code_table: "evt_code b c = (case map_of bcm_protocol (b, c) of None \<Rightarrow> bcm_evt_monitor_none | Some e \<Rightarrow> e)"
  by (simp add: evt_code_def bcm_protocol_def)

lemma table_not_none: "map_of bcm_protocol x = Some e \<Longrightarrow> e \<noteq> bcm_evt_monitor_none"
  by (auto simp: bcm_protocol_def split: if_splits)

lemma frame_code:
  assumes "f ! 0 = 0x02" "f ! 7 = 0xff"
  shows "evt_code (f ! 1) (f ! 2) = (case frame_event f of None \<Rightarrow> bcm_evt_monitor_none | Some e \<Rightarrow> e)"
    and "evt_code (f ! 1) (f ! 2) \<noteq> bcm_evt_monitor_none \<longleftrightarrow> frame_event f \<noteq> None"
  using assms table_not_none by (auto simp: frame_event_def evt_code_table split: option.split)

lemma door_code: "frame_event f = Some e \<Longrightarrow> is_door_frame f \<longleftrightarrow> chk_double_evt e"
  by (auto simp: frame_event_def is_door_frame_def bcm_protocol_def chk_double_evt_def split: if_splits)

lemma evt_proc_cases:
  "allkey_evt_proc (Some p) f s =
     (case frame_event f of
        None \<Rightarrow> (False, s)
      | Some e \<Rightarrow>
          if is_door_frame f \<and> e = last_event s then (True, s)
          else p e (s\<lparr>last_event := (if is_door_frame f then e else last_event s),
                     handled := handled s @ [report_of f]\<rparr>))"
proof (cases "f ! 0 = 0x02 \<and> f ! 7 = 0xff")
  case True
  show ?thesis
    using frame_code [of f] door_code [of f] True
    by (cases "frame_event f") (auto simp: allkey_evt_proc_def report_of_def Let_def)
next
  case False
  then show ?thesis by (auto simp: allkey_evt_proc_def frame_event_def)
qed







text \<open>
  The last event is remembered before the callback is asked: when it fails, the repetition that the
  module sends counts as known and is echoed, and the callback never handles the event.
\<close>

lemma failed_door_event_lost:
  assumes "is_door_frame f" "frame_event f = Some e" "e \<noteq> last_event s" and "\<And>s. p e s = (False, s)"
  shows "evt_frames (Some p) [f, f] s = ([False, True], s\<lparr>last_event := e, handled := handled s @ [report_of f]\<rparr>)"
  using assms by (simp add: evt_proc_cases Let_def)

text \<open>The two bytes of an id are its four decimal digits, and the time is sent with its high byte first.\<close>

lemma knock_digits_read:
  "let d = knock_digits v
   in (unat (d ! 0) div 16) * 1000 + (unat (d ! 0) mod 16) * 100 + (unat (d ! 1) div 16) * 10 + unat (d ! 1) mod 16 =
      unat v mod 10000"
proof -
  have w: "unat (of_nat n :: byte) = n" if "n < 256" for n using that by (simp add: unat_of_nat take_bit_nat_eq_self)
  have u: "unat (of_nat (a mod 10 * 16 + b mod 10) :: byte) = a mod 10 * 16 + b mod 10" for a b
  proof -
    have "a mod 10 < 10" "b mod 10 < 10" by simp_all
    then show ?thesis by (intro w) linarith
  qed
  have d: "(a mod 10 * 16 + b mod 10) div 16 = a mod 10" "(a mod 10 * 16 + b mod 10) mod 16 = b mod 10" for a b :: nat
  proof -
    have l: "b mod 10 < 16" by (rule less_trans [OF mod_less_divisor]) simp_all
    show "(a mod 10 * 16 + b mod 10) div 16 = a mod 10" "(a mod 10 * 16 + b mod 10) mod 16 = b mod 10"
      by (simp_all only: div_mult_self3 mod_mult_self3 div_less [OF l] mod_less [OF l] add_0_right zero_neq_numeral not_False_eq_True)
  qed
  have e: "knock_digits v ! 0 = of_nat (unat v div 1000 mod 10 * 16 + unat v div 100 mod 10)"
    "knock_digits v ! 1 = of_nat (unat v div 10 mod 10 * 16 + unat v div 1 mod 10)"
    unfolding knock_digits_def Let_def by (simp_all only: nth_Cons_0 nth_Cons_Suc One_nat_def)
  have "n div 1000 mod 10 * 1000 + n div 100 mod 10 * 100 + n div 10 mod 10 * 10 + n div 1 mod 10 = n mod 10000" for n :: nat
  proof -
    have "n mod (10 * 1000) = 10 * (n div 10 mod (10 * 100)) + n mod 10" by (subst mod_mult2_eq) simp
    also have "n div 10 mod (10 * 100) = 10 * (n div 10 div 10 mod (10 * 10)) + n div 10 mod 10" by (subst mod_mult2_eq) simp
    also have "n div 10 div 10 mod (10 * 10) = 10 * (n div 10 div 10 div 10 mod 10) + n div 10 div 10 mod 10"
      by (rule mod_mult2_eq)
    finally show ?thesis by (simp add: div_mult2_eq [symmetric])
  qed
  then show ?thesis unfolding Let_def e u d .
qed

lemma theft_is_light: "bcm_theft_on b s = bcm_light_on (\<not> b) s"
  by (simp add: bcm_theft_on_def bcm_light_on_def bcm_switch_def)

text \<open>Asking for the information is, for the module, the command that clears both counts.\<close>

lemma get_info_sets_counts: "snd (bcm_get_info s) = snd (bcm_set_horn_light 0 0 s)"
  by (simp add: bcm_get_info_def bcm_set_horn_light_def split: prod.splits option.splits)

text \<open>An event that is accepted is echoed, whatever the module answers to the echo.\<close>

lemma bcm_read_written [simp]: "written (snd (bcm_read n s)) = written s"
  by (simp add: bcm_read_def split: list.splits option.splits)

lemma read_answer_written [simp]: "written (snd (read_answer n got s)) = written s"
  by (induction n arbitrary: got s) (auto split: prod.splits dest!: arg_cong [of _ _ "\<lambda>p. written (snd p)"])

lemma devinit_open: "bcm_fd s = Some fd \<Longrightarrow> 0 < fd \<Longrightarrow> allkey_bcm_devinit s = (True, s)"
  by (simp add: allkey_bcm_devinit_def ALLKEY_BCM_MAX_CHK_DEV_CNT_def numeral_3_eq_3)

lemma event_echoed:
  assumes "bcm_fd s = Some fd" "0 < fd" "line s = None # Some f # rest" "length f = 8"
    and "allkey_evt_proc proc f (s\<lparr>line := rest\<rparr>) = (True, s4)"
    and "bcm_fd s4 = Some fd" "writes s4 = n # ws"
  shows "written (bcm_read_pass proc s) = written s4 @ [[0x02, 0x45, 0x4f, 0xff]]"
proof -
  have "written (snd (allkey_bcm_cmd 0x45 0x4f s4)) = written s4 @ [[0x02, 0x45, 0x4f, 0xff]]"
    by (simp add: allkey_bcm_cmd_def devinit_open [OF assms(6,2)] bcm_write_def assms(7) Let_def split_beta)
  then show ?thesis
    using assms(3-5) by (simp add: bcm_read_pass_def devinit_open [OF assms(1,2)] bcm_read_def)
qed

end
