(* ===== verification/Spec2Isabelle.thy ===== *)
theory Spec2Isabelle
  imports Prelude Checksum Posix Storage Fifo UtilList Pipe Sender ErrorMgr Validation Distance GpsData
    Tools Config CritData Mileage Geofence Watchdog Dmmgr Debounce BtnPwr CFloat Nmea GpsCheck Calendar Gps
    Nettool NetTransfer ThreadGps NetThread BaseMain
    CText Hdlc Therm MdtConfig MdtPacket MdtFence MdtGps MdtMileage MdtSms Gtrace GtraceRun
    DataQueue AdasUart Movon Mobileye BmSearch AllocFrame AllocDown AllocStops
    AllocTag AllocNet Bcm
begin

text \<open>
  Verification of \<open>gtrack3\<close>, the base program of a vehicle tracker on Linux: a process of a few
  threads that reads positions from a GPS daemon, watches the ignition key and the power supply,
  queues packets for a server, keeps its state in files, and restarts or reboots itself when something
  goes wrong. The packet formats and callbacks of some thirty customers under \<open>src/model\<close> are linked
  to it. The development models the base (\<open>src/base\<close>, \<open>src/util\<close> and \<open>src/board\<close>), one customer model
  as a whole (\<open>src/model/gtrace\<close> with its protocol \<open>src/ext/protocol/mdt800\<close>), of another one, the
  allocation of passengers to buses (\<open>src/model/alloc3\<close>), its downloads, bus stops, cards and exchanges
  with the server, the two driver assistance units of \<open>src/ext/dev/adas\<close> and the body control module
  of \<open>src/ext/dev/allkey_bcm_1\<close>.

  The parts of the program and their theories.

  \<^item> Files. \<open>Posix\<close>: a file system whose system calls may fail, be interrupted or be short, by a
    script. \<open>Checksum\<close>: \<open>util/crc16.c\<close> and the XOR checksum of \<open>util/tools.c\<close>. \<open>Storage\<close>:
    \<open>util/storage.c\<close>, files with a CRC and a backup, and \<open>tools_cp\<close>. \<open>CritData\<close>:
    \<open>board/crit-data.c\<close>, the block of odometer, limits and last position. \<open>Config\<close>:
    \<open>base/config.c\<close>. \<open>Tools\<close>: string searches, the clock and whole files of \<open>util/tools.c\<close>.
  \<^item> Sending. \<open>Fifo\<close>: an abstract queue. \<open>UtilList\<close>: the pointer list of \<open>util/list.c\<close> over an
    explicit heap, which refines a list of values. \<open>Pipe\<close>: \<open>util/pipe.c\<close>, records in a kernel pipe. \<open>Sender\<close>:
    \<open>base/sender.c\<close>, two pipes and the memory of the packets. \<open>Nettool\<close>: \<open>util/nettool.c\<close>, host
    names and connections. \<open>NetTransfer\<close>: \<open>util/transfer.c\<close>, one exchange with a server.
  \<^item> Positions. \<open>GpsData\<close>, \<open>Distance\<close>: the record of a position, great-circle distances. \<open>CFloat\<close>:
    the rounding of \<open>float\<close> and \<open>double\<close>. \<open>Nmea\<close>: the tokenizer and the sentence parsers of \<open>base/gpstool.c\<close>. \<open>GpsCheck\<close>: its filter against jumps
    and the last valid position. \<open>Calendar\<close>: \<open>mktime\<close> and \<open>gmtime\<close>. \<open>Gps\<close>: \<open>gps_parse\<close> from a block
    of text to the published position. \<open>ThreadGps\<close>: \<open>base/thread-gps.c\<close>, the stream of the daemon cut
    into blocks, and the supervision of the daemon. \<open>Mileage\<close>: \<open>base/mileage.c\<close>. \<open>Geofence\<close>:
    \<open>util/geofence-v2.c\<close>.
  \<^item> Supervision. \<open>ErrorMgr\<close>: \<open>base/error.c\<close>, escalation from restart over reboot to stop, and its
    log. \<open>Watchdog\<close>: \<open>base/watchdog.c\<close>. \<open>Debounce\<close> and \<open>BtnPwr\<close>: the contract of a debounced line
    and \<open>base/thread-btn-pwr.c\<close>. \<open>Dmmgr\<close>: \<open>base/dmmgr.c\<close>, events for the device-management server.
    \<open>NetThread\<close>: \<open>base/thread-network.c\<close>, which drives watchdog, events and sending and reboots a
    device that has no network. \<open>BaseMain\<close>: \<open>base/main.c\<close>, start and end of the program.
    \<open>Validation\<close>: \<open>util/validation.c\<close>. \<open>Therm\<close>: the temperature sensors of \<open>board/thermometer.c\<close>
    and \<open>base/thermtool.c\<close>.
  \<^item> The customer model \<open>gtrace\<close>, which fills in the packets and callbacks that are parameters of the
    base. \<open>CText\<close>: decimal numbers in C strings. \<open>Hdlc\<close>: \<open>mdt800/hdlc_async.c\<close>, framing.
    \<open>MdtConfig\<close>: \<open>gtrace/config.c\<close>, \<open>gtrace/validation.c\<close> and the intervals of
    \<open>mdt800/gps_utill.c\<close>. \<open>MdtPacket\<close>: \<open>mdt800/packet.c\<close> and \<open>gtrace/netcom.c\<close>, the records, their
    packets and the sending. \<open>MdtFence\<close>: \<open>mdt800/geofence.c\<close>. \<open>MdtGps\<close>: \<open>mdt800/gpsmng.c\<close> and
    \<open>gps_filter.c\<close>, which reading is collected, filtered and reported. \<open>MdtMileage\<close>:
    \<open>mdt800/file_mileage.c\<close>. \<open>MdtSms\<close>: \<open>mdt800/sms.c\<close>, the commands of text messages. \<open>Gtrace\<close>:
    \<open>gtrace/callback.c\<close> and \<open>gtrace/data-list.c\<close>, the callbacks and a pass of the main loop.
    \<open>GtraceRun\<close>: the step relation in which readings, messages, passes and events of the model follow
    each other, its reachable states and their invariant.
  \<^item> Driver assistance units. \<open>DataQueue\<close>: the ring of bytes of
    \<open>movon_adas/src/movon_data_queue.c\<close>. \<open>AdasUart\<close>: the events and the line both units share.
    \<open>Movon\<close>: frames, events and reading thread of \<open>movon_adas\<close>. \<open>Mobileye\<close>: lines of text, commands
    and reading thread of \<open>mobileye_adas\<close>.
  \<^item> The customer model \<open>alloc3\<close>. \<open>BmSearch\<close>: the string search of \<open>alloc_packet_tool.c\<close>.
    \<open>AllocFrame\<close>: the ring in which the answers of the server are cut into frames. \<open>AllocDown\<close>: the
    list of passengers, which comes in numbered packets, is saved, and is searched for each card.
    \<open>AllocStops\<close>: the download of the bus stops and, over \<open>Geofence\<close>, their fences and reports
    (\<open>alloc_packet_tool.c\<close>, \<open>geofence.c\<close>, \<open>callback.c\<close>). \<open>AllocTag\<close>: \<open>tagging.c\<close>, the cards that were read
    and their packets. \<open>AllocNet\<close>: \<open>netcom_ext.c\<close>, the exchange with the server, which calls the others.
  \<^item> The body control module. \<open>Bcm\<close>: \<open>allkey_bcm_1.c\<close>, its commands, its events and the thread that reads
    them from a serial line.

  Conventions. Definitions have the names of the C functions; a function that is a loop inside another
  one has a name of its own. State is a record, passed and returned; a C function that returns a code
  and changes state returns a pair. \<open>None\<close> as the outermost result is undefined behaviour of the C
  code (or, where the theory says so, a call that does not return). What the program does not control
  (system calls, clocks, lines, the network, the daemon, libraries that are not in the repository) is
  an argument. Floating-point numbers are real numbers. \<open>CFloat\<close> defines the rounding to \<open>float\<close> and
  \<open>double\<close>, which the parsers of coordinates, speeds and angles apply where the source does; in the
  distances of the position check and of the fences the rounding is a parameter. A call protected by a
  lock is one step. The sources follow the HEAD side of the
  unresolved merge conflicts that many files contain, which differs from the other side in white space
  only; the build is the one of the TL500 boards with GPS, both network threads and the button thread,
  without \<open>DEBUG\<close>, the firmware clients and the tachograph.

  What the lemmas show. Memory safety and bounds of the packet queues for every sequence of calls
  (\<open>Sender\<close>, \<open>Pipe\<close>, \<open>UtilList\<close>); round trips and recovery of the files, with the CRC shown to be the
  polynomial division it claims to be (\<open>Storage\<close>, \<open>CritData\<close>, \<open>Checksum\<close>); what the parser makes of a
  well-formed block and where it reads too far (\<open>Nmea\<close>, \<open>Gps\<close>); that blocks do not depend on how the
  stream is cut (\<open>ThreadGps\<close>); that the filter recovers (\<open>GpsCheck\<close>); alternation and debouncing of
  events (\<open>Geofence\<close>, \<open>BtnPwr\<close> through the locale of \<open>Debounce\<close>); that every supervised failure ends
  in the reaction the code intends, and within how many steps (\<open>Watchdog\<close>, \<open>ErrorMgr\<close>, \<open>ThreadGps\<close>,
  \<open>NetThread\<close>, \<open>NetTransfer\<close>); and, as theorems too, the places where the code does not do what it
  means to. For the customer model: in every reachable state of \<open>GtraceRun\<close> the packets fit their
  buffers, the intervals divide each other and a pass of the main loop returns; packets are read back
  as the records that were queued (\<open>MdtPacket\<close> over the round trip of \<open>Hdlc\<close>); reports keep their
  distance in time and the odometer never runs back (\<open>MdtGps\<close>, \<open>MdtMileage\<close>); fences never report the
  same event twice in a row (\<open>MdtFence\<close>); messages keep the settings valid and power the device off
  only with the password (\<open>MdtSms\<close>). For the driver assistance units: the ring refines a list that
  forgets its oldest byte (\<open>DataQueue\<close>, through the locale \<open>forgetful\<close>); the frames of a stream are
  reported once each and in order however the reads cut it, and silence is reported (\<open>Movon\<close>); a
  written line is read as the event it stands for (\<open>Mobileye\<close>). For the allocation of passengers: the
  search finds what a naive one finds (\<open>BmSearch\<close>), a frame is put together however the reads cut it
  (\<open>AllocFrame\<close>), a list sent in order is complete, saved and searchable (\<open>AllocDown\<close>), also when it
  comes through an exchange (\<open>AllocNet\<close>); the stops of a download are exactly the ones that are watched
  and named in the reports (\<open>AllocStops\<close>), and every card is reported once (\<open>AllocTag\<close>). For the body
  control module: the callback sees the events in order without their repetitions, and an accepted event
  is echoed (\<open>Bcm\<close>).

  Bounds. The parser has the 180 attempts of the code; loops with a retry count are total functions by
  a measure on the count; the loop that reads to an end mark is partial, and shown to end with the
  mark and not to end without it. The buffer of the stream has its 2048 bytes; the theorem on blocks
  asks that no read overruns it, and another one shows that the code does not ensure it.

  The loop over the bytes of the ring and the search for a frame are partial functions; that they end
  follows from the indices being in range, which every operation keeps.

  Not modelled: the other customer models (each has its own packet format, settings and messages behind
  the same callbacks), the other external devices, the tachograph and the firmware clients; of the
  modelled customer the fences of one contractor, the messages that restart the GPS and the variants
  behind other build switches; of \<open>alloc3\<close> its settings, periodic reports, text messages, card reader and file
  transfers; drivers and debug channels (files that only format text or call
  \<open>ioctl\<close>), the interface controls of \<open>util/nettool.c\<close>, the table of \<open>dmmgr_init\<close>, and the creation
  of processes and threads themselves.
\<close>


end
